(* ===== verification/Prelude.thy ===== *)
theory Prelude
  imports Main "HOL-Library.Word"
begin

text \<open>
  Shared vocabulary of the development: Python byte strings, the exceptions the program
  raises, little-endian integers as \<^verbatim>\<open>struct\<close> packs them, slices and sub-sequence search.
  Every component theory imports this one.

  A Python \<^verbatim>\<open>bytes\<close> value is a list of 8-bit words. A function that can raise returns a sum:
  \<open>Inl\<close> the exception, \<open>Inr\<close> the value. An exception carries its class and the literal text
  of its message; the parts an f-string interpolates are written as \<open>{}\<close>.
\<close>

section \<open>Types\<close>

type_synonym byte = "8 word"
type_synonym bytes = "byte list"

text \<open>A Python \<^verbatim>\<open>str\<close> is the list of its code points.\<close>

type_synonym pystr = "nat list"

datatype exn =
    ValueError string
  | UnicodeError
  | KeyError string
  | RuntimeError string
  | OSError string
  | TimeoutError
  | TypeError string
  | TransportError string
  | OtaCodecError string
  | OtaPackageError string
  | OtaUploadError string "pystr option"
  | OtaUploadCancelled
  | ControlStateParseError string
  | SessionCapacityError string
  | DuplicateDeviceError string
  | DeviceIdentityError string

type_synonym 'a res = "exn + 'a"

text \<open>Sequencing of code that can raise.\<close>

fun rbind :: "'e + 'a \<Rightarrow> ('a \<Rightarrow> 'e + 'b) \<Rightarrow> 'e + 'b" where
  "rbind (Inl e) f = Inl e"
| "rbind (Inr a) f = f a"

lemma rbind_Inr_iff: "rbind x f = Inr b \<longleftrightarrow> (\<exists>a. x = Inr a \<and> f a = Inr b)"
  by (cases x) auto

lemma rbind_Inl_iff: "rbind x f = Inl e \<longleftrightarrow> x = Inl e \<or> (\<exists>a. x = Inr a \<and> f a = Inl e)"
  by (cases x) auto

text \<open>A guard that raises: the value is returned exactly when the guard is passed.\<close>

lemma guard_Inr_iff: "(if c then Inl e else x) = Inr a \<longleftrightarrow> \<not> c \<and> x = Inr a"
  by simp

lemma guard_else_Inr_iff: "(if c then x else Inl e) = Inr a \<longleftrightarrow> c \<and> x = Inr a"
  by simp

subsection \<open>Code with effects\<close>

text \<open>
  Code that acts on a state and may raise: the state is kept when an exception passes through,
  as Python keeps every assignment made before it.
\<close>

type_synonym ('w, 'a) io = "'w \<Rightarrow> 'a res \<times> 'w"

definition io_return :: "'a \<Rightarrow> ('w, 'a) io" where
  "io_return a = (\<lambda>w. (Inr a, w))"

definition io_raise :: "exn \<Rightarrow> ('w, 'a) io" where
  "io_raise e = (\<lambda>w. (Inl e, w))"

definition io_bind :: "('w, 'a) io \<Rightarrow> ('a \<Rightarrow> ('w, 'b) io) \<Rightarrow> ('w, 'b) io" where
  "io_bind m f = (\<lambda>w. case m w of (Inl e, w') \<Rightarrow> (Inl e, w') | (Inr a, w') \<Rightarrow> f a w')"

definition io_lift :: "'a res \<Rightarrow> ('w, 'a) io" where
  "io_lift r = (\<lambda>w. (r, w))"

text \<open>\<^verbatim>\<open>try: m except (..): pass\<close>.\<close>

definition io_suppress :: "(exn \<Rightarrow> bool) \<Rightarrow> ('w, unit) io \<Rightarrow> ('w, unit) io" where
  "io_suppress caught m = (\<lambda>w. case m w of
     (Inl e, w') \<Rightarrow> (if caught e then Inr () else Inl e, w') | (Inr a, w') \<Rightarrow> (Inr a, w'))"

named_theorems io_simps

lemma io_return_apply [io_simps]: "io_return a w = (Inr a, w)"
  by (simp add: io_return_def)

lemma io_raise_apply [io_simps]: "io_raise e w = (Inl e, w)"
  by (simp add: io_raise_def)

lemma io_lift_apply [io_simps]: "io_lift r w = (r, w)"
  by (simp add: io_lift_def)

lemma io_bind_Inr_iff:
  "io_bind m f w = (Inr b, w'') \<longleftrightarrow> (\<exists>a w'. m w = (Inr a, w') \<and> f a w' = (Inr b, w''))"
  by (auto simp: io_bind_def split: prod.splits sum.splits)

lemma io_bind_run [io_simps]: "m w = (Inr a, w') \<Longrightarrow> io_bind m f w = f a w'"
  by (simp add: io_bind_def)

lemma io_bind_fail [io_simps]: "m w = (Inl e, w') \<Longrightarrow> io_bind m f w = (Inl e, w')"
  by (simp add: io_bind_def)

section \<open>Collections of simplification rules\<close>

text \<open>
  \<open>le_simps\<close> evaluates packed integers, \<open>const_simps\<close> unfolds the source's numeric constants,
  \<open>slice_simps\<close> moves slices over concatenations.
\<close>

named_theorems le_simps
named_theorems const_simps
named_theorems slice_simps

section \<open>Literals\<close>

definition lit :: "string \<Rightarrow> pystr" where
  "lit s = map of_char s"

definition blit :: "string \<Rightarrow> bytes" where
  "blit s = map of_char s"

lemma length_lit [simp]: "length (lit s) = length s"
  by (simp add: lit_def)

lemma length_blit [simp]: "length (blit s) = length s"
  by (simp add: blit_def)

section \<open>Slices\<close>

text \<open>\<^verbatim>\<open>xs[a:b]\<close> for non-negative bounds, and \<^verbatim>\<open>startswith\<close>.\<close>

definition slice :: "'a list \<Rightarrow> nat \<Rightarrow> nat \<Rightarrow> 'a list" where
  "slice xs a b = take (b - a) (drop a xs)"

definition starts_with :: "'a list \<Rightarrow> 'a list \<Rightarrow> bool" where
  "starts_with p xs \<longleftrightarrow> take (length p) xs = p"

definition removeprefix :: "'a list \<Rightarrow> 'a list \<Rightarrow> 'a list" where
  "removeprefix p xs = (if starts_with p xs then drop (length p) xs else xs)"

lemma length_slice: "length (slice xs a b) = min (b - a) (length xs - a)"
  by (simp add: slice_def)

lemma length_slice_in [simp]: "a \<le> b \<Longrightarrow> b \<le> length xs \<Longrightarrow> length (slice xs a b) = b - a"
  by (simp add: slice_def)

lemma slice_0 [slice_simps]: "slice xs 0 b = take b xs"
  by (simp add: slice_def)

lemma slice_append_right [slice_simps]:
  "length xs \<le> a \<Longrightarrow> slice (xs @ ys) a b = slice ys (a - length xs) (b - length xs)"
  by (simp add: slice_def)

lemma slice_append_left [slice_simps]: "b \<le> length xs \<Longrightarrow> slice (xs @ ys) a b = slice xs a b"
  by (simp add: slice_def)

lemma slice_all [slice_simps]: "length xs \<le> b \<Longrightarrow> slice xs 0 b = xs"
  by (simp add: slice_def)

lemma slice_drop: "slice (drop n xs) a b = slice xs (n + a) (n + b)"
  by (simp add: slice_def add.commute)

lemma slice_take: "b \<le> n \<Longrightarrow> slice (take n xs) a b = slice xs a b"
  by (simp add: slice_def drop_take take_take)

lemma slice_slice: "c + b \<le> d \<Longrightarrow> slice (slice xs c d) a b = slice xs (c + a) (c + b)"
  by (simp add: slice_def drop_take take_take add.commute)

lemma starts_with_append [simp]: "starts_with p (p @ xs)"
  by (simp add: starts_with_def)

lemma removeprefix_append [simp]: "removeprefix p (p @ xs) = xs"
  by (simp add: removeprefix_def)

lemma starts_with_mono: "starts_with p xs \<Longrightarrow> starts_with p (xs @ ys)"
  by (metis append.assoc append_take_drop_id starts_with_append starts_with_def)

lemma starts_with_length: "starts_with p xs \<Longrightarrow> length p \<le> length xs"
  by (metis length_take min.bounded_iff nle_le starts_with_def)

lemma starts_with_append_iff:
  "length p \<le> length xs \<Longrightarrow> starts_with p (xs @ ys) \<longleftrightarrow> starts_with p xs"
  by (simp add: starts_with_def)

section \<open>Searching a sub-sequence\<close>

text \<open>
  \<^verbatim>\<open>bytes.find(pattern, start)\<close>: the least index at or after \<open>start\<close> where the pattern
  occurs; \<open>None\<close> stands for the result -1.
\<close>

fun find_sub :: "'a list \<Rightarrow> 'a list \<Rightarrow> nat option" where
  "find_sub pat [] = (if pat = [] then Some 0 else None)"
| "find_sub pat (x # xs) =
     (if starts_with pat (x # xs) then Some 0 else map_option Suc (find_sub pat xs))"

definition bytes_find :: "'a list \<Rightarrow> 'a list \<Rightarrow> nat \<Rightarrow> nat option" where
  "bytes_find pat xs start = map_option (\<lambda>i. start + i) (find_sub pat (drop start xs))"

lemma find_sub_Some:
  "find_sub pat xs = Some i \<longleftrightarrow>
     i \<le> length xs \<and> starts_with pat (drop i xs) \<and> (\<forall>j<i. \<not> starts_with pat (drop j xs))"
proof (induction xs arbitrary: i)
  case Nil
  then show ?case by (auto simp: starts_with_def)
next
  case (Cons x xs)
  show ?case
  proof (cases "starts_with pat (x # xs)")
    case True
    then show ?thesis by (auto intro: gr0I)
  next
    case False
    show ?thesis
    proof (cases i)
      case 0
      then show ?thesis using False by simp
    next
      case (Suc k)
      have "(\<forall>j<i. \<not> starts_with pat (drop j (x # xs))) \<longleftrightarrow>
            (\<forall>j<k. \<not> starts_with pat (drop j xs))"
        using False Suc by (auto simp: less_Suc_eq_0_disj)
      then show ?thesis using False Suc Cons.IH [of k] by auto
    qed
  qed
qed

lemma find_sub_None:
  "find_sub pat xs = None \<longleftrightarrow> (\<forall>j\<le>length xs. \<not> starts_with pat (drop j xs))"
proof (induction xs)
  case Nil
  then show ?case by (auto simp: starts_with_def)
next
  case (Cons x xs)
  have "(\<forall>j\<le>length (x # xs). \<not> starts_with pat (drop j (x # xs))) \<longleftrightarrow>
        \<not> starts_with pat (x # xs) \<and> (\<forall>j\<le>length xs. \<not> starts_with pat (drop j xs))"
  proof (intro iffI conjI allI impI)
    assume a: "\<forall>j\<le>length (x # xs). \<not> starts_with pat (drop j (x # xs))"
    show "\<not> starts_with pat (x # xs)" using a [rule_format, of 0] by simp
    fix j assume "j \<le> length xs"
    then show "\<not> starts_with pat (drop j xs)" using a [rule_format, of "Suc j"] by simp
  next
    fix j assume "\<not> starts_with pat (x # xs) \<and> (\<forall>j\<le>length xs. \<not> starts_with pat (drop j xs))"
      and "j \<le> length (x # xs)"
    then show "\<not> starts_with pat (drop j (x # xs))" by (cases j) auto
  qed
  then show ?case using Cons.IH by (simp split: option.splits)
qed

lemma find_sub_bound: "find_sub pat xs = Some i \<Longrightarrow> i + length pat \<le> length xs"
  using starts_with_length [of pat "drop i xs"] by (auto simp: find_sub_Some)

text \<open>Appending bytes does not change a match that was already there.\<close>

lemma find_sub_append: "find_sub pat xs = Some i \<Longrightarrow> find_sub pat (xs @ ys) = Some i"
proof -
  assume f: "find_sub pat xs = Some i"
  have b: "i + length pat \<le> length xs" using find_sub_bound [OF f] .
  have s: "starts_with pat (drop i xs)" and n: "\<forall>j<i. \<not> starts_with pat (drop j xs)"
    using f by (auto simp: find_sub_Some)
  have "starts_with pat (drop i (xs @ ys))" using starts_with_mono [OF s, of ys] b by simp
  moreover have "\<not> starts_with pat (drop j (xs @ ys))" if "j < i" for j
    using n that b by (simp add: starts_with_append_iff)
  ultimately show ?thesis using b by (simp add: find_sub_Some)
qed

text \<open>A search that failed need not be repeated over the bytes a match cannot start in.\<close>

lemma find_sub_drop:
  assumes "\<forall>j<k. \<not> starts_with pat (drop j xs)" and "k \<le> length xs"
  shows "find_sub pat xs = map_option (\<lambda>i. k + i) (find_sub pat (drop k xs))"
proof (cases "find_sub pat (drop k xs)")
  case None
  have "\<not> starts_with pat (drop j xs)" if "j \<le> length xs" for j
  proof (cases "j < k")
    case True then show ?thesis using assms(1) by blast
  next
    case False
    moreover have "j - k \<le> length (drop k xs)" using that by simp
    ultimately have "\<not> starts_with pat (drop (j - k) (drop k xs))"
      using None unfolding find_sub_None by blast
    then show ?thesis using False by simp
  qed
  then have "find_sub pat xs = None" unfolding find_sub_None by blast
  then show ?thesis using None by simp
next
  case (Some i)
  then have i: "i \<le> length xs - k" "starts_with pat (drop (k + i) xs)"
    "\<forall>j<i. \<not> starts_with pat (drop (k + j) xs)"
    unfolding find_sub_Some by (auto simp: add.commute)
  have "\<not> starts_with pat (drop j xs)" if "j < k + i" for j
  proof (cases "j < k")
    case True then show ?thesis using assms(1) by blast
  next
    case False
    then have "j - k < i" and jk: "k + (j - k) = j" using that by auto
    then have "\<not> starts_with pat (drop (k + (j - k)) xs)" using i(3) by blast
    then show ?thesis using jk by simp
  qed
  then have "find_sub pat xs = Some (k + i)" using i assms(2) unfolding find_sub_Some by auto
  then show ?thesis using Some by simp
qed

section \<open>Little-endian integers\<close>

text \<open>\<^verbatim>\<open>struct\<close> format \<^verbatim>\<open><\<close> with unsigned fields; \<^verbatim>\<open>int.from_bytes(.., "little")\<close>.\<close>

fun le_nat :: "bytes \<Rightarrow> nat" where
  "le_nat [] = 0"
| "le_nat (b # bs) = unat b + 256 * le_nat bs"

fun to_le :: "nat \<Rightarrow> nat \<Rightarrow> bytes" where
  "to_le 0 v = []"
| "to_le (Suc n) v = of_nat (v mod 256) # to_le n (v div 256)"

text \<open>\<^verbatim>\<open>int.from_bytes(.., "big")\<close>, the integer of a \<^verbatim>\<open>uuid.UUID\<close>.\<close>

definition be_nat :: "bytes \<Rightarrow> nat" where
  "be_nat bs = le_nat (rev bs)"

definition to_be :: "nat \<Rightarrow> nat \<Rightarrow> bytes" where
  "to_be n v = rev (to_le n v)"

text \<open>The two's complement reading of a 16-bit field (format \<^verbatim>\<open>h\<close>) and its packing.\<close>

definition s16 :: "nat \<Rightarrow> int" where
  "s16 n = (if n < 32768 then int n else int n - 65536)"

definition u16 :: "int \<Rightarrow> nat" where
  "u16 i = nat (i mod 65536)"

lemma length_to_le [simp]: "length (to_le n v) = n"
  by (induction n v rule: to_le.induct) auto

lemma length_to_be [simp]: "length (to_be n v) = n"
  by (simp add: to_be_def)

lemma unat_byte_less [simp]: "unat (b :: byte) < 256"
  using unsigned_less [of b, where ?'a = nat] by simp

lemma unat_of_nat_byte [simp]: "unat (of_nat (v mod 256) :: byte) = v mod 256"
  by (simp add: unat_of_nat)

lemma le_nat_bound: "le_nat bs < 256 ^ length bs"
proof (induction bs)
  case (Cons b bs)
  have "unat b + 256 * le_nat bs < 256 + 256 * le_nat bs" by simp
  also have "\<dots> \<le> 256 * 256 ^ length bs" using Cons by simp
  finally show ?case by simp
qed simp

lemma le_nat_to_le_mod: "le_nat (to_le n v) = v mod 256 ^ n"
  by (induction n v rule: to_le.induct) (simp_all add: mod_mult2_eq)

lemma le_nat_to_le [simp]: "v < 256 ^ n \<Longrightarrow> le_nat (to_le n v) = v"
  by (simp add: le_nat_to_le_mod)

lemma to_le_le_nat [simp]: "to_le (length bs) (le_nat bs) = bs"
proof (induction bs)
  case (Cons b bs)
  have "(unat b + 256 * le_nat bs) mod 256 = unat b" by simp
  moreover have "(unat b + 256 * le_nat bs) div 256 = le_nat bs" by simp
  moreover have "of_nat (unat b) = b" by simp
  ultimately show ?case using Cons by (simp del: of_nat_unat) 
qed simp

lemma to_le_le_nat': "length bs = n \<Longrightarrow> to_le n (le_nat bs) = bs"
  using to_le_le_nat by blast

lemma le_nat_inj: "length xs = length ys \<Longrightarrow> le_nat xs = le_nat ys \<Longrightarrow> xs = ys"
  by (metis to_le_le_nat)

lemma be_nat_to_be [simp]: "v < 256 ^ n \<Longrightarrow> be_nat (to_be n v) = v"
  by (simp add: be_nat_def to_be_def)

lemma to_be_be_nat: "length bs = n \<Longrightarrow> to_be n (be_nat bs) = bs"
  by (simp add: be_nat_def to_be_def to_le_le_nat')

lemma be_nat_bound: "be_nat bs < 256 ^ length bs"
  using le_nat_bound [of "rev bs"] by (simp add: be_nat_def)

lemma s16_u16: "- 32768 \<le> i \<Longrightarrow> i < 32768 \<Longrightarrow> s16 (u16 i) = i"
proof (cases "0 \<le> i")
  case False
  assume "- 32768 \<le> i"
  then have "i mod 65536 = i + 65536"
    using False by (simp add: int_mod_pos_eq [of i 65536 "-1" "i + 65536"])
  then show ?thesis using False \<open>- 32768 \<le> i\<close> by (simp add: s16_def u16_def)
qed (simp add: s16_def u16_def)

lemma u16_bound [simp]: "u16 i < 65536"
  by (simp add: u16_def nat_less_iff)

lemma s16_range: "n < 65536 \<Longrightarrow> - 32768 \<le> s16 n \<and> s16 n < 32768"
  by (auto simp: s16_def)

text \<open>The widths the formats \<^verbatim>\<open>H\<close>, \<^verbatim>\<open>I\<close> and \<^verbatim>\<open>Q\<close> use.\<close>

lemma le_nat_to_le2 [simp]: "v < 65536 \<Longrightarrow> le_nat (to_le 2 v) = v"
  by (rule le_nat_to_le) simp

lemma le_nat_to_le4 [simp]: "v < 4294967296 \<Longrightarrow> le_nat (to_le 4 v) = v"
  by (rule le_nat_to_le) simp

lemma le_nat_to_le8 [simp]: "v < 18446744073709551616 \<Longrightarrow> le_nat (to_le 8 v) = v"
  by (rule le_nat_to_le) simp

text \<open>The field at a fixed offset of a record, as \<^verbatim>\<open>struct.unpack_from\<close> reads it.\<close>

definition field :: "bytes \<Rightarrow> nat \<Rightarrow> nat \<Rightarrow> nat" where
  "field bs off n = le_nat (slice bs off (off + n))"

lemma field_bound: "field bs off n < 256 ^ n"
proof -
  have "field bs off n < 256 ^ length (slice bs off (off + n))"
    by (simp add: field_def le_nat_bound)
  also have "\<dots> \<le> 256 ^ n" by (rule power_increasing) (auto simp: length_slice)
  finally show ?thesis .
qed

lemma field_append: "off + n \<le> length xs \<Longrightarrow> field (xs @ ys) off n = field xs off n"
  by (simp add: field_def slice_append_left)

lemma field_drop: "field (drop k xs) off n = field xs (k + off) n"
  by (simp add: field_def slice_drop add.assoc)

lemma field_take: "off + n \<le> k \<Longrightarrow> field (take k xs) off n = field xs off n"
  by (simp add: field_def slice_take)

text \<open>Fields of a record written as a concatenation: skip what precedes, read what is there.\<close>

lemma field_skip [le_simps]:
  "length xs \<le> off \<Longrightarrow> field (xs @ ys) off n = field ys (off - length xs) n"
  by (simp add: field_def slice_append_right)

lemma field_here [le_simps]: "length xs = n \<Longrightarrow> field (xs @ ys) 0 n = le_nat xs"
  by (simp add: field_def slice_def)

lemma field_all [le_simps]: "length xs = n \<Longrightarrow> field xs 0 n = le_nat xs"
  by (simp add: field_def slice_def)

section \<open>Lists\<close>

lemma drop_drop_append: "n \<le> length xs \<Longrightarrow> drop n (xs @ ys) = drop n xs @ ys"
  by simp

lemma concat_singletons [simp]: "concat (map (\<lambda>x. [x]) xs) = xs"
  by (induction xs) auto

fun opt_list :: "'a option \<Rightarrow> 'a list" where
  "opt_list None = []"
| "opt_list (Some x) = [x]"

end
