(* ===== verification/PyText.thy ===== *)
theory PyText
  imports Prelude
begin

text \<open>
  The text operations of Python the program uses, on code points: \<^verbatim>\<open>strip\<close>,
  \<^verbatim>\<open>splitlines\<close>, \<^verbatim>\<open>split\<close>, \<^verbatim>\<open>isdecimal\<close>, \<^verbatim>\<open>int(text, base)\<close>,
  \<^verbatim>\<open>str\<close> and hexadecimal formatting, ASCII and UTF-8 decoding. The character classes
  are those of Unicode 14 (Python 3.11).
\<close>

section \<open>Whitespace and stripping\<close>

definition strip_by :: "('a \<Rightarrow> bool) \<Rightarrow> 'a list \<Rightarrow> 'a list" where
  "strip_by P xs = rev (dropWhile P (rev (dropWhile P xs)))"

definition rstrip_by :: "('a \<Rightarrow> bool) \<Rightarrow> 'a list \<Rightarrow> 'a list" where
  "rstrip_by P xs = rev (dropWhile P (rev xs))"

definition is_space :: "nat \<Rightarrow> bool" where
  "is_space c \<longleftrightarrow> 9 \<le> c \<and> c \<le> 13 \<or> 28 \<le> c \<and> c \<le> 32 \<or> c = 133 \<or> c = 160 \<or> c = 5760
     \<or> 8192 \<le> c \<and> c \<le> 8202 \<or> c = 8232 \<or> c = 8233 \<or> c = 8239 \<or> c = 8287 \<or> c = 12288"

text \<open>\<^verbatim>\<open>str.strip()\<close> and \<^verbatim>\<open>bytes.strip()\<close>, which knows the six ASCII blanks only.\<close>

definition str_strip :: "pystr \<Rightarrow> pystr" where
  "str_strip s = strip_by is_space s"

definition is_byte_space :: "byte \<Rightarrow> bool" where
  "is_byte_space b \<longleftrightarrow> b = 32 \<or> b = 9 \<or> b = 10 \<or> b = 13 \<or> b = 11 \<or> b = 12"

definition bytes_strip :: "bytes \<Rightarrow> bytes" where
  "bytes_strip s = strip_by is_byte_space s"

section \<open>Lines and fields\<close>

definition is_linebreak :: "nat \<Rightarrow> bool" where
  "is_linebreak c \<longleftrightarrow> 10 \<le> c \<and> c \<le> 13 \<or> 28 \<le> c \<and> c \<le> 30 \<or> c = 133 \<or> c = 8232 \<or> c = 8233"

text \<open>\<^verbatim>\<open>str.splitlines()\<close>; the accumulator holds the current line reversed.\<close>

fun splitlines_acc :: "pystr \<Rightarrow> pystr \<Rightarrow> pystr list" where
  "splitlines_acc acc [] = (if acc = [] then [] else [rev acc])"
| "splitlines_acc acc (c # cs) =
     (if is_linebreak c
      then rev acc # splitlines_acc [] (if c = 13 \<and> cs \<noteq> [] \<and> hd cs = 10 then tl cs else cs)
      else splitlines_acc (c # acc) cs)"

definition splitlines :: "pystr \<Rightarrow> pystr list" where
  "splitlines s = splitlines_acc [] s"

text \<open>\<^verbatim>\<open>s.split(sep)\<close> for a one-character separator.\<close>

fun split_acc :: "'a \<Rightarrow> 'a list \<Rightarrow> 'a list \<Rightarrow> 'a list list" where
  "split_acc sep acc [] = [rev acc]"
| "split_acc sep acc (c # cs) =
     (if c = sep then rev acc # split_acc sep [] cs else split_acc sep (c # acc) cs)"

definition split_on :: "'a \<Rightarrow> 'a list \<Rightarrow> 'a list list" where
  "split_on sep s = split_acc sep [] s"

text \<open>\<^verbatim>\<open>s.split(sep, 1)\<close> where \<open>sep\<close> occurs: the parts before and after its first occurrence.\<close>

definition split_once :: "'a \<Rightarrow> 'a list \<Rightarrow> 'a list \<times> 'a list" where
  "split_once sep s = (takeWhile (\<lambda>c. c \<noteq> sep) s, tl (dropWhile (\<lambda>c. c \<noteq> sep) s))"

text \<open>\<^verbatim>\<open>sep.join(parts)\<close>.\<close>

fun join_with :: "'a \<Rightarrow> 'a list list \<Rightarrow> 'a list" where
  "join_with sep [] = []"
| "join_with sep [x] = x"
| "join_with sep (x # y # zs) = x @ sep # join_with sep (y # zs)"

lemma split_acc_nonempty [simp]: "split_acc sep acc s \<noteq> []"
  by (induction sep acc s rule: split_acc.induct) auto

lemma split_acc_no_sep: "sep \<notin> set s \<Longrightarrow> split_acc sep acc s = [rev acc @ s]"
  by (induction s arbitrary: acc) auto

lemma split_acc_append:
  "sep \<notin> set s \<Longrightarrow> split_acc sep acc (s @ sep # t) = (rev acc @ s) # split_acc sep [] t"
  by (induction s arbitrary: acc) auto

lemma split_on_no_sep: "sep \<notin> set s \<Longrightarrow> split_on sep s = [s]"
  by (simp add: split_on_def split_acc_no_sep)

lemma split_on_append: "sep \<notin> set s \<Longrightarrow> split_on sep (s @ sep # t) = s # split_on sep t"
  by (simp add: split_on_def split_acc_append)

lemma split_once_append: "sep \<notin> set s \<Longrightarrow> split_once sep (s @ sep # t) = (s, t)"
  by (induction s) (auto simp: split_once_def)

section \<open>Decimal characters\<close>

definition decimal_zeros :: "nat list" where
  "decimal_zeros = [0x30, 0x660, 0x6f0, 0x7c0, 0x966, 0x9e6, 0xa66, 0xae6, 0xb66, 0xbe6, 0xc66,
     0xce6, 0xd66, 0xde6, 0xe50, 0xed0, 0xf20, 0x1040, 0x1090, 0x17e0, 0x1810, 0x1946, 0x19d0,
     0x1a80, 0x1a90, 0x1b50, 0x1bb0, 0x1c40, 0x1c50, 0xa620, 0xa8d0, 0xa900, 0xa9d0, 0xa9f0,
     0xaa50, 0xabf0, 0xff10, 0x104a0, 0x10d30, 0x11066, 0x110f0, 0x11136, 0x111d0, 0x112f0,
     0x11450, 0x114d0, 0x11650, 0x116c0, 0x11730, 0x118e0, 0x11950, 0x11c50, 0x11d50, 0x11da0,
     0x16a60, 0x16ac0, 0x16b50, 0x1d7ce, 0x1d7d8, 0x1d7e2, 0x1d7ec, 0x1d7f6, 0x1e140, 0x1e2f0,
     0x1e950, 0x1fbf0]"

definition decimal_value :: "nat \<Rightarrow> nat option" where
  "decimal_value c = map_option (\<lambda>z. c - z) (find (\<lambda>z. z \<le> c \<and> c \<le> z + 9) decimal_zeros)"

definition isdecimal :: "pystr \<Rightarrow> bool" where
  "isdecimal s \<longleftrightarrow> s \<noteq> [] \<and> list_all (\<lambda>c. decimal_value c \<noteq> None) s"

lemma decimal_value_ascii: "48 \<le> c \<Longrightarrow> c \<le> 57 \<Longrightarrow> decimal_value c = Some (c - 48)"
  by (simp add: decimal_value_def decimal_zeros_def)

lemma decimal_value_bound: "decimal_value c = Some d \<Longrightarrow> d \<le> 9"
  by (auto simp: decimal_value_def find_Some_iff)

section \<open>Integers from text\<close>

text \<open>
  \<^verbatim>\<open>int(text, base)\<close>: blanks around, an optional sign, for base 0 and 16 a prefix, digits
  with single underscores between them. Decimal characters of any script count as digits.
  A decimal text of more than 4300 digits is refused. \<open>None\<close> is the \<^verbatim>\<open>ValueError\<close>.
\<close>

definition digit_value :: "nat \<Rightarrow> nat option" where
  "digit_value c =
     (case decimal_value c of Some d \<Rightarrow> Some d
      | None \<Rightarrow> if 97 \<le> c \<and> c \<le> 122 then Some (c - 87)
               else if 65 \<le> c \<and> c \<le> 90 then Some (c - 55) else None)"

fun digits_value :: "nat \<Rightarrow> nat \<Rightarrow> pystr \<Rightarrow> nat option" where
  "digits_value base acc [] = Some acc"
| "digits_value base acc (c # cs) =
     (if c = 95 then
        (case cs of [] \<Rightarrow> None
         | d # ds \<Rightarrow> if d = 95 then None else digits_value base acc cs)
      else case digit_value c of None \<Rightarrow> None
           | Some v \<Rightarrow> if v < base then digits_value base (acc * base + v) cs else None)"

definition parse_digits :: "nat \<Rightarrow> pystr \<Rightarrow> nat option" where
  "parse_digits base s =
     (case s of [] \<Rightarrow> None
      | c # cs \<Rightarrow> if c = 95 then None
                 else if base = 10 \<and> 4300 < length (filter (\<lambda>c. c \<noteq> 95) s) then None
                 else digits_value base 0 s)"

text \<open>After a prefix one underscore may precede the digits.\<close>

definition after_prefix :: "pystr \<Rightarrow> pystr" where
  "after_prefix s = (case s of [] \<Rightarrow> [] | c # cs \<Rightarrow> if c = 95 then cs else s)"

fun prefix_base :: "pystr \<Rightarrow> nat option" where
  "prefix_base (a # b # _) =
     (if a \<noteq> 48 then None
      else if b = 120 \<or> b = 88 then Some 16
      else if b = 111 \<or> b = 79 then Some 8
      else if b = 98 \<or> b = 66 then Some 2 else None)"
| "prefix_base _ = None"

definition parse_unsigned :: "nat \<Rightarrow> pystr \<Rightarrow> nat option" where
  "parse_unsigned base s =
     (case prefix_base s of
        Some b \<Rightarrow> if base = 0 \<or> base = b then parse_digits b (after_prefix (drop 2 s))
                  else parse_digits base s
      | None \<Rightarrow>
          if base = 0 then
            (if s \<noteq> [] \<and> hd s = 48
             then (case parse_digits 10 s of Some 0 \<Rightarrow> Some 0 | _ \<Rightarrow> None)
             else parse_digits 10 s)
          else parse_digits base s)"

definition py_int :: "nat \<Rightarrow> pystr \<Rightarrow> int option" where
  "py_int base s =
     (case str_strip s of
        [] \<Rightarrow> None
      | c # cs \<Rightarrow>
          if c = 43 then map_option int (parse_unsigned base cs)
          else if c = 45 then map_option (\<lambda>n. - int n) (parse_unsigned base cs)
          else map_option int (parse_unsigned base (c # cs)))"

section \<open>Integers to text\<close>

fun dec_digits :: "nat \<Rightarrow> pystr" where
  "dec_digits n = (if n < 10 then [48 + n] else dec_digits (n div 10) @ [48 + n mod 10])"

declare dec_digits.simps [simp del]

text \<open>\<^verbatim>\<open>str(i)\<close>.\<close>

definition show_int :: "int \<Rightarrow> pystr" where
  "show_int i = (if i < 0 then 45 # dec_digits (nat (- i)) else dec_digits (nat i))"

definition hex_char :: "nat \<Rightarrow> nat \<Rightarrow> nat" where
  "hex_char ten d = (if d < 10 then 48 + d else ten + (d - 10))"

text \<open>\<^verbatim>\<open>f"{n:08X}"\<close> for a value of at most \<open>k\<close> hexadecimal digits: \<open>ten\<close> is the letter of 10.\<close>

fun hex_fixed :: "nat \<Rightarrow> nat \<Rightarrow> nat \<Rightarrow> pystr" where
  "hex_fixed ten 0 n = []"
| "hex_fixed ten (Suc k) n = hex_fixed ten k (n div 16) @ [hex_char ten (n mod 16)]"

lemma length_hex_fixed [simp]: "length (hex_fixed ten k n) = k"
  by (induction k arbitrary: n) auto

lemma dec_digits_nonempty [simp]: "dec_digits n \<noteq> []"
  by (subst dec_digits.simps) simp

lemma dec_digits_range: "c \<in> set (dec_digits n) \<Longrightarrow> 48 \<le> c \<and> c \<le> 57"
proof (induction n rule: dec_digits.induct)
  case (1 n)
  show ?case
  proof (cases "n < 10")
    case True
    with "1.prems" have "c = 48 + n" by (subst (asm) dec_digits.simps) simp
    then show ?thesis using True by simp
  next
    case False
    with "1.prems" have "c \<in> set (dec_digits (n div 10)) \<or> c = 48 + n mod 10"
      by (subst (asm) dec_digits.simps) auto
    moreover have "n mod 10 \<le> 9" by (simp add: less_Suc_eq_le [symmetric])
    ultimately show ?thesis using "1.IH" False by auto
  qed
qed

lemma digits_value_append_digit:
  assumes "48 \<le> c" "c \<le> 57" "10 \<le> base"
    and "\<And>x. x \<in> set s \<Longrightarrow> 48 \<le> x \<and> x \<le> 57"
  shows "digits_value base acc (s @ [c]) =
         map_option (\<lambda>v. v * base + (c - 48)) (digits_value base acc s)"
  using assms(4)
proof (induction s arbitrary: acc)
  case Nil
  then show ?case using assms(1-3) by (simp add: digit_value_def decimal_value_ascii)
next
  case (Cons x xs)
  then have x: "48 \<le> x" "x \<le> 57" by auto
  then have d: "digit_value x = Some (x - 48)" "x - 48 < base" "x \<noteq> 95"
    using assms(3) by (auto simp: digit_value_def decimal_value_ascii)
  have "digits_value base (acc * base + (x - 48)) (xs @ [c]) =
      map_option (\<lambda>v. v * base + (c - 48)) (digits_value base (acc * base + (x - 48)) xs)"
    using Cons by simp
  then show ?case using d by simp
qed

lemma digits_value_dec_digits: "digits_value 10 0 (dec_digits n) = Some n"
proof (induction n rule: dec_digits.induct)
  case (1 n)
  show ?case
  proof (cases "n < 10")
    case True
    then show ?thesis by (simp add: dec_digits.simps [of n] digit_value_def decimal_value_ascii)
  next
    case False
    have "n mod 10 \<le> 9" by (simp add: less_Suc_eq_le [symmetric])
    then have "digits_value 10 0 (dec_digits (n div 10) @ [48 + n mod 10]) =
        map_option (\<lambda>v. v * 10 + n mod 10) (digits_value 10 0 (dec_digits (n div 10)))"
      using digits_value_append_digit [of "48 + n mod 10" 10 "dec_digits (n div 10)" 0]
      by (auto dest: dec_digits_range)
    then show ?thesis using "1.IH" False by (simp add: dec_digits.simps [of n])
  qed
qed

lemma length_dec_digits: "n < 10 ^ Suc k \<Longrightarrow> length (dec_digits n) \<le> Suc k"
proof (induction k arbitrary: n)
  case 0
  then show ?case by (simp add: dec_digits.simps)
next
  case (Suc k)
  show ?case
  proof (cases "n < 10")
    case True
    then show ?thesis by (simp add: dec_digits.simps)
  next
    case False
    have "n div 10 < 10 ^ Suc k" using Suc.prems by (simp add: less_mult_imp_div_less mult.commute)
    then show ?thesis using Suc.IH [of "n div 10"] False by (simp add: dec_digits.simps [of n])
  qed
qed

lemma strip_by_none:
  assumes "\<And>x. x \<in> set s \<Longrightarrow> \<not> P x"
  shows "strip_by P s = s"
proof -
  have "dropWhile P s = s" using assms by (cases s) auto
  moreover have "dropWhile P (rev s) = rev s"
    using assms by (metis dropWhile_eq_self_iff hd_in_set set_rev)
  ultimately show ?thesis by (simp add: strip_by_def)
qed

lemma prefix_base_dec_digits: "prefix_base (dec_digits n) = None"
proof (cases "dec_digits n" rule: prefix_base.cases)
  case (1 a b cs)
  then have "48 \<le> b \<and> b \<le> 57" using dec_digits_range [of b n] by auto
  then show ?thesis using 1 by auto
qed auto

lemma hd_dec_digits: "n \<noteq> 0 \<Longrightarrow> hd (dec_digits n) \<noteq> 48"
proof (induction n rule: dec_digits.induct)
  case (1 n)
  then show ?case by (cases "n < 10") (auto simp: dec_digits.simps [of n])
qed

text \<open>Printing and reading back, for the base-0 reading the replies use.\<close>

lemma py_int_dec_digits:
  assumes "length (dec_digits n) \<le> 4300"
  shows "py_int 0 (dec_digits n) = Some (int n)"
proof -
  have r: "\<And>c. c \<in> set (dec_digits n) \<Longrightarrow> 48 \<le> c \<and> c \<le> 57" by (rule dec_digits_range)
  then have "\<And>c. c \<in> set (dec_digits n) \<Longrightarrow> \<not> is_space c" by (fastforce simp: is_space_def)
  then have st: "str_strip (dec_digits n) = dec_digits n"
    unfolding str_strip_def by (rule strip_by_none) 
  obtain c cs where d: "dec_digits n = c # cs" by (cases "dec_digits n") auto
  then have c: "48 \<le> c" "c \<le> 57" using r [of c] by auto
  have "filter (\<lambda>c. c \<noteq> 95) (dec_digits n) = dec_digits n"
    using r by (fastforce simp: filter_id_conv)
  then have pd: "parse_digits 10 (dec_digits n) = Some n"
    using d c assms digits_value_dec_digits [of n] by (simp add: parse_digits_def)
  have "parse_unsigned 0 (dec_digits n) = Some n"
  proof (cases "n = 0")
    case True
    then show ?thesis using pd by (simp add: parse_unsigned_def prefix_base_dec_digits)
  next
    case False
    then show ?thesis
      using pd hd_dec_digits [OF False] by (simp add: parse_unsigned_def prefix_base_dec_digits)
  qed
  then show ?thesis using st d c by (simp add: py_int_def)
qed

lemma py_int_u64: "n < 10 ^ 20 \<Longrightarrow> py_int 0 (dec_digits n) = Some (int n)"
proof (rule py_int_dec_digits)
  assume "n < 10 ^ 20"
  then have "n < 10 ^ Suc 19" by simp
  then have "length (dec_digits n) \<le> Suc 19" by (rule length_dec_digits)
  then show "length (dec_digits n) \<le> 4300" by simp
qed

section \<open>Decoding bytes\<close>

text \<open>\<^verbatim>\<open>bytes.decode("ascii", errors="strict")\<close>: \<open>None\<close> is the \<^verbatim>\<open>UnicodeDecodeError\<close>.\<close>

definition ascii_decode :: "bytes \<Rightarrow> pystr option" where
  "ascii_decode bs = (if list_all (\<lambda>b. unat b < 128) bs then Some (map unat bs) else None)"

text \<open>\<^verbatim>\<open>bytes.decode("ascii", errors="replace")\<close>.\<close>

definition ascii_replace :: "bytes \<Rightarrow> pystr" where
  "ascii_replace bs = map (\<lambda>b. if unat b < 128 then unat b else 0xFFFD) bs"

text \<open>
  \<^verbatim>\<open>bytes.decode("utf-8", errors="replace")\<close>: one step yields a code point and the number of
  bytes it took; an ill-formed sequence yields U+FFFD for its maximal valid prefix.
\<close>

definition is_cont :: "nat \<Rightarrow> bool" where
  "is_cont b \<longleftrightarrow> 0x80 \<le> b \<and> b \<le> 0xBF"

definition second_ok :: "nat \<Rightarrow> nat \<Rightarrow> bool" where
  "second_ok a b \<longleftrightarrow>
     (if a = 0xE0 then 0xA0 \<le> b \<and> b \<le> 0xBF
      else if a = 0xED then 0x80 \<le> b \<and> b \<le> 0x9F
      else if a = 0xF0 then 0x90 \<le> b \<and> b \<le> 0xBF
      else if a = 0xF4 then 0x80 \<le> b \<and> b \<le> 0x8F
      else is_cont b)"

definition utf8_next :: "nat list \<Rightarrow> nat \<times> nat" where
  "utf8_next bs =
     (let a = bs ! 0; b = bs ! 1; c = bs ! 2; d = bs ! 3; n = length bs in
      if a < 0x80 then (a, 1)
      else if a < 0xC2 \<or> 0xF4 < a then (0xFFFD, 1)
      else if n < 2 \<or> \<not> second_ok a b then (0xFFFD, 1)
      else if a < 0xE0 then ((a - 0xC0) * 64 + (b - 0x80), 2)
      else if n < 3 \<or> \<not> is_cont c then (0xFFFD, 2)
      else if a < 0xF0 then ((a - 0xE0) * 4096 + (b - 0x80) * 64 + (c - 0x80), 3)
      else if n < 4 \<or> \<not> is_cont d then (0xFFFD, 3)
      else ((a - 0xF0) * 262144 + (b - 0x80) * 4096 + (c - 0x80) * 64 + (d - 0x80), 4))"

lemma utf8_next_progress: "0 < snd (utf8_next bs)"
  by (simp add: utf8_next_def Let_def)

function utf8_codes :: "nat list \<Rightarrow> pystr" where
  "utf8_codes bs =
     (if bs = [] then [] else fst (utf8_next bs) # utf8_codes (drop (snd (utf8_next bs)) bs))"
  by pat_completeness auto
termination
  by (relation "measure length") (auto simp: utf8_next_progress)

declare utf8_codes.simps [simp del]

definition utf8_replace :: "bytes \<Rightarrow> pystr" where
  "utf8_replace bs = utf8_codes (map unat bs)"

text \<open>\<^verbatim>\<open>str.encode("ascii")\<close> of text known to be ASCII.\<close>

definition ascii_encode :: "pystr \<Rightarrow> bytes" where
  "ascii_encode s = map of_nat s"

lemma utf8_codes_ascii: "list_all (\<lambda>b. b < 128) bs \<Longrightarrow> utf8_codes bs = bs"
proof (induction bs)
  case Nil
  then show ?case by (simp add: utf8_codes.simps)
next
  case (Cons b bs)
  then show ?case by (subst utf8_codes.simps) (simp add: utf8_next_def Let_def)
qed

lemma utf8_ascii:
  assumes "list_all (\<lambda>c. c < 128) s"
  shows "utf8_replace (ascii_encode s) = s"
proof -
  have "map unat (ascii_encode s) = s"
    unfolding ascii_encode_def map_map
    by (rule map_idI) (use assms in \<open>auto simp: list_all_iff unat_of_nat\<close>)
  then show ?thesis using utf8_codes_ascii [OF assms] by (simp add: utf8_replace_def)
qed

end
