(* ===== verification/Float64.thy ===== *)
theory Float64
  imports Complex_Main "HOL-Library.Log_Nat"
begin

text \<open>
  IEEE double arithmetic as Python and numpy use it. A float is the rational it denotes, and
  every operation rounds its exact result to 53 significant bits, ties to even (\<open>fl\<close>).
  Exponents are unbounded: overflow, subnormals, infinities and NaN are out of the ranges the
  program computes in and are not modelled. \<open>fl_half\<close> is the fact the timestamp arithmetic
  rests on: half-integers below \<open>2 ^ 52\<close> are represented exactly.
\<close>

type_synonym float64 = rat

definition round_even :: "rat \<Rightarrow> int" where
  "round_even x =
     (let f = \<lfloor>x\<rfloor>; r = x - of_int f
      in if r < 1 / 2 then f else if 1 / 2 < r then f + 1 else if even f then f else f + 1)"

text \<open>The binary exponent: \<open>2 powi e \<le> \<bar>x\<bar> < 2 powi (e + 1)\<close> for \<open>x \<noteq> 0\<close>.\<close>

definition exponent :: "rat \<Rightarrow> int" where
  "exponent x =
     (let (n, d) = quotient_of \<bar>x\<bar>;
          e = int (floorlog 2 (nat n)) - int (floorlog 2 (nat d))
      in if 2 powi e \<le> \<bar>x\<bar> then e else e - 1)"

definition fl :: "rat \<Rightarrow> float64" where
  "fl x = (if x = 0 then 0
           else of_int (round_even (x * 2 powi (52 - exponent x))) * 2 powi (exponent x - 52))"

definition fadd :: "float64 \<Rightarrow> float64 \<Rightarrow> float64" where
  "fadd a b = fl (a + b)"

definition fsub :: "float64 \<Rightarrow> float64 \<Rightarrow> float64" where
  "fsub a b = fl (a - b)"

definition fmul :: "float64 \<Rightarrow> float64 \<Rightarrow> float64" where
  "fmul a b = fl (a * b)"

definition fdiv :: "float64 \<Rightarrow> float64 \<Rightarrow> float64" where
  "fdiv a b = fl (a / b)"

text \<open>The conversion of a Python int operand.\<close>

definition of_pyint :: "int \<Rightarrow> float64" where
  "of_pyint i = fl (of_int i)"

section \<open>Exactly represented values\<close>

lemma round_even_of_int [simp]: "round_even (of_int k) = k"
  by (simp add: round_even_def)

lemma exponent_le:
  assumes "x \<noteq> 0"
  shows "2 powi exponent x \<le> \<bar>x\<bar>"
proof -
  obtain n d where q: "quotient_of \<bar>x\<bar> = (n, d)" by fastforce
  have d: "0 < d" and x: "\<bar>x\<bar> = of_int n / of_int d"
    using q by (auto simp: quotient_of_denom_pos quotient_of_div)
  have n: "0 < n"
    using assms x d by (metis abs_of_pos div_0 linorder_neqE_linordered_idom of_int_0
        of_int_less_0_iff of_int_pos zero_less_abs_iff divide_less_0_iff not_less_iff_gr_or_eq)
  define a where "a = floorlog 2 (nat n)"
  define b where "b = floorlog 2 (nat d)"
  have "2 ^ (a - 1) \<le> nat n" "nat d < 2 ^ b"
    using floorlog_bounds [of "nat n" 2] floorlog_bounds [of "nat d" 2] n d
    by (auto simp: a_def b_def)
  then have nd: "(2::int) ^ (a - 1) \<le> n" "d < 2 ^ b"
    using n d by (auto simp: nat_less_iff le_nat_iff)
  have a: "0 < a" using n by (simp add: a_def floorlog_eq_zero_iff zero_less_iff_neq_zero)
  have "(2::rat) powi (int a - int b - 1) = 2 ^ (a - 1) / 2 ^ b"
    using a by (simp add: power_int_diff power_diff)
  also have "\<dots> \<le> of_int n / of_int d"
  proof (rule frac_le)
    show "0 \<le> (of_int n :: rat)" using n by simp
    show "(2::rat) ^ (a - 1) \<le> of_int n"
      using nd(1) by (metis of_int_le_iff of_int_numeral of_int_power)
    show "0 < (of_int d :: rat)" using d by simp
    show "(of_int d :: rat) \<le> 2 ^ b"
      using nd(2) by (metis less_imp_le of_int_le_iff of_int_numeral of_int_power)
  qed
  finally have "(2::rat) powi (int a - int b - 1) \<le> \<bar>x\<bar>" by (simp add: x)
  then show ?thesis using q by (simp add: exponent_def Let_def a_def [symmetric] b_def [symmetric])
qed

lemma exponent_less:
  assumes "x \<noteq> 0" and "\<bar>x\<bar> < 2 ^ n"
  shows "exponent x < int n"
proof (rule ccontr)
  assume "\<not> exponent x < int n"
  then have "(2::rat) powi int n \<le> 2 powi exponent x" by (intro power_int_increasing) auto
  then show False using exponent_le [OF assms(1)] assms(2) by simp
qed

text \<open>A value that becomes an integer when scaled by \<open>2 ^ k\<close> is exact below \<open>2 ^ (53 - k)\<close>.\<close>

lemma fl_exact:
  assumes "x * 2 ^ k = of_int m" and "\<bar>x\<bar> < 2 ^ n" and "n + k \<le> 53"
  shows "fl x = x"
proof (cases "x = 0")
  case False
  define j where "j = nat (52 - exponent x - int k)"
  have "exponent x < int n" using exponent_less [OF False assms(2)] .
  then have j: "52 - exponent x = int k + int j" using assms(3) by (simp add: j_def)
  have "x * 2 powi (52 - exponent x) = x * 2 ^ k * 2 ^ j"
    unfolding j by (simp add: power_int_add power_add)
  also have "\<dots> = of_int (m * 2 ^ j)" using assms(1) by simp
  finally have s: "x * 2 powi (52 - exponent x) = of_int (m * 2 ^ j)" .
  have "fl x = x * 2 powi (52 - exponent x) * 2 powi (exponent x - 52)"
    using False by (simp only: fl_def s round_even_of_int if_False)
  also have "\<dots> = x * (2 powi (52 - exponent x) * 2 powi (exponent x - 52))"
    by (simp only: mult.assoc)
  also have "2 powi (52 - exponent x) * 2 powi (exponent x - 52) = (1::rat)"
    using power_int_add [of "2::rat" "52 - exponent x" "exponent x - 52"] by simp
  finally show ?thesis by simp
qed (simp add: fl_def)

lemma fl_0 [simp]: "fl 0 = 0"
  by (simp add: fl_def)

lemma fl_int: "\<bar>i\<bar> < 2 ^ 53 \<Longrightarrow> fl (of_int i) = of_int i"
proof -
  assume "\<bar>i\<bar> < 2 ^ 53"
  then have "of_int \<bar>i\<bar> < (of_int (2 ^ 53) :: rat)" by (subst of_int_less_iff) simp
  then have "\<bar>of_int i :: rat\<bar> < 2 ^ 53" by simp
  then show ?thesis using fl_exact [of "of_int i" 0 i 53] by simp
qed

text \<open>Half-integers: the values \<open>k / 2\<close>.\<close>

definition is_half :: "rat \<Rightarrow> bool" where
  "is_half x \<longleftrightarrow> 2 * x \<in> \<int>"

lemma fl_half: "is_half x \<Longrightarrow> \<bar>x\<bar> < 2 ^ 52 \<Longrightarrow> fl x = x"
  using fl_exact [of x 1 _ 52] by (auto simp: is_half_def Ints_def mult.commute)

lemma is_half_of_int [simp]: "is_half (of_int i)"
  by (simp add: is_half_def)

lemma is_half_of_nat [simp]: "is_half (of_nat i)"
  by (simp add: is_half_def)

lemma is_half_numeral [simp]: "is_half (numeral n)"
  by (simp add: is_half_def)

lemma is_half_add [intro]: "is_half x \<Longrightarrow> is_half y \<Longrightarrow> is_half (x + y)"
  by (simp add: is_half_def algebra_simps)

lemma is_half_diff [intro]: "is_half x \<Longrightarrow> is_half y \<Longrightarrow> is_half (x - y)"
  by (simp add: is_half_def algebra_simps)

lemma is_half_scale [intro]: "is_half x \<Longrightarrow> is_half (of_nat n * x)"
proof -
  assume "is_half x"
  then have "of_nat n * (2 * x) \<in> \<int>" by (simp add: is_half_def)
  then show ?thesis by (simp add: is_half_def algebra_simps)
qed

section \<open>Rounding does not cross a float\<close>

lemma exponent_upper:
  assumes "x \<noteq> 0"
  shows "\<bar>x\<bar> < 2 powi (exponent x + 1)"
proof -
  obtain n d where q: "quotient_of \<bar>x\<bar> = (n, d)" by fastforce
  have d: "0 < d" and x: "\<bar>x\<bar> = of_int n / of_int d"
    using q by (auto simp: quotient_of_denom_pos quotient_of_div)
  have n: "0 < n"
    using assms x d by (metis abs_of_pos div_0 linorder_neqE_linordered_idom of_int_0
        of_int_less_0_iff of_int_pos zero_less_abs_iff divide_less_0_iff not_less_iff_gr_or_eq)
  define a where "a = floorlog 2 (nat n)"
  define b where "b = floorlog 2 (nat d)"
  have "nat n < 2 ^ a" "2 ^ (b - 1) \<le> nat d"
    using floorlog_bounds [of "nat n" 2] floorlog_bounds [of "nat d" 2] n d
    by (auto simp: a_def b_def)
  then have nd: "n < (2::int) ^ a" "2 ^ (b - 1) \<le> d"
    using n d by (auto simp: nat_less_iff le_nat_iff)
  have b: "0 < b" using d by (simp add: b_def floorlog_eq_zero_iff zero_less_iff_neq_zero)
  have "of_int n / of_int d < (2::rat) ^ a / 2 ^ (b - 1)"
  proof (rule frac_less)
    show "0 \<le> (of_int n :: rat)" using n by simp
    show "(of_int n :: rat) < 2 ^ a"
      using nd(1) by (metis of_int_less_iff of_int_numeral of_int_power)
    show "0 < (2 :: rat) ^ (b - 1)" by simp
    show "(2::rat) ^ (b - 1) \<le> of_int d"
      using nd(2) by (metis of_int_le_iff of_int_numeral of_int_power)
  qed
  also have "(2::rat) ^ a / 2 ^ (b - 1) = 2 powi (int a - int b + 1)"
    using b by (simp add: power_int_diff power_int_add power_diff)
  finally have "\<bar>x\<bar> < 2 powi (int a - int b + 1)" by (simp add: x)
  then show ?thesis
    using q by (auto simp: exponent_def Let_def a_def [symmetric] b_def [symmetric] split: if_splits)
qed

lemma exponent_mono:
  assumes "x \<noteq> 0" "\<bar>x\<bar> \<le> \<bar>y\<bar>"
  shows "exponent x \<le> exponent y"
proof (rule ccontr)
  assume "\<not> exponent x \<le> exponent y"
  then have "(2::rat) powi (exponent y + 1) \<le> 2 powi exponent x" by (intro power_int_increasing) auto
  moreover have "y \<noteq> 0" using assms by auto
  ultimately show False
    using exponent_le [OF assms(1)] exponent_upper [of y] assms(2) by linarith
qed

lemma round_even_le: "x \<le> of_int k \<Longrightarrow> round_even x \<le> k"
proof -
  assume le: "x \<le> of_int k"
  show ?thesis
  proof (cases "x = of_int k")
    case False
    then have "\<lfloor>x\<rfloor> < k" using le by (simp add: floor_less_iff)
    then show ?thesis by (auto simp: round_even_def Let_def)
  qed simp
qed

lemma powi_cancel: "(2::rat) powi (52 - e) * 2 powi (e - 52) = 1"
  using power_int_add [of "2::rat" "52 - e" "e - 52"] by simp

text \<open>A float is an integer at its own scale.\<close>

lemma float_scaled:
  assumes "fl y = y" "y \<noteq> 0"
  shows "y * 2 powi (52 - exponent y) = of_int (round_even (y * 2 powi (52 - exponent y)))"
proof -
  define r where "r = (of_int (round_even (y * 2 powi (52 - exponent y))) :: rat)"
  have "y = r * 2 powi (exponent y - 52)" using assms by (simp add: fl_def r_def)
  then have "y * 2 powi (52 - exponent y) = r * 2 powi (exponent y - 52) * 2 powi (52 - exponent y)"
    by metis
  also have "\<dots> = r" using powi_cancel [of "exponent y"] by (simp add: mult.assoc mult.commute)
  finally show ?thesis by (simp add: r_def)
qed

lemma fl_le_scaled:
  assumes "x \<noteq> 0" and "x * 2 powi (52 - exponent x) \<le> of_int k"
    and "of_int k * 2 powi (exponent x - 52) \<le> y"
  shows "fl x \<le> y"
proof -
  have "fl x = of_int (round_even (x * 2 powi (52 - exponent x))) * 2 powi (exponent x - 52)"
    using assms(1) by (simp add: fl_def)
  also have "\<dots> \<le> of_int k * 2 powi (exponent x - 52)"
    using round_even_le [OF assms(2)] by (intro mult_right_mono) (auto simp: zero_le_power_int)
  finally show ?thesis using assms(3) by linarith
qed

lemma fl_le_float:
  assumes "x \<le> y" and y: "fl y = y"
  shows "fl x \<le> y"
proof (cases "x = 0")
  case False
  note x = False
  let ?e = "exponent x"
  show ?thesis
  proof (cases "y \<noteq> 0 \<and> exponent y = ?e")
    case True
    let ?k = "round_even (y * 2 powi (52 - ?e))"
    have k: "y * 2 powi (52 - ?e) = of_int ?k" using float_scaled [OF y] True by simp
    show ?thesis
    proof (rule fl_le_scaled [OF x])
      show "x * 2 powi (52 - ?e) \<le> of_int ?k"
        using assms(1) by (subst k [symmetric]) (intro mult_right_mono, auto simp: zero_le_power_int)
      show "of_int ?k * 2 powi (?e - 52) \<le> y"
        using powi_cancel [of ?e] by (subst k [symmetric]) (simp add: mult.assoc)
    qed
  next
    case ne: False
    show ?thesis
    proof (cases "0 < x")
      case True
      then have "y \<noteq> 0" "\<bar>x\<bar> \<le> \<bar>y\<bar>" using assms(1) by auto
      then have lt: "?e < exponent y" using exponent_mono [OF x] ne by fastforce
      have "x * 2 powi (52 - ?e) \<le> 2 powi (?e + 1) * 2 powi (52 - ?e)"
        using exponent_upper [OF x] True by (intro mult_right_mono) (auto simp: zero_le_power_int)
      also have "\<dots> = of_int (2 ^ 53)"
        using power_int_add [of "2::rat" "?e + 1" "52 - ?e"] by simp
      finally have le: "x * 2 powi (52 - ?e) \<le> of_int (2 ^ 53)" .
      have "(of_int (2 ^ 53) :: rat) * 2 powi (?e - 52) = 2 powi (?e + 1)"
        using power_int_add [of "2::rat" 53 "?e - 52"] by (simp add: algebra_simps)
      also have "\<dots> \<le> 2 powi exponent y" using lt by (intro power_int_increasing) auto
      also have "\<dots> \<le> y" using exponent_le [OF \<open>y \<noteq> 0\<close>] True assms(1) by simp
      finally show ?thesis by (rule fl_le_scaled [OF x le])
    next
      case False
      then have neg: "x < 0" using x by simp
      have "x * 2 powi (52 - ?e) \<le> (- (2 powi ?e)) * 2 powi (52 - ?e)"
        using exponent_le [OF x] neg by (intro mult_right_mono) (auto simp: zero_le_power_int)
      also have "\<dots> = of_int (- (2 ^ 52))"
        using power_int_add [of "2::rat" ?e "52 - ?e"] by simp
      finally have le: "x * 2 powi (52 - ?e) \<le> of_int (- (2 ^ 52))" .
      have "(of_int (- (2 ^ 52)) :: rat) * 2 powi (?e - 52) = - (2 powi ?e)"
        using power_int_add [of "2::rat" 52 "?e - 52"] by (simp add: algebra_simps)
      moreover have "- (2 powi ?e) \<le> y"
      proof (cases "0 \<le> y")
        case False
        then have "exponent y < ?e" using exponent_mono [of y x] ne assms(1) by fastforce
        then have "(2::rat) powi (exponent y + 1) \<le> 2 powi ?e" by (intro power_int_increasing) auto
        then show ?thesis using exponent_upper [of y] False by simp
      next
        case True
        have "(0::rat) \<le> 2 powi ?e" by (simp add: zero_le_power_int)
        then show ?thesis using True by linarith
      qed
      ultimately show ?thesis by (intro fl_le_scaled [OF x le]) simp
    qed
  qed
qed (use assms in simp)

lemma fsub_le: "fl a = a \<Longrightarrow> 0 \<le> d \<Longrightarrow> fsub a d \<le> a"
  unfolding fsub_def by (rule fl_le_float) auto

lemma fl_nonneg: "0 \<le> x \<Longrightarrow> 0 \<le> fl x"
proof -
  assume "0 \<le> x"
  then have "0 \<le> x * 2 powi (52 - exponent x)" by (simp add: zero_le_power_int)
  then have "0 \<le> round_even (x * 2 powi (52 - exponent x))" by (auto simp: round_even_def Let_def)
  then show ?thesis by (simp add: fl_def zero_le_power_int)
qed

end
