(* ===== verification/Numpy.thy ===== *)
theory Numpy
  imports Prelude Float64
begin

text \<open>
  numpy is a third-party package, so the functions of its module that the program calls are a
  parameter of the model: a record of functions, passed to every definition that uses one.
  \<open>numpy_ok\<close> states what the numpy manual documents of them; \<open>np_ref\<close> is a concrete record
  that satisfies it. Array constructors, indexing and element-wise arithmetic are list
  operations; an array of doubles is a list of \<^typ>\<open>float64\<close>.
\<close>

text \<open>One element of the structured view \<^verbatim>\<open>_IIS_WORD_DTYPE\<close> of the SDF1 decoder.\<close>

record iis_view =
  iv_tag :: nat
  iv_xyz :: "int \<times> int \<times> int"
  iv_ts :: nat

record numpy =
  np_frombuffer :: "bytes \<Rightarrow> iis_view list"
  np_flatnonzero :: "bool list \<Rightarrow> nat list"
  np_count_nonzero :: "bool list \<Rightarrow> nat"
  np_searchsorted_index :: "nat list \<Rightarrow> nat \<Rightarrow> nat"
  np_searchsorted_left :: "float64 list \<Rightarrow> float64 \<Rightarrow> nat"
  np_searchsorted_right :: "float64 list \<Rightarrow> float64 \<Rightarrow> nat"
  np_bincount :: "nat list \<Rightarrow> nat \<Rightarrow> nat list"
  np_cumsum :: "nat list \<Rightarrow> nat list"
  np_linspace :: "nat \<Rightarrow> nat \<Rightarrow> nat \<Rightarrow> nat list"
  np_argmin :: "float64 list \<Rightarrow> nat"
  np_argmax :: "float64 list \<Rightarrow> nat"

section \<open>Reference functions\<close>

text \<open>The seven bytes of one FIFO word: the tag, and two overlapping readings of the rest.\<close>

definition view_word :: "bytes \<Rightarrow> iis_view" where
  "view_word w = \<lparr>iv_tag = field w 0 1,
     iv_xyz = (s16 (field w 1 2), s16 (field w 3 2), s16 (field w 5 2)), iv_ts = field w 1 4\<rparr>"

fun chunks7 :: "bytes \<Rightarrow> bytes list" where
  "chunks7 (a # b # c # d # e # f # g # xs) = [a, b, c, d, e, f, g] # chunks7 xs"
| "chunks7 _ = []"

definition flatnonzero :: "bool list \<Rightarrow> nat list" where
  "flatnonzero m = filter (\<lambda>i. m ! i) [0..<length m]"

definition bincount :: "nat list \<Rightarrow> nat \<Rightarrow> nat list" where
  "bincount xs n = map (count_list xs) [0..<max n (foldr max (map Suc xs) 0)]"

definition cumsum :: "nat list \<Rightarrow> nat list" where
  "cumsum xs = map (\<lambda>i. sum_list (take (Suc i) xs)) [0..<length xs]"

definition linspace :: "nat \<Rightarrow> nat \<Rightarrow> nat \<Rightarrow> nat list" where
  "linspace a b n = map (\<lambda>i. a + (i * (b - a)) div (n - 1)) [0..<n]"

fun argbest :: "('a \<Rightarrow> 'a \<Rightarrow> bool) \<Rightarrow> 'a list \<Rightarrow> nat" where
  "argbest better [] = 0"
| "argbest better [x] = 0"
| "argbest better (x # y # zs) =
     (let k = argbest better (y # zs) in if better ((y # zs) ! k) x then Suc k else 0)"

definition np_ref :: numpy where
  "np_ref = \<lparr>np_frombuffer = (\<lambda>p. map view_word (chunks7 p)),
     np_flatnonzero = flatnonzero,
     np_count_nonzero = (\<lambda>m. length (filter id m)),
     np_searchsorted_index = (\<lambda>a v. length (filter (\<lambda>x. x < v) a)),
     np_searchsorted_left = (\<lambda>a v. length (filter (\<lambda>x. x < v) a)),
     np_searchsorted_right = (\<lambda>a v. length (filter (\<lambda>x. x \<le> v) a)),
     np_bincount = bincount,
     np_cumsum = cumsum,
     np_linspace = linspace,
     np_argmin = argbest (\<lambda>y x. y < x),
     np_argmax = argbest (\<lambda>y x. x < y)\<rparr>"

section \<open>Documented behaviour\<close>

definition numpy_ok :: "numpy \<Rightarrow> bool" where
  "numpy_ok np \<longleftrightarrow>
     (\<forall>p. 7 dvd length p \<longrightarrow> np_frombuffer np p = map view_word (chunks7 p)) \<and>
     (\<forall>m. np_flatnonzero np m = filter (\<lambda>i. m ! i) [0..<length m]) \<and>
     (\<forall>m. np_count_nonzero np m = length (filter id m)) \<and>
     (\<forall>a v. sorted a \<longrightarrow> np_searchsorted_index np a v = length (filter (\<lambda>x. x < v) a)) \<and>
     (\<forall>a v. sorted a \<longrightarrow> np_searchsorted_left np a v = length (filter (\<lambda>x. x < v) a)) \<and>
     (\<forall>a v. sorted a \<longrightarrow> np_searchsorted_right np a v = length (filter (\<lambda>x. x \<le> v) a)) \<and>
     (\<forall>xs n. (\<forall>x\<in>set xs. x < n) \<longrightarrow> np_bincount np xs n = map (count_list xs) [0..<n]) \<and>
     (\<forall>xs. np_cumsum np xs = map (\<lambda>i. sum_list (take (Suc i) xs)) [0..<length xs]) \<and>
     (\<forall>a b n. a \<le> b \<longrightarrow> 2 \<le> n \<longrightarrow>
        length (np_linspace np a b n) = n \<and> sorted (np_linspace np a b n) \<and>
        hd (np_linspace np a b n) = a \<and> last (np_linspace np a b n) = b) \<and>
     (\<forall>xs. xs \<noteq> [] \<longrightarrow> np_argmin np xs < length xs \<and> (\<forall>x\<in>set xs. xs ! np_argmin np xs \<le> x)) \<and>
     (\<forall>xs. xs \<noteq> [] \<longrightarrow> np_argmax np xs < length xs \<and> (\<forall>x\<in>set xs. x \<le> xs ! np_argmax np xs))"

lemma numpy_frombuffer: "numpy_ok np \<Longrightarrow> 7 dvd length p \<Longrightarrow>
    np_frombuffer np p = map view_word (chunks7 p)"
  by (simp add: numpy_ok_def)

lemma numpy_flatnonzero: "numpy_ok np \<Longrightarrow> np_flatnonzero np m = filter (\<lambda>i. m ! i) [0..<length m]"
  by (simp add: numpy_ok_def)

lemma numpy_count_nonzero: "numpy_ok np \<Longrightarrow> np_count_nonzero np m = length (filter id m)"
  by (simp add: numpy_ok_def)

lemma numpy_searchsorted:
  assumes "numpy_ok np"
  shows "sorted a \<Longrightarrow> np_searchsorted_index np a v = length (filter (\<lambda>x. x < v) a)"
    and "sorted b \<Longrightarrow> np_searchsorted_left np b w = length (filter (\<lambda>x. x < w) b)"
    and "sorted b \<Longrightarrow> np_searchsorted_right np b w = length (filter (\<lambda>x. x \<le> w) b)"
  using assms by (simp_all add: numpy_ok_def)

lemma numpy_bincount: "numpy_ok np \<Longrightarrow> (\<And>x. x \<in> set xs \<Longrightarrow> x < n) \<Longrightarrow>
    np_bincount np xs n = map (count_list xs) [0..<n]"
  by (simp add: numpy_ok_def)

lemma numpy_cumsum: "numpy_ok np \<Longrightarrow>
    np_cumsum np xs = map (\<lambda>i. sum_list (take (Suc i) xs)) [0..<length xs]"
  by (simp add: numpy_ok_def)

lemma numpy_linspace:
  assumes "numpy_ok np" "a \<le> b" "2 \<le> n"
  shows "length (np_linspace np a b n) = n" and "sorted (np_linspace np a b n)"
    and "hd (np_linspace np a b n) = a" and "last (np_linspace np a b n) = b"
  using assms by (simp_all add: numpy_ok_def)

lemma numpy_argmin: "numpy_ok np \<Longrightarrow> xs \<noteq> [] \<Longrightarrow> np_argmin np xs < length xs"
  by (simp add: numpy_ok_def)

lemma numpy_argmax: "numpy_ok np \<Longrightarrow> xs \<noteq> [] \<Longrightarrow> np_argmax np xs < length xs"
  by (simp add: numpy_ok_def)

lemma numpy_argmax_max: "numpy_ok np \<Longrightarrow> x \<in> set xs \<Longrightarrow> x \<le> xs ! np_argmax np xs"
  by (cases xs) (auto simp: numpy_ok_def)

section \<open>The reference functions behave as documented\<close>

lemma count_list_beyond: "(\<And>x. x \<in> set xs \<Longrightarrow> x < n) \<Longrightarrow> foldr max (map Suc xs) 0 \<le> n"
  by (induction xs) (auto simp: Suc_le_eq)

lemma bincount_eq:
  assumes "\<And>x. x \<in> set xs \<Longrightarrow> x < n"
  shows "bincount xs n = map (count_list xs) [0..<n]"
  using count_list_beyond [OF assms] by (simp add: bincount_def max_absorb1)

lemma linspace_ok:
  assumes "a \<le> b" and "2 \<le> n"
  shows "length (linspace a b n) = n" and "sorted (linspace a b n)"
    and "hd (linspace a b n) = a" and "last (linspace a b n) = b"
proof -
  show "length (linspace a b n) = n" by (simp add: linspace_def)
  have "i * (b - a) div (n - 1) \<le> j * (b - a) div (n - 1)" if "i \<le> j" for i j
    using that by (intro div_le_mono mult_le_mono1)
  then show "sorted (linspace a b n)"
    by (auto simp: linspace_def sorted_iff_nth_mono)
  show "hd (linspace a b n) = a" using assms(2) by (simp add: linspace_def hd_map)
  have "(n - 1) * (b - a) div (n - 1) = b - a" using assms(2) by simp
  then show "last (linspace a b n) = b" using assms by (simp add: linspace_def last_map)
qed

lemma argbest_length: "xs \<noteq> [] \<Longrightarrow> argbest better xs < length xs"
  by (induction better xs rule: argbest.induct) (auto simp: Let_def)

lemma argmin_le: "x \<in> set xs \<Longrightarrow> xs ! argbest (\<lambda>y x. y < x) xs \<le> (x :: rat)"
  by (induction "\<lambda>(y::rat) x. y < x" xs rule: argbest.induct)
    (auto simp: Let_def not_less intro: order_trans less_imp_le order_less_le_trans)

lemma argmax_ge: "x \<in> set xs \<Longrightarrow> (x :: rat) \<le> xs ! argbest (\<lambda>y x. x < y) xs"
  by (induction "\<lambda>(y::rat) x. x < y" xs rule: argbest.induct)
    (auto simp: Let_def not_less intro: order_trans less_imp_le order_le_less_trans)

lemma numpy_ok_np_ref: "numpy_ok np_ref"
  unfolding numpy_ok_def
  by (auto simp: np_ref_def flatnonzero_def bincount_eq cumsum_def linspace_ok argbest_length
      argmin_le argmax_ge)

end
