(* ===== verification/Sdf1.thy ===== *)
theory Sdf1
  imports PyText Checksums Numpy
begin

text \<open>
  The data model and the payload decoders of \<^verbatim>\<open>protocol/sdf1.py\<close>: constants, message types,
  samples, status, frames, the FIFO word decoder and the reconstruction of sample times from
  sensor timestamp tags. The stream parser is in the theory \<open>StreamParser\<close>.
\<close>

unbundle bit_operations_syntax

section \<open>Constants\<close>

definition MAGIC :: bytes where
  "MAGIC = blit ''SDF1''"

definition VERSION :: nat where [const_simps]: "VERSION = 1"
definition HEADER_SIZE :: nat where [const_simps]: "HEADER_SIZE = 28"
definition DATA_VERSION :: nat where [const_simps]: "DATA_VERSION = 2"
definition DATA_HEADER_SIZE :: nat where [const_simps]: "DATA_HEADER_SIZE = 44"
definition MAX_HEADER_SIZE :: nat where [const_simps]: "MAX_HEADER_SIZE = 256"
definition CRC_SIZE :: nat where [const_simps]: "CRC_SIZE = 4"
definition MAX_PAYLOAD_SIZE :: nat where [const_simps]: "MAX_PAYLOAD_SIZE = 3577"
definition IIS_WORD_SIZE :: nat where [const_simps]: "IIS_WORD_SIZE = 7"
definition IIS_TIMESTAMP_TICK_US :: float64 where "IIS_TIMESTAMP_TICK_US = 25"
definition IIS_SAMPLE_PERIOD_US :: float64 where "IIS_SAMPLE_PERIOD_US = 75 / 2"

lemma MAGIC_bytes: "MAGIC = [0x53, 0x44, 0x46, 0x31]"
  by (simp add: MAGIC_def blit_def)

lemma length_MAGIC [simp]: "length MAGIC = 4"
  by (simp add: MAGIC_bytes)

section \<open>Data\<close>

datatype message_type = IIS3DWB_FIFO | JY61PL_SAMPLE | STATUS | CLI_RESPONSE

fun message_type_value :: "message_type \<Rightarrow> nat" where
  "message_type_value IIS3DWB_FIFO = 1"
| "message_type_value JY61PL_SAMPLE = 2"
| "message_type_value STATUS = 3"
| "message_type_value CLI_RESPONSE = 4"

text \<open>\<^verbatim>\<open>MessageType(value)\<close>; \<open>None\<close> is the \<^verbatim>\<open>ValueError\<close>.\<close>

definition message_type_of :: "nat \<Rightarrow> message_type option" where
  "message_type_of v =
     (if v = 1 then Some IIS3DWB_FIFO else if v = 2 then Some JY61PL_SAMPLE
      else if v = 3 then Some STATUS else if v = 4 then Some CLI_RESPONSE else None)"

record parser_stats =
  ps_frames :: nat
  ps_bytes_discarded :: nat
  ps_crc_errors :: nat
  ps_header_errors :: nat
  ps_unknown_versions :: nat
  ps_length_errors :: nat
  ps_unknown_types :: nat
  ps_payload_errors :: nat
  ps_sequence_gaps :: nat

definition empty_stats :: parser_stats where
  "empty_stats = \<lparr>ps_frames = 0, ps_bytes_discarded = 0, ps_crc_errors = 0, ps_header_errors = 0,
     ps_unknown_versions = 0, ps_length_errors = 0, ps_unknown_types = 0, ps_payload_errors = 0,
     ps_sequence_gaps = 0\<rparr>"

record jy61pl_sample =
  jy_raw :: "int list"
  jy_acceleration_g :: "float64 list"
  jy_temperature_c :: float64
  jy_angles_deg :: "float64 list"

record status_v1 =
  st_status_version :: nat
  st_active_transport :: nat
  st_pending_transport :: nat
  st_acquisition_state :: nat
  st_watermark_words :: nat
  st_free_data_buffers :: nat
  st_uart_credit_bytes :: nat
  st_data_queue_peak :: nat
  st_fifo_overruns :: nat
  st_source_drops :: nat
  st_transport_drops :: nat
  st_spi_dma_errors :: nat
  st_uart_dma_errors :: nat
  st_cdc_errors :: nat
  st_command_errors :: nat
  st_iis_stack_high_water_words :: nat
  st_transport_stack_high_water_words :: nat
  st_control_stack_high_water_words :: nat
  st_jy61pl_stack_high_water_words :: nat
  st_led_stack_high_water_words :: nat
  st_uptime_us :: nat

record iis_fifo_word =
  fw_raw_tag :: nat
  fw_sensor_tag :: nat
  fw_tag_counter :: nat
  fw_tag_parity :: nat
  fw_acceleration_raw :: "(int \<times> int \<times> int) option"
  fw_temperature_raw :: "int option"
  fw_timestamp_ticks :: "nat option"
  fw_raw_data :: bytes

record iis_sample =
  is_timestamp_us :: float64
  is_acceleration_raw :: "int \<times> int \<times> int"
  is_acceleration_g :: "float64 \<times> float64 \<times> float64"

text \<open>A \<^verbatim>\<open>uuid.UUID\<close> is its 128-bit integer.\<close>

record frame =
  fr_message_type :: message_type
  fr_flags :: nat
  fr_sequence :: nat
  fr_timestamp_us :: nat
  fr_item_count :: nat
  fr_payload :: bytes
  fr_raw_bytes :: bytes
  fr_device_uuid :: "nat option"
  fr_iis_ts_us :: "float64 list option"
  fr_iis_accel_g :: "(float64 \<times> float64 \<times> float64) list option"
  fr_iis_raw :: "(int \<times> int \<times> int) list option"
  fr_jy61pl :: "jy61pl_sample option"
  fr_status :: "status_v1 option"
  fr_cli_text :: "pystr option"

section \<open>FIFO words\<close>

definition decode_iis_word :: "bytes \<Rightarrow> nat \<Rightarrow> iis_fifo_word" where
  "decode_iis_word payload offset =
     (let raw_tag = unat (payload ! offset);
          data = slice payload (offset + 1) (offset + IIS_WORD_SIZE);
          sensor_tag = drop_bit 3 raw_tag
      in \<lparr>fw_raw_tag = raw_tag, fw_sensor_tag = sensor_tag,
          fw_tag_counter = drop_bit 1 raw_tag AND 3, fw_tag_parity = raw_tag AND 1,
          fw_acceleration_raw =
            (if sensor_tag = 2 then Some (s16 (field data 0 2), s16 (field data 2 2), s16 (field data 4 2))
             else None),
          fw_temperature_raw = (if sensor_tag = 3 then Some (s16 (field data 0 2)) else None),
          fw_timestamp_ticks = (if sensor_tag = 4 then Some (field data 0 4) else None),
          fw_raw_data = data\<rparr>)"

definition decode_iis_words :: "bytes \<Rightarrow> iis_fifo_word list res" where
  "decode_iis_words payload =
     (if length payload mod IIS_WORD_SIZE \<noteq> 0
      then Inl (ValueError ''IIS FIFO payload is not aligned to seven-byte words'')
      else Inr (map (\<lambda>k. decode_iis_word payload (k * IIS_WORD_SIZE))
                 [0..<length payload div IIS_WORD_SIZE]))"

text \<open>The properties of \<^verbatim>\<open>Frame\<close>.\<close>

definition iis_words :: "frame \<Rightarrow> iis_fifo_word list option res" where
  "iis_words f =
     (if fr_message_type f \<noteq> IIS3DWB_FIFO \<or> fr_payload f = [] then Inr None
      else rbind (decode_iis_words (fr_payload f)) (\<lambda>ws. Inr (Some ws)))"

definition iis_samples :: "frame \<Rightarrow> iis_sample list option" where
  "iis_samples f =
     (case (fr_iis_ts_us f, fr_iis_raw f, fr_iis_accel_g f) of
        (Some ts, Some raw, Some acc) \<Rightarrow>
          Some (map (\<lambda>(t, r, a). \<lparr>is_timestamp_us = t, is_acceleration_raw = r,
                                  is_acceleration_g = a\<rparr>) (zip ts (zip raw acc)))
      | _ \<Rightarrow> None)"

definition archive_export :: "frame \<Rightarrow> bool" where
  "archive_export f \<longleftrightarrow> fr_flags f AND 0x8000 \<noteq> 0"

section \<open>Sample times\<close>

record iis_clock =
  ic_last_ticks :: "nat option"
  ic_tick_epoch :: nat
  ic_carry_us :: "float64 option"

definition IisTimestampReconstructor :: iis_clock where
  "IisTimestampReconstructor = \<lparr>ic_last_ticks = None, ic_tick_epoch = 0, ic_carry_us = None\<rparr>"

fun extend_ticks :: "iis_clock \<Rightarrow> nat list \<Rightarrow> nat list \<times> iis_clock" where
  "extend_ticks c [] = ([], c)"
| "extend_ticks c (v # vs) =
     (let epoch = (case ic_last_ticks c of
                     Some l \<Rightarrow> if v < l \<and> 0x80000000 < l - v then ic_tick_epoch c + 2 ^ 32
                              else ic_tick_epoch c
                   | None \<Rightarrow> ic_tick_epoch c);
          (rest, c') = extend_ticks (c\<lparr>ic_last_ticks := Some v, ic_tick_epoch := epoch\<rparr>) vs
      in ((epoch + v) # rest, c'))"

definition scale_g :: "int \<Rightarrow> float64" where
  "scale_g v = fmul (of_pyint v) (fl (61 / 1000000))"

definition scale_xyz :: "int \<times> int \<times> int \<Rightarrow> float64 \<times> float64 \<times> float64" where
  "scale_xyz r = (case r of (x, y, z) \<Rightarrow> (scale_g x, scale_g y, scale_g z))"

text \<open>\<open>n * IIS_SAMPLE_PERIOD_US\<close> for a Python int \<open>n\<close>.\<close>

definition periods :: "int \<Rightarrow> float64" where
  "periods n = fmul (of_pyint n) IIS_SAMPLE_PERIOD_US"

text \<open>
  The starts of the segments between timestamp tags (before the first tag, after each tag), for
  a payload that has tags: the sensor times moved so that the last sample meets the frame's
  timestamp, the first segment continuing the carried clock or back-dated from the first tag.
\<close>

definition tagged_starts ::
  "numpy \<Rightarrow> iis_clock \<Rightarrow> nat list \<Rightarrow> nat list \<Rightarrow> nat list \<Rightarrow> nat \<Rightarrow> float64 list \<times> iis_clock" where
  "tagged_starts np c accel_index ts_index ticks frame_timestamp_us =
     (let (extended, c') = extend_ticks c ticks;
          sensor_times = map (\<lambda>t. fmul (of_pyint (int t)) IIS_TIMESTAMP_TICK_US) extended;
          after_anchor = np_count_nonzero np (map (\<lambda>a. last ts_index < a) accel_index);
          anchor_mcu_us = fsub (of_pyint (int frame_timestamp_us))
                               (periods (max (int after_anchor - 1) 0));
          tag_times = map (\<lambda>t. fadd t (fsub anchor_mcu_us (last sensor_times))) sensor_times;
          before_first = np_count_nonzero np (map (\<lambda>a. a < hd ts_index) accel_index);
          start0 = (case ic_carry_us c of Some carry \<Rightarrow> carry
                    | None \<Rightarrow> fsub (hd tag_times) (periods (int before_first)))
      in (start0 # tag_times, c'))"

definition untagged_starts :: "iis_clock \<Rightarrow> nat \<Rightarrow> nat \<Rightarrow> float64 list" where
  "untagged_starts c count frame_timestamp_us =
     [case ic_carry_us c of Some carry \<Rightarrow> carry
      | None \<Rightarrow> fsub (of_pyint (int frame_timestamp_us)) (periods (int count - 1))]"

text \<open>The vectorised assignment of times: the start of a sample's segment plus its rank there.\<close>

definition segment_times :: "numpy \<Rightarrow> float64 list \<Rightarrow> nat list \<Rightarrow> float64 list" where
  "segment_times np starts segment =
     (let counts = np_bincount np segment (length starts);
          segment_begin = map2 (-) (np_cumsum np counts) counts;
          rank = map (\<lambda>i. int i - int (segment_begin ! (segment ! i))) [0..<length segment]
      in map2 (\<lambda>s w. fadd (starts ! s) (periods w)) segment rank)"

definition process_payload ::
  "numpy \<Rightarrow> iis_clock \<Rightarrow> bytes \<Rightarrow> nat \<Rightarrow>
     (float64 list \<times> (float64 \<times> float64 \<times> float64) list \<times> (int \<times> int \<times> int) list) \<times> iis_clock" where
  "process_payload np c payload frame_timestamp_us =
     (let words = np_frombuffer np payload;
          sensor_tag = map (\<lambda>w. drop_bit 3 (iv_tag w)) words;
          accel_index = np_flatnonzero np (map (\<lambda>t. t = 2) sensor_tag);
          ts_index = np_flatnonzero np (map (\<lambda>t. t = 4) sensor_tag);
          count = length accel_index
      in if count = 0 then (([], [], []), c)
         else
           let raw = map (\<lambda>i. iv_xyz (words ! i)) accel_index;
               (starts, c') =
                 (if ts_index \<noteq> []
                  then tagged_starts np c accel_index ts_index
                         (map (\<lambda>i. iv_ts (words ! i)) ts_index) frame_timestamp_us
                  else (untagged_starts c count frame_timestamp_us, c));
               segment =
                 (if ts_index \<noteq> [] then map (np_searchsorted_index np ts_index) accel_index
                  else replicate count 0);
               times = segment_times np starts segment
           in ((times, map scale_xyz raw, raw),
               c'\<lparr>ic_carry_us := Some (fadd (last times) IIS_SAMPLE_PERIOD_US)\<rparr>))"

section \<open>Samples and status\<close>

definition decode_jy61pl :: "bytes \<Rightarrow> jy61pl_sample" where
  "decode_jy61pl payload =
     (let raw = map (\<lambda>k. s16 (field payload (2 * k) 2)) [0..<7]
      in \<lparr>jy_raw = raw,
          jy_acceleration_g = map (\<lambda>v. fdiv (fmul (of_pyint v) 16) 32768) (take 3 raw),
          jy_temperature_c = fdiv (of_pyint (raw ! 3)) 100,
          jy_angles_deg = map (\<lambda>v. fdiv (fmul (of_pyint v) 180) 32768) (drop 4 raw)\<rparr>)"

definition decode_status :: "bytes \<Rightarrow> status_v1" where
  "decode_status p =
     \<lparr>st_status_version = field p 0 1, st_active_transport = field p 1 1,
      st_pending_transport = field p 2 1, st_acquisition_state = field p 3 1,
      st_watermark_words = field p 4 2, st_free_data_buffers = field p 6 2,
      st_uart_credit_bytes = field p 8 4, st_data_queue_peak = field p 12 4,
      st_fifo_overruns = field p 16 4, st_source_drops = field p 20 4,
      st_transport_drops = field p 24 4, st_spi_dma_errors = field p 28 4,
      st_uart_dma_errors = field p 32 4, st_cdc_errors = field p 36 4,
      st_command_errors = field p 40 4,
      st_iis_stack_high_water_words = field p 44 2,
      st_transport_stack_high_water_words = field p 46 2,
      st_control_stack_high_water_words = field p 48 2,
      st_jy61pl_stack_high_water_words = field p 50 2,
      st_led_stack_high_water_words = field p 52 2,
      st_uptime_us = field p 56 8\<rparr>"

lemma message_type_of_value [simp]: "message_type_of (message_type_value t) = Some t"
  by (cases t) (auto simp: message_type_of_def)

lemma message_type_of_Some: "message_type_of v = Some t \<longleftrightarrow> v = message_type_value t"
  by (cases t) (auto simp: message_type_of_def)

end
