(* ===== verification/SampleTimes.thy ===== *)
theory SampleTimes
  imports Sdf1
begin

text \<open>
  The vectorised sample clock of \<^verbatim>\<open>IisTimestampReconstructor.process_payload\<close> against the
  per-word walker its documentation describes: one pass over the FIFO words that keeps the start
  of the current segment and the number of samples since. The two agree on every payload, clock
  and frame timestamp, rounding included, whenever numpy behaves as documented. Exact
  arithmetic then places the last sample of a frame at the frame's own timestamp.
\<close>

section \<open>The per-word walker\<close>

text \<open>
  \<open>starts\<close> holds the start of the current segment and of those after it, \<open>k\<close> the number of
  samples since the current start. Tag 2 is an acceleration word, tag 4 a timestamp.
\<close>

fun walk_times :: "float64 list \<Rightarrow> nat \<Rightarrow> nat list \<Rightarrow> float64 list" where
  "walk_times starts k [] = []"
| "walk_times starts k (t # ts) =
     (if t = 2 then fadd (hd starts) (periods (int k)) # walk_times starts (Suc k) ts
      else if t = 4 then walk_times (tl starts) 0 ts
      else walk_times starts k ts)"

definition word_tags :: "iis_view list \<Rightarrow> nat list" where
  "word_tags words = map (\<lambda>w. drop_bit 3 (iv_tag w)) words"

text \<open>Samples before the first tag and after the last one.\<close>

definition samples_before :: "nat list \<Rightarrow> nat" where
  "samples_before tags = count_list (takeWhile (\<lambda>t. t \<noteq> 4) tags) 2"

definition samples_after :: "nat list \<Rightarrow> nat" where
  "samples_after tags = count_list (takeWhile (\<lambda>t. t \<noteq> 4) (rev tags)) 2"

definition walk_starts :: "iis_clock \<Rightarrow> nat list \<Rightarrow> nat list \<Rightarrow> nat \<Rightarrow> float64 list \<times> iis_clock" where
  "walk_starts c tags ticks frame_timestamp_us =
     (if 4 \<in> set tags then
        let (extended, c') = extend_ticks c ticks;
            sensor = map (\<lambda>t. fmul (of_pyint (int t)) IIS_TIMESTAMP_TICK_US) extended;
            anchor = fsub (of_pyint (int frame_timestamp_us))
                          (periods (max (int (samples_after tags) - 1) 0));
            tag_times = map (\<lambda>t. fadd t (fsub anchor (last sensor))) sensor
        in ((case ic_carry_us c of Some carry \<Rightarrow> carry
             | None \<Rightarrow> fsub (hd tag_times) (periods (int (samples_before tags)))) # tag_times, c')
      else ([case ic_carry_us c of Some carry \<Rightarrow> carry
             | None \<Rightarrow> fsub (of_pyint (int frame_timestamp_us))
                            (periods (int (count_list tags 2) - 1))], c))"

definition walk_payload ::
  "iis_clock \<Rightarrow> bytes \<Rightarrow> nat \<Rightarrow>
     (float64 list \<times> (float64 \<times> float64 \<times> float64) list \<times> (int \<times> int \<times> int) list) \<times> iis_clock" where
  "walk_payload c payload frame_timestamp_us =
     (let words = map view_word (chunks7 payload);
          tags = word_tags words;
          raw = map iv_xyz (filter (\<lambda>w. drop_bit 3 (iv_tag w) = 2) words);
          ticks = map iv_ts (filter (\<lambda>w. drop_bit 3 (iv_tag w) = 4) words)
      in if raw = [] then (([], [], []), c)
         else
           let (starts, c') = walk_starts c tags ticks frame_timestamp_us;
               times = walk_times starts 0 tags
           in ((times, map scale_xyz raw, raw),
               c'\<lparr>ic_carry_us := Some (fadd (last times) IIS_SAMPLE_PERIOD_US)\<rparr>))"

section \<open>Index arrays\<close>

definition index_of :: "('a \<Rightarrow> bool) \<Rightarrow> 'a list \<Rightarrow> nat list" where
  "index_of P xs = filter (\<lambda>i. P (xs ! i)) [0..<length xs]"

lemma index_of_append:
  "index_of P (xs @ ys) = index_of P xs @ map (\<lambda>i. length xs + i) (index_of P ys)"
proof -
  have "[0..<length xs + length ys] = [0..<length xs] @ map (\<lambda>i. length xs + i) [0..<length ys]"
    by (simp add: upt_add_eq_append [of 0] map_add_upt add.commute)
  moreover have "filter (\<lambda>i. P ((xs @ ys) ! i)) [0..<length xs] = filter (\<lambda>i. P (xs ! i)) [0..<length xs]"
    by (rule filter_cong) (auto simp: nth_append)
  moreover have "filter (\<lambda>i. P ((xs @ ys) ! i)) (map (\<lambda>i. length xs + i) [0..<length ys]) =
      map (\<lambda>i. length xs + i) (filter (\<lambda>i. P (ys ! i)) [0..<length ys])"
    by (simp add: filter_map o_def nth_append)
  ultimately show ?thesis by (simp add: index_of_def)
qed

lemma index_of_single: "index_of P [x] = (if P x then [0] else [])"
  by (simp add: index_of_def)

lemma index_of_Nil [simp]: "index_of P [] = []"
  by (simp add: index_of_def)

lemma index_of_Cons: "index_of P (x # xs) = (if P x then [0] else []) @ map Suc (index_of P xs)"
  using index_of_append [of P "[x]" xs] by (simp add: index_of_single)

lemma index_of_less: "i \<in> set (index_of P xs) \<Longrightarrow> i < length xs"
  by (auto simp: index_of_def)

lemma index_of_map: "map (\<lambda>i. f (xs ! i)) (index_of P xs) = map f (filter P xs)"
  by (induction xs) (auto simp: index_of_Cons o_def)

lemma length_index_of: "length (index_of (\<lambda>t. t = v) xs) = count_list xs v"
  by (induction xs) (auto simp: index_of_Cons)

lemma sorted_index_of: "sorted (index_of P xs)"
  by (simp add: index_of_def sorted_wrt_filter)

lemma index_of_empty: "index_of P xs = [] \<longleftrightarrow> (\<forall>x\<in>set xs. \<not> P x)"
  by (induction xs) (auto simp: index_of_Cons)

section \<open>Segments\<close>

text \<open>The segment of each acceleration word: the number of tags in front of it.\<close>

fun segments :: "nat \<Rightarrow> nat list \<Rightarrow> nat list" where
  "segments s [] = []"
| "segments s (t # ts) =
     (if t = 2 then s # segments s ts else if t = 4 then segments (Suc s) ts else segments s ts)"

lemma segments_snoc:
  "segments s (ts @ [t]) = segments s ts @ (if t = 2 then [s + count_list ts 4] else [])"
  by (induction ts arbitrary: s) auto

lemma segments_index:
  "segments 0 tags =
     map (\<lambda>a. length (filter (\<lambda>i. i < a) (index_of (\<lambda>t. t = 4) tags))) (index_of (\<lambda>t. t = 2) tags)"
proof (induction tags rule: rev_induct)
  case (snoc t tags)
  define ts where "ts = index_of (\<lambda>t. t = 4) tags"
  define ac where "ac = index_of (\<lambda>t. t = 2) tags"
  have less: "\<And>i. i \<in> set ts \<Longrightarrow> i < length tags" "\<And>i. i \<in> set ac \<Longrightarrow> i < length tags"
    by (auto simp: ts_def ac_def dest: index_of_less)
  have i4: "index_of (\<lambda>t. t = 4) (tags @ [t]) = ts @ (if t = 4 then [length tags] else [])"
    and i2: "index_of (\<lambda>t. t = 2) (tags @ [t]) = ac @ (if t = 2 then [length tags] else [])"
    by (simp_all add: index_of_append index_of_single ts_def ac_def)
  have old: "map (\<lambda>a. length (filter (\<lambda>i. i < a) (ts @ (if t = 4 then [length tags] else [])))) ac =
      map (\<lambda>a. length (filter (\<lambda>i. i < a) ts)) ac"
  proof (intro map_cong refl)
    fix a assume "a \<in> set ac"
    then have "\<not> length tags < a" using less(2) [of a] by simp
    then show "length (filter (\<lambda>i. i < a) (ts @ (if t = 4 then [length tags] else []))) =
        length (filter (\<lambda>i. i < a) ts)" by simp
  qed
  have "filter (\<lambda>i. i < length tags) ts = ts" using less(1) by (simp add: filter_id_conv)
  then have new: "length (filter (\<lambda>i. i < length tags) ts) = count_list tags 4"
    by (simp add: ts_def length_index_of)
  show ?case
    using snoc old new by (simp add: segments_snoc i4 i2 ts_def [symmetric] ac_def [symmetric])
qed simp

lemma segments_ge: "x \<in> set (segments s tags) \<Longrightarrow> s \<le> x"
  by (induction s tags rule: segments.induct) (auto split: if_splits)

lemma segments_le: "x \<in> set (segments s tags) \<Longrightarrow> x \<le> s + count_list tags 4"
  by (induction s tags rule: segments.induct) (auto split: if_splits)

lemma segments_no_tag: "4 \<notin> set tags \<Longrightarrow> segments s tags = replicate (count_list tags 2) s"
  by (induction s tags rule: segments.induct) auto

section \<open>Ranks inside segments\<close>

lemma sum_count_list:
  "sum_list (map (count_list xs) [0..<k]) = length (filter (\<lambda>x. x < k) xs)"
proof (induction k)
  case (Suc k)
  have "length (filter (\<lambda>x. x < Suc k) xs) = length (filter (\<lambda>x. x < k) xs) + count_list xs k"
    by (induction xs) auto
  then show ?case using Suc by simp
qed simp

lemma segment_times_eq:
  assumes ok: "numpy_ok np" and b: "\<And>x. x \<in> set seg \<Longrightarrow> x < length starts"
  shows "segment_times np starts seg =
    map (\<lambda>i. fadd (starts ! (seg ! i))
               (periods (int i - int (length (filter (\<lambda>x. x < seg ! i) seg))))) [0..<length seg]"
proof -
  define counts where "counts = map (count_list seg) [0..<length starts]"
  have counts: "np_bincount np seg (length starts) = counts"
    unfolding counts_def by (rule numpy_bincount [OF ok b])
  have cum: "np_cumsum np counts = map (\<lambda>i. sum_list (take (Suc i) counts)) [0..<length starts]"
    using numpy_cumsum [OF ok, of counts] by (simp add: counts_def)
  have beg: "map2 (-) (np_cumsum np counts) counts ! k = length (filter (\<lambda>x. x < k) seg)"
    if "k < length starts" for k
  proof -
    have "take (Suc k) counts = map (count_list seg) [0..<Suc k]"
      using that by (simp add: counts_def take_map)
    then have "sum_list (take (Suc k) counts) = length (filter (\<lambda>x. x < Suc k) seg)"
      by (simp only: sum_count_list)
    moreover have "length (filter (\<lambda>x. x < Suc k) seg) = length (filter (\<lambda>x. x < k) seg) + count_list seg k"
      by (induction seg) auto
    ultimately show ?thesis using that cum by (simp add: counts_def)
  qed
  define sb where "sb = map2 (-) (np_cumsum np counts) counts"
  have rank: "sb ! (seg ! i) = length (filter (\<lambda>x. x < seg ! i) seg)" if "i < length seg" for i
    unfolding sb_def using that by (intro beg b) simp
  show ?thesis
    unfolding segment_times_def Let_def counts sb_def [symmetric]
    by (rule nth_equalityI) (simp_all add: rank)
qed

text \<open>The walker in the same closed form.\<close>

lemma walk_times_closed:
  assumes "s + count_list tags 4 < length starts"
  shows "walk_times (drop s starts) k tags =
    map (\<lambda>i. let seg = segments s tags; j = seg ! i in
           fadd (starts ! j) (periods ((if j = s then int k else 0) + int i
             - int (length (filter (\<lambda>x. x < j) seg))))) [0..<length (segments s tags)]"
  using assms
proof (induction tags arbitrary: s k)
  case Nil
  then show ?case by simp
next
  case (Cons t ts)
  have upt: "[0..<Suc n] = 0 # map Suc [0..<n]" for n
    by (simp add: upt_conv_Cons map_Suc_upt del: upt_Suc)
  consider "t = 2" | "t = 4" | "t \<noteq> 2" "t \<noteq> 4" by blast
  then show ?case
  proof cases
    case 1
    define L where "L = segments s ts"
    have IH: "walk_times (drop s starts) (Suc k) ts =
      map (\<lambda>i. fadd (starts ! (L ! i)) (periods ((if L ! i = s then int (Suc k) else 0) + int i
             - int (length (filter (\<lambda>x. x < L ! i) L))))) [0..<length L]"
      using Cons 1 by (simp add: Let_def L_def)
    have ge: "\<And>x. x \<in> set L \<Longrightarrow> s \<le> x" by (auto simp: L_def dest: segments_ge)
    then have none: "filter (\<lambda>x. x < s) L = []" by (fastforce simp: filter_empty_conv)
    have hd: "hd (drop s starts) = starts ! s" using Cons.prems by (simp add: hd_drop_conv_nth)
    have "map (\<lambda>i. fadd (starts ! (L ! i)) (periods ((if L ! i = s then int (Suc k) else 0) + int i
             - int (length (filter (\<lambda>x. x < L ! i) L))))) [0..<length L] =
      map (\<lambda>i. fadd (starts ! (L ! i)) (periods ((if L ! i = s then int k else 0) + int (Suc i)
             - int (length (filter (\<lambda>x. x < L ! i) (s # L)))))) [0..<length L]"
      (is "map ?f _ = map ?g _")
    proof (rule map_cong)
      fix i assume "i \<in> set [0..<length L]"
      then have "s \<le> L ! i" using ge by simp
      then show "?f i = ?g i" using none by (cases "L ! i = s") (auto simp: algebra_simps)
    qed simp
    then have "walk_times (drop s starts) k (t # ts) =
        fadd (starts ! s) (periods (int k)) # map ?g [0..<length L]"
      using 1 by (simp only: walk_times.simps IH hd if_True simp_thms)
    then show ?thesis using 1 none
      by (simp add: L_def [symmetric] upt Let_def o_def del: upt_Suc)
  next
    case 2
    have "walk_times (drop (Suc s) starts) 0 ts =
      map (\<lambda>i. let seg = segments (Suc s) ts; j = seg ! i in
           fadd (starts ! j) (periods (int i - int (length (filter (\<lambda>x. x < j) seg)))))
        [0..<length (segments (Suc s) ts)]"
      using Cons.IH [of "Suc s" 0] Cons.prems 2 by (simp add: Let_def)
    moreover have "segments (Suc s) ts ! i \<noteq> s" if "i < length (segments (Suc s) ts)" for i
      using segments_ge [of "segments (Suc s) ts ! i" "Suc s" ts] that by auto
    ultimately show ?thesis using 2 by (simp add: Let_def tl_drop drop_Suc)
  next
    case 3
    then show ?thesis using Cons by simp
  qed
qed

lemma segment_times_walk:
  assumes "numpy_ok np" and "count_list tags 4 < length starts"
  shows "segment_times np starts (segments 0 tags) = walk_times starts 0 tags"
proof -
  have "\<And>x. x \<in> set (segments 0 tags) \<Longrightarrow> x < length starts"
    using segments_le [of _ 0 tags] assms(2) by fastforce
  then show ?thesis
    using segment_times_eq [OF assms(1), of "segments 0 tags" starts]
      walk_times_closed [of 0 tags starts 0] assms(2)
    by (simp add: Let_def cong: map_cong)
qed

section \<open>Anchors\<close>

lemma takeWhile_first: "v \<notin> set xs \<Longrightarrow> takeWhile (\<lambda>t. t \<noteq> v) (xs @ v # ys) = xs"
  by (induction xs) auto

lemma count_before:
  assumes "4 \<in> set tags"
  shows "length (filter id (map (\<lambda>a. a < hd (index_of (\<lambda>t. t = 4) tags)) (index_of (\<lambda>t. t = 2) tags)))
    = samples_before tags"
proof -
  obtain xs ys where t: "tags = xs @ 4 # ys" "4 \<notin> set xs"
    using assms split_list_first by fastforce
  have x4: "index_of (\<lambda>t. t = 4) xs = []" using t(2) by (auto simp: index_of_empty)
  have h: "hd (index_of (\<lambda>t. t = 4) tags) = length xs"
    by (simp add: t(1) index_of_append index_of_Cons x4)
  have "filter (\<lambda>a. a < length xs) (index_of (\<lambda>t. t = 2) tags) = index_of (\<lambda>t. t = 2) xs"
    by (auto simp: t(1) index_of_append filter_id_conv filter_empty_conv dest: index_of_less)
  then show ?thesis
    using t h by (simp add: filter_map o_def samples_before_def length_index_of takeWhile_first)
qed

lemma count_after:
  assumes "4 \<in> set tags"
  shows "length (filter id (map (\<lambda>a. last (index_of (\<lambda>t. t = 4) tags) < a) (index_of (\<lambda>t. t = 2) tags)))
    = samples_after tags"
proof -
  obtain xs ys where t: "tags = xs @ 4 # ys" "4 \<notin> set ys"
    using assms split_list_last by fastforce
  have y4: "index_of (\<lambda>t. t = 4) ys = []" using t(2) by (auto simp: index_of_empty)
  have h: "last (index_of (\<lambda>t. t = 4) tags) = length xs"
    by (simp add: t(1) index_of_append index_of_Cons y4)
  have "filter (\<lambda>a. length xs < a) (index_of (\<lambda>t. t = 2) tags) =
      map (\<lambda>i. length xs + Suc i) (index_of (\<lambda>t. t = 2) ys)"
    by (auto simp: t(1) index_of_append index_of_Cons filter_id_conv filter_empty_conv o_def
        dest: index_of_less)
  then show ?thesis
    using t h by (simp add: filter_map o_def samples_after_def length_index_of takeWhile_first)
qed

lemma length_extend_ticks: "length (fst (extend_ticks c ticks)) = length ticks"
  by (induction c ticks rule: extend_ticks.induct) (auto simp: Let_def split: prod.splits)

lemma length_walk_starts:
  assumes "length ticks = count_list tags 4"
  shows "count_list tags 4 < length (fst (walk_starts c tags ticks ts))"
proof (cases "4 \<in> set tags")
  case True
  then show ?thesis using assms length_extend_ticks [of c ticks]
    by (auto simp: walk_starts_def Let_def split: prod.splits)
next
  case False
  then show ?thesis by (simp add: walk_starts_def count_list_0_iff)
qed

section \<open>The vectorised routine is the walker\<close>

lemma index_of_tags: "index_of P (map f xs) = index_of (\<lambda>x. P (f x)) xs"
  by (induction xs) (auto simp: index_of_Cons)

lemma flatnonzero_index_of: "numpy_ok np \<Longrightarrow> np_flatnonzero np (map P xs) = index_of P xs"
  by (auto simp: numpy_flatnonzero index_of_def intro: filter_cong)

lemma process_starts_walk:
  assumes ok: "numpy_ok np"
  shows "(if index_of (\<lambda>t. t = 4) tags \<noteq> []
          then tagged_starts np c (index_of (\<lambda>t. t = 2) tags) (index_of (\<lambda>t. t = 4) tags) ticks fts
          else (untagged_starts c (length (index_of (\<lambda>t. t = 2) tags)) fts, c)) =
    walk_starts c tags ticks fts"
proof (cases "4 \<in> set tags")
  case True
  then have "index_of (\<lambda>t. t = 4) tags \<noteq> []" by (simp add: index_of_empty)
  then show ?thesis using True count_before [OF True] count_after [OF True]
    by (simp add: walk_starts_def tagged_starts_def numpy_count_nonzero [OF ok] split: prod.splits)
next
  case False
  then have "index_of (\<lambda>t. t = 4) tags = []" by (auto simp: index_of_empty)
  then show ?thesis using False by (simp add: walk_starts_def untagged_starts_def length_index_of)
qed

lemma process_segments:
  assumes ok: "numpy_ok np"
  shows "(if index_of (\<lambda>t. t = 4) tags \<noteq> []
          then map (np_searchsorted_index np (index_of (\<lambda>t. t = 4) tags)) (index_of (\<lambda>t. t = 2) tags)
          else replicate (length (index_of (\<lambda>t. t = 2) tags)) 0) = segments 0 tags"
proof (cases "4 \<in> set tags")
  case True
  then show ?thesis
    by (simp add: index_of_empty segments_index numpy_searchsorted [OF ok] sorted_index_of)
next
  case False
  then have "index_of (\<lambda>t. t = 4) tags = []" by (auto simp: index_of_empty)
  then show ?thesis using False by (simp add: segments_no_tag length_index_of)
qed

lemma process_payload_walk:
  assumes ok: "numpy_ok np" and al: "7 dvd length payload"
  shows "process_payload np c payload fts = walk_payload c payload fts"
proof -
  define words where "words = map view_word (chunks7 payload)"
  define tags where "tags = word_tags words"
  define ticks where "ticks = map iv_ts (filter (\<lambda>w. drop_bit 3 (iv_tag w) = 4) words)"
  define raw where "raw = map iv_xyz (filter (\<lambda>w. drop_bit 3 (iv_tag w) = 2) words)"
  note fold = words_def [symmetric] tags_def [symmetric] ticks_def [symmetric] raw_def [symmetric]
  have idx: "index_of (\<lambda>t. t = v) tags = index_of (\<lambda>w. drop_bit 3 (iv_tag w) = v) words" for v
    by (simp add: tags_def word_tags_def index_of_tags)
  have raw: "map (\<lambda>i. iv_xyz (words ! i)) (index_of (\<lambda>t. t = 2) tags) = raw"
    and ticks: "map (\<lambda>i. iv_ts (words ! i)) (index_of (\<lambda>t. t = 4) tags) = ticks"
    by (simp_all add: idx index_of_map raw_def ticks_def)
  have len: "length raw = length (index_of (\<lambda>t. t = 2) tags)" unfolding raw [symmetric] by simp
  have lt: "length ticks = count_list tags 4" unfolding ticks [symmetric] by (simp add: length_index_of)
  obtain starts c' where st: "walk_starts c tags ticks fts = (starts, c')" by fastforce
  have "count_list tags 4 < length starts" using length_walk_starts [OF lt, of c fts] st by simp
  note times = segment_times_walk [OF ok this]
  have buf: "np_frombuffer np payload = words" by (simp add: words_def numpy_frombuffer [OF ok al])
  show ?thesis
  proof (cases "raw = []")
    case True
    then have "filter (\<lambda>w. drop_bit 3 (iv_tag w) = 2) words = []" by (simp add: raw_def)
    then show ?thesis using True len
      by (simp add: process_payload_def walk_payload_def buf fold word_tags_def [symmetric] Let_def
          flatnonzero_index_of [OF ok])
  next
    case False
    then have nf: "filter (\<lambda>w. drop_bit 3 (iv_tag w) = 2) words \<noteq> []" by (auto simp: raw_def)
    have z: "map (\<lambda>w. drop_bit 3 (iv_tag w)) words = tags" by (simp add: tags_def word_tags_def)
    have "process_payload np c payload fts =
      (let (starts, c') = walk_starts c tags ticks fts; times = segment_times np starts (segments 0 tags)
       in ((times, map scale_xyz raw, raw),
           c'\<lparr>ic_carry_us := Some (fadd (last times) IIS_SAMPLE_PERIOD_US)\<rparr>))"
      unfolding process_payload_def Let_def buf z flatnonzero_index_of [OF ok] raw ticks
        process_starts_walk [OF ok] process_segments [OF ok]
      using False len by auto
    then show ?thesis using False st times nf
      by (simp add: walk_payload_def fold Let_def)
  qed
qed

section \<open>The last sample meets the frame timestamp\<close>

lemma walk_times_append:
  "\<exists>k'. walk_times starts k (xs @ ys) =
        walk_times starts k xs @ walk_times (drop (count_list xs 4) starts) k' ys"
proof (induction xs arbitrary: starts k)
  case (Cons x xs)
  consider "x = 2" | "x = 4" | "x \<noteq> 2" "x \<noteq> 4" by blast
  then show ?case
  proof cases
    case 1
    then show ?thesis using Cons.IH [of starts "Suc k"] by simp
  next
    case 2
    then show ?thesis using Cons.IH [of "tl starts" 0] by (simp add: drop_Suc)
  next
    case 3
    then show ?thesis using Cons.IH [of starts k] by simp
  qed
qed auto

lemma walk_times_untagged:
  "4 \<notin> set ys \<Longrightarrow>
     walk_times starts k ys = map (\<lambda>i. fadd (hd starts) (periods (int (k + i)))) [0..<count_list ys 2]"
proof (induction ys arbitrary: k)
  case (Cons y ys)
  have "[0..<Suc n] = 0 # map Suc [0..<n]" for n
    by (simp add: upt_conv_Cons map_Suc_upt del: upt_Suc)
  then show ?case using Cons.IH [of "Suc k"] Cons.IH [of k] Cons.prems
    by (auto simp: o_def algebra_simps simp del: upt_Suc)
qed simp

lemma last_walk_times:
  assumes "4 \<in> set tags" and "0 < samples_after tags" and "length starts = Suc (count_list tags 4)"
  shows "last (walk_times starts 0 tags) =
    fadd (last starts) (periods (int (samples_after tags) - 1))"
proof -
  obtain xs ys where t: "tags = xs @ 4 # ys" "4 \<notin> set ys"
    using assms(1) split_list_last by fastforce
  have n: "samples_after tags = count_list ys 2"
    using t by (simp add: samples_after_def takeWhile_first)
  have ys0: "count_list ys 4 = 0" using t(2) by (simp add: count_list_0_iff)
  define rest where "rest = tl (drop (count_list xs 4) starts)"
  have "length rest = 1" using assms(3) ys0 by (simp add: rest_def t(1))
  then obtain z where z: "rest = [z]" by (auto simp: length_Suc_conv)
  have "last starts = last (drop (Suc (count_list xs 4)) starts)"
    using assms(3) ys0 by (simp add: t(1) last_drop)
  then have lz: "last starts = z" using z by (simp add: rest_def drop_Suc tl_drop)
  obtain k' where "walk_times starts 0 tags =
      walk_times starts 0 xs @ walk_times (drop (count_list xs 4) starts) k' (4 # ys)"
    using walk_times_append [of starts 0 xs "4 # ys"] t(1) by auto
  then have "walk_times starts 0 tags = walk_times starts 0 xs @
      map (\<lambda>i. fadd z (periods (int i))) [0..<count_list ys 2]"
    using walk_times_untagged [OF t(2), of rest 0] z by (simp add: rest_def)
  then show ?thesis using assms(2) n lz by (simp add: last_map last_append of_nat_diff)
qed

text \<open>The ranges in which the clock arithmetic is exact.\<close>

lemma of_pyint_exact: "n < 2 ^ 53 \<Longrightarrow> of_pyint (int n) = of_nat n"
proof -
  assume "n < 2 ^ 53"
  then have "\<bar>int n\<bar> < 2 ^ 53" by (metis abs_of_nat of_nat_less_iff of_nat_numeral of_nat_power)
  then have "fl (of_int (int n)) = of_int (int n)" by (rule fl_int)
  then show ?thesis by (simp add: of_pyint_def)
qed

lemma rat_less_power: "n < 2 ^ k \<Longrightarrow> (of_nat n :: rat) < 2 ^ k"
  by (metis of_nat_less_iff of_nat_numeral of_nat_power)

lemma periods_exact:
  assumes "n < 2 ^ 40"
  shows "periods (int n) = of_nat n * (75 / 2)"
proof -
  have b: "(of_nat n :: rat) < 2 ^ 40" using assms by (rule rat_less_power)
  have "is_half (of_nat n * (75 / 2))" by (rule is_half_scale) (simp add: is_half_def)
  then have "fl (of_nat n * (75 / 2)) = of_nat n * (75 / 2)"
    using b by (intro fl_half) auto
  then show ?thesis
    using of_pyint_exact [of n] assms by (simp add: periods_def fmul_def IIS_SAMPLE_PERIOD_US_def)
qed

lemma last_sample_exact:
  assumes st: "is_half st" "0 \<le> st" "st < 2 ^ 50" and f: "fts < 2 ^ 50"
    and n: "n < 2 ^ 40"
  shows "fadd (fadd st (fsub (fsub (of_pyint (int fts)) (periods (int n))) st)) (periods (int n)) =
    of_nat fts"
proof -
  define p where "p = (of_nat n :: rat) * (75 / 2)"
  have nb: "(of_nat n :: rat) < 2 ^ 40" using n by (rule rat_less_power)
  have fb: "(of_nat fts :: rat) < 2 ^ 50" using f by (rule rat_less_power)
  have p: "is_half p" "0 \<le> p" "p < 2 ^ 46" unfolding p_def
    using nb by (auto intro!: is_half_scale simp: is_half_def)
  have "fsub (of_nat fts) p = of_nat fts - p" unfolding fsub_def
    by (rule fl_half) (use p fb in \<open>auto simp: abs_if\<close>)
  moreover have "fsub (of_nat fts - p) st = of_nat fts - p - st" unfolding fsub_def
  proof (rule fl_half)
    show "is_half (of_nat fts - p - st)" by (intro is_half_diff p st is_half_of_nat)
    show "\<bar>of_nat fts - p - st\<bar> < 2 ^ 52" using p fb st by (auto simp: abs_if)
  qed
  moreover have "fadd st (of_nat fts - p - st) = of_nat fts - p" unfolding fadd_def
    using fl_half [of "of_nat fts - p"] p fb by (auto simp: abs_if is_half_diff)
  moreover have "fadd (of_nat fts - p) p = of_nat fts" unfolding fadd_def
    using fl_half [of "of_nat fts"] fb by simp
  moreover have "of_pyint (int fts) = of_nat fts" using f by (intro of_pyint_exact) simp
  moreover have "periods (int n) = p" using n by (simp add: periods_exact p_def)
  ultimately show ?thesis by simp
qed

lemma process_payload_last:
  assumes ok: "numpy_ok np" and al: "7 dvd length payload" and len: "length payload \<le> 3577"
    and tags: "tags = word_tags (map view_word (chunks7 payload))"
    and tag: "4 \<in> set tags" and after: "0 < samples_after tags"
    and fts: "fts < 2 ^ 50"
    and ticks: "\<And>t. t \<in> set (fst (extend_ticks c (map iv_ts (filter (\<lambda>w. drop_bit 3 (iv_tag w) = 4)
                   (map view_word (chunks7 payload)))))) \<Longrightarrow> t < 2 ^ 44"
  shows "last (fst (fst (process_payload np c payload fts))) = of_nat fts"
proof -
  define words where "words = map view_word (chunks7 payload)"
  define tk where "tk = map iv_ts (filter (\<lambda>w. drop_bit 3 (iv_tag w) = 4) words)"
  define raw where "raw = map iv_xyz (filter (\<lambda>w. drop_bit 3 (iv_tag w) = 2) words)"
  obtain ext c' where e: "extend_ticks c tk = (ext, c')" by fastforce
  have ltk: "length tk = count_list tags 4"
    unfolding tk_def tags words_def word_tags_def
    by (induction "map view_word (chunks7 payload)") (auto simp: count_list_eq_length_filter filter_map o_def)
  have lext: "length ext = length tk" using length_extend_ticks [of c tk] e by simp
  have pos: "0 < count_list tags 4" using tag by (metis count_list_0_iff neq0_conv)
  then have ne: "ext \<noteq> []" using lext ltk by auto
  define sensor where "sensor = map (\<lambda>t. fmul (of_pyint (int t)) IIS_TIMESTAMP_TICK_US) ext"
  have lt: "last ext < 2 ^ 44"
    using ticks [of "last ext"] e ne by (simp add: tk_def words_def)
  have st: "last sensor = of_nat (25 * last ext)"
  proof -
    have "of_pyint (int (last ext)) = of_nat (last ext)" using lt by (intro of_pyint_exact) simp
    moreover have "fl (of_int (int (last ext * 25))) = of_int (int (last ext * 25))"
      by (rule fl_int) (use lt in simp)
    ultimately show ?thesis using ne
      by (simp add: sensor_def last_map fmul_def IIS_TIMESTAMP_TICK_US_def mult.commute)
  qed
  have na: "samples_after tags - 1 < 2 ^ 40"
  proof -
    have "samples_after tags \<le> length (takeWhile (\<lambda>t. t \<noteq> 4) (rev tags))"
      unfolding samples_after_def by (simp add: count_le_length)
    also have "\<dots> \<le> length tags" by (metis length_rev length_takeWhile_le)
    also have "length tags \<le> length payload" unfolding tags word_tags_def
      by simp (induction payload rule: chunks7.induct, auto)
    finally show ?thesis using len by simp
  qed
  have raw: "raw \<noteq> []"
  proof -
    have "2 \<in> set (rev tags)" using after
      unfolding samples_after_def by (metis count_list_0_iff less_irrefl set_takeWhileD)
    then show ?thesis by (auto simp: raw_def tags words_def word_tags_def filter_empty_conv)
  qed
  obtain starts where w: "walk_starts c tags tk fts = (starts, c')"
    and ls: "last starts = fadd (last sensor)
      (fsub (fsub (of_pyint (int fts)) (periods (max (int (samples_after tags) - 1) 0))) (last sensor))"
    and len_s: "length starts = Suc (count_list tags 4)"
    using tag e ne lext ltk by (simp add: walk_starts_def Let_def sensor_def last_map)
  have "last (fst (fst (process_payload np c payload fts))) = last (walk_times starts 0 tags)"
    using process_payload_walk [OF ok al, of c fts] w raw
    by (simp add: walk_payload_def Let_def tags [symmetric] tk_def words_def raw_def)
  also have "\<dots> = fadd (last starts) (periods (int (samples_after tags - 1)))"
    using last_walk_times [OF tag after len_s] after by (simp add: of_nat_diff)
  also have "\<dots> = of_nat fts"
  proof -
    have "max (int (samples_after tags) - 1) 0 = int (samples_after tags - 1)" using after by simp
    moreover have "(of_nat (25 * last ext) :: rat) < 2 ^ 50"
      by (rule rat_less_power) (use lt in simp)
    ultimately show ?thesis unfolding ls st
      using last_sample_exact [of "of_nat (25 * last ext)" fts "samples_after tags - 1"] fts na
      by (simp del: of_nat_mult)
  qed
  finally show ?thesis .
qed

section \<open>Properties\<close>

text \<open>
  C10. The vectorised sample clock agrees with the per-word walker on every aligned payload: the same
  sample times, rounding included, the same accelerations and the same clock for the next frame.
\<close>

theorem vectorised_clock_is_walker:
  assumes "numpy_ok np" and "7 dvd length payload"
  shows "process_payload np c payload frame_timestamp_us = walk_payload c payload frame_timestamp_us"
  using assms by (rule process_payload_walk)

text \<open>A payload of one timestamp word and one acceleration word.\<close>

definition sample_payload :: bytes where
  "sample_payload = [32, 40, 0, 0, 0, 0, 0, 16, 1, 0, 2, 0, 3, 0]"

lemma length_sample_payload: "length sample_payload = 14"
  by (simp add: sample_payload_def)

lemma sample_payload_aligned: "7 dvd length sample_payload"
  unfolding length_sample_payload by simp

theorem vectorised_clock_is_walker_witness:
  "7 dvd length sample_payload \<and>
   process_payload np_ref IisTimestampReconstructor sample_payload 5000 =
     walk_payload IisTimestampReconstructor sample_payload 5000"
  using vectorised_clock_is_walker [OF numpy_ok_np_ref sample_payload_aligned] sample_payload_aligned
  by blast

text \<open>
  When a payload carries a timestamp word with samples after it, the last sample of the frame
  lies exactly at the frame's own timestamp: the double arithmetic is exact for timestamps below
  \<open>2 ^ 50\<close> microseconds and extended sensor ticks below \<open>2 ^ 44\<close>, for every payload a frame can hold.
\<close>

theorem last_sample_at_frame_time:
  assumes "numpy_ok np" and "7 dvd length payload" and "length payload \<le> 3577"
    and "4 \<in> set (word_tags (map view_word (chunks7 payload)))"
    and "0 < samples_after (word_tags (map view_word (chunks7 payload)))"
    and "frame_timestamp_us < 2 ^ 50"
    and "list_all (\<lambda>t. t < 2 ^ 44) (fst (extend_ticks c (map iv_ts
           (filter (\<lambda>w. drop_bit 3 (iv_tag w) = 4) (map view_word (chunks7 payload))))))"
  shows "last (fst (fst (process_payload np c payload frame_timestamp_us))) = of_nat frame_timestamp_us"
  using assms process_payload_last [OF assms(1-3) refl assms(4-6)] by (auto simp: list_all_iff)

theorem last_sample_at_frame_time_witness:
  "last (fst (fst (process_payload np_ref IisTimestampReconstructor sample_payload 5000))) = of_nat 5000"
  by (rule last_sample_at_frame_time [OF numpy_ok_np_ref sample_payload_aligned])
    (simp_all add: sample_payload_def word_tags_def view_word_def field_def slice_def samples_after_def
      IisTimestampReconstructor_def)

end
