(* ===== verification/ControlState.thy ===== *)
theory ControlState
  imports PyText
begin

text \<open>
  \<^verbatim>\<open>protocol/control_state.py\<close>: the structured reading of firmware CLI responses. The
  attributes of the dataclass \<^verbatim>\<open>FirmwareControlState\<close> and the dictionary \<^verbatim>\<open>updates\<close> are
  keyed by field name, as \<^verbatim>\<open>dataclasses.replace(self, **updates)\<close> uses them; a value is an
  optional int, string, boolean or UUID.
\<close>

datatype cs_value = VNone | VStr pystr | VInt nat | VBool bool | VUuid nat

type_synonym control_state = "string \<Rightarrow> cs_value"
type_synonym updates = "string \<rightharpoonup> cs_value"

section \<open>State\<close>

definition int_fields :: "string list" where
  "int_fields = [''uart_baud'', ''sd_used'', ''sd_capacity'', ''sd_pending_frames'',
     ''sd_retained_chunks'', ''sd_retained_frames'', ''sd_overwritten_chunks'',
     ''sd_overwritten_frames'', ''export_chunk'', ''export_frame'', ''export_revision'',
     ''export_chunks'', ''export_frames'', ''live_drops_iis'', ''live_drops_jy'',
     ''live_last_routed_sequence'', ''live_last_completed_sequence'', ''diag_pool_fail'',
     ''diag_ingress_drop'', ''diag_nostore_drop'', ''diag_pool_min'', ''diag_ingress_peak'',
     ''diag_sd_stall_ms'', ''diag_cdc_live'', ''diag_cdc_ctrl'', ''diag_cdc_export'',
     ''ota_received'', ''ota_total'', ''ota_error'']"

definition str_fields :: "string list" where
  "str_fields = [''acquisition_state'', ''uuid_source'', ''export_target'', ''export_phase'',
     ''livestream_target'', ''stop_reason'', ''ota_state'']"

definition bool_fields :: "string list" where
  "bool_fields = [''sd_ready'', ''sd_format_required'']"

definition FirmwareControlState :: control_state where
  "FirmwareControlState = (\<lambda>_. VNone)(''export_revision'' := VInt 0)"

definition replace_fields :: "control_state \<Rightarrow> updates \<Rightarrow> control_state" where
  "replace_fields s u = (\<lambda>f. case u f of None \<Rightarrow> s f | Some v \<Rightarrow> v)"

section \<open>Values\<close>

definition MAXIMUM_UNSIGNED_VALUE :: nat where
  "MAXIMUM_UNSIGNED_VALUE = 2 ^ 64 - 1"

text \<open>\<^verbatim>\<open>_unsigned\<close>; \<^verbatim>\<open>int()\<close> itself refuses a text of more than 4300 digits.\<close>

definition unsigned_value :: "pystr \<Rightarrow> nat res" where
  "unsigned_value value =
     (if \<not> isdecimal value then Inl (ControlStateParseError ''{} must be unsigned decimal'')
      else case parse_digits 10 value of
        None \<Rightarrow> Inl (ValueError ''Exceeds the limit for integer string conversion'')
      | Some parsed \<Rightarrow>
          if MAXIMUM_UNSIGNED_VALUE < parsed then Inl (ControlStateParseError ''{} exceeds uint64'')
          else Inr parsed)"

definition boolean_value :: "pystr \<Rightarrow> bool res" where
  "boolean_value value =
     (if value \<noteq> lit ''0'' \<and> value \<noteq> lit ''1''
      then Inl (ControlStateParseError ''{} must be 0 or 1'')
      else Inr (value = lit ''1''))"

text \<open>
  The matches of \<^verbatim>\<open>([A-Z_]+)=([^,]+)\<close> from left to right. A key run not followed by a
  non-empty value matches from none of its characters.
\<close>

definition is_key_char :: "nat \<Rightarrow> bool" where
  "is_key_char c \<longleftrightarrow> 65 \<le> c \<and> c \<le> 90 \<or> c = 95"

function key_value_matches :: "pystr \<Rightarrow> (pystr \<times> pystr) list" where
  "key_value_matches s =
     (if s = [] then []
      else
        let key = takeWhile is_key_char s;
            rest = dropWhile is_key_char s;
            value = takeWhile (\<lambda>c. c \<noteq> 44) (tl rest)
        in if key \<noteq> [] \<and> rest \<noteq> [] \<and> hd rest = 61 \<and> value \<noteq> []
           then (key, value) # key_value_matches (dropWhile (\<lambda>c. c \<noteq> 44) (tl rest))
           else key_value_matches (tl s))"
  by pat_completeness auto
termination
proof (relation "measure length", goal_cases)
  case (2 s)
  have "length (dropWhile (\<lambda>c. c \<noteq> 44) (tl (dropWhile is_key_char s))) \<le>
      length (tl (dropWhile is_key_char s))" by (rule length_dropWhile_le)
  also have "\<dots> \<le> length s - 1" using length_dropWhile_le [of is_key_char s] by simp
  also have "\<dots> < length s" using 2 by (cases s) auto
  finally show ?case using 2 by simp
qed auto

declare key_value_matches.simps [simp del]

fun collect_values :: "(pystr \<rightharpoonup> pystr) \<Rightarrow> (pystr \<times> pystr) list \<Rightarrow> (pystr \<rightharpoonup> pystr) res" where
  "collect_values values [] = Inr values"
| "collect_values values ((key, value) # ms) =
     (if values key \<noteq> None then Inl (ControlStateParseError ''duplicate control field: {}'')
      else collect_values (values(key \<mapsto> value)) ms)"

definition key_values :: "pystr \<Rightarrow> (pystr \<rightharpoonup> pystr) res" where
  "key_values content = collect_values Map.empty (key_value_matches content)"

text \<open>The loop over a table of wire name and field name, shared by the section parsers.\<close>

fun parse_integers :: "(string \<times> string) list \<Rightarrow> (pystr \<rightharpoonup> pystr) \<Rightarrow> updates \<Rightarrow> updates res" where
  "parse_integers [] values u = Inr u"
| "parse_integers ((wire_name, field_name) # table) values u =
     (case values (lit wire_name) of
        None \<Rightarrow> parse_integers table values u
      | Some text \<Rightarrow> rbind (unsigned_value text)
          (\<lambda>n. parse_integers table values (u(field_name \<mapsto> VInt n))))"

definition parse_string :: "string \<Rightarrow> string \<Rightarrow> (pystr \<rightharpoonup> pystr) \<Rightarrow> updates \<Rightarrow> updates" where
  "parse_string wire_name field_name values u =
     (case values (lit wire_name) of None \<Rightarrow> u | Some text \<Rightarrow> u(field_name \<mapsto> VStr text))"

definition parse_boolean :: "string \<Rightarrow> string \<Rightarrow> (pystr \<rightharpoonup> pystr) \<Rightarrow> updates \<Rightarrow> updates res" where
  "parse_boolean wire_name field_name values u =
     (case values (lit wire_name) of None \<Rightarrow> Inr u
      | Some text \<Rightarrow> rbind (boolean_value text) (\<lambda>b. Inr (u(field_name \<mapsto> VBool b))))"

section \<open>UUID text\<close>

text \<open>\<^verbatim>\<open>text.replace(pattern, "")\<close> for a non-empty pattern.\<close>

fun remove_all :: "nat \<Rightarrow> 'a list \<Rightarrow> 'a list \<Rightarrow> 'a list" where
  "remove_all skip pat [] = []"
| "remove_all (Suc n) pat (c # cs) = remove_all n pat cs"
| "remove_all 0 pat (c # cs) =
     (if starts_with pat (c # cs) then remove_all (length pat - 1) pat cs
      else c # remove_all 0 pat cs)"

text \<open>\<^verbatim>\<open>uuid.UUID(text)\<close>; \<open>None\<close> is the \<^verbatim>\<open>ValueError\<close>.\<close>

definition uuid_of_text :: "pystr \<Rightarrow> nat option" where
  "uuid_of_text text =
     (let a = remove_all 0 (lit ''uuid:'') (remove_all 0 (lit ''urn:'') text);
          b = strip_by (\<lambda>c. c = 123 \<or> c = 125) a;
          hex = filter (\<lambda>c. c \<noteq> 45) b
      in if length hex \<noteq> 32 then None
         else case py_int 16 hex of None \<Rightarrow> None
              | Some i \<Rightarrow> if 0 \<le> i \<and> i < 2 ^ 128 then Some (nat i) else None)"

text \<open>\<^verbatim>\<open>str(uuid)\<close>.\<close>

definition uuid_text :: "nat \<Rightarrow> pystr" where
  "uuid_text u =
     (let h = hex_fixed 97 32 u
      in slice h 0 8 @ [45] @ slice h 8 12 @ [45] @ slice h 12 16 @ [45] @ slice h 16 20 @ [45]
         @ slice h 20 32)"

section \<open>Sections\<close>

definition parse_uuid :: "pystr \<Rightarrow> updates \<Rightarrow> updates res" where
  "parse_uuid content u =
     (let parts = split_on 44 content
      in case uuid_of_text (hd parts) of
           None \<Rightarrow> Inl (ControlStateParseError ''invalid UUID response'')
         | Some v \<Rightarrow>
             let u' = u(''device_uuid'' \<mapsto> VUuid v)
             in if 1 < length parts
                then rbind (key_values (join_with 44 (tl parts)))
                       (\<lambda>values. Inr (parse_string ''SOURCE'' ''uuid_source'' values u'))
                else Inr u')"

definition parse_sd :: "(pystr \<rightharpoonup> pystr) \<Rightarrow> updates \<Rightarrow> updates res" where
  "parse_sd values u =
     rbind (parse_integers
       [(''USED'', ''sd_used''), (''CAPACITY'', ''sd_capacity''),
        (''PENDING_FRAMES'', ''sd_pending_frames''), (''RETAINED_CHUNKS'', ''sd_retained_chunks''),
        (''RETAINED_FRAMES'', ''sd_retained_frames''),
        (''OVERWRITTEN_CHUNKS'', ''sd_overwritten_chunks''),
        (''OVERWRITTEN_FRAMES'', ''sd_overwritten_frames'')] values u)
       (\<lambda>u1. rbind (parse_boolean ''READY'' ''sd_ready'' values u1)
          (\<lambda>u2. parse_boolean ''FORMAT_REQUIRED'' ''sd_format_required'' values u2))"

definition parse_export_status :: "(pystr \<rightharpoonup> pystr) \<Rightarrow> updates \<Rightarrow> updates res" where
  "parse_export_status values u =
     parse_integers [(''CHUNK'', ''export_chunk''), (''FRAME'', ''export_frame'')] values
       (parse_string ''TARGET'' ''export_target'' values u)"

definition parse_live :: "pystr \<Rightarrow> updates \<Rightarrow> updates res" where
  "parse_live content u =
     rbind (key_values content)
       (\<lambda>values. parse_integers
          [(''DROPS_IIS'', ''live_drops_iis''), (''DROPS_JY'', ''live_drops_jy''),
           (''LAST_ROUTED_SEQUENCE'', ''live_last_routed_sequence''),
           (''LAST_COMPLETED_SEQUENCE'', ''live_last_completed_sequence'')] values
          (parse_string ''TARGET'' ''livestream_target'' values u))"

definition parse_diag :: "(pystr \<rightharpoonup> pystr) \<Rightarrow> updates \<Rightarrow> updates res" where
  "parse_diag values u =
     parse_integers
       [(''POOL_FAIL'', ''diag_pool_fail''), (''INGRESS_DROP'', ''diag_ingress_drop''),
        (''NOSTORE_DROP'', ''diag_nostore_drop''), (''POOL_MIN'', ''diag_pool_min''),
        (''INGRESS_PEAK'', ''diag_ingress_peak''), (''SD_STALL_MS'', ''diag_sd_stall_ms''),
        (''CDC_LIVE'', ''diag_cdc_live''), (''CDC_CTRL'', ''diag_cdc_ctrl''),
        (''CDC_EXPORT'', ''diag_cdc_export'')] values u"

definition parse_ota :: "(pystr \<rightharpoonup> pystr) \<Rightarrow> updates \<Rightarrow> updates res" where
  "parse_ota values u =
     parse_integers
       [(''RECEIVED'', ''ota_received''), (''TOTAL'', ''ota_total''), (''ERROR'', ''ota_error'')]
       values (parse_string ''STATE'' ''ota_state'' values u)"

definition parse_export_event :: "pystr \<Rightarrow> updates \<Rightarrow> updates res" where
  "parse_export_event line u =
     (if starts_with (lit ''EXPORT_BEGIN:'') line
      then Inr (u(''export_phase'' \<mapsto> VStr (lit ''IN_PROGRESS''),
                  ''export_target'' \<mapsto> VStr (removeprefix (lit ''EXPORT_BEGIN:'') line)))
      else if line = lit ''EXPORT_EMPTY'' then Inr (u(''export_phase'' \<mapsto> VStr (lit ''EMPTY'')))
      else if line = lit ''EXPORT_ABORTED'' then Inr (u(''export_phase'' \<mapsto> VStr (lit ''ABORTED'')))
      else if starts_with (lit ''EXPORT_END:'') line
      then rbind (key_values (removeprefix (lit ''EXPORT_END:'') line))
             (\<lambda>values. parse_integers
                [(''CHUNKS'', ''export_chunks''), (''FRAMES'', ''export_frames'')] values
                (u(''export_phase'' \<mapsto> VStr (lit ''COMPLETE''))))
      else Inr u)"

definition parse_line_into :: "pystr \<Rightarrow> updates \<Rightarrow> updates res" where
  "parse_line_into line u =
     (if starts_with (lit ''+STATE:'') line
      then Inr (u(''acquisition_state'' \<mapsto> VStr (removeprefix (lit ''+STATE:'') line)))
      else if starts_with (lit ''+BAUD:'') line
      then rbind (unsigned_value (removeprefix (lit ''+BAUD:'') line))
             (\<lambda>n. Inr (u(''uart_baud'' \<mapsto> VInt n)))
      else if starts_with (lit ''+UUID:'') line
      then parse_uuid (removeprefix (lit ''+UUID:'') line) u
      else if starts_with (lit ''+SD:'') line
      then rbind (key_values (removeprefix (lit ''+SD:'') line)) (\<lambda>vs. parse_sd vs u)
      else if starts_with (lit ''+EXPORT:'') line
      then rbind (key_values (removeprefix (lit ''+EXPORT:'') line)) (\<lambda>vs. parse_export_status vs u)
      else if starts_with (lit ''+LIVE:'') line
      then parse_live (removeprefix (lit ''+LIVE:'') line) u
      else if starts_with (lit ''+LIVESTREAM:'') line
      then Inr (u(''livestream_target'' \<mapsto> VStr (removeprefix (lit ''+LIVESTREAM:'') line)))
      else if starts_with (lit ''+DIAG:'') line
      then rbind (key_values (removeprefix (lit ''+DIAG:'') line)) (\<lambda>vs. parse_diag vs u)
      else if starts_with (lit ''+STOP_REASON:'') line
      then Inr (u(''stop_reason'' \<mapsto> VStr (removeprefix (lit ''+STOP_REASON:'') line)))
      else if starts_with (lit ''+OTA:'') line
      then rbind (key_values (removeprefix (lit ''+OTA:'') line)) (\<lambda>vs. parse_ota vs u)
      else parse_export_event line u)"

section \<open>One response\<close>

definition section_name :: "pystr \<Rightarrow> pystr option" where
  "section_name line =
     (if starts_with (lit ''+'') line \<and> 58 \<in> set line then Some (fst (split_once 58 line))
      else if starts_with (lit ''EXPORT_'') line then Some (lit ''EXPORT_EVENT'')
      else None)"

fun parse_lines :: "pystr list \<Rightarrow> pystr set \<Rightarrow> updates \<Rightarrow> updates res" where
  "parse_lines [] seen u = Inr u"
| "parse_lines (raw_line # raw_lines) seen u =
     (let line = str_strip raw_line
      in if line = [] \<or> line = lit ''OK'' \<or> line = lit ''ERROR'' then parse_lines raw_lines seen u
         else case section_name line of
           None \<Rightarrow> rbind (parse_line_into line u) (parse_lines raw_lines seen)
         | Some s \<Rightarrow>
             if s \<in> seen then Inl (ControlStateParseError ''duplicate control section: {}'')
             else rbind (parse_line_into line u) (parse_lines raw_lines (insert s seen)))"

definition has_export_event :: "pystr \<Rightarrow> bool" where
  "has_export_event response \<longleftrightarrow>
     list_ex (\<lambda>line. starts_with (lit ''EXPORT_'') (str_strip line)) (splitlines response)"

fun value_plus_one :: "cs_value \<Rightarrow> cs_value" where
  "value_plus_one (VInt n) = VInt (n + 1)"
| "value_plus_one v = v"

definition updated_from_cli :: "control_state \<Rightarrow> pystr \<Rightarrow> control_state res" where
  "updated_from_cli s response =
     rbind (parse_lines (splitlines response) {} Map.empty)
       (\<lambda>u. Inr (replace_fields s
          (if has_export_event response
           then u(''export_revision'' \<mapsto> value_plus_one (s ''export_revision'')) else u)))"

section \<open>Types of the fields\<close>

fun value_ok :: "string \<Rightarrow> cs_value \<Rightarrow> bool" where
  "value_ok f VNone = (f \<noteq> ''export_revision'')"
| "value_ok f (VInt n) = (f \<in> set int_fields \<and> (f \<noteq> ''export_revision'' \<longrightarrow> n < 2 ^ 64))"
| "value_ok f (VStr t) = (f \<in> set str_fields)"
| "value_ok f (VBool b) = (f \<in> set bool_fields)"
| "value_ok f (VUuid u) = (f = ''device_uuid'' \<and> u < 2 ^ 128)"

definition control_state_ok :: "control_state \<Rightarrow> bool" where
  "control_state_ok s \<longleftrightarrow> (\<forall>f. value_ok f (s f))"

text \<open>Updates never hold the revision, which only the caller increments.\<close>

definition updates_ok :: "updates \<Rightarrow> bool" where
  "updates_ok u \<longleftrightarrow> (\<forall>f v. u f = Some v \<longrightarrow> value_ok f v \<and> v \<noteq> VNone \<and> f \<noteq> ''export_revision'')"

lemmas field_lists = int_fields_def str_fields_def bool_fields_def

lemma updates_ok_upd:
  "updates_ok u \<Longrightarrow> value_ok f v \<Longrightarrow> v \<noteq> VNone \<Longrightarrow> f \<noteq> ''export_revision'' \<Longrightarrow> updates_ok (u(f \<mapsto> v))"
  by (simp add: updates_ok_def)

lemma unsigned_value_bound: "unsigned_value t = Inr n \<Longrightarrow> n < 2 ^ 64"
  by (auto simp: unsigned_value_def MAXIMUM_UNSIGNED_VALUE_def split: if_splits option.splits)

definition int_table_ok :: "(string \<times> string) list \<Rightarrow> bool" where
  "int_table_ok table \<longleftrightarrow> list_all (\<lambda>(w, f). f \<in> set int_fields \<and> f \<noteq> ''export_revision'') table"

lemma parse_integers_ok:
  "parse_integers table vs u = Inr u' \<Longrightarrow> int_table_ok table \<Longrightarrow> updates_ok u \<Longrightarrow> updates_ok u'"
proof (induction table vs u rule: parse_integers.induct)
  case (2 wire_name field_name table vs u)
  show ?case
  proof (cases "vs (lit wire_name)")
    case None
    then show ?thesis using 2 by (simp add: int_table_ok_def)
  next
    case (Some tx)
    then obtain n where n: "unsigned_value tx = Inr n"
      "parse_integers table vs (u(field_name \<mapsto> VInt n)) = Inr u'"
      using "2.prems"(1) by (auto simp: rbind_Inr_iff)
    have "updates_ok (u(field_name \<mapsto> VInt n))"
      using "2.prems"(2,3) unsigned_value_bound [OF n(1)]
      by (intro updates_ok_upd) (auto simp: int_table_ok_def)
    then show ?thesis using "2.IH"(2) [OF Some n(2)] "2.prems"(2)
      by (simp add: int_table_ok_def fun_upd_def)
  qed
qed simp

lemma parse_string_ok:
  "updates_ok u \<Longrightarrow> f \<in> set str_fields \<Longrightarrow> f \<noteq> ''export_revision'' \<Longrightarrow>
     updates_ok (parse_string w f values u)"
  by (auto simp: parse_string_def intro: updates_ok_upd split: option.splits)

lemma parse_boolean_ok:
  "parse_boolean w f values u = Inr u' \<Longrightarrow> updates_ok u \<Longrightarrow> f \<in> set bool_fields \<Longrightarrow>
     f \<noteq> ''export_revision'' \<Longrightarrow> updates_ok u'"
  by (auto simp: parse_boolean_def rbind_Inr_iff intro: updates_ok_upd split: option.splits)

lemma uuid_of_text_bound: "uuid_of_text t = Some u \<Longrightarrow> u < 2 ^ 128"
  by (auto simp: uuid_of_text_def Let_def nat_less_iff split: if_splits option.splits)

lemma parse_uuid_ok: "parse_uuid content u = Inr u' \<Longrightarrow> updates_ok u \<Longrightarrow> updates_ok u'"
  by (auto simp: parse_uuid_def Let_def rbind_Inr_iff str_fields_def split: option.splits if_splits
      intro!: parse_string_ok updates_ok_upd dest!: uuid_of_text_bound)

lemma parse_sd_ok:
  assumes "parse_sd vs u = Inr u'" and "updates_ok u"
  shows "updates_ok u'"
proof -
  obtain table u1 u2 where p: "parse_integers table vs u = Inr u1" "int_table_ok table"
    "parse_boolean ''READY'' ''sd_ready'' vs u1 = Inr u2"
    "parse_boolean ''FORMAT_REQUIRED'' ''sd_format_required'' vs u2 = Inr u'"
    using assms(1)
    by (auto simp: parse_sd_def rbind_Inr_iff int_table_ok_def int_fields_def
        simp del: parse_integers.simps)
  have "updates_ok u1" using parse_integers_ok [OF p(1,2) assms(2)] .
  then have "updates_ok u2" using parse_boolean_ok [OF p(3)] by (simp add: bool_fields_def)
  then show ?thesis using parse_boolean_ok [OF p(4)] by (simp add: bool_fields_def)
qed

text \<open>The parsers that end in a table of integers.\<close>

lemma parse_export_status_ok:
  "parse_export_status vs u = Inr u' \<Longrightarrow> updates_ok u \<Longrightarrow> updates_ok u'"
  unfolding parse_export_status_def
  by (erule parse_integers_ok) (simp_all add: int_table_ok_def field_lists parse_string_ok)

lemma parse_live_ok: "parse_live content u = Inr u' \<Longrightarrow> updates_ok u \<Longrightarrow> updates_ok u'"
  unfolding parse_live_def rbind_Inr_iff
  by (elim exE conjE, erule parse_integers_ok)
    (simp_all add: int_table_ok_def field_lists parse_string_ok)

lemma parse_diag_ok: "parse_diag vs u = Inr u' \<Longrightarrow> updates_ok u \<Longrightarrow> updates_ok u'"
  unfolding parse_diag_def by (erule parse_integers_ok) (simp_all add: int_table_ok_def field_lists)

lemma parse_ota_ok: "parse_ota vs u = Inr u' \<Longrightarrow> updates_ok u \<Longrightarrow> updates_ok u'"
  unfolding parse_ota_def
  by (erule parse_integers_ok) (simp_all add: int_table_ok_def field_lists parse_string_ok)

lemmas parse_tables_ok = parse_export_status_ok parse_live_ok parse_diag_ok parse_ota_ok

lemma parse_export_event_ok:
  assumes p: "parse_export_event line u = Inr u'" and u: "updates_ok u"
  shows "updates_ok u'"
proof (cases "starts_with (lit ''EXPORT_END:'') line \<and> \<not> starts_with (lit ''EXPORT_BEGIN:'') line
    \<and> line \<noteq> lit ''EXPORT_EMPTY'' \<and> line \<noteq> lit ''EXPORT_ABORTED''")
  case True
  then obtain vs where v: "parse_integers
      [(''CHUNKS'', ''export_chunks''), (''FRAMES'', ''export_frames'')] vs
      (u(''export_phase'' \<mapsto> VStr (lit ''COMPLETE''))) = Inr u'"
    using p by (auto simp: parse_export_event_def rbind_Inr_iff simp del: parse_integers.simps)
  have "updates_ok (u(''export_phase'' \<mapsto> VStr (lit ''COMPLETE'')))"
    using u by (auto intro!: updates_ok_upd simp: field_lists)
  then show ?thesis using parse_integers_ok [OF v] by (simp add: int_table_ok_def field_lists)
next
  case False
  then show ?thesis
    using p u unfolding parse_export_event_def
    by (auto simp: field_lists split: if_splits intro!: updates_ok_upd)
qed

lemma parse_line_into_ok: "parse_line_into line u = Inr u' \<Longrightarrow> updates_ok u \<Longrightarrow> updates_ok u'"
  by (auto simp: parse_line_into_def rbind_Inr_iff field_lists split: if_splits
      intro!: updates_ok_upd
      dest: unsigned_value_bound parse_uuid_ok parse_sd_ok parse_tables_ok parse_export_event_ok)

lemma parse_lines_ok: "parse_lines ls seen u = Inr u' \<Longrightarrow> updates_ok u \<Longrightarrow> updates_ok u'"
proof (induction ls arbitrary: seen u)
  case (Cons l ls)
  then show ?case
    by (auto simp: Let_def rbind_Inr_iff split: if_splits option.splits dest: parse_line_into_ok)
qed simp

lemma updates_ok_empty: "updates_ok Map.empty"
  by (simp add: updates_ok_def)

lemma updated_from_cli_ok:
  assumes "updated_from_cli s response = Inr s'" and "control_state_ok s"
  shows "control_state_ok s'"
proof -
  obtain u where u: "parse_lines (splitlines response) {} Map.empty = Inr u"
    and s': "s' = replace_fields s
      (if has_export_event response
       then u(''export_revision'' \<mapsto> value_plus_one (s ''export_revision'')) else u)"
    using assms(1) by (auto simp: updated_from_cli_def rbind_Inr_iff)
  have uok: "updates_ok u" using parse_lines_ok [OF u updates_ok_empty] .
  have "value_ok ''export_revision'' (s ''export_revision'')"
    using assms(2) by (simp add: control_state_ok_def)
  then have "value_ok ''export_revision'' (value_plus_one (s ''export_revision''))"
    by (cases "s ''export_revision''") (auto simp: field_lists)
  then show ?thesis
    using uok assms(2)
    by (auto simp: s' control_state_ok_def replace_fields_def updates_ok_def split: option.splits)
qed

lemma updated_from_cli_revision:
  assumes "updated_from_cli s response = Inr s'" and "control_state_ok s"
  shows "\<exists>n. s ''export_revision'' = VInt n \<and>
    s' ''export_revision'' = VInt (if has_export_event response then n + 1 else n)"
proof -
  obtain u where u: "parse_lines (splitlines response) {} Map.empty = Inr u"
    and s': "s' = replace_fields s
      (if has_export_event response
       then u(''export_revision'' \<mapsto> value_plus_one (s ''export_revision'')) else u)"
    using assms(1) by (auto simp: updated_from_cli_def rbind_Inr_iff)
  have "u ''export_revision'' = None"
    using parse_lines_ok [OF u updates_ok_empty] unfolding updates_ok_def
    by (cases "u ''export_revision''") blast+
  moreover have "value_ok ''export_revision'' (s ''export_revision'')"
    using assms(2) by (simp add: control_state_ok_def)
  then obtain n where "s ''export_revision'' = VInt n"
    by (cases "s ''export_revision''") (auto simp: field_lists)
  ultimately show ?thesis by (auto simp: s' replace_fields_def)
qed

section \<open>Repeated sections\<close>

definition is_ignored :: "pystr \<Rightarrow> bool" where
  "is_ignored line \<longleftrightarrow> line = [] \<or> line = lit ''OK'' \<or> line = lit ''ERROR''"

text \<open>The section names of a response, in order.\<close>

fun sections_of :: "pystr list \<Rightarrow> pystr list" where
  "sections_of [] = []"
| "sections_of (l # ls) =
     (if is_ignored (str_strip l) then sections_of ls
      else case section_name (str_strip l) of None \<Rightarrow> sections_of ls | Some s \<Rightarrow> s # sections_of ls)"

lemma parse_lines_distinct:
  "parse_lines ls seen u = Inr u' \<Longrightarrow> distinct (sections_of ls) \<and> set (sections_of ls) \<inter> seen = {}"
proof (induction ls arbitrary: seen u)
  case (Cons l ls)
  then show ?case
    by (fastforce simp: Let_def rbind_Inr_iff is_ignored_def split: if_splits option.splits)
qed simp

lemma updated_from_cli_distinct:
  "updated_from_cli s response = Inr s' \<Longrightarrow> distinct (sections_of (splitlines response))"
  by (auto simp: updated_from_cli_def rbind_Inr_iff dest: parse_lines_distinct)

section \<open>Properties\<close>

text \<open>
  C28. Type safety of the structured state: whatever text a CLI frame carries, an update that is
  accepted leaves every field with a value of its declared type, every integer field except the
  export revision below \<open>2 ^ 64\<close>, and the export revision an integer.
\<close>

theorem updated_from_cli_types:
  assumes "updated_from_cli s response = Inr s'" and "control_state_ok s"
  shows "control_state_ok s'"
  using assms by (rule updated_from_cli_ok)

text \<open>A response of two sections, and what it does to the initial state.\<close>

definition sample_response :: pystr where
  "sample_response = lit ''+BAUD:9600'' @ [13, 10] @ lit ''EXPORT_EMPTY'' @ [13, 10] @ lit ''OK''"

definition sample_state :: control_state where
  "sample_state = replace_fields FirmwareControlState
     [''uart_baud'' \<mapsto> VInt 9600, ''export_phase'' \<mapsto> VStr (lit ''EMPTY''), ''export_revision'' \<mapsto> VInt 1]"

lemma initial_state_ok: "control_state_ok FirmwareControlState"
  by (auto simp: control_state_ok_def FirmwareControlState_def field_lists)

lemma sample_update: "updated_from_cli FirmwareControlState sample_response = Inr sample_state"
  by (simp add: updated_from_cli_def sample_response_def sample_state_def splitlines_def is_linebreak_def
      str_strip_def strip_by_def is_space_def lit_def section_name_def starts_with_def split_once_def
      parse_line_into_def parse_export_event_def unsigned_value_def isdecimal_def decimal_value_ascii
      parse_digits_def digit_value_def MAXIMUM_UNSIGNED_VALUE_def removeprefix_def has_export_event_def
      FirmwareControlState_def)

theorem updated_from_cli_types_witness:
  "updated_from_cli FirmwareControlState sample_response = Inr sample_state \<and> control_state_ok sample_state"
  using updated_from_cli_types [OF sample_update initial_state_ok] sample_update by simp

text \<open>
  The export revision counts the responses that carried an export event: it grows by one when a
  line of the response starts with \<open>EXPORT_\<close> and stays as it is otherwise.
\<close>

theorem export_revision_counts_events:
  assumes "updated_from_cli s response = Inr s'" and "s ''export_revision'' = VInt n"
    and "control_state_ok s"
  shows "s' ''export_revision'' = VInt (if has_export_event response then n + 1 else n)"
  using updated_from_cli_revision [OF assms(1,3)] assms(2) by simp

theorem export_revision_counts_events_witness:
  "sample_state ''export_revision'' = VInt (if has_export_event sample_response then 0 + 1 else 0)"
  by (rule export_revision_counts_events [OF sample_update _ initial_state_ok])
    (simp add: FirmwareControlState_def)

text \<open>
  A response that repeats a section is refused: an accepted response has pairwise different
  section names, so no value can be overwritten by a later line of the same response.
\<close>

theorem accepted_sections_distinct:
  assumes "updated_from_cli s response = Inr s'"
  shows "distinct (sections_of (splitlines response))"
  using assms by (rule updated_from_cli_distinct)

theorem accepted_sections_distinct_witness: "distinct (sections_of (splitlines sample_response))"
  by (rule accepted_sections_distinct [OF sample_update])

end
