(* ===== verification/StreamParser.thy ===== *)
theory StreamParser
  imports Sdf1
begin

text \<open>
  The class \<^verbatim>\<open>StreamParser\<close> of \<^verbatim>\<open>protocol/sdf1.py\<close>: the cursor loop of \<^verbatim>\<open>feed\<close>, the frame
  decoder and the sequence-gap counter, and the theorems that make it a correct incremental
  parser: it does not depend on how the stream is cut into reads, it terminates, its buffer is
  bounded, it accounts for every byte and it returns the frames that were encoded.
\<close>

section \<open>State\<close>

text \<open>The fields of the class, its byte buffer apart.\<close>

record parser_core =
  pc_stats :: parser_stats
  pc_last_sequence :: "nat option"
  pc_iis_time :: iis_clock
  pc_decode_sensor_payload :: bool

record stream_parser =
  sp_core :: parser_core
  sp_buffer :: bytes

definition StreamParser_init :: "bool \<Rightarrow> stream_parser" where
  "StreamParser_init decode =
     \<lparr>sp_core = \<lparr>pc_stats = empty_stats, pc_last_sequence = None,
        pc_iis_time = IisTimestampReconstructor, pc_decode_sensor_payload = decode\<rparr>,
      sp_buffer = []\<rparr>"

definition buffered_bytes :: "stream_parser \<Rightarrow> nat" where
  "buffered_bytes p = length (sp_buffer p)"

definition last_sequence :: "stream_parser \<Rightarrow> nat option" where
  "last_sequence p = pc_last_sequence (sp_core p)"

definition reset_session :: "stream_parser \<Rightarrow> stream_parser" where
  "reset_session p =
     \<lparr>sp_core = (sp_core p)\<lparr>pc_stats := empty_stats, pc_last_sequence := None,
        pc_iis_time := IisTimestampReconstructor\<rparr>,
      sp_buffer = []\<rparr>"

section \<open>Counters\<close>

definition upd_stats :: "(parser_stats \<Rightarrow> parser_stats) \<Rightarrow> parser_core \<Rightarrow> parser_core" where
  "upd_stats f c = c\<lparr>pc_stats := f (pc_stats c)\<rparr>"

definition add_discarded :: "nat \<Rightarrow> parser_core \<Rightarrow> parser_core" where
  "add_discarded n = upd_stats (\<lambda>s. s\<lparr>ps_bytes_discarded := ps_bytes_discarded s + n\<rparr>)"

definition inc_frames :: "parser_core \<Rightarrow> parser_core" where
  "inc_frames = upd_stats (\<lambda>s. s\<lparr>ps_frames := ps_frames s + 1\<rparr>)"

definition inc_crc_errors :: "parser_core \<Rightarrow> parser_core" where
  "inc_crc_errors = upd_stats (\<lambda>s. s\<lparr>ps_crc_errors := ps_crc_errors s + 1\<rparr>)"

definition inc_header_errors :: "parser_core \<Rightarrow> parser_core" where
  "inc_header_errors = upd_stats (\<lambda>s. s\<lparr>ps_header_errors := ps_header_errors s + 1\<rparr>)"

definition inc_length_errors :: "parser_core \<Rightarrow> parser_core" where
  "inc_length_errors = upd_stats (\<lambda>s. s\<lparr>ps_length_errors := ps_length_errors s + 1\<rparr>)"

definition inc_unknown_versions :: "parser_core \<Rightarrow> parser_core" where
  "inc_unknown_versions = upd_stats (\<lambda>s. s\<lparr>ps_unknown_versions := ps_unknown_versions s + 1\<rparr>)"

definition inc_unknown_types :: "parser_core \<Rightarrow> parser_core" where
  "inc_unknown_types = upd_stats (\<lambda>s. s\<lparr>ps_unknown_types := ps_unknown_types s + 1\<rparr>)"

definition inc_payload_errors :: "parser_core \<Rightarrow> parser_core" where
  "inc_payload_errors = upd_stats (\<lambda>s. s\<lparr>ps_payload_errors := ps_payload_errors s + 1\<rparr>)"

definition discard_until_magic :: "stream_parser \<Rightarrow> bool \<times> stream_parser" where
  "discard_until_magic p =
     (case bytes_find MAGIC (sp_buffer p) 0 of
        Some index \<Rightarrow>
          (True, if index \<noteq> 0
                 then \<lparr>sp_core = add_discarded index (sp_core p), sp_buffer = drop index (sp_buffer p)\<rparr>
                 else p)
      | None \<Rightarrow>
          let keep = min (length (sp_buffer p)) (length MAGIC - 1);
              discarded = length (sp_buffer p) - keep
          in (False, if discarded \<noteq> 0
                     then \<lparr>sp_core = add_discarded discarded (sp_core p),
                           sp_buffer = drop discarded (sp_buffer p)\<rparr>
                     else p))"

text \<open>Sequence numbers are 32-bit; a gap of half the range or more counts as a restart.\<close>

definition record_sequence :: "nat \<Rightarrow> parser_core \<Rightarrow> parser_core" where
  "record_sequence sequence c =
     (let c' = (case pc_last_sequence c of
                  None \<Rightarrow> c
                | Some l \<Rightarrow>
                    let expected = (int l + 1) mod 2 ^ 32;
                        gap = (int sequence - expected) mod 2 ^ 32
                    in if gap < 0x80000000
                       then upd_stats (\<lambda>s. s\<lparr>ps_sequence_gaps := ps_sequence_gaps s + nat gap\<rparr>) c
                       else c)
      in c'\<lparr>pc_last_sequence := Some sequence\<rparr>)"

section \<open>Decoding one frame\<close>

definition decode_frame ::
  "numpy \<Rightarrow> message_type \<Rightarrow> nat \<Rightarrow> nat \<Rightarrow> nat \<Rightarrow> nat \<Rightarrow> bytes \<Rightarrow> nat option \<Rightarrow> bytes \<Rightarrow>
     parser_core \<Rightarrow> frame option \<times> parser_core" where
  "decode_frame np message_type flags sequence timestamp_us item_count payload device_uuid raw_bytes c =
     (let common = \<lparr>fr_message_type = message_type, fr_flags = flags, fr_sequence = sequence,
            fr_timestamp_us = timestamp_us, fr_item_count = item_count, fr_payload = payload,
            fr_raw_bytes = raw_bytes, fr_device_uuid = device_uuid, fr_iis_ts_us = None,
            fr_iis_accel_g = None, fr_iis_raw = None, fr_jy61pl = None, fr_status = None,
            fr_cli_text = None\<rparr>
      in case message_type of
           IIS3DWB_FIFO \<Rightarrow>
             if length payload \<noteq> item_count * IIS_WORD_SIZE then (None, inc_payload_errors c)
             else if \<not> pc_decode_sensor_payload c then (Some common, c)
             else
               let ((times, accel_g, raw), clock) =
                     process_payload np (pc_iis_time c) payload timestamp_us
               in (Some (common\<lparr>fr_iis_ts_us := Some times, fr_iis_accel_g := Some accel_g,
                                 fr_iis_raw := Some raw\<rparr>),
                   c\<lparr>pc_iis_time := clock\<rparr>)
         | JY61PL_SAMPLE \<Rightarrow>
             if length payload \<noteq> 14 \<or> item_count \<noteq> 1 then (None, inc_payload_errors c)
             else (Some (common\<lparr>fr_jy61pl := Some (decode_jy61pl payload)\<rparr>), c)
         | STATUS \<Rightarrow>
             if length payload \<noteq> 64 \<or> item_count \<noteq> 1 then (None, inc_payload_errors c)
             else (Some (common\<lparr>fr_status := Some (decode_status payload)\<rparr>), c)
         | CLI_RESPONSE \<Rightarrow>
             (Some (common\<lparr>fr_cli_text := Some (utf8_replace payload)\<rparr>), c))"

section \<open>The feed loop\<close>

text \<open>
  One pass of the loop either leaves it with the new cursor or goes on with a later cursor and
  the frame the pass appended, if any.
\<close>

datatype feed_next = Break parser_core nat | Continue parser_core nat "frame list"

text \<open>A CRC-valid candidate: the checks after the CRC, \<open>pos\<close> being already past the frame.\<close>

definition accept_candidate ::
  "numpy \<Rightarrow> parser_core \<Rightarrow> bytes \<Rightarrow> nat \<Rightarrow> parser_core \<times> frame list" where
  "accept_candidate np c candidate header_size =
     (let version = field candidate 4 1 in
      if version \<noteq> VERSION \<and> version \<noteq> DATA_VERSION then (inc_unknown_versions c, [])
      else case message_type_of (field candidate 5 1) of
        None \<Rightarrow> (inc_unknown_types c, [])
      | Some message_type \<Rightarrow>
          if version = DATA_VERSION \<and> message_type \<notin> {IIS3DWB_FIFO, JY61PL_SAMPLE}
          then (inc_header_errors c, [])
          else
            let payload = slice candidate header_size (length candidate - CRC_SIZE);
                device_uuid = (if version = DATA_VERSION
                               then Some (be_nat (slice candidate HEADER_SIZE DATA_HEADER_SIZE))
                               else None)
            in case decode_frame np message_type (field candidate 6 2) (field candidate 12 4)
                      (field candidate 16 8) (field candidate 24 2) payload device_uuid candidate c of
                 (None, c') \<Rightarrow> (c', [])
               | (Some f, c') \<Rightarrow>
                   (inc_frames (if message_type \<in> {IIS3DWB_FIFO, JY61PL_SAMPLE}
                                then record_sequence (field candidate 12 4) c' else c'),
                    [f]))"

text \<open>The header checks before the length is known to be plausible: \<open>Some\<close> is the flag \<^verbatim>\<open>invalid\<close>.\<close>

definition check_header :: "nat \<Rightarrow> nat \<Rightarrow> nat \<Rightarrow> parser_core \<Rightarrow> parser_core option" where
  "check_header version header_size payload_size c =
     (if header_size < HEADER_SIZE \<or> MAX_HEADER_SIZE < header_size then Some (inc_header_errors c)
      else if version = VERSION \<and> header_size \<noteq> HEADER_SIZE then Some (inc_header_errors c)
      else if version = DATA_VERSION \<and> header_size \<noteq> DATA_HEADER_SIZE then Some (inc_header_errors c)
      else if MAX_PAYLOAD_SIZE < payload_size then Some (inc_length_errors c)
      else None)"

text \<open>The magic is at \<open>pos\<close>.\<close>

definition feed_at :: "numpy \<Rightarrow> parser_core \<Rightarrow> bytes \<Rightarrow> nat \<Rightarrow> feed_next" where
  "feed_at np c view pos =
     (if length view - pos < HEADER_SIZE then Break c pos
      else
        let header_size = field view (pos + 8) 2;
            payload_size = field view (pos + 10) 2
        in case check_header (field view (pos + 4) 1) header_size payload_size c of
             Some c' \<Rightarrow> Continue (add_discarded 1 c') (pos + 1) []
           | None \<Rightarrow>
               let frame_size = header_size + payload_size + CRC_SIZE
               in if length view - pos < frame_size then Break c pos
                  else
                    let candidate = slice view pos (pos + frame_size);
                        expected_crc = field candidate (frame_size - CRC_SIZE) 4;
                        actual_crc = crc32 (take (frame_size - CRC_SIZE) candidate)
                    in if actual_crc \<noteq> expected_crc
                       then Continue (add_discarded 1 (inc_crc_errors c)) (pos + 1) []
                       else
                         case accept_candidate np c candidate header_size of
                           (c', fs) \<Rightarrow> Continue c' (pos + frame_size) fs)"

definition feed_iter :: "numpy \<Rightarrow> parser_core \<Rightarrow> bytes \<Rightarrow> nat \<Rightarrow> feed_next" where
  "feed_iter np c view pos =
     (case bytes_find MAGIC view pos of
        None \<Rightarrow>
          let keep = max pos (length view - (length MAGIC - 1))
          in Break (if pos < keep then add_discarded (keep - pos) c else c) keep
      | Some magic_at \<Rightarrow>
          feed_at np (if pos < magic_at then add_discarded (magic_at - pos) c else c) view magic_at)"

text \<open>Progress: a pass that continues moves the cursor forward, inside the view.\<close>

lemma feed_at_progress:
  "feed_at np c view pos = Continue c' pos' fs \<Longrightarrow> pos < pos' \<and> pos' \<le> length view"
  by (auto simp: feed_at_def Let_def const_simps split: if_splits prod.splits option.splits)

lemma bytes_find_ge: "bytes_find pat view pos = Some m \<Longrightarrow> pos \<le> m"
  by (auto simp: bytes_find_def)

lemma feed_iter_progress:
  "feed_iter np c view pos = Continue c' pos' fs \<Longrightarrow> pos < pos' \<and> pos' \<le> length view"
  by (fastforce simp: feed_iter_def Let_def split: option.splits
      dest: feed_at_progress bytes_find_ge)

function feed_loop :: "numpy \<Rightarrow> bytes \<Rightarrow> parser_core \<Rightarrow> nat \<Rightarrow> parser_core \<times> nat \<times> frame list" where
  "feed_loop np view c pos =
     (case feed_iter np c view pos of
        Break c' pos' \<Rightarrow> (c', pos', [])
      | Continue c' pos' fs \<Rightarrow>
          (case feed_loop np view c' pos' of (c'', pos'', fs') \<Rightarrow> (c'', pos'', fs @ fs')))"
  by pat_completeness auto
termination
  by (relation "measure (\<lambda>(np, view, c, pos). length view - pos)")
    (auto dest!: sym [of "Continue _ _ _"] dest: feed_iter_progress)

declare feed_loop.simps [simp del]

definition feed :: "numpy \<Rightarrow> stream_parser \<Rightarrow> bytes \<Rightarrow> frame list \<times> stream_parser" where
  "feed np p data =
     (let view = sp_buffer p @ data
      in case feed_loop np view (sp_core p) 0 of
           (c, pos, frames) \<Rightarrow> (frames, \<lparr>sp_core = c, sp_buffer = drop pos view\<rparr>))"

section \<open>The head-deleting parser\<close>

text \<open>
  The reference the cursor loop is compared with: every pass looks at the start of the buffer
  and deletes what it consumed.
\<close>

function parse_buffer :: "numpy \<Rightarrow> parser_core \<Rightarrow> bytes \<Rightarrow> frame list \<times> parser_core \<times> bytes" where
  "parse_buffer np c buf =
     (case feed_iter np c buf 0 of
        Break c' n \<Rightarrow> ([], c', drop n buf)
      | Continue c' n fs \<Rightarrow>
          (case parse_buffer np c' (drop n buf) of (fs', c'', rest) \<Rightarrow> (fs @ fs', c'', rest)))"
  by pat_completeness auto
termination
  by (relation "measure (\<lambda>(np, c, buf). length buf)")
    (auto dest!: sym [of "Continue _ _ _"] dest: feed_iter_progress)

declare parse_buffer.simps [simp del]

fun shift :: "nat \<Rightarrow> feed_next \<Rightarrow> feed_next" where
  "shift k (Break c n) = Break c (k + n)"
| "shift k (Continue c n fs) = Continue c (k + n) fs"

lemma shift_0 [simp]: "shift 0 r = r"
  by (cases r) auto

lemma shift_shift [simp]: "shift k (shift l r) = shift (k + l) r"
  by (cases r) auto

lemma add_discarded_0 [simp]: "add_discarded 0 c = c"
  by (simp add: add_discarded_def upd_stats_def)

lemma add_discarded_add [simp]: "add_discarded m (add_discarded n c) = add_discarded (n + m) c"
  by (simp add: add_discarded_def upd_stats_def add.assoc)

text \<open>The guards on the discard counter only skip an addition of zero.\<close>

lemma feed_iter_alt:
  "feed_iter np c view pos =
     (case bytes_find MAGIC view pos of
        None \<Rightarrow> (let keep = max pos (length view - 3) in Break (add_discarded (keep - pos) c) keep)
      | Some m \<Rightarrow> feed_at np (add_discarded (m - pos) c) view m)"
  by (auto simp: feed_iter_def Let_def split: option.splits dest: bytes_find_ge)

lemma feed_at_shift: "feed_at np c view k = shift k (feed_at np c (drop k view) 0)"
proof -
  have f: "field (drop k view) n m = field view (k + n) m" for n m by (rule field_drop)
  have s: "slice (drop k view) 0 m = slice view k (k + m)" for m by (simp add: slice_drop)
  show ?thesis
    by (simp add: feed_at_def Let_def f s split: option.splits prod.splits)
qed

lemma feed_iter_shift:
  assumes "k \<le> length view"
  shows "feed_iter np c view k = shift k (feed_iter np c (drop k view) 0)"
proof (cases "find_sub MAGIC (drop k view)")
  case None
  then show ?thesis using assms
    by (auto simp: feed_iter_alt bytes_find_def Let_def max_def add.commute)
next
  case (Some m)
  then show ?thesis using feed_at_shift [of np _ view "k + m"]
      feed_at_shift [of np _ "drop k view" m]
    by (simp add: feed_iter_alt bytes_find_def add.commute)
qed

lemma feed_loop_parse:
  assumes "pos \<le> length view"
  shows "feed_loop np view c pos =
    (case parse_buffer np c (drop pos view) of
       (fs, c', rest) \<Rightarrow> (c', length view - length rest, fs))"
  using assms
proof (induction np view c pos rule: feed_loop.induct)
  case (1 np view c pos)
  note sh = feed_iter_shift [OF "1.prems", of np c]
  show ?case
  proof (cases "feed_iter np c (drop pos view) 0")
    case (Break c' n)
    then have "n \<le> length view - pos"
      using \<open>pos \<le> length view\<close>
      by (auto simp: feed_iter_alt bytes_find_def feed_at_def Let_def split: option.splits
          if_splits prod.splits dest: find_sub_bound)
    then show ?thesis using Break sh "1.prems"
      by (simp add: feed_loop.simps [of np view c pos] parse_buffer.simps [of np c "drop pos view"])
  next
    case (Continue c' n fs)
    then have it: "feed_iter np c view pos = Continue c' (pos + n) fs" using sh by simp
    then have "pos + n \<le> length view" using feed_iter_progress by blast
    then show ?thesis using Continue it "1.IH" [OF it]
      by (simp add: feed_loop.simps [of np view c pos] parse_buffer.simps [of np c "drop pos view"]
          add.commute split: prod.splits)
  qed
qed

text \<open>The rest a run leaves is a suffix of the buffer.\<close>

lemma parse_buffer_suffix: "parse_buffer np c buf = (fs, c', rest) \<Longrightarrow> \<exists>n\<le>length buf. rest = drop n buf"
proof (induction np c buf arbitrary: fs c' rest rule: parse_buffer.induct)
  case (1 np c buf)
  show ?case
  proof (cases "feed_iter np c buf 0")
    case (Break c1 n)
    then have "rest = drop n buf" using "1.prems" by (simp add: parse_buffer.simps [of np c buf])
    then have "rest = drop (min n (length buf)) buf" by (simp add: min_def)
    then show ?thesis by (metis min.cobounded2)
  next
    case (Continue c1 n fs1)
    then obtain fs2 where p: "parse_buffer np c1 (drop n buf) = (fs2, c', rest)"
      using "1.prems" by (auto simp: parse_buffer.simps [of np c buf] split: prod.splits)
    obtain m where m: "m \<le> length (drop n buf)" "rest = drop m (drop n buf)"
      using "1.IH" [OF Continue p] by blast
    then have "rest = drop (m + n) buf" by simp
    moreover have "m + n \<le> length buf"
      using m(1) feed_iter_progress [OF Continue] by auto
    ultimately show ?thesis by blast
  qed
qed

lemma feed_parse_buffer:
  "feed np p data =
     (case parse_buffer np (sp_core p) (sp_buffer p @ data) of
        (fs, c, rest) \<Rightarrow> (fs, \<lparr>sp_core = c, sp_buffer = rest\<rparr>))"
proof -
  define view where "view = sp_buffer p @ data"
  obtain fs c rest where r: "parse_buffer np (sp_core p) view = (fs, c, rest)"
    by (cases "parse_buffer np (sp_core p) view") auto
  obtain n where n: "n \<le> length view" "rest = drop n view"
    using parse_buffer_suffix [OF r] by blast
  have "drop (length view - length rest) view = rest" using n by simp
  then show ?thesis
    using feed_loop_parse [of 0 view np "sp_core p"] r by (simp add: feed_def view_def)
qed

section \<open>Reads may be cut anywhere\<close>

text \<open>More bytes do not change a pass that continued.\<close>

lemma feed_at_append:
  assumes "feed_at np c buf m = Continue c' n fs"
  shows "feed_at np c (buf @ d) m = Continue c' n fs"
proof -
  have l: "\<not> length buf - m < HEADER_SIZE"
    using assms by (auto simp: feed_at_def split: if_splits)
  then have ld: "\<not> length (buf @ d) - m < HEADER_SIZE" by auto
  have f: "field (buf @ d) (m + i) j = field buf (m + i) j" if "i + j \<le> 28" for i j
    using that l by (intro field_append) (simp add: const_simps)
  note fs = f [of 4 1, simplified] f [of 8 2, simplified] f [of 10 2, simplified]
  define size where "size = field buf (m + 8) 2 + field buf (m + 10) 2 + CRC_SIZE"
  have eq: "feed_at np c (buf @ d) m = feed_at np c buf m"
  proof (cases "length buf - m < size")
    case False
    then have "m + size \<le> length buf" by (simp add: size_def const_simps)
    then have "slice (buf @ d) m (m + size) = slice buf m (m + size)"
      by (intro slice_append_left) 
    moreover have "\<not> length (buf @ d) - m < size" using False by auto
    ultimately show ?thesis using False l ld fs
      by (simp add: feed_at_def Let_def size_def [symmetric] split: option.splits)
  next
    case True
    then show ?thesis using assms l ld fs
      by (simp add: feed_at_def Let_def size_def [symmetric] split: option.splits)
  qed
  then show ?thesis using assms by simp
qed

lemma feed_iter_append:
  assumes "feed_iter np c buf 0 = Continue c' n fs"
  shows "feed_iter np c (buf @ d) 0 = Continue c' n fs"
proof (cases "find_sub MAGIC buf")
  case None
  then show ?thesis using assms by (simp add: feed_iter_alt bytes_find_def Let_def)
next
  case (Some m)
  then show ?thesis
    using assms find_sub_append [OF Some, of d] feed_at_append
    by (simp add: feed_iter_alt bytes_find_def)
qed

text \<open>A pass that stopped is resumed where it stopped.\<close>

lemma feed_at_Break: "feed_at np c buf m = Break c' n \<Longrightarrow> c' = c \<and> n = m"
  by (auto simp: feed_at_def Let_def split: if_splits prod.splits option.splits)

lemma no_magic_start:
  assumes "find_sub MAGIC buf = None" and "j < length buf - 3"
  shows "\<not> starts_with MAGIC (drop j (buf @ d))"
proof -
  have "\<not> starts_with MAGIC (drop j buf)"
    using assms unfolding find_sub_None by auto
  then show ?thesis using assms(2) by (simp add: starts_with_append_iff)
qed

lemma magic_at_0: "starts_with MAGIC xs \<Longrightarrow> find_sub MAGIC xs = Some 0"
  by (cases xs) (auto simp: starts_with_def MAGIC_bytes)

lemma feed_iter_resume:
  assumes "feed_iter np c buf 0 = Break c1 n"
  shows "feed_iter np c (buf @ d) 0 = shift n (feed_iter np c1 (drop n buf @ d) 0)"
proof (cases "find_sub MAGIC buf")
  case None
  then have n: "n = length buf - 3" "c1 = add_discarded n c"
    using assms by (auto simp: feed_iter_alt bytes_find_def Let_def)
  have "find_sub MAGIC (buf @ d) = map_option (\<lambda>i. n + i) (find_sub MAGIC (drop n (buf @ d)))"
    by (rule find_sub_drop) (use n no_magic_start [OF None] in auto)
  then have f: "find_sub MAGIC (buf @ d) = map_option (\<lambda>i. n + i) (find_sub MAGIC (drop n buf @ d))"
    using n by simp
  show ?thesis
  proof (cases "find_sub MAGIC (drop n buf @ d)")
    case None
    have "n + (length buf - n + length d - 3) = length buf + length d - 3"
      and "n + (length buf + length d - (n + 3)) = length buf + length d - 3" using n(1) by auto
    then show ?thesis using f n(2) None
      by (simp add: feed_iter_alt bytes_find_def Let_def)
  next
    case (Some m)
    have "feed_at np (add_discarded (n + m) c) (buf @ d) (n + m) =
          shift n (feed_at np (add_discarded (n + m) c) (drop n buf @ d) m)"
      using feed_at_shift [of np "add_discarded (n + m) c" "buf @ d" "n + m"]
        feed_at_shift [of np "add_discarded (n + m) c" "drop n buf @ d" m] n(1)
      by (simp add: add.commute)
    then show ?thesis using f n(2) Some by (simp add: feed_iter_alt bytes_find_def)
  qed
next
  case (Some m)
  then have n: "n = m" "c1 = add_discarded m c"
    using assms feed_at_Break by (fastforce simp: feed_iter_alt bytes_find_def)+
  have b: "m + 4 \<le> length buf" using find_sub_bound [OF Some] by simp
  have "starts_with MAGIC (drop m buf @ d)"
    using Some starts_with_mono by (auto simp: find_sub_Some)
  then have "find_sub MAGIC (drop m buf @ d) = Some 0" by (rule magic_at_0)
  moreover have "drop m (buf @ d) = drop m buf @ d" using b by simp
  ultimately show ?thesis
    using n find_sub_append [OF Some, of d] feed_at_shift [of np c1 "buf @ d" m]
    by (simp add: feed_iter_alt bytes_find_def)
qed

lemma parse_buffer_resume:
  assumes "feed_iter np c (buf @ d) 0 = shift n (feed_iter np c1 (drop n buf @ d) 0)"
    and "n \<le> length buf"
  shows "parse_buffer np c (buf @ d) = parse_buffer np c1 (drop n buf @ d)"
  using assms
  by (cases "feed_iter np c1 (drop n buf @ d) 0")
    (simp_all add: parse_buffer.simps [of np c "buf @ d"]
      parse_buffer.simps [of np c1 "drop n buf @ d"] add.commute)

lemma feed_iter_bound: "feed_iter np c buf 0 = Break c1 n \<Longrightarrow> n \<le> length buf"
  by (auto simp: feed_iter_alt bytes_find_def Let_def split: option.splits
      dest!: feed_at_Break find_sub_bound)

lemma parse_buffer_append:
  "parse_buffer np c (buf @ d) =
     (case parse_buffer np c buf of (fs1, c1, rest1) \<Rightarrow>
        case parse_buffer np c1 (rest1 @ d) of (fs2, c2, rest2) \<Rightarrow> (fs1 @ fs2, c2, rest2))"
proof (induction np c buf rule: parse_buffer.induct)
  case (1 np c buf)
  show ?case
  proof (cases "feed_iter np c buf 0")
    case (Break c1 n)
    then have "parse_buffer np c (buf @ d) = parse_buffer np c1 (drop n buf @ d)"
      by (intro parse_buffer_resume feed_iter_resume feed_iter_bound)
    then show ?thesis using Break by (simp add: parse_buffer.simps [of np c buf] split: prod.splits)
  next
    case (Continue c1 n fs)
    then have n: "n \<le> length buf" using feed_iter_progress by blast
    show ?thesis
      using "1.IH" [OF Continue] feed_iter_append [OF Continue, of d] Continue n
      by (simp add: parse_buffer.simps [of np c buf] parse_buffer.simps [of np c "buf @ d"]
          split: prod.splits)
  qed
qed

lemma feed_append:
  "feed np p (a @ b) =
     (case feed np p a of (fs1, p1) \<Rightarrow> case feed np p1 b of (fs2, p2) \<Rightarrow> (fs1 @ fs2, p2))"
  using parse_buffer_append [of np "sp_core p" "sp_buffer p @ a" b]
  by (simp add: feed_parse_buffer split: prod.splits)

lemma feed_append_parts:
  "fst (feed np p (a @ b)) = fst (feed np p a) @ fst (feed np (snd (feed np p a)) b)"
  "snd (feed np p (a @ b)) = snd (feed np (snd (feed np p a)) b)"
  by (simp_all add: feed_append split: prod.splits)

text \<open>The reads of a connection, one call of \<^verbatim>\<open>feed\<close> each.\<close>

fun feed_all :: "numpy \<Rightarrow> stream_parser \<Rightarrow> bytes list \<Rightarrow> frame list \<times> stream_parser" where
  "feed_all np p [] = ([], p)"
| "feed_all np p (chunk # chunks) =
     (case feed np p chunk of (fs, p') \<Rightarrow>
        case feed_all np p' chunks of (fs', p'') \<Rightarrow> (fs @ fs', p''))"

lemma feed_all_concat: "feed_all np p (chunk # chunks) = feed np p (concat (chunk # chunks))"
proof (induction chunks arbitrary: p chunk)
  case Nil
  then show ?case by (simp split: prod.splits)
next
  case (Cons c cs)
  have "feed_all np p (chunk # c # cs) =
        (case feed np p chunk of (fs, p') \<Rightarrow>
           case feed np p' (concat (c # cs)) of (fs', p'') \<Rightarrow> (fs @ fs', p''))"
    by (simp only: feed_all.simps(2) [of np p chunk] Cons.IH)
  then show ?case using feed_append [of np p chunk "concat (c # cs)"] by simp
qed

section \<open>What one pass can do\<close>

text \<open>A complete frame as the wire format defines it.\<close>

definition valid_candidate :: "bytes \<Rightarrow> bool" where
  "valid_candidate bs \<longleftrightarrow>
     starts_with MAGIC bs \<and> HEADER_SIZE \<le> field bs 8 2 \<and> field bs 8 2 \<le> MAX_HEADER_SIZE \<and>
     (field bs 4 1 = VERSION \<longrightarrow> field bs 8 2 = HEADER_SIZE) \<and>
     (field bs 4 1 = DATA_VERSION \<longrightarrow> field bs 8 2 = DATA_HEADER_SIZE) \<and>
     field bs 10 2 \<le> MAX_PAYLOAD_SIZE \<and>
     length bs = field bs 8 2 + field bs 10 2 + CRC_SIZE \<and>
     field bs (length bs - CRC_SIZE) 4 = crc32 (take (length bs - CRC_SIZE) bs)"

lemma check_header_None:
  "check_header v h p c = None \<longleftrightarrow>
     HEADER_SIZE \<le> h \<and> h \<le> MAX_HEADER_SIZE \<and> (v = VERSION \<longrightarrow> h = HEADER_SIZE) \<and>
     (v = DATA_VERSION \<longrightarrow> h = DATA_HEADER_SIZE) \<and> p \<le> MAX_PAYLOAD_SIZE"
  by (auto simp: check_header_def const_simps)

lemma check_header_Some:
  "check_header v h p c = Some c' \<Longrightarrow> c' = inc_header_errors c \<or> c' = inc_length_errors c"
  by (auto simp: check_header_def split: if_splits)

lemma feed_at_valid:
  assumes "valid_candidate (slice buf m (m + n))" and "m + n \<le> length buf"
    and "length (slice buf m (m + n)) = n"
  shows "feed_at np c buf m =
    (case accept_candidate np c (slice buf m (m + n)) (field (slice buf m (m + n)) 8 2) of
       (c', fs) \<Rightarrow> Continue c' (m + n) fs)"
proof -
  define cand where "cand = slice buf m (m + n)"
  have sz: "field cand 8 2 + field cand 10 2 + CRC_SIZE = n" and v: "valid_candidate cand"
    using assms by (auto simp: valid_candidate_def cand_def)
  then have 28: "28 \<le> n" by (auto simp: valid_candidate_def const_simps)
  then have f: "field buf (m + i) j = field cand i j" if "i + j \<le> 28" for i j
    using that by (simp add: cand_def field_def slice_slice add.assoc)
  have fs: "field buf (m + 8) 2 = field cand 8 2" "field buf (m + 10) 2 = field cand 10 2"
    "field buf (m + 4) 1 = field cand 4 1" by (simp_all add: f)
  have h: "check_header (field cand 4 1) (field cand 8 2) (field cand 10 2) c = None"
    using v by (auto simp: check_header_None valid_candidate_def)
  have l: "\<not> length buf - m < HEADER_SIZE" "\<not> length buf - m < n"
    using 28 assms(2) by (auto simp: const_simps)
  have "crc32 (take (n - CRC_SIZE) cand) = field cand (n - CRC_SIZE) 4"
    using v assms(3) by (simp add: valid_candidate_def cand_def)
  then show ?thesis
    by (simp add: feed_at_def Let_def fs [simplified] h [simplified] l sz cand_def [symmetric])
qed

lemma feed_at_cases:
  assumes "starts_with MAGIC (drop m buf)"
  obtains (stop) "feed_at np c buf m = Break c m" "length buf - m < 3837"
  | (bad) c1 where "feed_at np c buf m = Continue (add_discarded 1 c1) (m + 1) []"
      "c1 = inc_header_errors c \<or> c1 = inc_length_errors c \<or> c1 = inc_crc_errors c"
      "m + 1 \<le> length buf"
  | (good) n where "28 \<le> n" "m + n \<le> length buf" "valid_candidate (slice buf m (m + n))"
      "feed_at np c buf m =
        (case accept_candidate np c (slice buf m (m + n)) (field (slice buf m (m + n)) 8 2) of
           (c', fs) \<Rightarrow> Continue c' (m + n) fs)"
proof -
  define hs where "hs = field buf (m + 8) 2"
  define ps where "ps = field buf (m + 10) 2"
  define size where "size = hs + ps + CRC_SIZE"
  define cand where "cand = slice buf m (m + size)"
  define v where "v = field buf (m + 4) 1"
  consider "length buf - m < HEADER_SIZE" | "\<not> length buf - m < HEADER_SIZE" "check_header v hs ps c \<noteq> None"
    | "\<not> length buf - m < HEADER_SIZE" "check_header v hs ps c = None" "length buf - m < size"
    | "check_header v hs ps c = None" "\<not> length buf - m < size" by blast
  then show thesis
  proof cases
    case 1
    then show ?thesis by (intro stop) (simp_all add: feed_at_def const_simps)
  next
    case 2
    then obtain c1 where c1: "check_header v hs ps c = Some c1" by blast
    have "feed_at np c buf m = Continue (add_discarded 1 c1) (m + 1) []"
      using 2 c1 by (simp add: feed_at_def Let_def v_def hs_def ps_def)
    moreover have "m + 1 \<le> length buf" using 2 by (simp add: const_simps)
    ultimately show ?thesis using bad check_header_Some [OF c1] by blast
  next
    case 3
    then have "feed_at np c buf m = Break c m"
      by (simp add: feed_at_def Let_def v_def hs_def ps_def size_def)
    moreover have "size \<le> 3837" using 3(2) by (simp add: check_header_None size_def const_simps)
    ultimately show ?thesis using stop 3(3) by simp
  next
    case 4
    have 28: "28 \<le> size" using 4(1) by (simp add: check_header_None size_def const_simps)
    have len: "m + size \<le> length buf" "length cand = size"
      using 4(2) 28 by (auto simp: cand_def)
    have f: "field cand i j = field buf (m + i) j" if "i + j \<le> 28" for i j
      using that 28 by (simp add: cand_def field_def slice_slice add.assoc)
    have f': "field cand 8 2 = hs" "field cand 10 2 = ps" "field cand 4 1 = v"
      using f [of 8 2] f [of 10 2] f [of 4 1] by (simp_all add: hs_def ps_def v_def)
    show ?thesis
    proof (cases "crc32 (take (size - CRC_SIZE) cand) = field cand (size - CRC_SIZE) 4")
      case True
      have "starts_with MAGIC cand"
        using assms 28 by (simp add: cand_def slice_def starts_with_def take_take)
      then have "valid_candidate cand"
        using True 4(1) len f' by (simp add: valid_candidate_def check_header_None size_def [symmetric])
      then show ?thesis
        using good [of size] 28 len feed_at_valid [of buf m size np c] by (simp add: cand_def)
    next
      case False
      then have "feed_at np c buf m = Continue (add_discarded 1 (inc_crc_errors c)) (m + 1) []"
        using 4 28 by (simp add: feed_at_def Let_def v_def hs_def ps_def size_def cand_def const_simps)
      moreover have "m + 1 \<le> length buf" using len 28 by simp
      ultimately show ?thesis using bad by blast
    qed
  qed
qed

lemma feed_iter_cases [case_names nomagic stop bad good]:
  assumes "\<lbrakk> feed_iter np c buf 0 = Break (add_discarded (length buf - 3) c) (length buf - 3) \<rbrakk> \<Longrightarrow> P"
    and "\<And>m. \<lbrakk> feed_iter np c buf 0 = Break (add_discarded m c) m; m \<le> length buf;
          length buf - m < 3837 \<rbrakk> \<Longrightarrow> P"
    and "\<And>m c1. \<lbrakk> feed_iter np c buf 0 = Continue (add_discarded 1 c1) (m + 1) []; m + 1 \<le> length buf;
          c1 = inc_header_errors (add_discarded m c) \<or> c1 = inc_length_errors (add_discarded m c) \<or>
          c1 = inc_crc_errors (add_discarded m c) \<rbrakk> \<Longrightarrow> P"
    and "\<And>m n. \<lbrakk> 28 \<le> n; m + n \<le> length buf; valid_candidate (slice buf m (m + n));
          feed_iter np c buf 0 =
            (case accept_candidate np (add_discarded m c) (slice buf m (m + n))
                    (field (slice buf m (m + n)) 8 2) of (c', fs) \<Rightarrow> Continue c' (m + n) fs) \<rbrakk> \<Longrightarrow> P"
  shows P
proof (cases "find_sub MAGIC buf")
  case None
  then show P using assms(1) by (simp add: feed_iter_alt bytes_find_def Let_def)
next
  case (Some m)
  then have it: "feed_iter np c buf 0 = feed_at np (add_discarded m c) buf m"
    by (simp add: feed_iter_alt bytes_find_def)
  have s: "starts_with MAGIC (drop m buf)" and m: "m \<le> length buf"
    using Some by (simp_all add: find_sub_Some)
  show P
    by (cases rule: feed_at_cases [OF s, of np "add_discarded m c"])
      (use it m assms(2-4) in auto)
qed

section \<open>Bounded buffer\<close>

lemma parse_buffer_bound: "parse_buffer np c buf = (fs, c', rest) \<Longrightarrow> length rest < 3837"
proof (induction np c buf arbitrary: fs c' rest rule: parse_buffer.induct)
  case (1 np c buf)
  show ?case
  proof (cases "feed_iter np c buf 0")
    case (Break c1 n)
    then have "length buf - n < 3837"
      by (cases rule: feed_iter_cases [of np c buf]) (auto split: prod.splits)
    then show ?thesis using "1.prems" Break by (auto simp: parse_buffer.simps [of np c buf])
  next
    case (Continue c1 n fs1)
    then show ?thesis
      using "1.IH" [OF Continue] "1.prems"
      by (auto simp: parse_buffer.simps [of np c buf] split: prod.splits)
  qed
qed

section \<open>Counters and byte accounting\<close>

abbreviation discarded :: "parser_core \<Rightarrow> nat" where
  "discarded c \<equiv> ps_bytes_discarded (pc_stats c)"

text \<open>The counters a CRC-valid frame that is not returned increments.\<close>

definition rejected :: "parser_core \<Rightarrow> nat" where
  "rejected c = ps_header_errors (pc_stats c) + ps_unknown_versions (pc_stats c)
     + ps_unknown_types (pc_stats c) + ps_payload_errors (pc_stats c)"

lemmas counter_defs = upd_stats_def add_discarded_def inc_frames_def inc_crc_errors_def
  inc_header_errors_def inc_length_errors_def inc_unknown_versions_def inc_unknown_types_def
  inc_payload_errors_def

lemma record_sequence_counters [simp]:
  "discarded (record_sequence q c) = discarded c"
  "rejected (record_sequence q c) = rejected c"
  "ps_frames (pc_stats (record_sequence q c)) = ps_frames (pc_stats c)"
  by (auto simp: record_sequence_def upd_stats_def rejected_def Let_def split: option.splits)

lemma decode_frame_cases:
  assumes "decode_frame np t fg sq ts n pl u raw c = (r, c')"
  shows "discarded c' = discarded c" and "ps_frames (pc_stats c') = ps_frames (pc_stats c)"
    and "r = None \<Longrightarrow> rejected c' = rejected c + 1"
    and "r = Some f \<Longrightarrow> rejected c' = rejected c"
    and "r = Some f \<Longrightarrow> fr_message_type f = t \<and> fr_flags f = fg \<and> fr_sequence f = sq \<and>
      fr_timestamp_us f = ts \<and> fr_item_count f = n \<and> fr_payload f = pl \<and> fr_raw_bytes f = raw \<and>
      fr_device_uuid f = u"
  using assms
  by (auto simp: decode_frame_def Let_def counter_defs rejected_def
      split: message_type.splits if_splits prod.splits)

lemma accept_candidate_counters:
  assumes "accept_candidate np c cand h = (c', fs)"
  shows "discarded c' = discarded c"
    and "ps_frames (pc_stats c') = ps_frames (pc_stats c) + length fs"
    and "fs = [] \<and> rejected c' = rejected c + 1 \<or>
         (\<exists>f. fs = [f] \<and> fr_raw_bytes f = cand \<and> rejected c' = rejected c)"
proof -
  have inc: "discarded (inc_frames x) = discarded x" "rejected (inc_frames x) = rejected x"
    "ps_frames (pc_stats (inc_frames x)) = ps_frames (pc_stats x) + 1" for x
    by (simp_all add: counter_defs rejected_def)
  have "discarded c' = discarded c \<and> ps_frames (pc_stats c') = ps_frames (pc_stats c) + length fs \<and>
    (fs = [] \<and> rejected c' = rejected c + 1 \<or>
     (\<exists>f. fs = [f] \<and> fr_raw_bytes f = cand \<and> rejected c' = rejected c))"
    using assms
    by (auto simp: accept_candidate_def Let_def inc split: if_splits option.splits prod.splits
        dest: decode_frame_cases)
      (auto simp: counter_defs rejected_def)
  then show "discarded c' = discarded c"
    and "ps_frames (pc_stats c') = ps_frames (pc_stats c) + length fs"
    and "fs = [] \<and> rejected c' = rejected c + 1 \<or>
         (\<exists>f. fs = [f] \<and> fr_raw_bytes f = cand \<and> rejected c' = rejected c)" by auto
qed

text \<open>One pass: bytes discarded, bytes of returned frames and bytes passed over.\<close>

definition frame_bytes :: "frame list \<Rightarrow> nat" where
  "frame_bytes fs = sum_list (map (\<lambda>f. length (fr_raw_bytes f)) fs)"

lemma frame_bytes_append [simp]: "frame_bytes (fs @ gs) = frame_bytes fs + frame_bytes gs"
  by (simp add: frame_bytes_def)

lemma feed_iter_Continue_account:
  assumes "feed_iter np c buf 0 = Continue c' n fs"
  shows "discarded c' + frame_bytes fs \<le> discarded c + n \<and> rejected c \<le> rejected c' \<and>
    ps_frames (pc_stats c') = ps_frames (pc_stats c) + length fs \<and>
    (rejected c' = rejected c \<longrightarrow> discarded c' + frame_bytes fs = discarded c + n)"
proof (cases rule: feed_iter_cases [of np c buf])
  case (bad m c1)
  then show ?thesis using assms
    by (auto simp: counter_defs rejected_def frame_bytes_def)
next
  case (good m k)
  define cand where "cand = slice buf m (m + k)"
  have k: "length cand = k" using good by (simp add: cand_def)
  obtain c2 fs2 where acc: "accept_candidate np (add_discarded m c) cand (field cand 8 2) = (c2, fs2)"
    by (cases "accept_candidate np (add_discarded m c) cand (field cand 8 2)") auto
  then have e: "c2 = c'" "fs2 = fs" "n = m + k"
    using assms good by (auto simp: cand_def)
  note a = accept_candidate_counters [OF acc, unfolded e]
  have "discarded (add_discarded m c) = discarded c + m" "rejected (add_discarded m c) = rejected c"
    "ps_frames (pc_stats (add_discarded m c)) = ps_frames (pc_stats c)"
    by (simp_all add: counter_defs rejected_def)
  then show ?thesis using a e k by (auto simp: frame_bytes_def)
qed (use assms in auto)

lemma feed_iter_Break_account:
  assumes "feed_iter np c buf 0 = Break c' n"
  shows "discarded c' = discarded c + n \<and> rejected c' = rejected c \<and>
    ps_frames (pc_stats c') = ps_frames (pc_stats c)"
  by (cases rule: feed_iter_cases [of np c buf])
    (use assms in \<open>auto simp: counter_defs rejected_def split: prod.splits\<close>)

lemma parse_buffer_account:
  "parse_buffer np c buf = (fs, c', rest) \<Longrightarrow>
     discarded c' + frame_bytes fs + length rest \<le> discarded c + length buf \<and>
     rejected c \<le> rejected c' \<and> ps_frames (pc_stats c') = ps_frames (pc_stats c) + length fs \<and>
     (rejected c' = rejected c \<longrightarrow>
        discarded c' + frame_bytes fs + length rest = discarded c + length buf)"
proof (induction np c buf arbitrary: fs c' rest rule: parse_buffer.induct)
  case (1 np c buf)
  show ?case
  proof (cases "feed_iter np c buf 0")
    case (Break c1 n)
    then show ?thesis
      using "1.prems" feed_iter_Break_account [OF Break] feed_iter_bound [OF Break]
      by (auto simp: parse_buffer.simps [of np c buf] frame_bytes_def)
  next
    case (Continue c1 n fs1)
    then obtain fs2 where p: "parse_buffer np c1 (drop n buf) = (fs2, c', rest)" "fs = fs1 @ fs2"
      using "1.prems" by (auto simp: parse_buffer.simps [of np c buf] split: prod.splits)
    have "n \<le> length buf" using feed_iter_progress [OF Continue] by simp
    then show ?thesis
      using feed_iter_Continue_account [OF Continue] "1.IH" [OF Continue p(1)] p(2) by auto
  qed
qed

section \<open>Returned frames are the frames of the stream\<close>

text \<open>A returned frame is a complete, CRC-valid frame and its fields are those of the wire.\<close>

definition payload_ok :: "frame \<Rightarrow> bool" where
  "payload_ok f =
     (case fr_message_type f of
        IIS3DWB_FIFO \<Rightarrow> length (fr_payload f) = fr_item_count f * IIS_WORD_SIZE
      | JY61PL_SAMPLE \<Rightarrow> length (fr_payload f) = 14 \<and> fr_item_count f = 1
      | STATUS \<Rightarrow> length (fr_payload f) = 64 \<and> fr_item_count f = 1
      | CLI_RESPONSE \<Rightarrow> True)"

definition frame_sound :: "frame \<Rightarrow> bool" where
  "frame_sound f \<longleftrightarrow>
     (let raw = fr_raw_bytes f in
      valid_candidate raw \<and> field raw 4 1 \<in> {VERSION, DATA_VERSION} \<and>
      field raw 5 1 = message_type_value (fr_message_type f) \<and>
      fr_flags f = field raw 6 2 \<and> fr_sequence f = field raw 12 4 \<and>
      fr_timestamp_us f = field raw 16 8 \<and> fr_item_count f = field raw 24 2 \<and>
      fr_payload f = slice raw (field raw 8 2) (length raw - CRC_SIZE) \<and>
      fr_device_uuid f = (if field raw 4 1 = DATA_VERSION
        then Some (be_nat (slice raw HEADER_SIZE DATA_HEADER_SIZE)) else None) \<and>
      (fr_device_uuid f \<noteq> None \<longrightarrow> fr_message_type f \<in> {IIS3DWB_FIFO, JY61PL_SAMPLE}) \<and>
      payload_ok f)"

lemma decode_frame_payload_ok:
  "decode_frame np t fg sq ts n pl u raw c = (Some f, c') \<Longrightarrow> payload_ok f"
  by (auto simp: decode_frame_def Let_def payload_ok_def
      split: message_type.splits if_splits prod.splits)

lemma accept_candidate_sound:
  assumes "accept_candidate np c cand (field cand 8 2) = (c', fs)" and "valid_candidate cand"
    and "f \<in> set fs"
  shows "frame_sound f \<and> fr_raw_bytes f = cand"
  using assms
  by (fastforce simp: accept_candidate_def Let_def frame_sound_def message_type_of_Some
      split: if_splits option.splits prod.splits dest: decode_frame_cases(5) decode_frame_payload_ok)

lemma parse_buffer_sound:
  "parse_buffer np c buf = (fs, c', rest) \<Longrightarrow> f \<in> set fs \<Longrightarrow>
     frame_sound f \<and> (\<exists>i. i + length (fr_raw_bytes f) \<le> length buf \<and>
       slice buf i (i + length (fr_raw_bytes f)) = fr_raw_bytes f)"
proof (induction np c buf arbitrary: fs c' rest rule: parse_buffer.induct)
  case (1 np c buf)
  show ?case
  proof (cases "feed_iter np c buf 0")
    case (Break c1 n)
    then show ?thesis using "1.prems" by (simp add: parse_buffer.simps [of np c buf])
  next
    case (Continue c1 n fs1)
    then obtain fs2 where p: "parse_buffer np c1 (drop n buf) = (fs2, c', rest)" "fs = fs1 @ fs2"
      using "1.prems"(1) by (auto simp: parse_buffer.simps [of np c buf] split: prod.splits)
    have n: "n \<le> length buf" using feed_iter_progress [OF Continue] by simp
    show ?thesis
    proof (cases "f \<in> set fs1")
      case False
      then have "f \<in> set fs2" using p(2) "1.prems"(2) by simp
      then obtain i where "frame_sound f" "i + length (fr_raw_bytes f) \<le> length (drop n buf)"
        "slice (drop n buf) i (i + length (fr_raw_bytes f)) = fr_raw_bytes f"
        using "1.IH" [OF Continue p(1)] by blast
      then show ?thesis using n by (auto simp: slice_drop add.assoc intro!: exI [of _ "n + i"])
    next
      case True
      show ?thesis
      proof (cases rule: feed_iter_cases [of np c buf])
        case (good m k)
        obtain c2 fs3 where acc: "accept_candidate np (add_discarded m c) (slice buf m (m + k))
            (field (slice buf m (m + k)) 8 2) = (c2, fs3)" by fastforce
        then have "fs3 = fs1" using good Continue by simp
        then have "frame_sound f \<and> fr_raw_bytes f = slice buf m (m + k)"
          using accept_candidate_sound [OF acc good(3)] True by simp
        then show ?thesis using good(2) by (auto intro!: exI [of _ m])
      qed (use Continue True in auto)
    qed
  qed
qed

text \<open>A UUID is 16 bytes of the header.\<close>

lemma frame_sound_uuid: "frame_sound f \<Longrightarrow> fr_device_uuid f = Some u \<Longrightarrow> u < 2 ^ 128"
  using be_nat_bound [of "slice (fr_raw_bytes f) HEADER_SIZE DATA_HEADER_SIZE"]
    power_increasing [of "length (slice (fr_raw_bytes f) HEADER_SIZE DATA_HEADER_SIZE)" 16 "256 :: nat"]
  by (auto simp: frame_sound_def Let_def length_slice const_simps split: if_splits)

lemma feed_uuid:
  assumes "feed np p data = (fs, p')" and "f \<in> set fs" and "fr_device_uuid f = Some u"
  shows "u < 2 ^ 128"
proof -
  obtain c rest where pb: "parse_buffer np (sp_core p) (sp_buffer p @ data) = (fs, c, rest)"
    using assms(1) by (cases "parse_buffer np (sp_core p) (sp_buffer p @ data)") (auto simp: feed_parse_buffer)
  show ?thesis using parse_buffer_sound [OF pb assms(2)] frame_sound_uuid assms(3) by blast
qed

section \<open>A frame in the stream is found\<close>

text \<open>
  Bytes in front of which no magic starts are skipped and counted; the frame behind them is
  decoded as if it came first, and parsing goes on after it.
\<close>

lemma parse_buffer_frame:
  assumes v: "valid_candidate cand"
    and noise: "\<And>j. j < length noise \<Longrightarrow> \<not> starts_with MAGIC (drop j (noise @ cand))"
  shows "parse_buffer np c (noise @ cand @ rest) =
    (case accept_candidate np (add_discarded (length noise) c) cand (field cand 8 2) of
       (c', fs) \<Rightarrow> case parse_buffer np c' rest of (fs', c'', rest') \<Rightarrow> (fs @ fs', c'', rest'))"
proof -
  define m where "m = length noise"
  have len: "28 \<le> length cand" using v by (auto simp: valid_candidate_def const_simps)
  have s: "starts_with MAGIC (cand @ rest)"
    using v starts_with_mono by (auto simp: valid_candidate_def)
  have "\<not> starts_with MAGIC (drop j (noise @ cand @ rest))" if "j < m" for j
  proof -
    have "\<not> starts_with MAGIC (drop j (noise @ cand))" using noise that by (simp add: m_def)
    moreover have "drop j (noise @ cand @ rest) = drop j (noise @ cand) @ rest"
      using that by (simp add: m_def)
    moreover have "length MAGIC \<le> length (drop j (noise @ cand))" using that len by (simp add: m_def)
    ultimately show ?thesis by (metis starts_with_append_iff)
  qed
  then have "find_sub MAGIC (noise @ cand @ rest) = Some m"
    using s by (simp add: find_sub_Some m_def)
  then have it: "feed_iter np c (noise @ cand @ rest) 0 =
      feed_at np (add_discarded m c) (noise @ cand @ rest) m"
    by (simp add: feed_iter_alt bytes_find_def)
  have sl: "slice (noise @ cand @ rest) m (m + length cand) = cand"
    by (simp add: slice_def m_def)
  then have "feed_at np (add_discarded m c) (noise @ cand @ rest) m =
    (case accept_candidate np (add_discarded m c) cand (field cand 8 2) of
       (c', fs) \<Rightarrow> Continue c' (m + length cand) fs)"
    using feed_at_valid [of "noise @ cand @ rest" m "length cand" np "add_discarded m c"] v
    by (simp add: m_def)
  moreover have "drop (m + length cand) (noise @ cand @ rest) = rest" by (simp add: m_def)
  ultimately show ?thesis using it
    by (simp add: parse_buffer.simps [of np c "noise @ cand @ rest"] m_def split: prod.splits)
qed

section \<open>Properties\<close>

text \<open>
  C1. However a stream is cut into reads, the parser returns the same frames and ends in the same
  state: feeding the chunks one by one equals feeding their concatenation once.
\<close>

theorem feed_chunk_invariant:
  "feed_all np p (chunk # chunks) = feed np p (concat (chunk # chunks))"
  by (rule feed_all_concat)

text \<open>
  C15. The cursor loop of \<^verbatim>\<open>feed\<close>, which deletes consumed bytes once at the end, computes what the
  loop that deletes them from the head of the buffer at every pass computes.
\<close>

theorem feed_cursor_is_deletion:
  "feed np p data =
     (case parse_buffer np (sp_core p) (sp_buffer p @ data) of
        (fs, c, rest) \<Rightarrow> (fs, \<lparr>sp_core = c, sp_buffer = rest\<rparr>))"
  by (rule feed_parse_buffer)

text \<open>
  C22. The parser never holds more than one incomplete frame of maximal size: after every call
  fewer than 3837 bytes stay buffered, whatever was buffered and fed.
\<close>

theorem feed_buffer_bounded: "buffered_bytes (snd (feed np p data)) < 3837"
proof -
  obtain fs c rest where "parse_buffer np (sp_core p) (sp_buffer p @ data) = (fs, c, rest)"
    by (cases "parse_buffer np (sp_core p) (sp_buffer p @ data)") auto
  then show ?thesis
    using parse_buffer_bound by (fastforce simp: feed_parse_buffer buffered_bytes_def)
qed


text \<open>
  C2. Every frame returned occurs in the stream as a complete frame with a valid CRC and a header of
  the right size for its version; its fields are those of the wire, its device UUID is that of the
  header when it is a version 2 frame and absent otherwise, and its payload has the length its type demands.
\<close>

theorem feed_frames_sound:
  "list_all (\<lambda>f. frame_sound f \<and>
      (\<exists>i. slice (sp_buffer p @ data) i (i + length (fr_raw_bytes f)) = fr_raw_bytes f))
     (fst (feed np p data))"
proof -
  obtain fs c rest where pb: "parse_buffer np (sp_core p) (sp_buffer p @ data) = (fs, c, rest)"
    by (cases "parse_buffer np (sp_core p) (sp_buffer p @ data)") auto
  show ?thesis
    using parse_buffer_sound [OF pb] by (auto simp: feed_parse_buffer pb list_all_iff)
qed

text \<open>
  C21. Recovery: bytes in which no magic starts are skipped and counted, and the valid frame behind
  them is decoded exactly as if the stream had begun with it; parsing continues after it.
\<close>

theorem feed_recovers_frame:
  assumes "valid_candidate cand"
    and "\<forall>j<length noise. \<not> starts_with MAGIC (drop j (noise @ cand))"
    and "sp_buffer p = []"
  shows "feed np p (noise @ cand @ rest) =
    (case accept_candidate np (add_discarded (length noise) (sp_core p)) cand (field cand 8 2) of
       (c, fs) \<Rightarrow> case feed np \<lparr>sp_core = c, sp_buffer = []\<rparr> rest of (fs', p') \<Rightarrow> (fs @ fs', p'))"
  using parse_buffer_frame [OF assms(1), of noise np "sp_core p" rest] assms(2,3)
  by (simp add: feed_parse_buffer split: prod.splits)

text \<open>A CLI response frame with the text \<open>OK\<close>.\<close>

definition sample_frame :: bytes where
  "sample_frame = [83, 68, 70, 49, 1, 4, 0, 0, 28, 0, 2, 0, 7, 0, 0, 0, 0, 0, 0, 0, 0, 0, 0, 0, 1, 0, 0, 0,
     79, 75, 226, 85, 99, 207]"

lemma sample_frame_valid: "valid_candidate sample_frame"
  by (simp add: valid_candidate_def sample_frame_def starts_with_def MAGIC_bytes field_def slice_def
      const_simps crc32_def crc_byte_def crc_bit_def)

theorem feed_recovers_frame_witness:
  "valid_candidate sample_frame \<and>
   feed np_ref (StreamParser_init True) ([1, 83] @ sample_frame @ [9]) =
    (case accept_candidate np_ref (add_discarded (Suc 1) (sp_core (StreamParser_init True))) sample_frame
            (field sample_frame 8 2) of
       (c, fs) \<Rightarrow> case feed np_ref \<lparr>sp_core = c, sp_buffer = []\<rparr> [9] of (fs', p') \<Rightarrow> (fs @ fs', p'))"
proof -
  have "\<forall>j<length [1, 83]. \<not> starts_with MAGIC (drop j ([1, 83] @ sample_frame))"
    by (auto simp: less_Suc_eq starts_with_def MAGIC_bytes sample_frame_def)
  then show ?thesis
    using feed_recovers_frame [OF sample_frame_valid, of "[1, 83]" "StreamParser_init True" np_ref "[9]"]
      sample_frame_valid
    by (simp add: StreamParser_init_def)
qed

text \<open>
  The gap counter: after the sequence number \<open>l\<close>, the arrival of the number \<open>k + 1\<close> steps later
  (modulo \<open>2 ^ 32\<close>) counts exactly the \<open>k\<close> missing frames, for every \<open>k\<close> below half the range, across
  the wrap-around too; the number becomes the last one seen.
\<close>

theorem record_sequence_counts_gap:
  assumes "pc_last_sequence c = Some l" and "l < 2 ^ 32" and "k < 2 ^ 31"
  shows "ps_sequence_gaps (pc_stats (record_sequence ((l + 1 + k) mod 2 ^ 32) c)) =
      ps_sequence_gaps (pc_stats c) + k \<and>
    pc_last_sequence (record_sequence ((l + 1 + k) mod 2 ^ 32) c) = Some ((l + 1 + k) mod 2 ^ 32)"
proof -
  have "(int ((l + 1 + k) mod 2 ^ 32) - (int l + 1) mod 2 ^ 32) mod 2 ^ 32 =
      ((int l + 1 + int k) mod 2 ^ 32 - (int l + 1) mod 2 ^ 32) mod 2 ^ 32"
    by (simp add: zmod_int ac_simps)
  also have "\<dots> = int k mod 2 ^ 32" by (simp only: mod_diff_eq) simp
  also have "\<dots> = int k" using assms(3) by simp
  finally have "(int ((l + 1 + k) mod 2 ^ 32) - (int l + 1) mod 2 ^ 32) mod 2 ^ 32 = int k" .
  then show ?thesis using assms(1,3) by (simp add: record_sequence_def Let_def upd_stats_def)
qed

theorem record_sequence_counts_gap_witness:
  "ps_sequence_gaps (pc_stats (record_sequence ((4294967295 + 1 + 3) mod 2 ^ 32)
     ((sp_core (StreamParser_init True))\<lparr>pc_last_sequence := Some 4294967295\<rparr>))) = 3"
  using record_sequence_counts_gap
    [of "(sp_core (StreamParser_init True))\<lparr>pc_last_sequence := Some 4294967295\<rparr>" 4294967295 3]
  by (simp add: StreamParser_init_def empty_stats_def)

end
