(* ===== verification/SampleStore.thy ===== *)
theory SampleStore
  imports Sdf1 ControlState
begin

text \<open>
  \<^verbatim>\<open>acquisition/sample_store.py\<close> and the snapshot of \<^verbatim>\<open>acquisition/models.py\<close>: the bounded
  history of acceleration samples and the display-sized views of it. Every method holds the
  store's lock, so each is one atomic operation. numpy is the parameter \<open>np\<close>, the order in which
  Python iterates over a set the parameter \<open>it\<close>; the monotonic clock reading a method falls back
  to is an argument.
\<close>

section \<open>State\<close>

type_synonym row = "float64 \<times> float64 \<times> float64"

definition DEFAULT_RETENTION_SECONDS :: float64 where "DEFAULT_RETENTION_SECONDS = 30"
definition MICROSECONDS_PER_SECOND :: float64 where "MICROSECONDS_PER_SECOND = 1000000"
definition MINIMUM_POINT_BUDGET :: nat where [const_simps]: "MINIMUM_POINT_BUDGET = 2"

record sample_chunk =
  ch_timestamps_us :: "float64 list"
  ch_acceleration_g :: "row list"

record sample_store =
  ss_retention_us :: float64
  ss_chunks :: "sample_chunk list"
  ss_latest_orientation :: "jy61pl_sample option"
  ss_orientation_received_s :: "float64 option"
  ss_firmware_status :: "status_v1 option"
  ss_firmware_control_state :: "control_state option"
  ss_parser_stats :: parser_stats

record ui_snapshot =
  us_time_s :: "float64 list"
  us_x_g :: "float64 list"
  us_y_g :: "float64 list"
  us_z_g :: "float64 list"
  us_orientation :: "jy61pl_sample option"
  us_orientation_age_s :: "float64 option"
  us_firmware_status :: "status_v1 option"
  us_parser_stats :: parser_stats
  us_sample_rate_hz :: float64
  us_firmware_control_state :: "control_state option"

definition empty_snapshot :: ui_snapshot where
  "empty_snapshot = \<lparr>us_time_s = [], us_x_g = [], us_y_g = [], us_z_g = [], us_orientation = None,
     us_orientation_age_s = None, us_firmware_status = None, us_parser_stats = empty_stats,
     us_sample_rate_hz = 0, us_firmware_control_state = None\<rparr>"

definition RealtimeSampleStore_init :: "float64 \<Rightarrow> sample_store res" where
  "RealtimeSampleStore_init retention_s =
     (if retention_s \<le> 0 then Inl (ValueError ''retention_s must be positive'')
      else Inr \<lparr>ss_retention_us = fmul retention_s MICROSECONDS_PER_SECOND, ss_chunks = [],
                ss_latest_orientation = None, ss_orientation_received_s = None,
                ss_firmware_status = None, ss_firmware_control_state = None,
                ss_parser_stats = empty_stats\<rparr>)"

section \<open>The display envelope\<close>

definition row_magnitude :: "row \<Rightarrow> float64" where
  "row_magnitude r = (case r of (x, y, z) \<Rightarrow> max \<bar>x\<bar> (max \<bar>y\<bar> \<bar>z\<bar>))"

text \<open>The weakest and the strongest sample of every non-empty bucket.\<close>

fun bucket_picks :: "numpy \<Rightarrow> float64 list \<Rightarrow> nat list \<Rightarrow> nat set" where
  "bucket_picks np magnitude (bucket_start # bucket_stop # edges) =
     (if bucket_stop \<le> bucket_start then {}
      else let bucket_magnitude = slice magnitude bucket_start bucket_stop
           in {bucket_start + np_argmin np bucket_magnitude, bucket_start + np_argmax np bucket_magnitude})
     \<union> bucket_picks np magnitude (bucket_stop # edges)"
| "bucket_picks np magnitude _ = {}"

definition strongest :: "(nat set \<Rightarrow> nat list) \<Rightarrow> float64 list \<Rightarrow> nat set \<Rightarrow> nat \<Rightarrow> nat list" where
  "strongest it magnitude candidates budget =
     take budget (sort_key (\<lambda>i. - (magnitude ! i)) (it candidates))"

definition envelope_indices ::
  "numpy \<Rightarrow> (nat set \<Rightarrow> nat list) \<Rightarrow> row list \<Rightarrow> nat \<Rightarrow> nat list" where
  "envelope_indices np it acceleration_g max_points =
     (let sample_count = length acceleration_g in
      if sample_count \<le> max_points then [0..<sample_count]
      else
        let interior_budget = max_points - MINIMUM_POINT_BUDGET in
        if interior_budget = 0 then [0, sample_count - 1]
        else
          let bucket_count = max 1 ((interior_budget + 1) div 2);
              bucket_edges = np_linspace np 1 (sample_count - 1) (bucket_count + 1);
              magnitude = map row_magnitude acceleration_g;
              endpoint_indices = {0, sample_count - 1};
              selected_indices = endpoint_indices \<union> bucket_picks np magnitude bucket_edges;
              interior_candidates = selected_indices - endpoint_indices
          in sorted_list_of_set
               (endpoint_indices \<union> set (strongest it magnitude interior_candidates interior_budget)))"

section \<open>Operations\<close>

definition clear_samples :: "sample_store \<Rightarrow> sample_store" where
  "clear_samples s = s\<lparr>ss_chunks := []\<rparr>"

text \<open>\<^verbatim>\<open>deque.popleft\<close> while the newest sample of the first chunk is too old.\<close>

fun drop_old :: "float64 \<Rightarrow> sample_chunk list \<Rightarrow> sample_chunk list" where
  "drop_old cutoff_us [] = []"
| "drop_old cutoff_us (c # cs) =
     (if last (ch_timestamps_us c) < cutoff_us then drop_old cutoff_us cs else c # cs)"

definition trim_first :: "numpy \<Rightarrow> float64 \<Rightarrow> sample_chunk list \<Rightarrow> sample_chunk list" where
  "trim_first np cutoff_us chunks =
     (case chunks of
        [] \<Rightarrow> []
      | c # cs \<Rightarrow>
          let first_valid_index = np_searchsorted_left np (ch_timestamps_us c) cutoff_us
          in if first_valid_index = 0 then chunks
             else \<lparr>ch_timestamps_us = drop first_valid_index (ch_timestamps_us c),
                    ch_acceleration_g = drop first_valid_index (ch_acceleration_g c)\<rparr> # cs)"

definition prune :: "numpy \<Rightarrow> float64 \<Rightarrow> sample_store \<Rightarrow> sample_store" where
  "prune np latest_timestamp_us s =
     (let cutoff_us = fsub latest_timestamp_us (ss_retention_us s)
      in s\<lparr>ss_chunks := trim_first np cutoff_us (drop_old cutoff_us (ss_chunks s))\<rparr>)"

definition append_iis_arrays ::
  "numpy \<Rightarrow> float64 list \<Rightarrow> row list \<Rightarrow> sample_store \<Rightarrow> sample_store" where
  "append_iis_arrays np timestamps_us acceleration_g s =
     (if timestamps_us = [] then s
      else prune np (last timestamps_us)
        (s\<lparr>ss_chunks := ss_chunks s @
             [\<lparr>ch_timestamps_us = timestamps_us, ch_acceleration_g = acceleration_g\<rparr>]\<rparr>))"

definition append_iis :: "numpy \<Rightarrow> iis_sample list \<Rightarrow> sample_store \<Rightarrow> sample_store" where
  "append_iis np samples s =
     (if samples = [] then s
      else append_iis_arrays np (map is_timestamp_us samples) (map is_acceleration_g samples) s)"

definition update_jy :: "jy61pl_sample \<Rightarrow> float64 \<Rightarrow> sample_store \<Rightarrow> sample_store" where
  "update_jy sample received_s s =
     s\<lparr>ss_latest_orientation := Some sample, ss_orientation_received_s := Some received_s\<rparr>"

definition update_status :: "status_v1 \<Rightarrow> sample_store \<Rightarrow> sample_store" where
  "update_status st s = s\<lparr>ss_firmware_status := Some st\<rparr>"

definition update_control_state :: "control_state \<Rightarrow> sample_store \<Rightarrow> sample_store" where
  "update_control_state c s = s\<lparr>ss_firmware_control_state := Some c\<rparr>"

definition update_parser_stats :: "parser_stats \<Rightarrow> sample_store \<Rightarrow> sample_store" where
  "update_parser_stats st s = s\<lparr>ss_parser_stats := st\<rparr>"

text \<open>
  \<^verbatim>\<open>_window_arrays_locked\<close>: the parts of the chunks inside the window; \<^verbatim>\<open>np.concatenate\<close> of no
  part raises. The two arrays of a chunk have the same length (\<open>store_ok\<close> below), so a part pairs
  them.
\<close>

definition window_part :: "numpy \<Rightarrow> float64 \<Rightarrow> sample_chunk \<Rightarrow> (float64 \<times> row) list list" where
  "window_part np cutoff_us c =
     (if last (ch_timestamps_us c) < cutoff_us then []
      else let i = np_searchsorted_left np (ch_timestamps_us c) cutoff_us
           in [zip (drop i (ch_timestamps_us c)) (drop i (ch_acceleration_g c))])"

definition window_arrays :: "numpy \<Rightarrow> float64 \<Rightarrow> sample_store \<Rightarrow> (float64 \<times> row) list res" where
  "window_arrays np window_s s =
     (if ss_chunks s = [] then Inr []
      else
        let latest_timestamp_us = last (ch_timestamps_us (last (ss_chunks s)));
            cutoff_us = fsub latest_timestamp_us (fmul window_s MICROSECONDS_PER_SECOND);
            parts = concat (map (window_part np cutoff_us) (ss_chunks s))
        in if parts = [] then Inl (ValueError ''need at least one array to concatenate'')
           else Inr (concat parts))"

definition estimate_sample_rate :: "float64 list \<Rightarrow> float64" where
  "estimate_sample_rate timestamps_us =
     (if length timestamps_us < MINIMUM_POINT_BUDGET then 0
      else
        let duration_s = fdiv (fsub (last timestamps_us) (hd timestamps_us)) MICROSECONDS_PER_SECOND
        in if duration_s \<le> 0 then 0 else fdiv (of_pyint (int (length timestamps_us - 1))) duration_s)"

definition orientation_age :: "float64 \<Rightarrow> float64 option \<Rightarrow> float64 option" where
  "orientation_age now received = map_option (\<lambda>r. max 0 (fsub now r)) received"

definition snapshot ::
  "numpy \<Rightarrow> (nat set \<Rightarrow> nat list) \<Rightarrow> float64 \<Rightarrow> int \<Rightarrow> float64 \<Rightarrow> sample_store \<Rightarrow> ui_snapshot res" where
  "snapshot np it window_s max_points now s =
     (if window_s \<le> 0 then Inl (ValueError ''window_s must be positive'')
      else if max_points < int MINIMUM_POINT_BUDGET
      then Inl (ValueError ''max_points must be at least 2'')
      else rbind (window_arrays np window_s s) (\<lambda>samples.
        let selected = (if samples = [] then []
                        else envelope_indices np it (map snd samples) (nat max_points));
            rows = map (\<lambda>i. snd (samples ! i)) selected;
            times = map (\<lambda>i. fdiv (fsub (fst (samples ! i)) (fst (last samples))) MICROSECONDS_PER_SECOND)
                      selected
        in Inr \<lparr>us_time_s = times, us_x_g = map fst rows, us_y_g = map (fst \<circ> snd) rows,
                us_z_g = map (snd \<circ> snd) rows, us_orientation = ss_latest_orientation s,
                us_orientation_age_s = orientation_age now (ss_orientation_received_s s),
                us_firmware_status = ss_firmware_status s, us_parser_stats = ss_parser_stats s,
                us_sample_rate_hz =
                  (if samples = [] then 0 else estimate_sample_rate (map fst samples)),
                us_firmware_control_state = ss_firmware_control_state s\<rparr>))"

section \<open>The envelope is bounded, ordered and keeps the peak\<close>

definition set_iteration :: "(nat set \<Rightarrow> nat list) \<Rightarrow> bool" where
  "set_iteration it \<longleftrightarrow> (\<forall>S. finite S \<longrightarrow> set (it S) = S \<and> distinct (it S))"

lemma set_iteration_sorted: "set_iteration sorted_list_of_set"
  by (simp add: set_iteration_def)

lemma bucket_picks_range:
  "numpy_ok np \<Longrightarrow> sorted edges \<Longrightarrow> edges \<noteq> [] \<Longrightarrow> last edges \<le> length magnitude \<Longrightarrow>
     p \<in> bucket_picks np magnitude edges \<Longrightarrow> hd edges \<le> p \<and> p < last edges"
proof (induction np magnitude edges rule: bucket_picks.induct)
  case (1 np magnitude a b edges)
  have last: "b \<le> last (b # edges)" using "1.prems"(2) by (cases edges rule: rev_cases) auto
  show ?case
  proof (cases "p \<in> bucket_picks np magnitude (b # edges)")
    case True
    then show ?thesis using 1 by auto
  next
    case False
    let ?m = "slice magnitude a b"
    have ab: "a < b" and p: "p = a + np_argmin np ?m \<or> p = a + np_argmax np ?m"
      using False "1.prems"(5) by (auto simp: Let_def split: if_splits)
    have "b \<le> length magnitude" using last "1.prems"(4) by simp
    then have l: "length ?m = b - a" using ab by simp
    then have "?m \<noteq> []" using ab by auto
    then have "np_argmin np ?m < b - a" "np_argmax np ?m < b - a"
      using numpy_argmin [of np ?m] numpy_argmax [of np ?m] "1.prems"(1) l by auto
    then have "a \<le> p \<and> p < b" using p ab by auto
    then show ?thesis using last by auto
  qed
qed auto

lemma bucket_picks_peak:
  "numpy_ok np \<Longrightarrow> sorted edges \<Longrightarrow> edges \<noteq> [] \<Longrightarrow> last edges \<le> length magnitude \<Longrightarrow>
     hd edges \<le> i \<Longrightarrow> i < last edges \<Longrightarrow>
     \<exists>p\<in>bucket_picks np magnitude edges. magnitude ! i \<le> magnitude ! p"
proof (induction np magnitude edges rule: bucket_picks.induct)
  case (1 np magnitude a b edges)
  show ?case
  proof (cases "b \<le> i")
    case True
    then have "\<exists>p\<in>bucket_picks np magnitude (b # edges). magnitude ! i \<le> magnitude ! p"
      using 1 by simp
    then show ?thesis by auto
  next
    case False
    let ?m = "slice magnitude a b"
    have last: "b \<le> last (b # edges)" using "1.prems"(2) by (cases edges rule: rev_cases) auto
    then have ab: "a < b" "b \<le> length magnitude" "a \<le> i" "i < b" using False "1.prems" by auto
    have l: "length ?m = b - a" using ab by simp
    have nth: "?m ! j = magnitude ! (a + j)" if "j < b - a" for j
      using that ab by (simp add: slice_def)
    have ne: "?m \<noteq> []" using l ab by (metis list.size(3) not_le zero_less_diff diff_is_0_eq)
    have "?m ! (i - a) \<in> set ?m" using l ab by (intro nth_mem) auto
    then have "?m ! (i - a) \<le> ?m ! np_argmax np ?m" using numpy_argmax_max "1.prems"(1) by blast
    moreover have "np_argmax np ?m < b - a" using numpy_argmax [OF "1.prems"(1) ne] l by simp
    ultimately have "magnitude ! i \<le> magnitude ! (a + np_argmax np ?m)"
      using nth [of "i - a"] nth [of "np_argmax np ?m"] ab by simp
    then show ?thesis using ab by (auto simp: Let_def)
  qed
qed auto

lemma finite_bucket_picks: "finite (bucket_picks np magnitude edges)"
  by (induction np magnitude edges rule: bucket_picks.induct) (auto simp: Let_def)

text \<open>The candidates kept are among the strongest: the first of them is a maximum.\<close>

lemma strongest_maximum:
  assumes "set_iteration it" "finite C" "c \<in> C" "0 < budget"
  shows "\<exists>p\<in>set (strongest it m C budget). m ! c \<le> m ! p"
proof -
  let ?l = "sort_key (\<lambda>i. - (m ! i)) (it C)"
  have set: "set ?l = C" using assms(1,2) by (simp add: set_iteration_def)
  then obtain p ps where l: "?l = p # ps" using assms(3) by (cases ?l) auto
  have "sorted (map (\<lambda>i. - (m ! i)) ?l)" by simp
  then have "- (m ! p) \<le> - (m ! c)" using l set assms(3) by auto
  moreover have "p \<in> set (strongest it m C budget)"
    using assms(4) by (simp add: strongest_def l take_Cons')
  ultimately show ?thesis by auto
qed

lemma strongest_subset:
  "set_iteration it \<Longrightarrow> finite C \<Longrightarrow> set (strongest it m C budget) \<subseteq> C"
  using set_take_subset [of budget "sort_key (\<lambda>i. - (m ! i)) (it C)"]
  by (simp add: strongest_def set_iteration_def)

lemma card_strongest: "card (set (strongest it m C budget)) \<le> budget"
proof -
  have "card (set (strongest it m C budget)) \<le> length (strongest it m C budget)" by (rule card_length)
  then show ?thesis by (simp add: strongest_def)
qed

text \<open>The case where samples are dropped, in terms of the chosen interior points.\<close>

lemma envelope_cases:
  assumes np: "numpy_ok np" and it: "set_iteration it" and "2 \<le> max_points" "max_points < length rows"
  obtains I where
    "set (envelope_indices np it rows max_points) = {0, length rows - 1} \<union> I"
    "sorted_wrt (<) (envelope_indices np it rows max_points)"
    "I \<subseteq> {1..<length rows - 1}" "card I \<le> max_points - 2"
    "2 < max_points \<longrightarrow> (\<forall>i\<in>{1..<length rows - 1}. \<exists>p\<in>{0, length rows - 1} \<union> I.
       row_magnitude (rows ! i) \<le> row_magnitude (rows ! p))"
proof (cases "max_points = 2")
  case True
  then have e: "envelope_indices np it rows max_points = [0, length rows - 1]"
    using assms(4) by (simp add: envelope_indices_def const_simps)
  show thesis by (rule that [of "{}"]) (unfold e, use True assms(4) in auto)
next
  case False
  define n where "n = length rows"
  define budget where "budget = max_points - 2"
  define edges where "edges = np_linspace np 1 (n - 1) (max 1 ((budget + 1) div 2) + 1)"
  define m where "m = map row_magnitude rows"
  define C where "C = ({0, n - 1} \<union> bucket_picks np m edges) - {0, n - 1}"
  define I where "I = set (strongest it m C budget)"
  have e: "envelope_indices np it rows max_points = sorted_list_of_set ({0, n - 1} \<union> I)"
    using False assms(3,4)
    by (simp add: envelope_indices_def Let_def n_def budget_def edges_def m_def C_def I_def const_simps)
  have lin: "sorted edges" "hd edges = 1" "last edges = n - 1" "edges \<noteq> []"
  proof -
    have a: "1 \<le> n - 1" "2 \<le> max 1 ((budget + 1) div 2) + 1" using assms(3,4) by (auto simp: n_def)
    show "sorted edges" "hd edges = 1" "last edges = n - 1"
      using numpy_linspace [OF np a] by (auto simp: edges_def)
    show "edges \<noteq> []" using numpy_linspace(1) [OF np a] by (auto simp: edges_def)
  qed
  have finC: "finite C" by (simp add: C_def finite_bucket_picks)
  have lm: "length m = n" by (simp add: m_def n_def)
  have I: "I \<subseteq> C" using strongest_subset [OF it finC] by (simp add: I_def)
  have C: "C \<subseteq> {1..<n - 1}"
  proof
    fix p assume "p \<in> C"
    then have "p \<in> bucket_picks np m edges" by (auto simp: C_def)
    then show "p \<in> {1..<n - 1}"
      using bucket_picks_range [OF np lin(1,4), of m p] lin(2,3) lm by simp
  qed
  have peak: "\<exists>p\<in>{0, n - 1} \<union> I. row_magnitude (rows ! i) \<le> row_magnitude (rows ! p)"
    if i: "i \<in> {1..<n - 1}" for i
  proof -
    obtain p where p: "p \<in> bucket_picks np m edges" "m ! i \<le> m ! p"
      using bucket_picks_peak [OF np lin(1,4), of m i] lin(2,3) lm i by auto
    have r: "1 \<le> p" "p < n - 1"
      using bucket_picks_range [OF np lin(1,4), of m p] p(1) lin(2,3) lm by auto
    then have "p \<in> C" using p(1) by (auto simp: C_def)
    moreover have "0 < budget" using False assms(3) by (simp add: budget_def)
    ultimately obtain q where q: "q \<in> I" "m ! p \<le> m ! q"
      using strongest_maximum [OF it finC] unfolding I_def by blast
    have "q \<in> {1..<n - 1}" using q(1) I C by blast
    then have "q < n" by auto
    then have "m ! i = row_magnitude (rows ! i)" "m ! q = row_magnitude (rows ! q)"
      using i by (auto simp: m_def n_def)
    then show ?thesis using p(2) q by (metis UnI2 order_trans)
  qed
  show thesis
  proof (rule that [of I])
    have fin: "finite ({0, n - 1} \<union> I)" by (simp add: I_def)
    show "set (envelope_indices np it rows max_points) = {0, length rows - 1} \<union> I"
      unfolding e n_def [symmetric] using fin by (rule set_sorted_list_of_set)
    show "sorted_wrt (<) (envelope_indices np it rows max_points)"
      unfolding e by simp
    show "I \<subseteq> {1..<length rows - 1}" using I C by (auto simp: n_def)
    show "card I \<le> max_points - 2" using card_strongest by (simp add: I_def budget_def)
    show "2 < max_points \<longrightarrow> (\<forall>i\<in>{1..<length rows - 1}. \<exists>p\<in>{0, length rows - 1} \<union> I.
        row_magnitude (rows ! i) \<le> row_magnitude (rows ! p))"
      using peak by (simp add: n_def)
  qed
qed

lemma envelope_bounded:
  assumes "numpy_ok np" "set_iteration it" "2 \<le> max_points"
  shows "length (envelope_indices np it rows max_points) \<le> max_points"
    and "sorted_wrt (<) (envelope_indices np it rows max_points)"
    and "set (envelope_indices np it rows max_points) \<subseteq> {..<length rows}"
    and "rows \<noteq> [] \<Longrightarrow> {0, length rows - 1} \<subseteq> set (envelope_indices np it rows max_points)"
proof -
  have small: "envelope_indices np it rows max_points = [0..<length rows]" if "length rows \<le> max_points"
    using that by (simp add: envelope_indices_def)
  have all: "length (envelope_indices np it rows max_points) \<le> max_points \<and>
      sorted_wrt (<) (envelope_indices np it rows max_points) \<and>
      set (envelope_indices np it rows max_points) \<subseteq> {..<length rows} \<and>
      (rows \<noteq> [] \<longrightarrow> {0, length rows - 1} \<subseteq> set (envelope_indices np it rows max_points))"
  proof (cases "length rows \<le> max_points")
    case True
    then show ?thesis by (auto simp: small)
  next
    case False
    then have mp: "max_points < length rows" by simp
    obtain I where I: "set (envelope_indices np it rows max_points) = {0, length rows - 1} \<union> I"
      "sorted_wrt (<) (envelope_indices np it rows max_points)"
      "I \<subseteq> {1..<length rows - 1}" "card I \<le> max_points - 2"
      "2 < max_points \<longrightarrow> (\<forall>i\<in>{1..<length rows - 1}. \<exists>p\<in>{0, length rows - 1} \<union> I.
         row_magnitude (rows ! i) \<le> row_magnitude (rows ! p))"
      by (rule envelope_cases [OF assms mp])
    have "length (envelope_indices np it rows max_points) =
        card (set (envelope_indices np it rows max_points))"
      using I(2) by (simp add: distinct_card strict_sorted_iff)
    also have "\<dots> \<le> card {0, length rows - 1} + card I" unfolding I(1) by (rule card_Un_le)
    also have "\<dots> \<le> 2 + (max_points - 2)" using I(4) card_insert_le_m1 [of 2 "{length rows - 1}" 0] by simp
    finally have "length (envelope_indices np it rows max_points) \<le> max_points" using assms(3) by simp
    moreover have "{0, length rows - 1} \<union> I \<subseteq> {..<length rows}" using I(3) mp by fastforce
    ultimately show ?thesis using I(1,2) by blast
  qed
  from all show "length (envelope_indices np it rows max_points) \<le> max_points"
    and "sorted_wrt (<) (envelope_indices np it rows max_points)"
    and "set (envelope_indices np it rows max_points) \<subseteq> {..<length rows}"
    and "rows \<noteq> [] \<Longrightarrow> {0, length rows - 1} \<subseteq> set (envelope_indices np it rows max_points)"
    by auto
qed

lemma envelope_peak:
  assumes "numpy_ok np" "set_iteration it" "3 \<le> max_points" "i < length rows"
  shows "\<exists>p\<in>set (envelope_indices np it rows max_points).
    row_magnitude (rows ! i) \<le> row_magnitude (rows ! p)"
proof (cases "max_points < length rows")
  case True
  have mp: "2 \<le> max_points" using assms(3) by simp
  obtain I where I: "set (envelope_indices np it rows max_points) = {0, length rows - 1} \<union> I"
      "sorted_wrt (<) (envelope_indices np it rows max_points)"
      "I \<subseteq> {1..<length rows - 1}" "card I \<le> max_points - 2"
      "2 < max_points \<longrightarrow> (\<forall>i\<in>{1..<length rows - 1}. \<exists>p\<in>{0, length rows - 1} \<union> I.
         row_magnitude (rows ! i) \<le> row_magnitude (rows ! p))"
      by (rule envelope_cases [OF assms(1,2) mp True])
  show ?thesis
  proof (cases "i \<in> {1..<length rows - 1}")
    case True
    then show ?thesis using I(1,5) assms(3) by simp
  next
    case False
    then have "i \<in> {0, length rows - 1}" using assms(4) by auto
    then show ?thesis unfolding I(1) by blast
  qed
next
  case False
  then have "envelope_indices np it rows max_points = [0..<length rows]"
    by (simp add: envelope_indices_def)
  then show ?thesis using assms(4) by auto
qed

section \<open>The history\<close>

text \<open>
  Chunks are never empty, their two arrays agree in length, time does not run backwards in the
  history, and every timestamp is a double.
\<close>

definition chunk_ok :: "sample_chunk \<Rightarrow> bool" where
  "chunk_ok c \<longleftrightarrow> ch_timestamps_us c \<noteq> [] \<and> length (ch_acceleration_g c) = length (ch_timestamps_us c)"

definition history :: "sample_store \<Rightarrow> float64 list" where
  "history s = concat (map ch_timestamps_us (ss_chunks s))"

definition store_ok :: "sample_store \<Rightarrow> bool" where
  "store_ok s \<longleftrightarrow> 0 \<le> ss_retention_us s \<and> list_all chunk_ok (ss_chunks s) \<and> sorted (history s) \<and>
     (\<forall>t\<in>set (history s). fl t = t)"

lemma drop_old_suffix: "\<exists>n. drop_old cutoff cs = drop n cs"
proof (induction cs)
  case (Cons c cs)
  then show ?case by (metis drop_0 drop_Suc_Cons drop_old.simps(2))
qed simp

lemma drop_old_head: "drop_old cutoff cs = c # rest \<Longrightarrow> \<not> last (ch_timestamps_us c) < cutoff"
  by (induction cs) (auto split: if_splits)

lemma sorted_le_last: "sorted xs \<Longrightarrow> (t :: float64) \<in> set xs \<Longrightarrow> t \<le> last xs"
  by (cases xs rule: rev_cases) (auto simp: sorted_append)

lemma drop_old_history:
  assumes "list_all chunk_ok cs" "sorted (concat (map ch_timestamps_us cs))"
  shows "filter (\<lambda>t. cutoff \<le> t) (concat (map ch_timestamps_us cs)) =
    filter (\<lambda>t. cutoff \<le> t) (concat (map ch_timestamps_us (drop_old cutoff cs)))"
  using assms
proof (induction cs)
  case (Cons c cs)
  show ?case
  proof (cases "last (ch_timestamps_us c) < cutoff")
    case True
    have "sorted (ch_timestamps_us c)" using Cons.prems by (simp add: sorted_append)
    then have "t \<le> last (ch_timestamps_us c)" if "t \<in> set (ch_timestamps_us c)" for t
      using that sorted_le_last by blast
    then have "filter (\<lambda>t. cutoff \<le> t) (ch_timestamps_us c) = []"
      using True by (fastforce simp: filter_empty_conv)
    then show ?thesis using Cons True by (simp add: sorted_append)
  qed simp
qed simp

lemma filter_sorted_drop:
  "sorted xs \<Longrightarrow> filter (\<lambda>t. cutoff \<le> (t :: float64)) xs = drop (length (filter (\<lambda>t. t < cutoff) xs)) xs"
proof (induction xs)
  case (Cons x xs)
  show ?case
  proof (cases "x < cutoff")
    case False
    then have "filter (\<lambda>t. t < cutoff) xs = []" using Cons.prems by (fastforce simp: filter_empty_conv)
    moreover have "filter (\<lambda>t. cutoff \<le> t) xs = xs" using False Cons.prems by (fastforce simp: filter_id_conv)
    ultimately show ?thesis using False by simp
  qed (use Cons in simp)
qed simp

text \<open>Pruning keeps exactly the timestamps at or after the cutoff.\<close>

lemma prune_history:
  fixes latest :: float64
  assumes np: "numpy_ok np" and cs: "list_all chunk_ok (ss_chunks s)" and h: "sorted (history s)"
  defines "cutoff \<equiv> fsub latest (ss_retention_us s)"
  shows "history (prune np latest s) = filter (\<lambda>t. cutoff \<le> t) (history s)"
    and "list_all chunk_ok (ss_chunks (prune np latest s))"
proof -
  define ds where "ds = drop_old cutoff (ss_chunks s)"
  obtain n where n: "ds = drop n (ss_chunks s)" using drop_old_suffix unfolding ds_def by blast
  have ok: "list_all chunk_ok ds" using cs by (simp add: n list_all_iff) (meson in_set_dropD)
  have srt: "sorted (concat (map ch_timestamps_us ds))"
  proof -
    have "history s = concat (map ch_timestamps_us (take n (ss_chunks s))) @ concat (map ch_timestamps_us ds)"
      by (metis append_take_drop_id concat_append history_def map_append n)
    then show ?thesis using h by (simp add: sorted_append)
  qed
  have "ss_chunks (prune np latest s) = trim_first np cutoff ds"
    by (simp add: prune_def ds_def cutoff_def Let_def)
  moreover have "concat (map ch_timestamps_us (trim_first np cutoff ds)) =
      filter (\<lambda>t. cutoff \<le> t) (concat (map ch_timestamps_us ds)) \<and> list_all chunk_ok (trim_first np cutoff ds)"
  proof (cases ds)
    case (Cons c rest)
    let ?ts = "ch_timestamps_us c"
    have keep: "\<not> last ?ts < cutoff"
      using Cons drop_old_head unfolding ds_def by blast
    have s1: "sorted ?ts" and c: "chunk_ok c" using srt ok Cons by (auto simp: sorted_append)
    have later: "filter (\<lambda>t. cutoff \<le> t) (concat (map ch_timestamps_us rest)) =
        concat (map ch_timestamps_us rest)"
    proof (intro filter_id_conv [THEN iffD2] ballI)
      fix t assume "t \<in> set (concat (map ch_timestamps_us rest))"
      moreover have "last ?ts \<in> set ?ts" using c by (simp add: chunk_ok_def)
      ultimately have "last ?ts \<le> t" using srt Cons by (auto simp: sorted_append)
      then show "cutoff \<le> t" using keep by simp
    qed
    define i where "i = np_searchsorted_left np ?ts cutoff"
    have i: "i = length (filter (\<lambda>x. x < cutoff) ?ts)" using numpy_searchsorted(2) [OF np s1] by (simp add: i_def)
    have f: "filter (\<lambda>t. cutoff \<le> t) ?ts = drop i ?ts" using filter_sorted_drop [OF s1] i by simp
    have "last ?ts \<in> set (filter (\<lambda>t. cutoff \<le> t) ?ts)" using keep c by (simp add: chunk_ok_def)
    then have ne: "drop i ?ts \<noteq> []" using f by auto
    show ?thesis
    proof (cases "i = 0")
      case True
      then show ?thesis using Cons f later ok by (simp add: trim_first_def i_def [symmetric])
    next
      case False
      then show ?thesis
        using Cons f later ok ne c by (simp add: trim_first_def i_def [symmetric] chunk_ok_def)
    qed
  qed (simp add: trim_first_def)
  moreover have "filter (\<lambda>t. cutoff \<le> t) (concat (map ch_timestamps_us ds)) =
      filter (\<lambda>t. cutoff \<le> t) (history s)"
    using drop_old_history [OF cs, of cutoff] h by (simp add: ds_def history_def)
  ultimately show "history (prune np latest s) = filter (\<lambda>t. cutoff \<le> t) (history s)"
    and "list_all chunk_ok (ss_chunks (prune np latest s))"
    by (simp_all add: history_def)
qed

definition batch_ok :: "float64 list \<Rightarrow> row list \<Rightarrow> sample_store \<Rightarrow> bool" where
  "batch_ok ts rows s \<longleftrightarrow> length rows = length ts \<and> sorted (history s @ ts) \<and> (\<forall>t\<in>set ts. fl t = t)"

text \<open>
  Appending a batch: the history is the old one and the batch, less what is older than the
  retention; the newest sample always stays.
\<close>

lemma append_history:
  assumes "numpy_ok np" "store_ok s" "batch_ok ts rows s" "ts \<noteq> []"
  shows "history (append_iis_arrays np ts rows s) =
      filter (\<lambda>t. fsub (last ts) (ss_retention_us s) \<le> t) (history s @ ts)"
    and "store_ok (append_iis_arrays np ts rows s)"
    and "ss_chunks (append_iis_arrays np ts rows s) \<noteq> []"
proof -
  define s1 where "s1 = s\<lparr>ss_chunks := ss_chunks s @ [\<lparr>ch_timestamps_us = ts, ch_acceleration_g = rows\<rparr>]\<rparr>"
  have h1: "history s1 = history s @ ts" and r1: "ss_retention_us s1 = ss_retention_us s"
    by (simp_all add: s1_def history_def)
  have ok: "list_all chunk_ok (ss_chunks s1)"
    using assms(2-4) by (simp add: s1_def store_ok_def batch_ok_def chunk_ok_def)
  have srt: "sorted (history s1)" using assms(3) by (simp add: h1 batch_ok_def)
  have a: "append_iis_arrays np ts rows s = prune np (last ts) s1"
    using assms(4) by (simp add: append_iis_arrays_def s1_def)
  note p = prune_history [OF assms(1) ok srt, of "last ts"]
  show H: "history (append_iis_arrays np ts rows s) =
      filter (\<lambda>t. fsub (last ts) (ss_retention_us s) \<le> t) (history s @ ts)"
    using p(1) by (simp add: a h1 r1)
  have "ss_retention_us (append_iis_arrays np ts rows s) = ss_retention_us s"
    by (simp add: a prune_def s1_def Let_def)
  then show "store_ok (append_iis_arrays np ts rows s)"
    using p(2) assms(2,3) srt H unfolding h1
    by (auto simp: store_ok_def a batch_ok_def simp del: filter_append intro: sorted_filter [of id, simplified])
  have "fl (last ts) = last ts" using assms(3,4) by (simp add: batch_ok_def)
  then have "fsub (last ts) (ss_retention_us s) \<le> last ts"
    using assms(2) by (intro fsub_le) (auto simp: store_ok_def)
  then have "last ts \<in> set (history (append_iis_arrays np ts rows s))" using H assms(4) by simp
  then show "ss_chunks (append_iis_arrays np ts rows s) \<noteq> []" by (auto simp: history_def)
qed

text \<open>A snapshot of a well-formed store is always produced and respects the point budget.\<close>

lemma window_arrays_total:
  assumes "store_ok s" "0 \<le> w"
  shows "\<exists>samples. window_arrays np w s = Inr samples"
proof (cases "ss_chunks s = []")
  case False
  define c where "c = last (ss_chunks s)"
  have cin: "c \<in> set (ss_chunks s)" using False by (simp add: c_def)
  then have c: "chunk_ok c" using assms(1) by (auto simp: store_ok_def list_all_iff)
  then have "last (ch_timestamps_us c) \<in> set (history s)"
    using cin by (auto simp: history_def chunk_ok_def intro!: bexI [of _ c])
  then have "fl (last (ch_timestamps_us c)) = last (ch_timestamps_us c)"
    using assms(1) by (simp add: store_ok_def)
  then have "\<not> last (ch_timestamps_us c) < fsub (last (ch_timestamps_us c)) (fmul w MICROSECONDS_PER_SECOND)"
    using fsub_le assms(2) by (simp add: not_less fmul_def fl_nonneg MICROSECONDS_PER_SECOND_def)
  then have "window_part np (fsub (last (ch_timestamps_us c)) (fmul w MICROSECONDS_PER_SECOND)) c \<noteq> []"
    by (simp add: window_part_def Let_def)
  then show ?thesis using False cin by (auto simp: window_arrays_def Let_def c_def [symmetric])
qed (simp add: window_arrays_def)

lemma snapshot_total:
  assumes "numpy_ok np" "set_iteration it" "store_ok s" "0 < w" "2 \<le> mp"
  shows "\<exists>u. snapshot np it w mp now s = Inr u \<and> length (us_time_s u) \<le> nat mp \<and>
    length (us_x_g u) = length (us_time_s u) \<and> length (us_y_g u) = length (us_time_s u) \<and>
    length (us_z_g u) = length (us_time_s u)"
proof -
  obtain samples where w: "window_arrays np w s = Inr samples" using window_arrays_total [of s w] assms by auto
  have "length (envelope_indices np it (map snd samples) (nat mp)) \<le> nat mp"
    using envelope_bounded(1) [OF assms(1,2)] assms(5) by simp
  then show ?thesis using assms(4,5) by (simp add: snapshot_def w Let_def const_simps)
qed

section \<open>Properties\<close>

text \<open>
  The display envelope of any batch respects the point budget, lists indices of samples in strictly
  increasing order and contains the first and the last sample.
\<close>

theorem envelope_indices_bounded:
  assumes "numpy_ok np" and "set_iteration it" and "2 \<le> max_points" and "rows \<noteq> []"
  shows "length (envelope_indices np it rows max_points) \<le> max_points \<and>
    sorted_wrt (<) (envelope_indices np it rows max_points) \<and>
    set (envelope_indices np it rows max_points) \<subseteq> {..<length rows} \<and>
    {0, length rows - 1} \<subseteq> set (envelope_indices np it rows max_points)"
  using envelope_bounded [OF assms(1-3), of rows] assms(4) by blast

definition sample_rows :: "row list" where
  "sample_rows = [(0, 0, 1), (2, 0, 0), (0, - 7, 0), (1, 1, 1)]"

lemma length_sample_rows: "length sample_rows = 4"
  by (simp add: sample_rows_def)

theorem envelope_indices_bounded_witness:
  "length (envelope_indices np_ref sorted_list_of_set sample_rows 3) \<le> 3 \<and>
   {0, 3} \<subseteq> set (envelope_indices np_ref sorted_list_of_set sample_rows 3)"
  using envelope_indices_bounded [OF numpy_ok_np_ref set_iteration_sorted, of 3 sample_rows]
    length_sample_rows by fastforce

text \<open>
  C31. With a budget of at least three points the envelope keeps the peak: for every sample there is a
  selected one of at least its magnitude.
\<close>

theorem envelope_keeps_peak:
  assumes "numpy_ok np" and "set_iteration it" and "3 \<le> max_points" and "i < length rows"
  shows "\<exists>p\<in>set (envelope_indices np it rows max_points).
    row_magnitude (rows ! i) \<le> row_magnitude (rows ! p)"
  using assms by (rule envelope_peak)

theorem envelope_keeps_peak_witness:
  "\<exists>p\<in>set (envelope_indices np_ref sorted_list_of_set sample_rows 3). 7 \<le> row_magnitude (sample_rows ! p)"
  using envelope_keeps_peak [OF numpy_ok_np_ref set_iteration_sorted, of 3 2 sample_rows]
  by (simp add: sample_rows_def row_magnitude_def numeral_2_eq_2)


definition sample_store_state :: sample_store where
  "sample_store_state = \<lparr>ss_retention_us = 100, ss_chunks = [], ss_latest_orientation = None,
     ss_orientation_received_s = None, ss_firmware_status = None, ss_firmware_control_state = None,
     ss_parser_stats = empty_stats\<rparr>"

lemma sample_store_ok: "store_ok sample_store_state"
  by (simp add: store_ok_def sample_store_state_def history_def)

lemma fl_numeral_small: "numeral n < (2 :: int) ^ 53 \<Longrightarrow> fl (numeral n) = numeral n"
  using fl_int [of "numeral n"] by simp


text \<open>
  A snapshot of a well-formed store never fails for a positive window and a budget of two points or
  more: it has at most that many points, with one time and three coordinates each.
\<close>

theorem snapshot_within_budget:
  assumes "numpy_ok np" and "set_iteration it" and "store_ok s" and "0 < w" and "2 \<le> mp"
  shows "\<exists>u. snapshot np it w mp now s = Inr u \<and> length (us_time_s u) \<le> nat mp \<and>
    length (us_x_g u) = length (us_time_s u) \<and> length (us_y_g u) = length (us_time_s u) \<and>
    length (us_z_g u) = length (us_time_s u)"
  using assms by (rule snapshot_total)

theorem snapshot_within_budget_witness:
  "\<exists>u. snapshot np_ref sorted_list_of_set 10 2 0 sample_store_state = Inr u \<and> length (us_time_s u) \<le> nat 2"
  using snapshot_within_budget [OF numpy_ok_np_ref set_iteration_sorted sample_store_ok, of 10 2 0] by auto

end
