(* ===== verification/OtaDemux.thy ===== *)
theory OtaDemux
  imports Sdf1
begin

text \<open>
  \<^verbatim>\<open>ota/demux.py\<close>: the splitter of the mixed stream of an OTA session into reply lines and
  bytes for the SDF1 parser. One turn of the loop of \<^verbatim>\<open>feed\<close> takes a piece off the head of
  the held bytes: a frame, a byte of an invalid header, a line, or nothing.
\<close>

section \<open>State and operations\<close>

definition OTA_PREFIX :: bytes where "OTA_PREFIX = blit ''+OTA:''"
definition OK_LINE :: bytes where "OK_LINE = blit ''OK''"
definition NEWLINE :: byte where "NEWLINE = 0x0A"
definition DEFAULT_MAX_LINE :: nat where [const_simps]: "DEFAULT_MAX_LINE = 128"
definition MAX_FRAME_HOLD :: nat where
  [const_simps]: "MAX_FRAME_HOLD = MAX_HEADER_SIZE + MAX_PAYLOAD_SIZE + CRC_SIZE + 64"
definition HEADER_LENGTH_BYTES :: nat where [const_simps]: "HEADER_LENGTH_BYTES = 12"

record demux =
  dm_pending :: bytes
  dm_max_line :: nat

definition StreamDemultiplexer_init :: "int \<Rightarrow> demux res" where
  "StreamDemultiplexer_init max_line =
     (if max_line \<le> 0 then Inl (ValueError ''max_line must be positive'')
      else Inr \<lparr>dm_pending = [], dm_max_line = nat max_line\<rparr>)"

definition demux_buffered_bytes :: "demux \<Rightarrow> nat" where
  "demux_buffered_bytes d = length (dm_pending d)"

definition demux_reset :: "demux \<Rightarrow> demux" where
  "demux_reset d = d\<lparr>dm_pending := []\<rparr>"

definition starts_sdf1_frame :: "bytes \<Rightarrow> bool" where
  "starts_sdf1_frame pending \<longleftrightarrow> length MAGIC \<le> length pending \<and> take (length MAGIC) pending = MAGIC"

text \<open>\<open>None\<close> for an incomplete frame, \<open>Some 0\<close> for an invalid header.\<close>

definition sdf1_frame_length :: "bytes \<Rightarrow> nat option" where
  "sdf1_frame_length buffer =
     (if length buffer < HEADER_LENGTH_BYTES then None
      else
        let header_size = le_nat (slice buffer 8 10); payload_size = le_nat (slice buffer 10 12)
        in if \<not> (HEADER_SIZE \<le> header_size \<and> header_size \<le> MAX_HEADER_SIZE) then Some 0
           else if MAX_PAYLOAD_SIZE < payload_size then Some 0
           else
             let frame_size = header_size + payload_size + CRC_SIZE
             in if length buffer < frame_size then None else Some frame_size)"

definition is_frame_prefix :: "bytes \<Rightarrow> bool" where
  "is_frame_prefix pending \<longleftrightarrow>
     starts_sdf1_frame pending \<or> length pending < length MAGIC \<and> starts_with pending MAGIC"

text \<open>What one turn takes: bytes for the parser, or a reply line together with its raw bytes.\<close>

datatype piece = ParserPart bytes | OtaLine bytes bytes

definition is_ota_line :: "bytes \<Rightarrow> bool" where
  "is_ota_line stripped \<longleftrightarrow> starts_with OTA_PREFIX stripped \<or> stripped = OK_LINE"

definition demux_turn :: "bytes \<Rightarrow> (piece \<times> bytes) option" where
  "demux_turn pending =
     (if pending = [] then None
      else if starts_sdf1_frame pending then
        (case sdf1_frame_length pending of
           None \<Rightarrow> None
         | Some n \<Rightarrow>
             if n = 0 then Some (ParserPart (take 1 pending), drop 1 pending)
             else Some (ParserPart (take n pending), drop n pending))
      else case bytes_find [NEWLINE] pending 0 of
        None \<Rightarrow> None
      | Some newline \<Rightarrow>
          let line = take newline pending; stripped = bytes_strip line
          in Some (if is_ota_line stripped then OtaLine stripped (line @ [NEWLINE])
                   else ParserPart (line @ [NEWLINE]),
                   drop (newline + 1) pending))"

lemma demux_turn_progress: "demux_turn pending = Some (p, rest) \<Longrightarrow> length rest < length pending"
  by (auto simp: demux_turn_def Let_def split: if_splits option.splits)

function demux_loop :: "bytes \<Rightarrow> piece list \<times> bytes" where
  "demux_loop pending =
     (case demux_turn pending of
        None \<Rightarrow> ([], pending)
      | Some (p, rest) \<Rightarrow> let (ps, final) = demux_loop rest in (p # ps, final))"
  by pat_completeness auto
termination
  by (relation "measure length") (auto dest: demux_turn_progress)

declare demux_loop.simps [simp del]

fun ota_lines :: "piece list \<Rightarrow> bytes list" where
  "ota_lines [] = []"
| "ota_lines (OtaLine l r # ps) = l # ota_lines ps"
| "ota_lines (ParserPart b # ps) = ota_lines ps"

fun parser_parts :: "piece list \<Rightarrow> bytes" where
  "parser_parts [] = []"
| "parser_parts (OtaLine l r # ps) = parser_parts ps"
| "parser_parts (ParserPart b # ps) = b @ parser_parts ps"

text \<open>\<^verbatim>\<open>_release_held_residue\<close>: the released bytes and what stays held.\<close>

definition release_held_residue :: "nat \<Rightarrow> bytes \<Rightarrow> bytes \<times> bytes" where
  "release_held_residue max_line pending =
     (if pending = [] then ([], [])
      else if is_frame_prefix pending then
        (if MAX_FRAME_HOLD < length pending then (pending, []) else ([], pending))
      else if max_line < length pending then (pending, [])
      else ([], pending))"

definition demux_feed :: "demux \<Rightarrow> bytes \<Rightarrow> (bytes list \<times> bytes) \<times> demux" where
  "demux_feed d chunk =
     (let (ps, held) = demux_loop (dm_pending d @ chunk);
          (residue, pending) = release_held_residue (dm_max_line d) held
      in ((ota_lines ps, parser_parts ps @ residue), d\<lparr>dm_pending := pending\<rparr>))"

definition demux_flush :: "demux \<Rightarrow> bytes \<times> demux" where
  "demux_flush d = (dm_pending d, d\<lparr>dm_pending := []\<rparr>)"

section \<open>Nothing is lost\<close>

fun piece_raw :: "piece \<Rightarrow> bytes" where
  "piece_raw (ParserPart b) = b"
| "piece_raw (OtaLine l r) = r"

fun piece_ok :: "piece \<Rightarrow> bool" where
  "piece_ok (ParserPart b) = (b \<noteq> [])"
| "piece_ok (OtaLine l r) =
     (is_ota_line l \<and> (\<exists>line. r = line @ [NEWLINE] \<and> l = bytes_strip line \<and> NEWLINE \<notin> set line))"

lemma find_newline:
  "bytes_find [b] xs 0 = Some n \<longleftrightarrow> n < length xs \<and> xs ! n = b \<and> b \<notin> set (take n xs)"
proof -
  have h: "starts_with [b] (drop j xs) \<longleftrightarrow> j < length xs \<and> xs ! j = b" for j
  proof (cases "j < length xs")
    case True
    then have "drop j xs = xs ! j # drop (Suc j) xs" by (rule Cons_nth_drop_Suc [symmetric])
    then show ?thesis using True by (simp add: starts_with_def)
  qed (simp add: starts_with_def)
  have "set (take n xs) = {xs ! j | j. j < n \<and> j < length xs}"
    unfolding set_conv_nth by auto (metis nth_take)
  then have m: "b \<notin> set (take n xs) \<longleftrightarrow> (\<forall>j<n. \<not> (j < length xs \<and> xs ! j = b))"
    by (simp only: mem_Collect_eq) metis
  have "bytes_find [b] xs 0 = find_sub [b] xs" by (simp add: bytes_find_def option.map_ident)
  then show ?thesis unfolding m by (simp only: find_sub_Some h) auto
qed

lemma find_newline_None: "bytes_find [b] xs 0 = None \<longleftrightarrow> b \<notin> set xs"
proof
  assume a: "bytes_find [b] xs 0 = None"
  show "b \<notin> set xs"
  proof
    assume "b \<in> set xs"
    then obtain ys zs where "xs = ys @ b # zs" "b \<notin> set ys" using split_list_first by metis
    then have "bytes_find [b] xs 0 = Some (length ys)" unfolding find_newline by simp
    with a show False by simp
  qed
next
  assume "b \<notin> set xs"
  then show "bytes_find [b] xs 0 = None"
    using find_newline [of b xs] by (metis not_Some_eq nth_mem)
qed

lemma demux_turn_piece:
  assumes "demux_turn pending = Some (p, rest)"
  shows "pending = piece_raw p @ rest \<and> piece_ok p"
proof -
  have line: "take n pending @ [NEWLINE] @ drop (n + 1) pending = pending"
    if "bytes_find [NEWLINE] pending 0 = Some n" for n
    using that id_take_nth_drop [of n pending] by (auto simp: find_newline)
  show ?thesis
  proof (cases "starts_sdf1_frame pending")
    case True
    then show ?thesis
      using assms by (auto simp: demux_turn_def split: if_splits option.splits)
  next
    case False
    then obtain n where n: "bytes_find [NEWLINE] pending 0 = Some n"
      using assms by (auto simp: demux_turn_def split: if_splits option.splits)
    then have "NEWLINE \<notin> set (take n pending)" by (simp add: find_newline)
    then show ?thesis
      using assms False n line [OF n] by (auto simp: demux_turn_def Let_def split: if_splits)
  qed
qed

lemma demux_loop_pieces:
  "demux_loop pending = (ps, final) \<Longrightarrow>
     pending = concat (map piece_raw ps) @ final \<and> list_all piece_ok ps \<and> demux_turn final = None"
proof (induction pending arbitrary: ps rule: demux_loop.induct)
  case (1 pending)
  show ?case
  proof (cases "demux_turn pending")
    case None
    then show ?thesis using "1.prems" by (simp add: demux_loop.simps [of pending])
  next
    case (Some t)
    obtain p rest where t: "t = (p, rest)" by fastforce
    obtain qs where q: "demux_loop rest = (qs, final)" "ps = p # qs"
      using "1.prems" Some t by (auto simp: demux_loop.simps [of pending] split: prod.splits)
    show ?thesis
      using "1.IH" [OF Some t [symmetric] q(1)] demux_turn_piece [of pending p rest] Some t q(2) by simp
  qed
qed

lemma ota_lines_append [simp]: "ota_lines (ps @ qs) = ota_lines ps @ ota_lines qs"
  by (induction ps rule: ota_lines.induct) auto

lemma parser_parts_append [simp]: "parser_parts (ps @ qs) = parser_parts ps @ parser_parts qs"
  by (induction ps rule: parser_parts.induct) auto

text \<open>The held bytes released at the end of a feed are a suffix of the stream so far.\<close>

lemma release_split: "release_held_residue m held = (residue, pending) \<Longrightarrow> residue @ pending = held"
  by (auto simp: release_held_residue_def split: if_splits)

lemma demux_feed_pieces:
  assumes "demux_feed d chunk = ((ls, out), d')"
  shows "\<exists>ps residue. dm_pending d @ chunk = concat (map piece_raw ps) @ residue @ dm_pending d' \<and>
    list_all piece_ok ps \<and> ls = ota_lines ps \<and> out = parser_parts ps @ residue \<and>
    dm_max_line d' = dm_max_line d"
proof -
  obtain ps held where l: "demux_loop (dm_pending d @ chunk) = (ps, held)" by fastforce
  obtain residue pending where r: "release_held_residue (dm_max_line d) held = (residue, pending)"
    by fastforce
  have "ls = ota_lines ps" "out = parser_parts ps @ residue" "d' = d\<lparr>dm_pending := pending\<rparr>"
    using assms by (auto simp: demux_feed_def l r)
  then show ?thesis
    using demux_loop_pieces [OF l] release_split [OF r] by auto
qed

text \<open>The number of bytes that leave the demultiplexer: every byte is counted once.\<close>

fun line_bytes :: "piece list \<Rightarrow> nat" where
  "line_bytes [] = 0"
| "line_bytes (OtaLine l r # ps) = length r + line_bytes ps"
| "line_bytes (ParserPart b # ps) = line_bytes ps"

lemma pieces_account: "length (concat (map piece_raw ps)) = line_bytes ps + length (parser_parts ps)"
  by (induction ps rule: line_bytes.induct) auto

section \<open>The held bytes are bounded\<close>

lemma sdf1_frame_length_bound:
  assumes "sdf1_frame_length b = None"
  shows "length b < 3837"
proof (cases "length b < 12")
  case False
  let ?h = "le_nat (slice b 8 10)" and ?p = "le_nat (slice b 10 12)"
  have "\<not> (?h < 28 \<or> 256 < ?h) \<and> \<not> 3577 < ?p \<and> length b < ?h + ?p + 4"
    using assms False
    by (auto simp: sdf1_frame_length_def Let_def const_simps split: if_splits)
  then show ?thesis by linarith
qed simp

lemma demux_turn_None:
  "demux_turn b = None \<longleftrightarrow> b = [] \<or> starts_sdf1_frame b \<and> sdf1_frame_length b = None \<or>
     \<not> starts_sdf1_frame b \<and> NEWLINE \<notin> set b"
  by (auto simp: demux_turn_def Let_def find_newline_None [symmetric] split: if_splits option.splits)

lemma demux_feed_bound:
  assumes "demux_feed d chunk = (out, d')"
  shows "length (dm_pending d') < 3837 \<or> length (dm_pending d') \<le> dm_max_line d"
    and "starts_sdf1_frame (dm_pending d') \<or> NEWLINE \<notin> set (dm_pending d')"
proof -
  obtain ps held where l: "demux_loop (dm_pending d @ chunk) = (ps, held)" by fastforce
  have h: "demux_turn held = None" using demux_loop_pieces [OF l] by simp
  have p: "dm_pending d' = snd (release_held_residue (dm_max_line d) held)"
    using assms by (auto simp: demux_feed_def l split: prod.splits)
  show "length (dm_pending d') < 3837 \<or> length (dm_pending d') \<le> dm_max_line d"
    using h unfolding p demux_turn_None
    by (auto simp: release_held_residue_def is_frame_prefix_def dest: sdf1_frame_length_bound)
  show "starts_sdf1_frame (dm_pending d') \<or> NEWLINE \<notin> set (dm_pending d')"
    using h unfolding p demux_turn_None by (auto simp: release_held_residue_def)
qed

text \<open>A partial frame is never released: its length stays below the hold limit.\<close>

lemma demux_holds_frame:
  assumes "demux_turn held = None" and "is_frame_prefix held"
  shows "release_held_residue m held = ([], held)"
proof (cases "held = []")
  case False
  have "length held < 3837"
    using assms sdf1_frame_length_bound [of held]
    by (auto simp: demux_turn_None is_frame_prefix_def)
  then show ?thesis using assms by (simp add: release_held_residue_def const_simps)
qed (simp add: release_held_residue_def)

section \<open>Chunks\<close>

lemma starts_frame_append:
  "4 \<le> length b \<Longrightarrow> starts_sdf1_frame (b @ c) \<longleftrightarrow> starts_sdf1_frame b"
  by (simp add: starts_sdf1_frame_def)

lemma newline_not_magic: "NEWLINE \<notin> set MAGIC"
  by (simp add: NEWLINE_def MAGIC_bytes)

lemma frame_length_append:
  "sdf1_frame_length b = Some n \<Longrightarrow> sdf1_frame_length (b @ c) = Some n \<and> n \<le> length b"
  by (auto simp: sdf1_frame_length_def Let_def const_simps slice_append_left split: if_splits)

lemma demux_turn_append:
  assumes "demux_turn b = Some (p, rest)"
  shows "demux_turn (b @ c) = Some (p, rest @ c)"
proof (cases "starts_sdf1_frame b")
  case True
  then have "4 \<le> length b" by (simp add: starts_sdf1_frame_def)
  then have t: "starts_sdf1_frame (b @ c)" using True starts_frame_append by blast
  obtain n where n: "sdf1_frame_length b = Some n"
    using assms True by (auto simp: demux_turn_def split: option.splits if_splits)
  have "b \<noteq> []" using \<open>4 \<le> length b\<close> by auto
  then have "1 \<le> length b" by (cases b) auto
  then show ?thesis
    using assms True t n frame_length_append [OF n, of c] by (auto simp: demux_turn_def split: if_splits)
next
  case False
  then obtain n where n: "bytes_find [NEWLINE] b 0 = Some n"
    using assms by (auto simp: demux_turn_def split: option.splits if_splits)
  then have nb: "n < length b" "b ! n = NEWLINE" "NEWLINE \<notin> set (take n b)"
    by (simp_all add: find_newline)
  have "\<not> starts_sdf1_frame (b @ c)"
  proof (cases "4 \<le> length b")
    case True
    then show ?thesis using False starts_frame_append by blast
  next
    case len: False
    then have \<open>(b @ c) ! n = NEWLINE\<close> \<open>n < 4\<close> using nb by (auto simp: nth_append)
    show ?thesis
    proof
      assume "starts_sdf1_frame (b @ c)"
      then have "MAGIC ! n = (b @ c) ! n"
        using \<open>n < 4\<close> unfolding starts_sdf1_frame_def length_MAGIC by (metis nth_take)
      then have "NEWLINE \<in> set MAGIC"
        using nth_mem [of n MAGIC] \<open>n < 4\<close> \<open>(b @ c) ! n = NEWLINE\<close> by simp
      then show False using newline_not_magic by simp
    qed
  qed
  moreover have "bytes_find [NEWLINE] (b @ c) 0 = Some n"
    using nb by (simp add: find_newline nth_append)
  ultimately show ?thesis
    using assms False n nb by (auto simp: demux_turn_def Let_def split: if_splits)
qed

lemma demux_loop_append:
  "demux_loop b = (ps, held) \<Longrightarrow>
     demux_loop (b @ c) = (ps @ fst (demux_loop (held @ c)), snd (demux_loop (held @ c)))"
proof (induction b arbitrary: ps rule: demux_loop.induct)
  case (1 b)
  show ?case
  proof (cases "demux_turn b")
    case None
    then show ?thesis using "1.prems" by (simp add: demux_loop.simps [of b])
  next
    case (Some t)
    obtain p rest where t: "t = (p, rest)" by fastforce
    obtain qs where q: "demux_loop rest = (qs, held)" "ps = p # qs"
      using "1.prems" Some t by (auto simp: demux_loop.simps [of b] split: prod.splits)
    show ?thesis
      using "1.IH" [OF Some t [symmetric] q(1)] demux_turn_append [of b p rest c] Some t q(2)
      by (simp add: demux_loop.simps [of "b @ c"])
  qed
qed

text \<open>
  Where no residue is released after the first chunk, two feeds give what one feed of the
  concatenation gives.
\<close>

definition releases :: "demux \<Rightarrow> bytes \<Rightarrow> bool" where
  "releases d chunk \<longleftrightarrow>
     fst (release_held_residue (dm_max_line d) (snd (demux_loop (dm_pending d @ chunk)))) \<noteq> []"

lemma demux_feed_append:
  assumes "\<not> releases d a" and "demux_feed d a = ((ls, out), d1)" and "demux_feed d1 b = ((ms, out'), d2)"
  shows "demux_feed d (a @ b) = ((ls @ ms, out @ out'), d2)"
proof -
  obtain ps held where l: "demux_loop (dm_pending d @ a) = (ps, held)" by fastforce
  obtain qs held' where m: "demux_loop (held @ b) = (qs, held')" by fastforce
  obtain res pend where r: "release_held_residue (dm_max_line d) held' = (res, pend)" by fastforce
  have "release_held_residue (dm_max_line d) held = ([], held)"
    using assms(1) by (auto simp: releases_def l release_held_residue_def split: if_splits)
  then have "d1 = d\<lparr>dm_pending := held\<rparr>" "ls = ota_lines ps" "out = parser_parts ps"
    using assms(2) by (auto simp: demux_feed_def l)
  moreover have "demux_loop ((dm_pending d @ a) @ b) = (ps @ qs, held')"
    using demux_loop_append [OF l, of b] m by simp
  ultimately show ?thesis using assms(3) by (auto simp: demux_feed_def m r)
qed

section \<open>Frames and lines at the head of the held bytes\<close>

lemma demux_loop_frame:
  assumes "starts_sdf1_frame b" and "sdf1_frame_length b = Some (length b)" and "b \<noteq> []"
  shows "demux_loop (b @ c) = (ParserPart b # fst (demux_loop c), snd (demux_loop c))"
proof -
  have "demux_turn b = Some (ParserPart b, [])" using assms by (simp add: demux_turn_def)
  then show ?thesis
    using demux_turn_append [of b "ParserPart b" "[]" c]
    by (simp add: demux_loop.simps [of "b @ c"] split: prod.split)
qed

lemma demux_loop_line:
  assumes "\<not> starts_sdf1_frame (line @ [NEWLINE])" and "NEWLINE \<notin> set line"
    and "is_ota_line (bytes_strip line)"
  shows "demux_loop (line @ NEWLINE # c) =
    (OtaLine (bytes_strip line) (line @ [NEWLINE]) # fst (demux_loop c), snd (demux_loop c))"
proof -
  have "bytes_find [NEWLINE] (line @ [NEWLINE]) 0 = Some (length line)"
    using assms(2) by (simp add: find_newline)
  then have "demux_turn (line @ [NEWLINE]) = Some (OtaLine (bytes_strip line) (line @ [NEWLINE]), [])"
    using assms by (simp add: demux_turn_def)
  from demux_turn_append [OF this, of c] show ?thesis
    by (simp add: demux_loop.simps [of "line @ NEWLINE # c"] split: prod.split)
qed

section \<open>Properties\<close>

text \<open>
  C11. Nothing is lost or reordered: the bytes held and fed are the concatenation of pieces, a released
  residue and the bytes held afterwards; the bytes for the parser are those of the parser pieces
  and the residue, in order, and every reply line is the stripped content of a line of the stream
  that starts with \<open>+OTA:\<close> or is \<open>OK\<close>.
\<close>

theorem demux_conserves_stream:
  "\<exists>ps residue.
     dm_pending d @ chunk = concat (map piece_raw ps) @ residue @ dm_pending (snd (demux_feed d chunk)) \<and>
     list_all piece_ok ps \<and> fst (fst (demux_feed d chunk)) = ota_lines ps \<and>
     snd (fst (demux_feed d chunk)) = parser_parts ps @ residue"
  using demux_feed_pieces [of d chunk] by (cases "demux_feed d chunk") fastforce

text \<open>
  C24. The held residue is bounded: after a feed fewer than 3837 bytes are held, or no more than the
  line limit, and text is held only while its line end is missing.
\<close>

theorem demux_held_bounded:
  "(length (dm_pending (snd (demux_feed d chunk))) < 3837 \<or>
    length (dm_pending (snd (demux_feed d chunk))) \<le> dm_max_line d) \<and>
   (starts_sdf1_frame (dm_pending (snd (demux_feed d chunk))) \<or>
    bytes_find [NEWLINE] (dm_pending (snd (demux_feed d chunk))) 0 = None)"
  using demux_feed_bound [of d chunk] unfolding find_newline_None by (metis prod.collapse)

text \<open>
  C23. Where the first chunk leaves no over-long residue to release, feeding two chunks gives the same
  lines, the same parser bytes and the same state as feeding their concatenation.
\<close>

theorem demux_chunk_invariant:
  assumes "\<not> releases d a" and "demux_feed d a = ((ls, out), d1)" and "demux_feed d1 b = ((ms, out'), d2)"
  shows "demux_feed d (a @ b) = ((ls @ ms, out @ out'), d2)"
  using assms by (rule demux_feed_append)

definition sample_demux :: demux where
  "sample_demux = \<lparr>dm_pending = [], dm_max_line = 128\<rparr>"

lemmas demux_eval = demux_feed_def demux_loop.simps demux_turn_def starts_sdf1_frame_def MAGIC_bytes
  bytes_find_def starts_with_def NEWLINE_def bytes_strip_def strip_by_def is_byte_space_def
  is_ota_line_def OTA_PREFIX_def OK_LINE_def blit_def release_held_residue_def is_frame_prefix_def

theorem demux_chunk_invariant_witness:
  "demux_feed sample_demux ([79] @ [75, 13, 10, 43]) = (([[79, 75]], []), sample_demux\<lparr>dm_pending := [43]\<rparr>)"
  using demux_chunk_invariant [of sample_demux "[79]" "[]" "[]" "sample_demux\<lparr>dm_pending := [79]\<rparr>"
      "[75, 13, 10, 43]" "[[79, 75]]" "[]" "sample_demux\<lparr>dm_pending := [43]\<rparr>"]
  by (simp add: sample_demux_def releases_def demux_eval)

text \<open>
  A complete SDF1 frame at the head of the held bytes goes to the parser untouched, whatever its
  payload contains, and the stream continues behind it.
\<close>

theorem demux_passes_frame:
  assumes "dm_pending d = []" and "starts_sdf1_frame b" and "sdf1_frame_length b = Some (length b)"
  shows "demux_feed d (b @ c) =
    (case demux_feed d c of ((ls, out), d') \<Rightarrow> ((ls, b @ out), d'))"
proof -
  have "b \<noteq> []" using assms(2) by (auto simp: starts_sdf1_frame_def)
  then have "demux_loop (b @ c) = (ParserPart b # fst (demux_loop c), snd (demux_loop c))"
    using assms by (intro demux_loop_frame)
  then show ?thesis using assms(1) by (simp add: demux_feed_def split: prod.split)
qed

text \<open>A frame whose payload is an \<open>OK\<close> line, in front of which the demultiplexer starts to scan.\<close>

definition sample_cli :: bytes where
  "sample_cli = MAGIC @ [1, 4, 0, 0, 28, 0, 6, 0, 1, 0, 0, 0, 0, 0, 0, 0, 0, 0, 0, 0, 1, 0, 0, 0]
     @ [13, 10, 79, 75, 13, 10] @ [1, 2, 3, 4]"

theorem demux_passes_frame_witness:
  "demux_feed sample_demux (sample_cli @ []) = (([], sample_cli), sample_demux)"
  using demux_passes_frame [of sample_demux sample_cli "[]"]
  by (simp add: sample_demux_def sample_cli_def starts_sdf1_frame_def MAGIC_bytes sdf1_frame_length_def
      slice_def const_simps demux_feed_def demux_loop.simps demux_turn_def release_held_residue_def)

text \<open>
  Behind text without a line end the same frame is scanned for lines: its payload yields an \<open>OK\<close> reply
  and only the rest of it reaches the parser.
\<close>

lemma demux_unterminated_text:
  "fst (fst (demux_feed sample_demux (120 # sample_cli))) = [[79, 75]]"
  by (simp add: sample_demux_def sample_cli_def demux_eval)

end
