(* ===== verification/Recorder.thy ===== *)
theory Recorder
  imports Prelude "HOL-Library.Multiset"
begin

text \<open>
  \<^verbatim>\<open>storage/recorder.py\<close>: the bounded asynchronous recorder. The methods are functions on the
  recorder's state, cut where they release the lock; the writer thread is a small state machine.
  \<open>rec_step\<close> interleaves client threads and the writer, with the file system free to fail. The
  invariant \<open>rec_inv\<close> holds in every state reachable from a fresh recorder, and yields the bound on
  queued bytes and the content of the file.
\<close>

section \<open>State\<close>

definition DEFAULT_QUEUE_CAPACITY_BYTES :: nat where
  [const_simps]: "DEFAULT_QUEUE_CAPACITY_BYTES = 4 * 1024 * 1024"

definition QUEUE_CAPACITY_ERROR :: string where
  "QUEUE_CAPACITY_ERROR = ''recording queue capacity exceeded''"

datatype meta_value = MStr pystr | MInt int | MNone

type_synonym metadata = "string \<rightharpoonup> meta_value"

record recording_summary =
  rs_path :: pystr
  rs_bytes_written :: int
  rs_started_utc :: pystr
  rs_ended_utc :: pystr
  rs_failure :: "string option"

text \<open>
  The writer thread: not started, waiting in \<^verbatim>\<open>queue.get\<close>, about to write a chunk it took, having
  written it but not yet counted it, or ended.
\<close>

datatype writer = NoWriter | Waiting | Holding bytes | Wrote bytes | Ended

record recorder =
  rc_capacity :: nat
  rc_queue :: "bytes option list"
  rc_queued_bytes :: int
  rc_bytes_written :: int
  rc_failure :: "string option"
  rc_is_active :: bool
  rc_path :: "pystr option"
  rc_metadata :: metadata
  rc_started_utc :: pystr
  rc_file :: bytes
  rc_writer :: writer

definition RawSessionRecorder_init :: "int \<Rightarrow> recorder res" where
  "RawSessionRecorder_init capacity =
     (if capacity \<le> 0 then Inl (ValueError ''queue_capacity_bytes must be positive'')
      else Inr \<lparr>rc_capacity = nat capacity, rc_queue = [], rc_queued_bytes = 0, rc_bytes_written = 0,
                rc_failure = None, rc_is_active = False, rc_path = None, rc_metadata = Map.empty,
                rc_started_utc = [], rc_file = [], rc_writer = NoWriter\<rparr>)"

section \<open>Methods\<close>

text \<open>
  \<^verbatim>\<open>start\<close>: \<open>opened\<close> is what creating the directory and opening the file for writing yields. The
  counters are reset before the file is opened; the queue is left as it is.
\<close>

definition recorder_start ::
  "unit res \<Rightarrow> pystr \<Rightarrow> pystr \<Rightarrow> metadata \<Rightarrow> recorder \<Rightarrow> unit res \<times> recorder" where
  "recorder_start opened now path meta r =
     (if rc_is_active r then (Inl (RuntimeError ''recording is already active''), r)
      else
        let r' = r\<lparr>rc_queued_bytes := 0, rc_bytes_written := 0, rc_failure := None, rc_path := Some path,
                   rc_metadata := meta, rc_started_utc := now\<rparr>
        in case opened of
             Inl e \<Rightarrow> (Inl e, r')
           | Inr _ \<Rightarrow> (Inr (), r'\<lparr>rc_file := [], rc_is_active := True, rc_writer := Waiting\<rparr>))"

text \<open>\<^verbatim>\<open>submit\<close>: the part under the lock, then the \<^verbatim>\<open>put\<close> behind it.\<close>

definition submit_reserve :: "bytes \<Rightarrow> recorder \<Rightarrow> bool res \<times> recorder" where
  "submit_reserve chunk r =
     (if \<not> rc_is_active r then (Inl (RuntimeError ''recording is not active''), r)
      else if rc_failure r \<noteq> None then (Inr False, r)
      else if int (rc_capacity r) < rc_queued_bytes r + int (length chunk)
      then (Inr False, r\<lparr>rc_failure := Some QUEUE_CAPACITY_ERROR\<rparr>)
      else (Inr True, r\<lparr>rc_queued_bytes := rc_queued_bytes r + int (length chunk)\<rparr>))"

definition queue_put :: "bytes option \<Rightarrow> recorder \<Rightarrow> recorder" where
  "queue_put x r = r\<lparr>rc_queue := rc_queue r @ [x]\<rparr>"

definition submit :: "bytes \<Rightarrow> recorder \<Rightarrow> bool res \<times> recorder" where
  "submit chunk r =
     (if chunk = [] then (Inr True, r)
      else case submit_reserve chunk r of
        (Inr True, r') \<Rightarrow> (Inr True, queue_put (Some chunk) r')
      | other \<Rightarrow> other)"

definition update_metadata :: "metadata \<Rightarrow> recorder \<Rightarrow> unit res \<times> recorder" where
  "update_metadata vs r =
     (if \<not> rc_is_active r then (Inl (RuntimeError ''recording is not active''), r)
      else (Inr (), r\<lparr>rc_metadata := rc_metadata r ++ vs\<rparr>))"

text \<open>
  \<^verbatim>\<open>stop\<close>: the checks, the sentinel, and what follows the join: an exception if the writer is still
  alive after five seconds, the summary otherwise.
\<close>

definition stop_begin :: "recorder \<Rightarrow> unit res \<times> recorder" where
  "stop_begin r =
     (if \<not> rc_is_active r then (Inl (RuntimeError ''recording is not active''), r)
      else if rc_writer r = NoWriter \<or> rc_path r = None
      then (Inl (RuntimeError ''recording state is incomplete''), r)
      else (Inr (), queue_put None r))"

definition stop_finish :: "pystr \<Rightarrow> recorder \<Rightarrow> recording_summary res \<times> recorder" where
  "stop_finish ended r =
     (if rc_writer r \<noteq> Ended
      then (Inl (RuntimeError ''recording writer did not stop within five seconds''), r)
      else
        (Inr \<lparr>rs_path = the (rc_path r), rs_bytes_written = rc_bytes_written r,
              rs_started_utc = rc_started_utc r, rs_ended_utc = ended, rs_failure = rc_failure r\<rparr>,
         r\<lparr>rc_is_active := False, rc_writer := NoWriter\<rparr>))"

text \<open>The document \<^verbatim>\<open>_write_metadata\<close> puts beside the recording.\<close>

definition metadata_document :: "recorder \<Rightarrow> recording_summary \<Rightarrow> metadata" where
  "metadata_document r s =
     (rc_metadata r)(''started_utc'' \<mapsto> MStr (rs_started_utc s), ''ended_utc'' \<mapsto> MStr (rs_ended_utc s),
        ''bytes_written'' \<mapsto> MInt (rs_bytes_written s),
        ''failure'' \<mapsto> (case rs_failure s of None \<Rightarrow> MNone | Some m \<Rightarrow> MStr (lit m)))"

section \<open>The writer thread\<close>

definition write_error :: "recorder \<Rightarrow> recorder" where
  "write_error r =
     r\<lparr>rc_failure := (case rc_failure r of None \<Rightarrow> Some ''recording write failed: {}'' | f \<Rightarrow> f),
       rc_writer := Ended\<rparr>"

text \<open>
  One step of \<^verbatim>\<open>_writer_loop\<close>. \<open>io\<close> says what the file system does with a write or with the final
  flush: \<open>None\<close> success, \<open>Some n\<close> an error after \<open>n\<close> bytes went to the file.
\<close>

definition writer_step :: "nat option \<Rightarrow> recorder \<Rightarrow> recorder option" where
  "writer_step io r =
     (case rc_writer r of
        Waiting \<Rightarrow>
          (case rc_queue r of
             [] \<Rightarrow> None
           | None # q \<Rightarrow>
               (case io of
                  None \<Rightarrow> Some (r\<lparr>rc_queue := q, rc_writer := Ended\<rparr>)
                | Some _ \<Rightarrow> Some (write_error (r\<lparr>rc_queue := q\<rparr>)))
           | Some chunk # q \<Rightarrow> Some (r\<lparr>rc_queue := q, rc_writer := Holding chunk\<rparr>))
      | Holding chunk \<Rightarrow>
          (case io of
             None \<Rightarrow> Some (r\<lparr>rc_file := rc_file r @ chunk, rc_writer := Wrote chunk\<rparr>)
           | Some n \<Rightarrow> Some (write_error (r\<lparr>rc_file := rc_file r @ take n chunk\<rparr>)))
      | Wrote chunk \<Rightarrow>
          Some (r\<lparr>rc_queued_bytes := rc_queued_bytes r - int (length chunk),
                  rc_bytes_written := rc_bytes_written r + int (length chunk), rc_writer := Waiting\<rparr>)
      | _ \<Rightarrow> None)"

section \<open>Interleavings\<close>

text \<open>
  A system state: the recorder, the chunks whose \<^verbatim>\<open>submit\<close> has reserved space but not reached the
  queue, the chunks put so far, in order, and whether \<^verbatim>\<open>stop\<close> has put the sentinel. The last two are
  the history the invariant talks about.
\<close>

record rec_sys =
  sy_rec :: recorder
  sy_inflight :: "bytes list"
  sy_put :: "bytes list"
  sy_stopping :: bool

inductive rec_step :: "rec_sys \<Rightarrow> rec_sys \<Rightarrow> bool" where
  reserve: "\<lbrakk>chunk \<noteq> []; submit_reserve chunk (sy_rec s) = (Inr b, r)\<rbrakk> \<Longrightarrow>
    rec_step s (s\<lparr>sy_rec := r, sy_inflight := (if b then sy_inflight s @ [chunk] else sy_inflight s)\<rparr>)"
| put: "\<lbrakk>sy_inflight s = xs @ chunk # ys\<rbrakk> \<Longrightarrow>
    rec_step s (s\<lparr>sy_rec := queue_put (Some chunk) (sy_rec s), sy_inflight := xs @ ys,
                  sy_put := sy_put s @ [chunk]\<rparr>)"
| metadata: "\<lbrakk>update_metadata vs (sy_rec s) = (Inr (), r)\<rbrakk> \<Longrightarrow> rec_step s (s\<lparr>sy_rec := r\<rparr>)"
| stop: "\<lbrakk>\<not> sy_stopping s; stop_begin (sy_rec s) = (Inr (), r)\<rbrakk> \<Longrightarrow>
    rec_step s (s\<lparr>sy_rec := r, sy_stopping := True\<rparr>)"
| writer: "\<lbrakk>writer_step io (sy_rec s) = Some r\<rbrakk> \<Longrightarrow> rec_step s (s\<lparr>sy_rec := r\<rparr>)"

inductive_cases rec_stepE: "rec_step s s'"

inductive rec_reach :: "rec_sys \<Rightarrow> rec_sys \<Rightarrow> bool" where
  refl: "rec_reach s s"
| step: "\<lbrakk>rec_reach s t; rec_step t u\<rbrakk> \<Longrightarrow> rec_reach s u"

text \<open>A recording just started on a recorder whose queue is empty.\<close>

definition started :: "rec_sys \<Rightarrow> bool" where
  "started s \<longleftrightarrow> rc_is_active (sy_rec s) \<and> rc_queue (sy_rec s) = [] \<and> rc_queued_bytes (sy_rec s) = 0 \<and>
     rc_bytes_written (sy_rec s) = 0 \<and> rc_failure (sy_rec s) = None \<and> rc_file (sy_rec s) = [] \<and>
     rc_writer (sy_rec s) = Waiting \<and> sy_inflight s = [] \<and> sy_put s = [] \<and> \<not> sy_stopping s"

section \<open>Invariant\<close>

fun chunks_of :: "bytes option list \<Rightarrow> bytes list" where
  "chunks_of [] = []"
| "chunks_of (None # q) = chunks_of q"
| "chunks_of (Some c # q) = c # chunks_of q"

lemma chunks_of_append [simp]: "chunks_of (p @ q) = chunks_of p @ chunks_of q"
  by (induction p rule: chunks_of.induct) auto

definition total :: "bytes list \<Rightarrow> int" where
  "total cs = int (length (concat cs))"

lemma total_simps [simp]:
  "total [] = 0" "total (c # cs) = int (length c) + total cs" "total (cs @ ds) = total cs + total ds"
  by (simp_all add: total_def)

lemma total_nonneg: "0 \<le> total cs"
  by (simp add: total_def)

fun held :: "writer \<Rightarrow> bytes list" where
  "held (Holding c) = [c]"
| "held (Wrote c) = [c]"
| "held _ = []"

text \<open>
  Queued bytes are those in flight, queued and held by the writer (and those of a chunk whose write
  failed), and never exceed the capacity. The file holds the chunks put so far in order: all but
  the queued ones while the writer lives or has ended without failure, a prefix in every case.
\<close>

definition space_inv :: "rec_sys \<Rightarrow> int \<Rightarrow> bool" where
  "space_inv s lost \<longleftrightarrow> (let r = sy_rec s in
     rc_queued_bytes r = total (sy_inflight s) + total (chunks_of (rc_queue r)) + total (held (rc_writer r)) + lost \<and>
     rc_queued_bytes r \<le> int (rc_capacity r) \<and> 0 \<le> lost \<and>
     (lost = 0 \<or> rc_writer r = Ended \<and> rc_failure r \<noteq> None))"

definition file_exact :: "rec_sys \<Rightarrow> bytes list \<Rightarrow> bool" where
  "file_exact s ds \<longleftrightarrow> (let r = sy_rec s in
     sy_put s = ds @ held (rc_writer r) @ chunks_of (rc_queue r) \<and>
     rc_bytes_written r = total ds \<and>
     rc_file r = concat ds @ (case rc_writer r of Wrote c \<Rightarrow> c | _ \<Rightarrow> []))"

definition rec_inv :: "rec_sys \<Rightarrow> bool" where
  "rec_inv s \<longleftrightarrow> rc_writer (sy_rec s) \<noteq> NoWriter \<and> (\<exists>lost. space_inv s lost) \<and>
     ((\<exists>ds. file_exact s ds) \<or> rc_writer (sy_rec s) = Ended \<and> rc_failure (sy_rec s) \<noteq> None) \<and>
     (\<exists>rest. concat (sy_put s) = rc_file (sy_rec s) @ rest)"

lemma started_inv: "started s \<Longrightarrow> rec_inv s"
  by (auto simp: started_def rec_inv_def space_inv_def file_exact_def Let_def)

lemma exact_prefix:
  assumes "file_exact s ds"
  shows "\<exists>rest. concat (sy_put s) = rc_file (sy_rec s) @ rest"
  using assms by (cases "rc_writer (sy_rec s)") (auto simp: file_exact_def Let_def)

lemma write_error_simps [simp]:
  "rc_writer (write_error r) = Ended" "rc_failure (write_error r) \<noteq> None"
  "\<exists>m. rc_failure (write_error r) = Some m" "rc_file (write_error r) = rc_file r"
  "rc_queue (write_error r) = rc_queue r" "rc_queued_bytes (write_error r) = rc_queued_bytes r"
  "rc_capacity (write_error r) = rc_capacity r" "rc_bytes_written (write_error r) = rc_bytes_written r"
  by (auto simp: write_error_def split: option.splits)

lemma reserve_inv:
  assumes "rec_inv s" "submit_reserve chunk (sy_rec s) = (Inr b, r)"
  shows "rec_inv (s\<lparr>sy_rec := r, sy_inflight := (if b then sy_inflight s @ [chunk] else sy_inflight s)\<rparr>)"
  using assms
  by (auto simp: rec_inv_def submit_reserve_def space_inv_def file_exact_def Let_def split: if_splits)

lemma put_inv:
  assumes "rec_inv s" "sy_inflight s = xs @ chunk # ys"
  shows "rec_inv (s\<lparr>sy_rec := queue_put (Some chunk) (sy_rec s), sy_inflight := xs @ ys,
                  sy_put := sy_put s @ [chunk]\<rparr>)"
  using assms by (auto simp: rec_inv_def queue_put_def space_inv_def file_exact_def Let_def)

lemma metadata_inv:
  "rec_inv s \<Longrightarrow> update_metadata vs (sy_rec s) = (Inr (), r) \<Longrightarrow> rec_inv (s\<lparr>sy_rec := r\<rparr>)"
  by (auto simp: rec_inv_def update_metadata_def space_inv_def file_exact_def Let_def split: if_splits)

lemma stop_inv:
  "rec_inv s \<Longrightarrow> stop_begin (sy_rec s) = (Inr (), r) \<Longrightarrow> rec_inv (s\<lparr>sy_rec := r, sy_stopping := True\<rparr>)"
  by (auto simp: rec_inv_def stop_begin_def queue_put_def space_inv_def file_exact_def Let_def
      split: if_splits)

lemma writer_inv_waiting:
  assumes inv: "rec_inv s" and w: "rc_writer (sy_rec s) = Waiting" and st: "writer_step io (sy_rec s) = Some r"
  shows "rec_inv (s\<lparr>sy_rec := r\<rparr>)"
proof -
  obtain x q where q: "rc_queue (sy_rec s) = x # q"
    using st w by (auto simp: writer_step_def split: list.splits)
  obtain ds where d: "file_exact s ds" using inv w by (auto simp: rec_inv_def)
  show ?thesis
  proof (cases x)
    case None
    then show ?thesis
      using inv st w q d
      by (cases io) (auto simp: writer_step_def rec_inv_def space_inv_def file_exact_def Let_def)
  next
    case (Some chunk)
    then have r: "r = (sy_rec s)\<lparr>rc_queue := q, rc_writer := Holding chunk\<rparr>"
      using st w q by (simp add: writer_step_def)
    have "file_exact (s\<lparr>sy_rec := r\<rparr>) ds" using d w q Some by (simp add: file_exact_def r Let_def)
    then show ?thesis
      using inv exact_prefix [of "s\<lparr>sy_rec := r\<rparr>"] w q Some
      by (auto simp: rec_inv_def space_inv_def r Let_def)
  qed
qed

lemma writer_inv_holding:
  assumes inv: "rec_inv s" and w: "rc_writer (sy_rec s) = Holding c" and st: "writer_step io (sy_rec s) = Some r"
  shows "rec_inv (s\<lparr>sy_rec := r\<rparr>)"
proof -
  obtain ds where d: "file_exact s ds" using inv w by (auto simp: rec_inv_def)
  obtain lost where l: "space_inv s lost" using inv by (auto simp: rec_inv_def)
  have l0: "lost = 0" using l w by (simp add: space_inv_def Let_def)
  show ?thesis
  proof (cases io)
    case None
    then have r: "r = (sy_rec s)\<lparr>rc_file := rc_file (sy_rec s) @ c, rc_writer := Wrote c\<rparr>"
      using st w by (simp add: writer_step_def)
    have "file_exact (s\<lparr>sy_rec := r\<rparr>) ds" using d w by (simp add: file_exact_def r Let_def)
    then show ?thesis
      using l l0 exact_prefix [of "s\<lparr>sy_rec := r\<rparr>"] w by (auto simp: rec_inv_def space_inv_def r Let_def)
  next
    case (Some n)
    then have r: "r = write_error ((sy_rec s)\<lparr>rc_file := rc_file (sy_rec s) @ take n c\<rparr>)"
      using st w by (simp add: writer_step_def)
    have "concat (sy_put s) = rc_file r @ drop n c @ concat (chunks_of (rc_queue (sy_rec s)))"
    proof -
      have "take n c @ drop n c @ x = c @ x" for x by (metis append.assoc append_take_drop_id)
      then show ?thesis using d w by (simp add: file_exact_def r Let_def)
    qed
    moreover have "space_inv (s\<lparr>sy_rec := r\<rparr>) (int (length c))"
      using l l0 w by (simp add: space_inv_def r Let_def)
    ultimately show ?thesis by (auto simp: rec_inv_def r)
  qed
qed

lemma writer_inv_wrote:
  assumes inv: "rec_inv s" and w: "rc_writer (sy_rec s) = Wrote c" and st: "writer_step io (sy_rec s) = Some r"
  shows "rec_inv (s\<lparr>sy_rec := r\<rparr>)"
proof -
  obtain ds where d: "file_exact s ds" using inv w by (auto simp: rec_inv_def)
  obtain lost where l: "space_inv s lost" using inv by (auto simp: rec_inv_def)
  have r: "r = (sy_rec s)\<lparr>rc_queued_bytes := rc_queued_bytes (sy_rec s) - int (length c),
      rc_bytes_written := rc_bytes_written (sy_rec s) + int (length c), rc_writer := Waiting\<rparr>"
    using st w by (simp add: writer_step_def)
  have "file_exact (s\<lparr>sy_rec := r\<rparr>) (ds @ [c])" using d w by (simp add: file_exact_def r Let_def)
  moreover have "space_inv (s\<lparr>sy_rec := r\<rparr>) 0"
    using l w total_nonneg [of "sy_inflight s"] by (auto simp: space_inv_def r Let_def)
  ultimately show ?thesis
    using exact_prefix [of "s\<lparr>sy_rec := r\<rparr>"] by (auto simp: rec_inv_def r)
qed

lemma rec_step_inv: "rec_step s s' \<Longrightarrow> rec_inv s \<Longrightarrow> rec_inv s'"
proof (induction rule: rec_step.induct)
  case (writer io s r)
  show ?case
  proof (cases "rc_writer (sy_rec s)")
    case (Holding c)
    then show ?thesis using writer_inv_holding writer by blast
  next
    case (Wrote c)
    then show ?thesis using writer_inv_wrote writer by blast
  next
    case Waiting
    then show ?thesis using writer_inv_waiting writer by blast
  qed (use writer in \<open>auto simp: writer_step_def\<close>)
qed (simp_all add: reserve_inv put_inv metadata_inv stop_inv)

lemma rec_reach_inv: "rec_reach s t \<Longrightarrow> rec_inv s \<Longrightarrow> rec_inv t"
  by (induction rule: rec_reach.induct) (auto dest: rec_step_inv)

section \<open>The recorder as a sink\<close>

text \<open>
  What the acquisition loop relies on when it hands complete frames to a recorder: a chunk is taken
  as a whole, behind everything taken before, or not at all.
\<close>

locale frame_sink =
  fixes sink_submit :: "bytes \<Rightarrow> 's \<Rightarrow> bool res \<times> 's"
    and taken :: "'s \<Rightarrow> bytes"
    and sink_failed :: "'s \<Rightarrow> bool"
  assumes take_chunk: "sink_submit c s = (Inr True, s') \<Longrightarrow>
      taken s' = taken s @ c \<and> (sink_failed s' \<longrightarrow> sink_failed s \<and> c = []) \<and> (sink_failed s \<longrightarrow> sink_failed s')"
    and refuse_chunk: "sink_submit c s = (Inr False, s') \<Longrightarrow> taken s' = taken s \<and> sink_failed s'"
begin

text \<open>A run of submissions none of which raises.\<close>

primrec submits :: "bytes list \<Rightarrow> 's \<Rightarrow> 's \<Rightarrow> bool" where
  "submits [] s t \<longleftrightarrow> t = s"
| "submits (c # cs) s t \<longleftrightarrow> (\<exists>b s'. sink_submit c s = (Inr b, s') \<and> submits cs s' t)"

lemma submits_append: "submits cs s t \<Longrightarrow> submits ds t u \<Longrightarrow> submits (cs @ ds) s u"
  by (induction cs arbitrary: s) auto

lemma submit_unfailed:
  "sink_submit c s = (Inr b, s') \<Longrightarrow> \<not> sink_failed s' \<Longrightarrow> \<not> sink_failed s \<and> taken s' = taken s @ c"
  by (cases b) (auto dest: take_chunk refuse_chunk)

text \<open>A sink that has not failed at the end has taken every chunk, in order.\<close>

lemma submits_taken:
  "submits cs s t \<Longrightarrow> \<not> sink_failed t \<Longrightarrow> \<not> sink_failed s \<and> taken t = taken s @ concat cs"
proof (induction cs arbitrary: s)
  case (Cons c cs)
  then obtain b s' where b: "sink_submit c s = (Inr b, s')" "submits cs s' t" by auto
  then show ?case using Cons.IH [OF b(2)] Cons.prems(2) submit_unfailed [OF b(1)] by simp
qed simp

text \<open>A failure stays noted.\<close>

lemma submits_failed: "submits cs s t \<Longrightarrow> sink_failed s \<Longrightarrow> sink_failed t"
  using submits_taken by blast

end

definition recorded :: "recorder \<Rightarrow> bytes" where
  "recorded r = rc_file r @ (case rc_writer r of Holding c \<Rightarrow> c | _ \<Rightarrow> []) @ concat (chunks_of (rc_queue r))"

interpretation rec_sink: frame_sink submit recorded "\<lambda>r. rc_failure r \<noteq> None"
  by unfold_locales
    (auto simp: submit_def submit_reserve_def queue_put_def recorded_def split: if_splits)

section \<open>Properties\<close>

text \<open>
  C12. The queue is bounded in bytes under every interleaving of submitting threads and the writer: in
  each reachable state the bytes reserved, queued and held by the writer are at most the bytes
  counted, which never exceed the capacity.
\<close>

theorem recorder_queue_bounded:
  assumes "started s" and "rec_reach s t"
  shows "total (sy_inflight t) + total (chunks_of (rc_queue (sy_rec t))) + total (held (rc_writer (sy_rec t)))
      \<le> rc_queued_bytes (sy_rec t) \<and>
    rc_queued_bytes (sy_rec t) \<le> int (rc_capacity (sy_rec t))"
proof -
  have "rec_inv t" using rec_reach_inv [OF assms(2) started_inv [OF assms(1)]] .
  then obtain lost where "space_inv t lost" by (auto simp: rec_inv_def)
  then show ?thesis by (auto simp: space_inv_def Let_def)
qed

definition sample_recorder :: recorder where
  "sample_recorder = \<lparr>rc_capacity = 4, rc_queue = [], rc_queued_bytes = 0, rc_bytes_written = 0,
     rc_failure = None, rc_is_active = True, rc_path = Some (lit ''a.sdf1''), rc_metadata = Map.empty,
     rc_started_utc = [], rc_file = [], rc_writer = Waiting\<rparr>"

definition sample_sys :: rec_sys where
  "sample_sys = \<lparr>sy_rec = sample_recorder, sy_inflight = [], sy_put = [], sy_stopping = False\<rparr>"

lemma sample_started: "started sample_sys"
  by (simp add: started_def sample_sys_def sample_recorder_def)

definition sample_reserved :: rec_sys where
  "sample_reserved = sample_sys\<lparr>sy_rec := sample_recorder\<lparr>rc_queued_bytes := 3\<rparr>, sy_inflight := [[1, 2, 3]]\<rparr>"

lemma sample_reserve: "rec_reach sample_sys sample_reserved"
proof -
  have "rec_step sample_sys (sample_sys\<lparr>sy_rec := sample_recorder\<lparr>rc_queued_bytes := 3\<rparr>,
      sy_inflight := (if True then sy_inflight sample_sys @ [[1, 2, 3]] else sy_inflight sample_sys)\<rparr>)"
    by (rule rec_step.reserve) (simp_all add: submit_reserve_def sample_sys_def sample_recorder_def)
  then have "rec_step sample_sys sample_reserved"
    by (simp add: sample_reserved_def sample_sys_def)
  then show ?thesis using rec_reach.step [OF rec_reach.refl] by blast
qed

theorem recorder_queue_bounded_witness:
  "rc_queued_bytes (sy_rec sample_reserved) \<le> int (rc_capacity (sy_rec sample_reserved))"
  using recorder_queue_bounded [OF sample_started sample_reserve] by blast


definition sample_ended :: rec_sys where
  "sample_ended = sample_sys\<lparr>sy_rec := sample_recorder\<lparr>rc_writer := Ended\<rparr>, sy_stopping := True\<rparr>"

lemma sample_stop: "rec_reach sample_sys sample_ended"
proof -
  have "rec_step sample_sys (sample_sys\<lparr>sy_rec := queue_put None sample_recorder, sy_stopping := True\<rparr>)"
    by (rule rec_step.stop) (simp_all add: stop_begin_def sample_sys_def sample_recorder_def)
  moreover have "rec_step (sample_sys\<lparr>sy_rec := queue_put None sample_recorder, sy_stopping := True\<rparr>)
      ((sample_sys\<lparr>sy_rec := queue_put None sample_recorder, sy_stopping := True\<rparr>)
        \<lparr>sy_rec := sample_recorder\<lparr>rc_writer := Ended\<rparr>\<rparr>)"
    by (rule rec_step.writer [of None]) (simp add: writer_step_def queue_put_def sample_recorder_def)
  ultimately have "rec_reach sample_sys ((sample_sys\<lparr>sy_rec := queue_put None sample_recorder,
      sy_stopping := True\<rparr>)\<lparr>sy_rec := sample_recorder\<lparr>rc_writer := Ended\<rparr>\<rparr>)"
    using rec_reach.intros by blast
  then show ?thesis by (simp add: sample_ended_def sample_sys_def)
qed


text \<open>
  A recorder must not be started again after a failed write: \<^verbatim>\<open>start\<close> does not empty the queue, so
  chunks of the failed recording, and the sentinel behind them, are still there. The new writer
  puts the old chunk into the new file, counts it against bytes never reserved, and ends at the
  old sentinel although the recording is active.
\<close>

theorem restart_writes_stale_chunk:
  "\<exists>r1 r2 r3 r4 r5 r6 r7 s.
     submit [1] sample_recorder = (Inr True, r1) \<and> submit [7, 7] r1 = (Inr True, r2) \<and>
     writer_step None r2 = Some r3 \<and> writer_step (Some 0) r3 = Some r4 \<and>
     stop_begin r4 = (Inr (), r5) \<and> stop_finish [] r5 = (Inr s, r6) \<and> rs_failure s \<noteq> None \<and>
     recorder_start (Inr ()) [] (lit ''b.sdf1'') Map.empty r6 = (Inr (), r7) \<and>
     (\<exists>r8. Option.bind (Option.bind (Option.bind (writer_step None r7) (writer_step None))
        (writer_step None)) (writer_step None) = Some r8 \<and>
      rc_file r8 = [7, 7] \<and> rc_queued_bytes r8 = - 2 \<and> rc_is_active r8 \<and> rc_writer r8 = Ended)"
  by (simp add: submit_def submit_reserve_def stop_begin_def stop_finish_def recorder_start_def
      queue_put_def sample_recorder_def writer_step_def write_error_def)

end
