(* ===== verification/Acquisition.thy ===== *)
theory Acquisition
  imports StreamParser SampleStore OtaDemux Recorder
begin

text \<open>
  \<^verbatim>\<open>acquisition/controller.py\<close>: the worker loop of one connection. The transport is a parameter, a
  record of functions on a state of its own. The recorders a controller is given are part of its
  state; queues are lists. The methods other threads call and the steps of the worker are separate
  functions, each as atomic as the locks and the interpreter make it.
\<close>

section \<open>State\<close>

record 't transport =
  tp_read :: "nat \<Rightarrow> float64 \<Rightarrow> 't \<Rightarrow> bytes res \<times> 't"
  tp_write_control :: "bytes \<Rightarrow> 't \<Rightarrow> unit res \<times> 't"
  tp_write_raw :: "bytes \<Rightarrow> 't \<Rightarrow> unit res \<times> 't"
  tp_close :: "'t \<Rightarrow> unit res \<times> 't"

definition READ_CHUNK_BYTES :: nat where [const_simps]: "READ_CHUNK_BYTES = 65536"
definition READ_TIMEOUT_SECONDS :: float64 where "READ_TIMEOUT_SECONDS = fl (5 / 100)"
definition MAXIMUM_COMMAND_BYTES :: nat where [const_simps]: "MAXIMUM_COMMAND_BYTES = 94"
definition DEFERRED_RECORDING_CAPACITY_BYTES :: nat where
  [const_simps]: "DEFERRED_RECORDING_CAPACITY_BYTES = 4 * 1024 * 1024"

record controller =
  ac_store :: sample_store
  ac_recorder :: "recorder option"
  ac_defer_recording :: bool
  ac_deferred_frames :: "bytes list"
  ac_deferred_bytes :: nat
  ac_parser :: stream_parser
  ac_commands :: "bytes list"
  ac_cli_responses :: "pystr list"
  ac_bytes_received :: nat
  ac_frames_received :: nat
  ac_last_error :: "string option"
  ac_control_state :: control_state
  ac_identity_updates :: "nat list"
  ac_device_uuid :: "nat option"
  ac_archive_recorder :: "recorder option"
  ac_ota_active :: bool
  ac_ota_reset_pending :: bool
  ac_ota_demux :: demux
  ac_ota_replies :: "bytes list"
  ac_ota_outbound :: "bytes list"

record acquisition_health =
  ah_bytes_received :: nat
  ah_frames_received :: nat
  ah_recording_failure :: "string option"
  ah_last_error :: "string option"

definition AcquisitionController_init :: "sample_store \<Rightarrow> recorder option \<Rightarrow> controller" where
  "AcquisitionController_init store recorder =
     \<lparr>ac_store = store, ac_recorder = recorder, ac_defer_recording = False, ac_deferred_frames = [],
      ac_deferred_bytes = 0, ac_parser = StreamParser_init True, ac_commands = [], ac_cli_responses = [],
      ac_bytes_received = 0, ac_frames_received = 0, ac_last_error = None,
      ac_control_state = FirmwareControlState, ac_identity_updates = [], ac_device_uuid = None,
      ac_archive_recorder = None, ac_ota_active = False, ac_ota_reset_pending = False,
      ac_ota_demux = \<lparr>dm_pending = [], dm_max_line = DEFAULT_MAX_LINE\<rparr>, ac_ota_replies = [],
      ac_ota_outbound = []\<rparr>"

definition health :: "controller \<Rightarrow> acquisition_health" where
  "health c =
     \<lparr>ah_bytes_received = ac_bytes_received c, ah_frames_received = ac_frames_received c,
      ah_recording_failure = (case ac_recorder c of None \<Rightarrow> None | Some r \<Rightarrow> rc_failure r),
      ah_last_error = ac_last_error c\<rparr>"

section \<open>Commands\<close>

definition enqueue_command :: "pystr \<Rightarrow> controller \<Rightarrow> unit res \<times> controller" where
  "enqueue_command command c =
     (let stripped = str_strip command in
      if \<not> list_all (\<lambda>x. x < 128) stripped
      then (Inl (ValueError ''command must contain ASCII characters''), c)
      else
        let encoded_command = ascii_encode stripped
        in if encoded_command = [] \<or> MAXIMUM_COMMAND_BYTES < length encoded_command \<or>
              0 \<in> set encoded_command
           then (Inl (ValueError ''command must contain 1..94 ASCII bytes without NUL''), c)
           else (Inr (), c\<lparr>ac_commands := ac_commands c @ [encoded_command]\<rparr>))"

definition start_acquisition :: "controller \<Rightarrow> unit res \<times> controller" where
  "start_acquisition = enqueue_command (lit ''AT+START'')"

definition stop_acquisition :: "controller \<Rightarrow> unit res \<times> controller" where
  "stop_acquisition = enqueue_command (lit ''AT+STOP'')"

definition set_watermark :: "int \<Rightarrow> controller \<Rightarrow> unit res \<times> controller" where
  "set_watermark words c =
     (if words \<notin> {128, 256, 511} then (Inl (ValueError ''watermark must be 128, 256 or 511''), c)
      else enqueue_command (lit ''acq watermark '' @ show_int words) c)"

definition request_status :: "controller \<Rightarrow> unit res \<times> controller" where
  "request_status = enqueue_command (lit ''AT+STATE?'')"

definition request_uuid :: "controller \<Rightarrow> unit res \<times> controller" where
  "request_uuid = enqueue_command (lit ''AT+UUID?'')"

definition set_uuid :: "pystr \<Rightarrow> controller \<Rightarrow> unit res \<times> controller" where
  "set_uuid v = enqueue_command (lit ''AT+UUID='' @ v)"

definition request_livestream :: "controller \<Rightarrow> unit res \<times> controller" where
  "request_livestream = enqueue_command (lit ''AT+LIVESTREAM?'')"

text \<open>
  \<^verbatim>\<open>target.upper()\<close> is compared with two ASCII names. No character outside ASCII has an upper case
  made of the letters of these names, so mapping the ASCII letters decides the comparison.
\<close>

definition upper_target :: "pystr \<Rightarrow> pystr" where
  "upper_target s = map (\<lambda>x. if 97 \<le> x \<and> x \<le> 122 then x - 32 else x) s"

definition set_livestream :: "pystr \<Rightarrow> controller \<Rightarrow> unit res \<times> controller" where
  "set_livestream target c =
     (if upper_target target \<notin> {lit ''UART'', lit ''CDC''}
      then (Inl (ValueError ''live target must be UART or CDC''), c)
      else enqueue_command (lit ''AT+LIVESTREAM='' @ upper_target target) c)"

definition export_archive :: "pystr \<Rightarrow> controller \<Rightarrow> unit res \<times> controller" where
  "export_archive target c =
     (if upper_target target \<notin> {lit ''UART'', lit ''CDC''}
      then (Inl (ValueError ''export target must be UART or CDC''), c)
      else enqueue_command (lit ''AT+EXPORT='' @ upper_target target) c)"

definition request_clear_sd :: "controller \<Rightarrow> unit res \<times> controller" where
  "request_clear_sd = enqueue_command (lit ''AT+SDCLEAR=CONFIRM'')"

section \<open>Recorders\<close>

text \<open>The loop of \<^verbatim>\<open>set_recorder\<close> over the deferred frames: it ends at the first refusal.\<close>

fun submit_deferred :: "bytes list \<Rightarrow> recorder \<Rightarrow> string option \<Rightarrow> unit res \<times> recorder \<times> string option" where
  "submit_deferred [] r err = (Inr (), r, err)"
| "submit_deferred (f # fs) r err =
     (case submit f r of
        (Inl e, r') \<Rightarrow> (Inl e, r', err)
      | (Inr True, r') \<Rightarrow> submit_deferred fs r' err
      | (Inr False, r') \<Rightarrow> (Inr (), r', rc_failure r'))"

definition clear_deferred :: "controller \<Rightarrow> controller" where
  "clear_deferred c = c\<lparr>ac_defer_recording := False, ac_deferred_frames := [], ac_deferred_bytes := 0\<rparr>"

definition set_recorder :: "recorder option \<Rightarrow> controller \<Rightarrow> unit res \<times> controller" where
  "set_recorder recorder c =
     (case recorder of
        None \<Rightarrow> (Inr (), clear_deferred (c\<lparr>ac_recorder := None\<rparr>))
      | Some r \<Rightarrow>
          (case submit_deferred (ac_deferred_frames c) r (ac_last_error c) of
             (Inl e, r', err) \<Rightarrow> (Inl e, c\<lparr>ac_recorder := Some r', ac_last_error := err\<rparr>)
           | (Inr _, r', err) \<Rightarrow>
               (Inr (), clear_deferred (c\<lparr>ac_recorder := Some r', ac_last_error := err\<rparr>))))"

definition defer_recording_until_identity :: "controller \<Rightarrow> controller" where
  "defer_recording_until_identity c =
     (if ac_recorder c = None then c\<lparr>ac_defer_recording := True\<rparr> else c)"

definition cancel_deferred_recording :: "controller \<Rightarrow> controller" where
  "cancel_deferred_recording c = clear_deferred c"

definition set_archive_recorder :: "recorder option \<Rightarrow> controller \<Rightarrow> controller" where
  "set_archive_recorder recorder c = c\<lparr>ac_archive_recorder := recorder\<rparr>"

definition drain_identity_updates :: "controller \<Rightarrow> nat list \<times> controller" where
  "drain_identity_updates c = (ac_identity_updates c, c\<lparr>ac_identity_updates := []\<rparr>)"

definition drain_cli_responses :: "controller \<Rightarrow> pystr list \<times> controller" where
  "drain_cli_responses c = (ac_cli_responses c, c\<lparr>ac_cli_responses := []\<rparr>)"

section \<open>OTA bridge\<close>

definition start_ota :: "controller \<Rightarrow> controller" where
  "start_ota c = c\<lparr>ac_ota_reset_pending := True, ac_ota_active := True\<rparr>"

definition end_ota :: "controller \<Rightarrow> controller" where
  "end_ota c = c\<lparr>ac_ota_active := False, ac_ota_reset_pending := False\<rparr>"

definition send_ota_frame :: "bytes \<Rightarrow> controller \<Rightarrow> controller" where
  "send_ota_frame data c = c\<lparr>ac_ota_outbound := ac_ota_outbound c @ [data]\<rparr>"

text \<open>\<^verbatim>\<open>next_ota_reply\<close> at the moment its wait ends: the next line, or \<open>None\<close> at the timeout.\<close>

definition next_ota_reply :: "controller \<Rightarrow> bytes option \<times> controller" where
  "next_ota_reply c =
     (case ac_ota_replies c of [] \<Rightarrow> (None, c) | l # ls \<Rightarrow> (Some l, c\<lparr>ac_ota_replies := ls\<rparr>))"

section \<open>Frames\<close>

definition observe_identity :: "nat \<Rightarrow> controller \<Rightarrow> unit res \<times> controller" where
  "observe_identity device_uuid c =
     (case ac_device_uuid c of
        None \<Rightarrow> (Inr (), c\<lparr>ac_device_uuid := Some device_uuid,
                           ac_identity_updates := ac_identity_updates c @ [device_uuid]\<rparr>)
      | Some u \<Rightarrow>
          if u \<noteq> device_uuid
          then (Inl (DeviceIdentityError ''connection changed UUID from {} to {}''), c)
          else (Inr (), c))"

definition handle_archive :: "frame \<Rightarrow> controller \<Rightarrow> unit res \<times> controller" where
  "handle_archive f c =
     (case ac_archive_recorder c of
        None \<Rightarrow> (Inr (), c)
      | Some r \<Rightarrow>
          (case submit (fr_raw_bytes f) r of
             (Inl e, r') \<Rightarrow> (Inl e, c\<lparr>ac_archive_recorder := Some r'\<rparr>)
           | (Inr b, r') \<Rightarrow>
               (Inr (), c\<lparr>ac_archive_recorder := Some r',
                          ac_last_error := (if b then ac_last_error c
                            else Some ''archive recording queue capacity exceeded'')\<rparr>)))"

definition record_frame :: "frame \<Rightarrow> controller \<Rightarrow> unit res \<times> controller" where
  "record_frame f c =
     (case ac_recorder c of
        Some r \<Rightarrow>
          (case submit (fr_raw_bytes f) r of
             (Inl e, r') \<Rightarrow> (Inl e, c\<lparr>ac_recorder := Some r'\<rparr>)
           | (Inr b, r') \<Rightarrow>
               (Inr (), c\<lparr>ac_recorder := Some r',
                          ac_last_error := (if b then ac_last_error c else rc_failure r')\<rparr>))
      | None \<Rightarrow>
          if \<not> ac_defer_recording c then (Inr (), c)
          else
            let next_size = ac_deferred_bytes c + length (fr_raw_bytes f)
            in if next_size \<le> DEFERRED_RECORDING_CAPACITY_BYTES
               then (Inr (), c\<lparr>ac_deferred_frames := ac_deferred_frames c @ [fr_raw_bytes f],
                               ac_deferred_bytes := next_size\<rparr>)
               else (Inr (), c\<lparr>ac_last_error := Some ''deferred recording capacity exceeded''\<rparr>))"

definition handle_cli :: "pystr \<Rightarrow> controller \<Rightarrow> unit res \<times> controller" where
  "handle_cli cli_text c =
     (let finish = (\<lambda>c. (Inr (), c\<lparr>ac_cli_responses := ac_cli_responses c @ [cli_text]\<rparr>))
      in case updated_from_cli (ac_control_state c) cli_text of
           Inl (ControlStateParseError m) \<Rightarrow> finish (c\<lparr>ac_last_error := Some m\<rparr>)
         | Inl e \<Rightarrow> (Inl e, c)
         | Inr st \<Rightarrow>
             let c1 = c\<lparr>ac_control_state := st, ac_store := update_control_state st (ac_store c)\<rparr>
             in case st ''device_uuid'' of
                  VUuid u \<Rightarrow>
                    (case observe_identity u c1 of
                       (Inl e, c2) \<Rightarrow> (Inl e, c2)
                     | (Inr _, c2) \<Rightarrow> finish c2)
                | _ \<Rightarrow> finish c1)"

definition dispatch_frame :: "numpy \<Rightarrow> float64 \<Rightarrow> frame \<Rightarrow> controller \<Rightarrow> unit res \<times> controller" where
  "dispatch_frame np now f c =
     (case fr_message_type f of
        IIS3DWB_FIFO \<Rightarrow>
          (Inr (), c\<lparr>ac_store :=
             (case fr_iis_ts_us f of
                Some ts \<Rightarrow> append_iis_arrays np ts (case fr_iis_accel_g f of Some a \<Rightarrow> a | None \<Rightarrow> []) (ac_store c)
              | None \<Rightarrow> append_iis np (case iis_samples f of Some ss \<Rightarrow> ss | None \<Rightarrow> []) (ac_store c))\<rparr>)
      | JY61PL_SAMPLE \<Rightarrow>
          (case fr_jy61pl f of
             None \<Rightarrow> (Inr (), c)
           | Some s \<Rightarrow> (Inr (), c\<lparr>ac_store := update_jy s now (ac_store c)\<rparr>))
      | STATUS \<Rightarrow>
          (case fr_status f of
             None \<Rightarrow> (Inr (), c)
           | Some s \<Rightarrow> (Inr (), c\<lparr>ac_store := update_status s (ac_store c)\<rparr>))
      | CLI_RESPONSE \<Rightarrow>
          (case fr_cli_text f of None \<Rightarrow> (Inr (), c) | Some t \<Rightarrow> handle_cli t c))"

text \<open>\<^verbatim>\<open>_handle_frame\<close>; \<open>now\<close> is the monotonic clock.\<close>

definition handle_frame :: "numpy \<Rightarrow> float64 \<Rightarrow> frame \<Rightarrow> (controller, unit) io" where
  "handle_frame np now f =
     io_bind (case fr_device_uuid f of None \<Rightarrow> io_return () | Some u \<Rightarrow> observe_identity u) (\<lambda>_.
       if archive_export f then handle_archive f
       else io_bind (record_frame f) (\<lambda>_. dispatch_frame np now f))"

fun handle_frames :: "numpy \<Rightarrow> float64 \<Rightarrow> frame list \<Rightarrow> (controller, unit) io" where
  "handle_frames np now [] = io_return ()"
| "handle_frames np now (f # fs) = io_bind (handle_frame np now f) (\<lambda>_. handle_frames np now fs)"

section \<open>The worker\<close>

definition parse_chunk :: "numpy \<Rightarrow> bytes \<Rightarrow> controller \<Rightarrow> frame list \<times> controller" where
  "parse_chunk np chunk c =
     (if ac_ota_active c then
        let c0 = (if ac_ota_reset_pending c
                  then c\<lparr>ac_ota_demux := demux_reset (ac_ota_demux c), ac_ota_replies := [],
                         ac_ota_reset_pending := False\<rparr>
                  else c);
            ((ls, parser_bytes), d) = demux_feed (ac_ota_demux c0) chunk;
            c1 = c0\<lparr>ac_ota_demux := d, ac_ota_replies := ac_ota_replies c0 @ ls\<rparr>
        in if parser_bytes = [] then ([], c1)
           else let (fs, p) = feed np (ac_parser c1) parser_bytes in (fs, c1\<lparr>ac_parser := p\<rparr>)
      else if demux_buffered_bytes (ac_ota_demux c) \<noteq> 0 then
        let (residue, d) = demux_flush (ac_ota_demux c);
            (fs, p) = feed np (ac_parser c) (residue @ chunk)
        in (fs, c\<lparr>ac_ota_demux := d, ac_parser := p\<rparr>)
      else let (fs, p) = feed np (ac_parser c) chunk in (fs, c\<lparr>ac_parser := p\<rparr>))"

text \<open>Writing out a queue: the item is taken off before it is written.\<close>

fun write_all :: "(bytes \<Rightarrow> 't \<Rightarrow> unit res \<times> 't) \<Rightarrow> bytes list \<Rightarrow> 't \<Rightarrow> unit res \<times> bytes list \<times> 't" where
  "write_all write [] t = (Inr (), [], t)"
| "write_all write (x # xs) t =
     (case write x t of (Inl e, t') \<Rightarrow> (Inl e, xs, t') | (Inr _, t') \<Rightarrow> write_all write xs t')"

definition send_pending_commands :: "'t transport \<Rightarrow> (controller \<times> 't, unit) io" where
  "send_pending_commands tp ct =
     (case ct of (c, t) \<Rightarrow>
        case write_all (tp_write_control tp) (ac_commands c) t of
          (r, rest, t') \<Rightarrow> (r, c\<lparr>ac_commands := rest\<rparr>, t'))"

definition send_pending_ota_frames :: "'t transport \<Rightarrow> (controller \<times> 't, unit) io" where
  "send_pending_ota_frames tp ct =
     (case ct of (c, t) \<Rightarrow>
        case write_all (tp_write_raw tp) (ac_ota_outbound c) t of
          (r, rest, t') \<Rightarrow> (r, c\<lparr>ac_ota_outbound := rest\<rparr>, t'))"

definition read_chunk :: "'t transport \<Rightarrow> (controller \<times> 't, bytes) io" where
  "read_chunk tp ct =
     (case ct of (c, t) \<Rightarrow>
        case tp_read tp READ_CHUNK_BYTES READ_TIMEOUT_SECONDS t of (r, t') \<Rightarrow> (r, c, t'))"

definition on_controller :: "(controller, 'a) io \<Rightarrow> (controller \<times> 't, 'a) io" where
  "on_controller m ct = (case ct of (c, t) \<Rightarrow> case m c of (r, c') \<Rightarrow> (r, c', t))"

definition ingest_chunk :: "numpy \<Rightarrow> float64 \<Rightarrow> bytes \<Rightarrow> (controller, unit) io" where
  "ingest_chunk np now chunk c =
     (let c0 = c\<lparr>ac_bytes_received := ac_bytes_received c + length chunk\<rparr>;
          (fs, c1) = parse_chunk np chunk c0;
          c2 = c1\<lparr>ac_frames_received := ac_frames_received c1 + length fs\<rparr>
      in case handle_frames np now fs c2 of
           (Inl e, c3) \<Rightarrow> (Inl e, c3)
         | (Inr _, c3) \<Rightarrow>
             (Inr (), c3\<lparr>ac_store := update_parser_stats (pc_stats (sp_core (ac_parser c3))) (ac_store c3)\<rparr>))"

text \<open>One turn of the loop of \<^verbatim>\<open>run\<close>; the result says whether the read returned bytes.\<close>

definition run_turn :: "numpy \<Rightarrow> 't transport \<Rightarrow> float64 \<Rightarrow> (controller \<times> 't, bool) io" where
  "run_turn np tp now =
     io_bind (send_pending_commands tp) (\<lambda>_.
     io_bind (send_pending_ota_frames tp) (\<lambda>_.
     io_bind (read_chunk tp) (\<lambda>chunk.
       if chunk = [] then io_return False
       else io_bind (on_controller (ingest_chunk np now chunk)) (\<lambda>_. io_return True))))"

text \<open>
  \<^verbatim>\<open>run\<close>: \<open>turns\<close> lists, for each pass, whether \<^verbatim>\<open>stop_event\<close> is set and the clock; \<open>None\<close> means that
  the loop is still running when the list ends. The transport is closed however the loop ends; an
  exception of the close replaces the outcome of the loop.
\<close>

fun run_loop ::
  "numpy \<Rightarrow> 't transport \<Rightarrow> int option \<Rightarrow> nat \<Rightarrow> (bool \<times> float64) list \<Rightarrow> controller \<times> 't \<Rightarrow>
     (unit res \<times> controller \<times> 't) option" where
  "run_loop np tp idle_limit empty_read_count [] ct = None"
| "run_loop np tp idle_limit empty_read_count ((stop_set, now) # turns) ct =
     (if stop_set then Some (Inr (), ct)
      else case run_turn np tp now ct of
        (Inl e, ct') \<Rightarrow> Some (Inl e, ct')
      | (Inr True, ct') \<Rightarrow> run_loop np tp idle_limit 0 turns ct'
      | (Inr False, ct') \<Rightarrow>
          (case idle_limit of
             Some n \<Rightarrow> if n \<le> int (empty_read_count + 1) then Some (Inr (), ct')
                       else run_loop np tp idle_limit (empty_read_count + 1) turns ct'
           | None \<Rightarrow> run_loop np tp idle_limit (empty_read_count + 1) turns ct'))"

definition close_after :: "'t transport \<Rightarrow> unit res \<times> controller \<times> 't \<Rightarrow> unit res \<times> controller \<times> 't" where
  "close_after tp rct =
     (case rct of (r, c, t) \<Rightarrow>
        case tp_close tp t of (Inl e, t') \<Rightarrow> (Inl e, c, t') | (Inr _, t') \<Rightarrow> (r, c, t'))"

definition run ::
  "numpy \<Rightarrow> 't transport \<Rightarrow> int option \<Rightarrow> (bool \<times> float64) list \<Rightarrow> controller \<times> 't \<Rightarrow>
     (unit res \<times> controller \<times> 't) option" where
  "run np tp idle_limit turns ct =
     (case idle_limit of
        Some n \<Rightarrow> if n \<le> 0 then Some (Inl (ValueError ''idle_limit must be positive when provided''), ct)
                  else map_option (close_after tp) (run_loop np tp idle_limit 0 turns ct)
      | None \<Rightarrow> map_option (close_after tp) (run_loop np tp idle_limit 0 turns ct))"

section \<open>Routing of frames\<close>

definition live_raw :: "frame list \<Rightarrow> bytes list" where
  "live_raw fs = map fr_raw_bytes (filter (\<lambda>f. \<not> archive_export f) fs)"

definition archive_raw :: "frame list \<Rightarrow> bytes list" where
  "archive_raw fs = map fr_raw_bytes (filter archive_export fs)"

lemma raw_simps [simp]:
  "live_raw [] = []" "archive_raw [] = []"
  "live_raw (f # fs) = (if archive_export f then live_raw fs else fr_raw_bytes f # live_raw fs)"
  "archive_raw (f # fs) = (if archive_export f then fr_raw_bytes f # archive_raw fs else archive_raw fs)"
  "live_raw (fs @ gs) = live_raw fs @ live_raw gs"
  by (simp_all add: live_raw_def archive_raw_def)

text \<open>The fields that none of the pieces of the frame handler touches.\<close>

lemma observe_identity_keeps:
  assumes "observe_identity u c = (r, c')"
  shows "ac_recorder c' = ac_recorder c \<and> ac_archive_recorder c' = ac_archive_recorder c \<and>
    ac_defer_recording c' = ac_defer_recording c \<and> ac_deferred_frames c' = ac_deferred_frames c \<and>
    ac_deferred_bytes c' = ac_deferred_bytes c \<and> ac_commands c' = ac_commands c"
  using assms by (auto simp: observe_identity_def split: option.splits if_splits)

lemma handle_cli_keeps:
  assumes "handle_cli s c = (r, c')"
  shows "ac_recorder c' = ac_recorder c \<and> ac_archive_recorder c' = ac_archive_recorder c \<and>
    ac_defer_recording c' = ac_defer_recording c \<and> ac_deferred_frames c' = ac_deferred_frames c \<and>
    ac_deferred_bytes c' = ac_deferred_bytes c \<and> ac_commands c' = ac_commands c"
  using assms
  by (auto simp: handle_cli_def Let_def split: sum.splits exn.splits cs_value.splits prod.splits
      dest!: observe_identity_keeps)

lemma dispatch_keeps:
  assumes "dispatch_frame np now f c = (r, c')"
  shows "ac_recorder c' = ac_recorder c \<and> ac_archive_recorder c' = ac_archive_recorder c \<and>
    ac_defer_recording c' = ac_defer_recording c \<and> ac_deferred_frames c' = ac_deferred_frames c \<and>
    ac_deferred_bytes c' = ac_deferred_bytes c \<and> ac_commands c' = ac_commands c"
  using assms
  by (auto simp: dispatch_frame_def split: message_type.splits option.splits dest!: handle_cli_keeps)

lemma handle_frame_archive:
  assumes "handle_frame np now f c = (Inr (), c')" and "archive_export f"
  shows "ac_recorder c' = ac_recorder c \<and>
    (case ac_archive_recorder c of
       None \<Rightarrow> ac_archive_recorder c' = None
     | Some r \<Rightarrow> \<exists>r'. ac_archive_recorder c' = Some r' \<and> rec_sink.submits [fr_raw_bytes f] r r')"
proof -
  obtain c1 where o: "ac_recorder c1 = ac_recorder c" "ac_archive_recorder c1 = ac_archive_recorder c"
    and h: "handle_archive f c1 = (Inr (), c')"
    using assms
    by (fastforce simp: handle_frame_def io_bind_Inr_iff io_return_def split: option.splits
        dest: observe_identity_keeps)
  show ?thesis
    using h o by (auto simp: handle_archive_def split: option.splits prod.splits sum.splits)
qed

lemma handle_frame_live:
  assumes "handle_frame np now f c = (Inr (), c')" and "\<not> archive_export f"
  shows "ac_archive_recorder c' = ac_archive_recorder c \<and>
    (case ac_recorder c of
       None \<Rightarrow> ac_recorder c' = None
     | Some r \<Rightarrow> \<exists>r'. ac_recorder c' = Some r' \<and> rec_sink.submits [fr_raw_bytes f] r r')"
proof -
  obtain c1 c2 where o: "ac_recorder c1 = ac_recorder c" "ac_archive_recorder c1 = ac_archive_recorder c"
    and h: "record_frame f c1 = (Inr (), c2)" and d: "dispatch_frame np now f c2 = (Inr (), c')"
    using assms
    by (fastforce simp: handle_frame_def io_bind_Inr_iff io_return_def split: option.splits
        dest: observe_identity_keeps)
  show ?thesis
    using h o dispatch_keeps [OF d]
    by (auto simp: record_frame_def Let_def split: option.splits prod.splits sum.splits if_splits)
qed

text \<open>Both recorders of a controller, as far as they are set, are offered their own frames only.\<close>

lemma handle_frames_route:
  assumes "handle_frames np now fs c = (Inr (), c')"
  shows "(case ac_recorder c of None \<Rightarrow> ac_recorder c' = None
      | Some r \<Rightarrow> \<exists>r'. ac_recorder c' = Some r' \<and> rec_sink.submits (live_raw fs) r r') \<and>
    (case ac_archive_recorder c of None \<Rightarrow> ac_archive_recorder c' = None
      | Some r \<Rightarrow> \<exists>r'. ac_archive_recorder c' = Some r' \<and> rec_sink.submits (archive_raw fs) r r')"
  using assms
proof (induction fs arbitrary: c)
  case Nil
  then show ?case by (simp add: io_return_def split: option.splits)
next
  case (Cons f fs)
  obtain c1 where h: "handle_frame np now f c = (Inr (), c1)" and t: "handle_frames np now fs c1 = (Inr (), c')"
    using Cons.prems by (auto simp: io_bind_Inr_iff)
  show ?case
  proof (cases "archive_export f")
    case True
    show ?thesis using handle_frame_archive [OF h True] Cons.IH [OF t] True by (auto split: option.splits)
  next
    case False
    show ?thesis using handle_frame_live [OF h False] Cons.IH [OF t] False by (auto split: option.splits)
  qed
qed

section \<open>Deferred recording\<close>

lemma handle_frame_deferred:
  assumes "handle_frame np now f c = (Inr (), c')" and "ac_recorder c = None" and "ac_defer_recording c"
    and "ac_deferred_bytes c + length (concat (live_raw [f])) \<le> DEFERRED_RECORDING_CAPACITY_BYTES"
  shows "ac_recorder c' = None \<and> ac_defer_recording c' \<and>
    ac_deferred_frames c' = ac_deferred_frames c @ live_raw [f] \<and>
    ac_deferred_bytes c' = ac_deferred_bytes c + length (concat (live_raw [f]))"
proof -
  obtain c1 where o: "ac_recorder c1 = None" "ac_defer_recording c1"
      "ac_deferred_frames c1 = ac_deferred_frames c" "ac_deferred_bytes c1 = ac_deferred_bytes c"
    and h: "(if archive_export f then handle_archive f
        else io_bind (record_frame f) (\<lambda>_. dispatch_frame np now f)) c1 = (Inr (), c')"
    using assms(1-3)
    by (fastforce simp: handle_frame_def io_bind_Inr_iff io_return_def split: option.splits
        dest: observe_identity_keeps)
  show ?thesis
  proof (cases "archive_export f")
    case True
    then show ?thesis using h o
      by (auto simp: handle_archive_def split: option.splits prod.splits sum.splits)
  next
    case False
    then obtain c2 where r: "record_frame f c1 = (Inr (), c2)" and d: "dispatch_frame np now f c2 = (Inr (), c')"
      using h by (auto simp: io_bind_Inr_iff)
    show ?thesis using r dispatch_keeps [OF d] assms(4) False o by (auto simp: record_frame_def Let_def)
  qed
qed

lemma handle_frames_deferred:
  assumes "handle_frames np now fs c = (Inr (), c')" and "ac_recorder c = None" and "ac_defer_recording c"
    and "ac_deferred_bytes c + length (concat (live_raw fs)) \<le> DEFERRED_RECORDING_CAPACITY_BYTES"
  shows "ac_deferred_frames c' = ac_deferred_frames c @ live_raw fs"
  using assms
proof (induction fs arbitrary: c)
  case Nil
  then show ?case by (simp add: io_return_def)
next
  case (Cons f fs)
  obtain c1 where h: "handle_frame np now f c = (Inr (), c1)" and t: "handle_frames np now fs c1 = (Inr (), c')"
    using Cons.prems by (auto simp: io_bind_Inr_iff)
  have l: "length (concat (live_raw (f # fs))) = length (concat (live_raw [f])) + length (concat (live_raw fs))"
    by simp
  have d: "ac_recorder c1 = None \<and> ac_defer_recording c1 \<and>
    ac_deferred_frames c1 = ac_deferred_frames c @ live_raw [f] \<and>
    ac_deferred_bytes c1 = ac_deferred_bytes c + length (concat (live_raw [f]))"
    using handle_frame_deferred [OF h Cons.prems(2,3)] Cons.prems(4) l by linarith
  have "ac_deferred_frames c' = ac_deferred_frames c1 @ live_raw fs"
    using Cons.IH [OF t] d Cons.prems(4) l by (metis add.assoc)
  then show ?case using d by simp
qed

lemma submit_deferred_submits:
  "submit_deferred fs r err = (Inr (), r', err') \<Longrightarrow> rc_failure r' = None \<Longrightarrow> rec_sink.submits fs r r'"
proof (induction fs arbitrary: r)
  case (Cons f fs)
  obtain b r1 where s: "submit f r = (Inr b, r1)"
    using Cons.prems(1) by (auto split: prod.splits sum.splits)
  have b: "b" using s Cons.prems rec_sink.refuse_chunk [of f r r1] by (cases b) auto
  then show ?case using Cons.IH [of r1] Cons.prems s by auto
qed simp

lemma set_recorder_Inr:
  assumes "set_recorder (Some r) c = (Inr (), c')"
  shows "\<exists>r'. ac_recorder c' = Some r' \<and>
    (rc_failure r' = None \<longrightarrow> rec_sink.submits (ac_deferred_frames c) r r')"
  using assms submit_deferred_submits
  by (auto simp: set_recorder_def clear_deferred_def split: prod.splits sum.splits)

section \<open>One identity per connection\<close>

text \<open>What a step may do to the identity: establish it once, with one update, or leave it.\<close>

definition identity_step :: "controller \<Rightarrow> controller \<Rightarrow> bool" where
  "identity_step c c' \<longleftrightarrow>
     (case ac_device_uuid c of
        Some u \<Rightarrow> ac_device_uuid c' = Some u \<and> ac_identity_updates c' = ac_identity_updates c
      | None \<Rightarrow> ac_identity_updates c' = ac_identity_updates c @ opt_list (ac_device_uuid c'))"

lemma identity_step_refl:
  "ac_device_uuid c' = ac_device_uuid c \<Longrightarrow> ac_identity_updates c' = ac_identity_updates c \<Longrightarrow> identity_step c c'"
  by (simp add: identity_step_def split: option.splits)

lemma identity_step_trans: "identity_step c c1 \<Longrightarrow> identity_step c1 c2 \<Longrightarrow> identity_step c c2"
  by (auto simp: identity_step_def split: option.splits)

lemma identity_step_keeps: "identity_step c c' \<Longrightarrow> ac_device_uuid c = Some u \<Longrightarrow> ac_device_uuid c' = Some u"
  by (simp add: identity_step_def)

lemma observe_identity_step:
  assumes "observe_identity u c = (r, c')"
  shows "identity_step c c' \<and> (r = Inr () \<longrightarrow> ac_device_uuid c' = Some u)"
  using assms by (auto simp: observe_identity_def identity_step_def split: option.splits if_splits)

lemma handle_cli_step: "handle_cli s c = (r, c') \<Longrightarrow> identity_step c c'"
  by (auto simp: handle_cli_def Let_def identity_step_def
      split: sum.splits exn.splits cs_value.splits prod.splits option.splits
      dest!: observe_identity_step)

lemma dispatch_step: "dispatch_frame np now f c = (r, c') \<Longrightarrow> identity_step c c'"
  by (auto simp: dispatch_frame_def split: message_type.splits option.splits
      intro: identity_step_refl handle_cli_step)

lemma handle_archive_step: "handle_archive f c = (r, c') \<Longrightarrow> identity_step c c'"
  by (auto simp: handle_archive_def split: option.splits prod.splits sum.splits intro: identity_step_refl)

lemma record_frame_step: "record_frame f c = (r, c') \<Longrightarrow> identity_step c c'"
  by (auto simp: record_frame_def Let_def split: option.splits prod.splits sum.splits if_splits
      intro: identity_step_refl)

lemma io_bind_identity:
  assumes "io_bind m k c = (r, c')" and "\<And>r c1. m c = (r, c1) \<Longrightarrow> identity_step c c1"
    and "\<And>a c1. m c = (Inr a, c1) \<Longrightarrow> k a c1 = (r, c') \<Longrightarrow> identity_step c1 c'"
  shows "identity_step c c'"
proof (cases "m c")
  case (Pair x c1)
  then show ?thesis
    using assms identity_step_trans by (cases x) (auto simp: io_bind_def)
qed

lemma handle_frame_step:
  assumes "handle_frame np now f c = (r, c')"
  shows "identity_step c c'"
proof -
  let ?obs = "case fr_device_uuid f of None \<Rightarrow> io_return () | Some u \<Rightarrow> observe_identity u"
  have o: "identity_step c c1" if "?obs c = (x, c1)" for x c1
    using that by (auto simp: io_return_def split: option.splits intro: identity_step_refl
        dest: observe_identity_step)
  have t: "identity_step c1 c'"
    if "(if archive_export f then handle_archive f
         else io_bind (record_frame f) (\<lambda>_. dispatch_frame np now f)) c1 = (r, c')" for c1
  proof (cases "archive_export f")
    case True
    then show ?thesis using that handle_archive_step by simp
  next
    case False
    then have "io_bind (record_frame f) (\<lambda>_. dispatch_frame np now f) c1 = (r, c')" using that by simp
    then show ?thesis by (rule io_bind_identity) (erule record_frame_step dispatch_step)+
  qed
  show ?thesis using assms unfolding handle_frame_def by (rule io_bind_identity) (use o t in blast)+
qed

lemma handle_frame_identity:
  assumes "handle_frame np now f c = (Inr (), c')" and "fr_device_uuid f = Some u"
  shows "ac_device_uuid c' = Some u"
proof -
  obtain c1 where o: "observe_identity u c = (Inr (), c1)"
    and t: "(if archive_export f then handle_archive f
         else io_bind (record_frame f) (\<lambda>_. dispatch_frame np now f)) c1 = (Inr (), c')"
    using assms by (auto simp: handle_frame_def io_bind_Inr_iff)
  have "identity_step c1 c'"
    using t by (auto simp: io_bind_Inr_iff split: if_splits
        intro: handle_archive_step identity_step_trans [OF record_frame_step dispatch_step])
  then show ?thesis using observe_identity_step [OF o] identity_step_keeps by blast
qed

lemma handle_frames_step: "handle_frames np now fs c = (r, c') \<Longrightarrow> identity_step c c'"
proof (induction fs arbitrary: c)
  case Nil
  then show ?case by (auto simp: io_return_def intro: identity_step_refl)
next
  case (Cons f fs)
  then show ?case
    using io_bind_identity [of "handle_frame np now f"] handle_frame_step by simp blast
qed

lemma handle_frames_identity:
  assumes "handle_frames np now fs c = (Inr (), c')"
  shows "list_all (\<lambda>f. fr_device_uuid f = None \<or> fr_device_uuid f = ac_device_uuid c') fs"
  using assms
proof (induction fs arbitrary: c)
  case (Cons f fs)
  obtain c1 where h: "handle_frame np now f c = (Inr (), c1)" and t: "handle_frames np now fs c1 = (Inr (), c')"
    using Cons.prems by (auto simp: io_bind_Inr_iff)
  have "fr_device_uuid f = Some u \<Longrightarrow> ac_device_uuid c' = Some u" for u
    using handle_frame_identity [OF h] identity_step_keeps [OF handle_frames_step [OF t]] by blast
  then show ?case using Cons.IH [OF t] by (cases "fr_device_uuid f") auto
qed simp

section \<open>All threads\<close>

text \<open>What the transports require of a control line.\<close>

definition command_ok :: "bytes \<Rightarrow> bool" where
  "command_ok b \<longleftrightarrow> b \<noteq> [] \<and> length b \<le> 94 \<and> list_all (\<lambda>x. x \<noteq> 0 \<and> unat x < 128) b \<and> last b \<notin> {10, 13}"

text \<open>
  One step of a connection: a call of a method by the GUI or the upload thread, a step of a
  recorder's writer, or a turn of the worker. The state carries the identities drained so far.
\<close>

inductive ac_step ::
  "numpy \<Rightarrow> 't transport \<Rightarrow> controller \<times> 't \<times> nat list \<Rightarrow> controller \<times> 't \<times> nat list \<Rightarrow> bool"
  for np tp where
  command: "enqueue_command s c = (r, c') \<Longrightarrow> ac_step np tp (c, t, h) (c', t, h)"
| attach: "set_recorder x c = (r, c') \<Longrightarrow> ac_step np tp (c, t, h) (c', t, h)"
| deferral: "ac_step np tp (c, t, h) (defer_recording_until_identity c, t, h)"
| cancel: "ac_step np tp (c, t, h) (cancel_deferred_recording c, t, h)"
| attach_archive: "ac_step np tp (c, t, h) (set_archive_recorder x c, t, h)"
| drain_identity: "drain_identity_updates c = (us, c') \<Longrightarrow> ac_step np tp (c, t, h) (c', t, h @ us)"
| drain_cli: "drain_cli_responses c = (ls, c') \<Longrightarrow> ac_step np tp (c, t, h) (c', t, h)"
| ota_start: "ac_step np tp (c, t, h) (start_ota c, t, h)"
| ota_end: "ac_step np tp (c, t, h) (end_ota c, t, h)"
| ota_send: "ac_step np tp (c, t, h) (send_ota_frame b c, t, h)"
| ota_reply: "next_ota_reply c = (l, c') \<Longrightarrow> ac_step np tp (c, t, h) (c', t, h)"
| recorder_writes: "\<lbrakk>ac_recorder c = Some r; writer_step io r = Some r'\<rbrakk> \<Longrightarrow>
    ac_step np tp (c, t, h) (c\<lparr>ac_recorder := Some r'\<rparr>, t, h)"
| turn: "run_turn np tp now (c, t) = (r, c', t') \<Longrightarrow> ac_step np tp (c, t, h) (c', t', h)"

inductive ac_reach ::
  "numpy \<Rightarrow> 't transport \<Rightarrow> controller \<times> 't \<times> nat list \<Rightarrow> controller \<times> 't \<times> nat list \<Rightarrow> bool"
  for np tp where
  refl: "ac_reach np tp x x"
| step: "ac_reach np tp x y \<Longrightarrow> ac_step np tp y z \<Longrightarrow> ac_reach np tp x z"

definition deferred_ok :: "controller \<Rightarrow> bool" where
  "deferred_ok c \<longleftrightarrow> ac_deferred_bytes c = length (concat (ac_deferred_frames c)) \<and>
     ac_deferred_bytes c \<le> DEFERRED_RECORDING_CAPACITY_BYTES"

definition ac_inv :: "controller \<Rightarrow> nat list \<Rightarrow> bool" where
  "ac_inv c h \<longleftrightarrow> list_all command_ok (ac_commands c) \<and> deferred_ok c \<and>
     h @ ac_identity_updates c = opt_list (ac_device_uuid c)"

lemma str_strip_last: "str_strip s \<noteq> [] \<Longrightarrow> \<not> is_space (last (str_strip s))"
  using hd_dropWhile [of is_space "rev (dropWhile is_space s)"]
  by (simp add: str_strip_def strip_by_def last_rev)

lemma ascii_command_ok:
  assumes "list_all (\<lambda>x. x < 128) s" and "ascii_encode s \<noteq> []" and "length (ascii_encode s) \<le> 94"
    and "0 \<notin> set (ascii_encode s)" and "\<not> is_space (last s)"
  shows "command_ok (ascii_encode s)"
proof -
  have u: "unat (of_nat x :: byte) = x" if "x < 128" for x :: nat
    using that by (simp add: unat_of_nat)
  have "s \<noteq> []" using assms(2) by (auto simp: ascii_encode_def)
  then have l: "last s < 128" "last s \<noteq> 10" "last s \<noteq> 13"
    using assms(1,5) by (auto simp: list_all_iff is_space_def)
  then have "unat (of_nat (last s) :: byte) \<noteq> unat (10 :: byte)" "unat (of_nat (last s) :: byte) \<noteq> unat (13 :: byte)"
    by (simp_all add: u)
  then have "last (ascii_encode s) \<notin> {10, 13}"
    using \<open>s \<noteq> []\<close> by (auto simp: ascii_encode_def last_map)
  then show ?thesis
    using assms u by (auto simp: command_ok_def list_all_iff ascii_encode_def)
qed

lemma enqueue_inv: "enqueue_command s c = (r, c') \<Longrightarrow> ac_inv c h \<Longrightarrow> ac_inv c' h"
  by (auto simp: enqueue_command_def Let_def ac_inv_def deferred_ok_def const_simps
      split: if_splits intro!: ascii_command_ok str_strip_last) (auto simp: ascii_encode_def)

lemma set_recorder_inv: "set_recorder x c = (r, c') \<Longrightarrow> ac_inv c h \<Longrightarrow> ac_inv c' h"
  by (auto simp: set_recorder_def clear_deferred_def ac_inv_def deferred_ok_def
      split: option.splits prod.splits sum.splits)

lemma write_all_rest: "write_all write xs t = (r, rest, t') \<Longrightarrow> set rest \<subseteq> set xs"
  by (induction xs arbitrary: t) (fastforce split: prod.splits sum.splits)+

text \<open>The identity part of the invariant follows the history of updates.\<close>

lemma identity_step_inv:
  "identity_step c c' \<Longrightarrow> h @ ac_identity_updates c = opt_list (ac_device_uuid c) \<Longrightarrow>
     h @ ac_identity_updates c' = opt_list (ac_device_uuid c')"
  by (auto simp: identity_step_def split: option.splits)

lemma handle_frame_deferred_ok:
  assumes "handle_frame np now f c = (r, c')"
  shows "ac_commands c' = ac_commands c \<and> (deferred_ok c \<longrightarrow> deferred_ok c')"
proof -
  let ?P = "\<lambda>c c'. ac_commands c' = ac_commands c \<and> (deferred_ok c \<longrightarrow> deferred_ok c')"
  have o: "?P c c'" if "observe_identity u c = (r, c')" for u c r c'
    using observe_identity_keeps [OF that] by (simp add: deferred_ok_def)
  have a: "?P c c'" if "handle_archive f c = (r, c')" for c r c'
    using that by (auto simp: handle_archive_def deferred_ok_def split: option.splits prod.splits sum.splits)
  have d: "?P c c'" if "dispatch_frame np now f c = (r, c')" for c r c'
    using dispatch_keeps [OF that] by (simp add: deferred_ok_def)
  have e: "?P c c'" if "record_frame f c = (r, c')" for c r c'
    using that by (auto simp: record_frame_def deferred_ok_def Let_def
        split: option.splits prod.splits sum.splits if_splits)
  show ?thesis
    using assms a d e o
    by (fastforce simp: handle_frame_def io_bind_def io_return_def
        split: option.splits prod.splits sum.splits if_splits)
qed

lemma handle_frames_deferred_ok:
  "handle_frames np now fs c = (r, c') \<Longrightarrow> ac_commands c' = ac_commands c \<and> (deferred_ok c \<longrightarrow> deferred_ok c')"
proof (induction fs arbitrary: c)
  case (Cons f fs)
  obtain x c1 where h: "handle_frame np now f c = (x, c1)" by fastforce
  show ?case
    using Cons.IH [of c1] Cons.prems handle_frame_deferred_ok [OF h] h
    by (cases x) (auto simp: io_bind_def)
qed (auto simp: io_return_def)

lemma parse_chunk_keeps:
  assumes "parse_chunk np chunk c = (fs, c')"
  shows "ac_commands c' = ac_commands c \<and> ac_deferred_frames c' = ac_deferred_frames c \<and>
    ac_deferred_bytes c' = ac_deferred_bytes c \<and> ac_identity_updates c' = ac_identity_updates c \<and>
    ac_device_uuid c' = ac_device_uuid c"
  using assms by (auto simp: parse_chunk_def Let_def split: if_splits prod.splits)

lemma ingest_inv:
  assumes "ingest_chunk np now chunk c = (r, c')" and "ac_inv c h"
  shows "ac_inv c' h"
proof -
  define c0 where "c0 = c\<lparr>ac_bytes_received := ac_bytes_received c + length chunk\<rparr>"
  obtain fs c1 where p: "parse_chunk np chunk c0 = (fs, c1)" by fastforce
  define c2 where "c2 = c1\<lparr>ac_frames_received := ac_frames_received c1 + length fs\<rparr>"
  obtain x c3 where f: "handle_frames np now fs c2 = (x, c3)" by fastforce
  have k: "ac_commands c' = ac_commands c3 \<and> ac_deferred_frames c' = ac_deferred_frames c3 \<and>
    ac_deferred_bytes c' = ac_deferred_bytes c3 \<and> ac_identity_updates c' = ac_identity_updates c3 \<and>
    ac_device_uuid c' = ac_device_uuid c3"
    using assms(1) p f by (cases x) (auto simp: ingest_chunk_def Let_def c0_def c2_def)
  have "ac_inv c2 h" using parse_chunk_keeps [OF p] assms(2) by (simp add: ac_inv_def deferred_ok_def c0_def c2_def)
  then have "ac_inv c3 h"
    using handle_frames_deferred_ok [OF f] identity_step_inv [OF handle_frames_step [OF f]]
    by (simp add: ac_inv_def)
  then show ?thesis using k by (simp add: ac_inv_def deferred_ok_def)
qed

lemma send_commands_inv:
  "send_pending_commands tp (c, t) = (r, c', t') \<Longrightarrow> ac_inv c h \<Longrightarrow> ac_inv c' h"
  by (auto simp: send_pending_commands_def ac_inv_def deferred_ok_def list_all_iff
      split: prod.splits dest!: write_all_rest)

lemma send_ota_inv:
  "send_pending_ota_frames tp (c, t) = (r, c', t') \<Longrightarrow> ac_inv c h \<Longrightarrow> ac_inv c' h"
  by (auto simp: send_pending_ota_frames_def ac_inv_def deferred_ok_def split: prod.splits)

lemma run_turn_inv:
  assumes "run_turn np tp now (c, t) = (r, c', t')" and "ac_inv c h"
  shows "ac_inv c' h"
  using assms
  by (auto simp: run_turn_def io_bind_def read_chunk_def on_controller_def io_return_def
      split: prod.splits sum.splits if_splits
      dest: send_commands_inv send_ota_inv ingest_inv)

lemma ac_step_inv: "ac_step np tp (c, t, h) (c', t', h') \<Longrightarrow> ac_inv c h \<Longrightarrow> ac_inv c' h'"
proof (induction "(c, t, h)" "(c', t', h')" rule: ac_step.induct)
  case turn
  then show ?case by (auto dest: run_turn_inv)
next
  case command
  then show ?case using enqueue_inv by blast
next
  case attach
  then show ?case using set_recorder_inv by blast
next
  case drain_identity
  then show ?case by (auto simp: drain_identity_updates_def ac_inv_def deferred_ok_def)
next
  case ota_reply
  then show ?case by (auto simp: next_ota_reply_def ac_inv_def deferred_ok_def split: list.splits)
next
  case drain_cli
  then show ?case by (auto simp: drain_cli_responses_def ac_inv_def deferred_ok_def)
qed (auto simp: ac_inv_def deferred_ok_def defer_recording_until_identity_def
    cancel_deferred_recording_def clear_deferred_def set_archive_recorder_def start_ota_def
    end_ota_def send_ota_frame_def)

lemma ac_reach_inv:
  "ac_reach np tp x y \<Longrightarrow> (case x of (c, t, h) \<Rightarrow> ac_inv c h) \<Longrightarrow> (case y of (c, t, h) \<Rightarrow> ac_inv c h)"
proof (induction rule: ac_reach.induct)
  case (step x y z)
  then show ?case by (auto split: prod.splits dest: ac_step_inv)
qed

lemma init_inv: "ac_inv (AcquisitionController_init store recorder) []"
  by (simp add: ac_inv_def deferred_ok_def AcquisitionController_init_def const_simps)

section \<open>Chunk boundaries\<close>

text \<open>The demultiplexer the next chunk of an OTA session meets.\<close>

definition armed_demux :: "controller \<Rightarrow> demux" where
  "armed_demux c = (if ac_ota_reset_pending c then demux_reset (ac_ota_demux c) else ac_ota_demux c)"

lemma parse_chunk_ota:
  assumes "ac_ota_active c" and "demux_feed (armed_demux c) chunk = ((ls, out), d)"
  shows "parse_chunk np chunk c =
    (let c1 = c\<lparr>ac_ota_demux := d, ac_ota_reset_pending := False,
                ac_ota_replies := (if ac_ota_reset_pending c then [] else ac_ota_replies c) @ ls\<rparr>
     in if out = [] then ([], c1)
        else (fst (feed np (ac_parser c) out), c1\<lparr>ac_parser := snd (feed np (ac_parser c) out)\<rparr>))"
  using assms
  by (cases c; cases "ac_ota_reset_pending c")
    (simp_all add: parse_chunk_def armed_demux_def Let_def case_prod_beta)

lemma parse_chunk_plain:
  assumes "\<not> ac_ota_active c"
  shows "parse_chunk np chunk c =
    (fst (feed np (ac_parser c) (dm_pending (ac_ota_demux c) @ chunk)),
     c\<lparr>ac_ota_demux := demux_reset (ac_ota_demux c),
       ac_parser := snd (feed np (ac_parser c) (dm_pending (ac_ota_demux c) @ chunk))\<rparr>)"
proof -
  have "dm_pending d = [] \<Longrightarrow> demux_reset d = d" for d by (simp add: demux_reset_def)
  then show ?thesis
    using assms
    by (auto simp: parse_chunk_def demux_buffered_bytes_def demux_flush_def demux_reset_def Let_def
        split: prod.splits)
qed

lemma parse_chunk_append_plain:
  assumes "\<not> ac_ota_active c" and "parse_chunk np a c = (fs, c1)" and "parse_chunk np b c1 = (gs, c2)"
  shows "parse_chunk np (a @ b) c = (fs @ gs, c2)"
proof -
  have c1: "c1 = c\<lparr>ac_ota_demux := demux_reset (ac_ota_demux c),
       ac_parser := snd (feed np (ac_parser c) (dm_pending (ac_ota_demux c) @ a))\<rparr>"
    and fs: "fs = fst (feed np (ac_parser c) (dm_pending (ac_ota_demux c) @ a))"
    using assms(1,2) by (simp_all add: parse_chunk_plain)
  have "\<not> ac_ota_active c1" using assms(1) by (simp add: c1)
  then show ?thesis
    using assms(1,3) feed_append_parts [of np "ac_parser c" "dm_pending (ac_ota_demux c) @ a" b]
    by (simp add: parse_chunk_plain c1 fs demux_reset_def)
qed

lemma parse_chunk_append_ota:
  assumes "ac_ota_active c" and "\<not> releases (armed_demux c) a"
    and "parse_chunk np a c = (fs, c1)" and "parse_chunk np b c1 = (gs, c2)"
  shows "parse_chunk np (a @ b) c = (fs @ gs, c2)"
proof -
  obtain ls out d1 where d1: "demux_feed (armed_demux c) a = ((ls, out), d1)" by (metis prod.collapse)
  have active: "ac_ota_active c1" and "armed_demux c1 = d1"
    using assms(1,3) d1 by (auto simp: parse_chunk_ota Let_def armed_demux_def split: if_splits)
  then obtain ms out' d2 where d2: "demux_feed d1 b = ((ms, out'), d2)" and arm: "armed_demux c1 = d1"
    by (metis prod.collapse)
  have j: "demux_feed (armed_demux c) (a @ b) = ((ls @ ms, out @ out'), d2)"
    by (rule demux_feed_append [OF assms(2) d1 d2])
  note all = assms(3,4) [unfolded parse_chunk_ota [OF assms(1) d1] parse_chunk_ota [OF active d2 [folded arm]]]
  show ?thesis
  proof (cases "out = [] \<or> out' = []")
    case True
    then show ?thesis
      using all unfolding parse_chunk_ota [OF assms(1) j] by (auto simp: Let_def split: if_splits)
  next
    case False
    then show ?thesis
      using all unfolding parse_chunk_ota [OF assms(1) j]
      by (auto simp: Let_def feed_append_parts split: if_splits)
  qed
qed

section \<open>Properties\<close>

text \<open>
  C5. In every state that calls of the methods, steps of the recorder's writer and turns of the worker
  can reach from a new controller, with every transport and in every order: the queued commands
  are lines the transports accept (1 to 94 ASCII bytes, no NUL, no line end at the end); the deferred frames are counted
  exactly and fit 4 MiB; and the identities published so far are the one the connection has, so a
  connection announces at most one device.
\<close>

theorem controller_invariant:
  assumes "ac_reach np tp (AcquisitionController_init store recorder, t0, []) (c, t, drained)"
  shows "list_all command_ok (ac_commands c) \<and>
    ac_deferred_bytes c = length (concat (ac_deferred_frames c)) \<and> ac_deferred_bytes c \<le> 4194304 \<and>
    drained @ ac_identity_updates c = opt_list (ac_device_uuid c)"
  using ac_reach_inv [OF assms] init_inv [of store recorder]
  by (simp add: ac_inv_def deferred_ok_def const_simps)

definition sample_store0 :: sample_store where
  "sample_store0 = \<lparr>ss_retention_us = 1000000, ss_chunks = [], ss_latest_orientation = None,
     ss_orientation_received_s = None, ss_firmware_status = None, ss_firmware_control_state = None,
     ss_parser_stats = empty_stats\<rparr>"

definition sample_transport :: "bytes list transport" where
  "sample_transport = \<lparr>tp_read = (\<lambda>n t bs. case bs of [] \<Rightarrow> (Inr [], []) | b # bs' \<Rightarrow> (Inr b, bs')),
     tp_write_control = (\<lambda>b bs. (Inr (), bs)), tp_write_raw = (\<lambda>b bs. (Inr (), bs)), tp_close = (\<lambda>bs. (Inr (), []))\<rparr>"

theorem controller_invariant_witness:
  "list_all command_ok (ac_commands (snd (request_uuid (AcquisitionController_init sample_store0 None))))"
proof -
  have "ac_step np_ref sample_transport (AcquisitionController_init sample_store0 None, [], [])
      (snd (request_uuid (AcquisitionController_init sample_store0 None)), [], [])"
    unfolding request_uuid_def by (rule ac_step.command, rule surjective_pairing)
  then have "ac_reach np_ref sample_transport (AcquisitionController_init sample_store0 None, [], [])
      (snd (request_uuid (AcquisitionController_init sample_store0 None)), [], [])"
    using ac_reach.intros by blast
  from controller_invariant [OF this] show ?thesis by simp
qed

text \<open>
  C9. Routing: a run of frames handled without an exception puts the raw bytes of the live frames, all
  of them and in order, into the session recorder, and those of the archive frames into the
  archive recorder, as long as the recorders report no failure.
\<close>

theorem frames_reach_their_recorder:
  assumes "handle_frames np now fs c = (Inr (), c')"
    and "ac_recorder c = Some r" and "ac_recorder c' = Some r'" and "rc_failure r' = None"
    and "ac_archive_recorder c = Some a" and "ac_archive_recorder c' = Some a'" and "rc_failure a' = None"
  shows "recorded r' = recorded r @ concat (live_raw fs) \<and> recorded a' = recorded a @ concat (archive_raw fs)"
  using handle_frames_route [OF assms(1)] assms(2-) rec_sink.submits_taken [of "live_raw fs" r r']
    rec_sink.submits_taken [of "archive_raw fs" a a'] by simp

definition sample_frame_of :: "nat \<Rightarrow> bytes \<Rightarrow> frame" where
  "sample_frame_of flags raw = \<lparr>fr_message_type = CLI_RESPONSE, fr_flags = flags, fr_sequence = 0,
     fr_timestamp_us = 0, fr_item_count = 1, fr_payload = [], fr_raw_bytes = raw,
     fr_device_uuid = Some 7, fr_iis_ts_us = None, fr_iis_accel_g = None, fr_iis_raw = None,
     fr_jy61pl = None, fr_status = None, fr_cli_text = None\<rparr>"

lemmas frame_eval = handle_frame_def handle_archive_def record_frame_def dispatch_frame_def
  observe_identity_def archive_export_def sample_frame_of_def io_bind_def io_return_def submit_def
  submit_reserve_def queue_put_def sample_recorder_def AcquisitionController_init_def Let_def
  set_recorder_def clear_deferred_def

definition sample_both :: controller where
  "sample_both = (AcquisitionController_init sample_store0 (Some sample_recorder))
     \<lparr>ac_archive_recorder := Some sample_recorder\<rparr>"

theorem frames_reach_their_recorder_witness:
  "recorded (sample_recorder\<lparr>rc_queued_bytes := 1, rc_queue := [Some [1]]\<rparr>) = [1]"
proof -
  let ?c' = "sample_both\<lparr>ac_device_uuid := Some 7, ac_identity_updates := [7],
      ac_recorder := Some (sample_recorder\<lparr>rc_queued_bytes := 1, rc_queue := [Some [1]]\<rparr>),
      ac_archive_recorder := Some (sample_recorder\<lparr>rc_queued_bytes := 2, rc_queue := [Some [2, 2]]\<rparr>)\<rparr>"
  have "handle_frames np_ref 0 [sample_frame_of 0 [1], sample_frame_of 0x8000 [2, 2]] sample_both =
      (Inr (), ?c')"
    by (simp add: frame_eval sample_both_def)
  from frames_reach_their_recorder [OF this, of sample_recorder _ sample_recorder]
  show ?thesis
    by (simp add: sample_both_def AcquisitionController_init_def sample_recorder_def recorded_def
        archive_export_def sample_frame_of_def)
qed

text \<open>
  C19. Recording that starts before the device is known loses nothing: the live frames handled while
  recording is deferred, up to 4 MiB, and those handled after the recorder is attached are all in
  the recording, in the order of the stream.
\<close>

theorem deferred_frames_recorded:
  assumes "ac_recorder c = None" and "ac_defer_recording c" and "ac_deferred_frames c = []"
    and "ac_deferred_bytes c = 0" and "length (concat (live_raw fs)) \<le> 4194304"
    and "handle_frames np now fs c = (Inr (), c1)" and "set_recorder (Some r) c1 = (Inr (), c2)"
    and "handle_frames np now' gs c2 = (Inr (), c3)" and "ac_recorder c3 = Some r'"
    and "rc_failure r' = None"
  shows "recorded r' = recorded r @ concat (live_raw (fs @ gs))"
proof -
  have d: "ac_deferred_frames c1 = live_raw fs"
    using handle_frames_deferred [OF assms(6,1,2)] assms(3-5) by (simp add: const_simps)
  obtain r1 where r1: "ac_recorder c2 = Some r1"
      "rc_failure r1 = None \<longrightarrow> rec_sink.submits (live_raw fs) r r1"
    using set_recorder_Inr [OF assms(7)] d by auto
  have s: "rec_sink.submits (live_raw gs) r1 r'"
    using handle_frames_route [OF assms(8)] r1(1) assms(9) by simp
  have "rc_failure r1 = None" using rec_sink.submits_taken [OF s] assms(10) by simp
  then show ?thesis
    using rec_sink.submits_taken [OF rec_sink.submits_append [OF _ s]] r1(2) assms(10) by simp
qed

definition sample_deferring :: controller where
  "sample_deferring = defer_recording_until_identity (AcquisitionController_init sample_store0 None)"

theorem deferred_frames_recorded_witness:
  "recorded (sample_recorder\<lparr>rc_queued_bytes := 3, rc_queue := [Some [1], Some [2, 2]]\<rparr>) = [1, 2, 2]"
proof -
  let ?r = "sample_recorder\<lparr>rc_queued_bytes := 3, rc_queue := [Some [1], Some [2, 2]]\<rparr>"
  let ?r1 = "sample_recorder\<lparr>rc_queued_bytes := 1, rc_queue := [Some [1]]\<rparr>"
  let ?c1 = "sample_deferring\<lparr>ac_device_uuid := Some 7, ac_identity_updates := [7],
      ac_deferred_frames := [[1]], ac_deferred_bytes := 1\<rparr>"
  let ?c2 = "clear_deferred (?c1\<lparr>ac_recorder := Some ?r1\<rparr>)"
  have 1: "handle_frames np_ref 0 [sample_frame_of 0 [1]] sample_deferring = (Inr (), ?c1)"
    by (simp add: frame_eval sample_deferring_def defer_recording_until_identity_def const_simps)
  have 2: "set_recorder (Some sample_recorder) ?c1 = (Inr (), ?c2)"
    by (simp add: frame_eval sample_deferring_def defer_recording_until_identity_def)
  have 3: "handle_frames np_ref 1 [sample_frame_of 0 [2, 2]] ?c2 = (Inr (), ?c2\<lparr>ac_recorder := Some ?r\<rparr>)"
    by (simp add: frame_eval sample_deferring_def defer_recording_until_identity_def)
  show ?thesis
    using deferred_frames_recorded [OF _ _ _ _ _ 1 2 3, of ?r]
    by (simp add: sample_deferring_def defer_recording_until_identity_def AcquisitionController_init_def
        sample_recorder_def recorded_def archive_export_def sample_frame_of_def)
qed

text \<open>
  A connection carries one device: frames are handled without an exception only if all that
  name a device name the same one, which is then the identity of the connection; an identity once
  established never changes, whether or not an exception is raised.
\<close>

theorem frames_share_identity:
  "case handle_frames np now fs c of (r, c') \<Rightarrow>
     (ac_device_uuid c = None \<or> ac_device_uuid c' = ac_device_uuid c) \<and>
     (isl r \<or> list_all (\<lambda>f. fr_device_uuid f = None \<or> fr_device_uuid f = ac_device_uuid c') fs)"
proof -
  obtain r c' where h: "handle_frames np now fs c = (r, c')" by fastforce
  have "ac_device_uuid c = None \<or> ac_device_uuid c' = ac_device_uuid c"
    using handle_frames_step [OF h] by (auto simp: identity_step_def split: option.splits)
  moreover have "isl r \<or> list_all (\<lambda>f. fr_device_uuid f = None \<or> fr_device_uuid f = ac_device_uuid c') fs"
    using handle_frames_identity [of np now fs c c'] h by (cases r) auto
  ultimately show ?thesis by (simp add: h)
qed



end
