(* ===== verification/OtaCodec.thy ===== *)
theory OtaCodec
  imports PyText Checksums
begin

text \<open>
  \<^verbatim>\<open>ota/codec.py\<close> and \<^verbatim>\<open>ota/messages.py\<close>: the upstream OTAF frames with their CRC, the
  parsing of the device's \<^verbatim>\<open>+OTA:\<close> reply lines, and the operator texts of NACK codes and
  phases. Sequence and offset are Python integers: the encoder refuses those that do not fit.
\<close>

section \<open>Data\<close>

definition FRAME_MAGIC :: bytes where "FRAME_MAGIC = blit ''OTAF''"
definition FRAME_VERSION :: nat where [const_simps]: "FRAME_VERSION = 1"
definition FRAME_HEADER_SIZE :: nat where [const_simps]: "FRAME_HEADER_SIZE = 20"
definition FRAME_MAX_PAYLOAD :: nat where [const_simps]: "FRAME_MAX_PAYLOAD = 512"
definition FRAME_CRC_SIZE :: nat where [const_simps]: "FRAME_CRC_SIZE = 4"
definition FRAME_MAX_SIZE :: nat where
  [const_simps]: "FRAME_MAX_SIZE = FRAME_HEADER_SIZE + FRAME_MAX_PAYLOAD + FRAME_CRC_SIZE"
definition BEGIN_PAYLOAD_SIZE :: nat where [const_simps]: "BEGIN_PAYLOAD_SIZE = 80"

datatype frame_type = BEGIN | DATA | COMMIT | CANCEL

fun frame_type_value :: "frame_type \<Rightarrow> nat" where
  "frame_type_value BEGIN = 1"
| "frame_type_value DATA = 2"
| "frame_type_value COMMIT = 3"
| "frame_type_value CANCEL = 4"

text \<open>\<^verbatim>\<open>FrameType(value)\<close>; \<open>None\<close> is the \<^verbatim>\<open>ValueError\<close>.\<close>

definition frame_type_of :: "nat \<Rightarrow> frame_type option" where
  "frame_type_of v =
     (if v = 1 then Some BEGIN else if v = 2 then Some DATA
      else if v = 3 then Some COMMIT else if v = 4 then Some CANCEL else None)"

record upload_frame =
  uf_frame_type :: frame_type
  uf_sequence :: int
  uf_offset :: int
  uf_payload :: bytes

record device_response =
  dr_acknowledged :: bool
  dr_sequence :: int
  dr_next_offset :: int
  dr_code :: "pystr option"
  dr_version :: "pystr option"
  dr_crc :: "int option"

definition staged :: "device_response \<Rightarrow> bool" where
  "staged r \<longleftrightarrow> dr_code r = Some (lit ''STAGED'')"

section \<open>Frames\<close>

text \<open>\<^verbatim>\<open>_HEADER.pack\<close> with format \<^verbatim>\<open><4sBBHIIHH\<close>.\<close>

definition ota_header :: "frame_type \<Rightarrow> nat \<Rightarrow> nat \<Rightarrow> nat \<Rightarrow> bytes" where
  "ota_header t sequence offset len =
     FRAME_MAGIC @ to_le 1 FRAME_VERSION @ to_le 1 (frame_type_value t) @ to_le 2 FRAME_HEADER_SIZE
     @ to_le 4 sequence @ to_le 4 offset @ to_le 2 len @ to_le 2 0"

definition ota_encode_frame :: "upload_frame \<Rightarrow> bytes res" where
  "ota_encode_frame f =
     (if FRAME_MAX_PAYLOAD < length (uf_payload f)
      then Inl (OtaCodecError ''frame payload exceeds 512 bytes'')
      else if uf_frame_type f = BEGIN \<and>
        (uf_sequence f \<noteq> 0 \<or> uf_offset f \<noteq> 0 \<or> length (uf_payload f) \<noteq> BEGIN_PAYLOAD_SIZE)
      then Inl (OtaCodecError ''BEGIN frame fields are invalid'')
      else if uf_frame_type f \<in> {COMMIT, CANCEL} \<and> uf_payload f \<noteq> []
      then Inl (OtaCodecError ''control frame must not contain payload'')
      else if \<not> (0 \<le> uf_sequence f \<and> uf_sequence f \<le> 0xFFFFFFFF)
      then Inl (OtaCodecError ''sequence must fit in 32 bits'')
      else if \<not> (0 \<le> uf_offset f \<and> uf_offset f \<le> 0xFFFFFFFF)
      then Inl (OtaCodecError ''offset must fit in 32 bits'')
      else
        let body = ota_header (uf_frame_type f) (nat (uf_sequence f)) (nat (uf_offset f))
                     (length (uf_payload f)) @ uf_payload f
        in Inr (body @ to_le 4 (crc32 body)))"

definition ota_decode_frame :: "bytes \<Rightarrow> upload_frame res" where
  "ota_decode_frame data =
     (if length data < FRAME_HEADER_SIZE + FRAME_CRC_SIZE
      then Inl (OtaCodecError ''frame is truncated'')
      else
        let magic = slice data 0 4; version = field data 4 1; frame_type = field data 5 1;
            header_size = field data 6 2; sequence = field data 8 4; offset = field data 12 4;
            len = field data 16 2; reserved = field data 18 2
        in if magic \<noteq> FRAME_MAGIC \<or> version \<noteq> FRAME_VERSION
           then Inl (OtaCodecError ''frame header is invalid'')
           else if header_size \<noteq> FRAME_HEADER_SIZE \<or> reserved \<noteq> 0 \<or> FRAME_MAX_PAYLOAD < len
           then Inl (OtaCodecError ''frame header fields are invalid'')
           else if length data \<noteq> FRAME_HEADER_SIZE + len + FRAME_CRC_SIZE
           then Inl (OtaCodecError ''frame length is invalid'')
           else if field data (FRAME_HEADER_SIZE + len) 4 \<noteq> crc32 (take (FRAME_HEADER_SIZE + len) data)
           then Inl (OtaCodecError ''frame CRC is invalid'')
           else case frame_type_of frame_type of
             None \<Rightarrow> Inl (OtaCodecError ''frame type is invalid'')
           | Some t \<Rightarrow> Inr \<lparr>uf_frame_type = t, uf_sequence = int sequence, uf_offset = int offset,
                uf_payload = slice data FRAME_HEADER_SIZE (FRAME_HEADER_SIZE + len)\<rparr>)"

section \<open>Reply lines\<close>

fun parse_items :: "pystr list \<Rightarrow> (pystr \<rightharpoonup> pystr) \<Rightarrow> (pystr \<rightharpoonup> pystr) res" where
  "parse_items [] fs = Inr fs"
| "parse_items (item # items) fs =
     (if item = [] then parse_items items fs
      else if 61 \<notin> set item then Inl (OtaCodecError ''response field is malformed'')
      else let (name, val) = split_once 61 item in parse_items items (fs(name \<mapsto> val)))"

definition parse_fields :: "pystr \<Rightarrow> (pystr \<rightharpoonup> pystr) res" where
  "parse_fields s = parse_items (split_on 44 s) Map.empty"

text \<open>\<^verbatim>\<open>int(text, base)\<close> where the malformed text raises a plain \<^verbatim>\<open>ValueError\<close>.\<close>

definition int_field :: "nat \<Rightarrow> pystr \<Rightarrow> int res" where
  "int_field base s =
     (case py_int base s of None \<Rightarrow> Inl (ValueError ''invalid literal for int()'') | Some i \<Rightarrow> Inr i)"

definition decode_line :: "bytes \<Rightarrow> pystr res" where
  "decode_line line =
     (case ascii_decode line of None \<Rightarrow> Inl UnicodeError | Some s \<Rightarrow> Inr (str_strip s))"

definition parse_ack :: "pystr \<Rightarrow> device_response res" where
  "parse_ack s =
     rbind (parse_fields s)
       (\<lambda>fs. case (fs (lit ''SEQ''), fs (lit ''NEXT'')) of
          (Some a, Some n) \<Rightarrow>
            rbind (int_field 0 a) (\<lambda>a. rbind (int_field 0 n) (\<lambda>n.
              Inr \<lparr>dr_acknowledged = True, dr_sequence = a, dr_next_offset = n, dr_code = None,
                   dr_version = None, dr_crc = None\<rparr>))
        | _ \<Rightarrow> Inl (OtaCodecError ''ACK fields are missing''))"

definition parse_nack :: "pystr \<Rightarrow> device_response res" where
  "parse_nack s =
     rbind (parse_fields s)
       (\<lambda>fs. case (fs (lit ''CODE''), fs (lit ''SEQ''), fs (lit ''NEXT'')) of
          (Some code, Some a, Some n) \<Rightarrow>
            rbind (int_field 0 a) (\<lambda>a. rbind (int_field 0 n) (\<lambda>n.
              Inr \<lparr>dr_acknowledged = False, dr_sequence = a, dr_next_offset = n,
                   dr_code = Some code, dr_version = None, dr_crc = None\<rparr>))
        | _ \<Rightarrow> Inl (OtaCodecError ''NACK fields are missing''))"

definition parse_staged :: "pystr \<Rightarrow> device_response res" where
  "parse_staged s =
     rbind (parse_fields s)
       (\<lambda>fs. case (fs (lit ''VERSION''), fs (lit ''CRC'')) of
          (Some v, Some c) \<Rightarrow>
            rbind (int_field 16 c) (\<lambda>c.
              Inr \<lparr>dr_acknowledged = True, dr_sequence = 0, dr_next_offset = 0,
                   dr_code = Some (lit ''STAGED''), dr_version = Some v, dr_crc = Some c\<rparr>)
        | _ \<Rightarrow> Inl (OtaCodecError ''STAGED fields are missing''))"

definition parse_response :: "bytes \<Rightarrow> device_response res" where
  "parse_response line =
     rbind (decode_line line)
       (\<lambda>s. if starts_with (lit ''+OTA:ACK,'') s then parse_ack (drop 9 s)
            else if starts_with (lit ''+OTA:NACK,'') s then parse_nack (drop 10 s)
            else if starts_with (lit ''+OTA:STAGED,'') s then parse_staged (drop 12 s)
            else Inl (OtaCodecError ''unexpected device response: {}''))"

definition parse_ready :: "bytes \<Rightarrow> (int \<times> int) res" where
  "parse_ready line =
     rbind (decode_line line)
       (\<lambda>s. if \<not> starts_with (lit ''+OTA:READY,'') s
            then Inl (OtaCodecError ''unexpected handshake reply: {}'')
            else rbind (parse_fields (drop 11 s))
              (\<lambda>fs. case (fs (lit ''MAX''), fs (lit ''CHUNK'')) of
                 (Some m, Some c) \<Rightarrow>
                   rbind (int_field 0 m) (\<lambda>m. rbind (int_field 0 c) (\<lambda>c. Inr (m, c)))
               | _ \<Rightarrow> Inl (OtaCodecError ''READY fields are missing'')))"

section \<open>Operator texts\<close>

text \<open>The tables of \<^verbatim>\<open>ota/messages.py\<close>, as code points.\<close>

definition NACK_CODE_ZH :: "(pystr \<times> pystr) list" where
  "NACK_CODE_ZH =
    [(lit ''NONE'', [0x65e0, 0x9519, 0x8bef]),
     (lit ''FRAME_CRC'', [0x5e27, 32, 67, 82, 67, 32, 0x6821, 0x9a8c, 0x5931, 0x8d25]),
     (lit ''FORMAT'', [0x5e27, 0x683c, 0x5f0f, 0x6216, 32, 109, 97, 110, 105, 102, 101, 115,
        116, 32, 0x5934, 0x65e0, 0x6548]),
     (lit ''TARGET'', [0x76ee, 0x6807, 32, 73, 68, 32, 0x4e0d, 0x5339, 0x914d]),
     (lit ''SEQUENCE'', [0x5e8f, 0x5217, 0x53f7, 0x9519, 0x8bef]),
     (lit ''OFFSET'', [0x504f, 0x79fb, 0x4e0d, 0x8fde, 0x7eed, 0xff08, 0x524d, 0x8df3,
        0x6216, 0x4e71, 0x5e8f, 0xff09]),
     (lit ''SD_IO'', [83, 68, 32, 0x5199, 0x5165, 0x5931, 0x8d25]),
     (lit ''IMAGE_CRC'', [0x955c, 0x50cf, 32, 67, 82, 67, 32, 0x6821, 0x9a8c, 0x5931,
        0x8d25]),
     (lit ''TIMEOUT'', [0x56fa, 0x4ef6, 32, 51, 48, 32, 0x79d2, 0x4e0d, 0x6d3b, 0x52a8,
        0x5df2, 0x4e2d, 0x6b62, 0x4f1a, 0x8bdd]),
     (lit ''STATE'', [0x4f1a, 0x8bdd, 0x72b6, 0x6001, 0x9519, 0x8bef])]"

definition PHASE_ZH :: "(pystr \<times> pystr) list" where
  "PHASE_ZH =
    [(lit ''HANDSHAKE'', [0x63e1, 0x624b, 0x4e2d]),
     (lit ''BEGIN'', [0x53d1, 0x9001, 32, 109, 97, 110, 105, 102, 101, 115, 116]),
     (lit ''DATA'', [0x4f20, 0x8f93, 0x955c, 0x50cf]),
     (lit ''COMMIT'', [0x6821, 0x9a8c, 0x5e76, 0x63d0, 0x4ea4]),
     (lit ''STAGED'', [0x5df2, 0x6682, 0x5b58, 0xff0c, 0x7b49, 0x5f85, 0x8bbe, 0x5907,
        0x91cd, 0x542f]),
     (lit ''CANCELLED'', [0x5df2, 0x53d6, 0x6d88]),
     (lit ''WAIT_RESTART'', [0x7b49, 0x5f85, 0x8bbe, 0x5907, 0x91cd, 0x542f, 0x5e76, 0x91cd,
        0x8fde]),
     (lit ''RECONNECTED'', [0x8bbe, 0x5907, 0x5df2, 0x91cd, 0x8fde])]"

definition describe_nack :: "pystr option \<Rightarrow> pystr" where
  "describe_nack code =
     (case code of None \<Rightarrow> [0x672a, 0x77e5, 0x9519, 0x8bef]
      | Some c \<Rightarrow> (case map_of NACK_CODE_ZH c of Some t \<Rightarrow> t
          | None \<Rightarrow> [0x672a, 0x77e5, 0x9519, 0x8bef, 0x4ee3, 0x7801, 32] @ c))"

definition describe_phase :: "pystr option \<Rightarrow> pystr" where
  "describe_phase phase =
     (case phase of None \<Rightarrow> [0x7a7a, 0x95f2]
      | Some p \<Rightarrow> (case map_of PHASE_ZH p of Some t \<Rightarrow> t | None \<Rightarrow> p))"

section \<open>Round trips of frames\<close>

lemma frame_type_of_value [simp]: "frame_type_of (frame_type_value t) = Some t"
  by (cases t) (auto simp: frame_type_of_def)

lemma frame_type_of_Some: "frame_type_of v = Some t \<longleftrightarrow> v = frame_type_value t"
  by (cases t) (auto simp: frame_type_of_def split: if_splits)

lemma frame_type_value_less: "frame_type_value t < 256"
  by (cases t) auto

lemma FRAME_MAGIC_bytes: "FRAME_MAGIC = [0x4F, 0x54, 0x41, 0x46]"
  by (simp add: FRAME_MAGIC_def blit_def)

lemma length_ota_header [simp]: "length (ota_header t s f n) = 20"
  by (simp add: ota_header_def FRAME_MAGIC_def)

lemma ota_header_fields:
  assumes "s < 2 ^ 32" "f < 2 ^ 32" "n < 65536"
  shows "slice (ota_header t s f n) 0 4 = FRAME_MAGIC" "field (ota_header t s f n) 4 1 = FRAME_VERSION"
    "field (ota_header t s f n) 5 1 = frame_type_value t"
    "field (ota_header t s f n) 6 2 = FRAME_HEADER_SIZE" "field (ota_header t s f n) 8 4 = s"
    "field (ota_header t s f n) 12 4 = f" "field (ota_header t s f n) 16 2 = n"
    "field (ota_header t s f n) 18 2 = 0"
  using assms frame_type_value_less [of t]
  by (simp_all add: ota_header_def FRAME_MAGIC_def le_simps slice_0 const_simps del: to_le.simps)

text \<open>The bytes of a frame, in the order the wire has them.\<close>

definition wire_frame :: "upload_frame \<Rightarrow> bytes" where
  "wire_frame f =
     (let body = ota_header (uf_frame_type f) (nat (uf_sequence f)) (nat (uf_offset f))
                   (length (uf_payload f)) @ uf_payload f
      in body @ to_le 4 (crc32 body))"

definition frame_fits :: "upload_frame \<Rightarrow> bool" where
  "frame_fits f \<longleftrightarrow> length (uf_payload f) \<le> 512 \<and> 0 \<le> uf_sequence f \<and> uf_sequence f < 2 ^ 32 \<and>
     0 \<le> uf_offset f \<and> uf_offset f < 2 ^ 32"

text \<open>What the encoder asks of a BEGIN and of a control frame beyond the widths.\<close>

definition frame_shape :: "upload_frame \<Rightarrow> bool" where
  "frame_shape f \<longleftrightarrow> (case uf_frame_type f of
       BEGIN \<Rightarrow> uf_sequence f = 0 \<and> uf_offset f = 0 \<and> length (uf_payload f) = 80
     | DATA \<Rightarrow> True
     | _ \<Rightarrow> uf_payload f = [])"

lemma ota_encode_frame_Inr:
  "ota_encode_frame f = Inr bs \<longleftrightarrow> frame_fits f \<and> frame_shape f \<and> bs = wire_frame f"
  by (cases "uf_frame_type f")
    (auto simp: ota_encode_frame_def frame_fits_def frame_shape_def wire_frame_def const_simps Let_def
      split: if_splits)

lemma ota_decode_wire:
  assumes "frame_fits f"
  shows "ota_decode_frame (wire_frame f) = Inr f"
proof -
  define h where "h = ota_header (uf_frame_type f) (nat (uf_sequence f)) (nat (uf_offset f))
    (length (uf_payload f))"
  have w: "wire_frame f = h @ uf_payload f @ to_le 4 (crc32 (h @ uf_payload f))"
    by (simp add: wire_frame_def h_def Let_def)
  have b: "nat (uf_sequence f) < 2 ^ 32" "nat (uf_offset f) < 2 ^ 32" "length (uf_payload f) < 65536"
    using assms by (auto simp: frame_fits_def nat_less_iff)
  have lh: "length h = 20" by (simp add: h_def)
  note hf = ota_header_fields [OF b, of "uf_frame_type f", folded h_def]
  have crc: "field (wire_frame f) (20 + length (uf_payload f)) 4 = crc32 (h @ uf_payload f)"
    using crc32_bound [of "h @ uf_payload f"]
    by (simp add: w le_simps lh del: to_le.simps)
  have pre: "field (wire_frame f) off n = field h off n" if "off + n \<le> 20" for off n
    using that by (simp add: w field_append lh)
  have wf: "slice (wire_frame f) 0 4 = FRAME_MAGIC" "length (wire_frame f) = 24 + length (uf_payload f)"
    "take (20 + length (uf_payload f)) (wire_frame f) = h @ uf_payload f"
    "slice (wire_frame f) 20 (20 + length (uf_payload f)) = uf_payload f"
    using lh hf(1) by (simp_all add: w slice_def)
  show ?thesis
    unfolding ota_decode_frame_def Let_def const_simps
    using assms hf(2-) by (simp add: wf pre crc frame_fits_def const_simps del: to_le.simps)
qed

text \<open>A frame the decoder accepts is the wire form of its result, byte for byte.\<close>

lemma ota_decode_frame_Inr:
  assumes "ota_decode_frame d = Inr f"
  shows "frame_fits f \<and> d = wire_frame f"
proof -
  define len where "len = field d 16 2"
  have c: "24 \<le> length d" "slice d 0 4 = FRAME_MAGIC" "field d 4 1 = 1" "field d 6 2 = 20"
    "field d 18 2 = 0" "len \<le> 512" "length d = 24 + len" "field d (20 + len) 4 = crc32 (take (20 + len) d)"
    and f: "frame_type_of (field d 5 1) = Some (uf_frame_type f)"
      "uf_sequence f = int (field d 8 4)" "uf_offset f = int (field d 12 4)"
      "uf_payload f = slice d 20 (20 + len)"
    using assms
    by (auto simp: ota_decode_frame_def Let_def const_simps len_def split: if_splits option.splits)
  have part: "slice d a (a + n) = to_le n (field d a n)" if "a + n \<le> length d" for a n
    using that by (simp add: field_def to_le_le_nat')
  have cut: "drop a d = slice d a b @ drop b d" if "a \<le> b" for a b
    using that by (simp add: slice_def) (metis append_take_drop_id drop_drop le_add_diff_inverse2)
  have "d = slice d 0 4 @ slice d 4 5 @ slice d 5 6 @ slice d 6 8 @ slice d 8 12 @ slice d 12 16
      @ slice d 16 18 @ slice d 18 20 @ slice d 20 (20 + len) @ slice d (20 + len) (24 + len)"
    using cut [of 0 4] cut [of 4 5] cut [of 5 6] cut [of 6 8] cut [of 8 12] cut [of 12 16] cut [of 16 18]
      cut [of 18 20] cut [of 20 "20 + len"] cut [of "20 + len" "24 + len"] c(7)
    by simp
  moreover have "slice d 4 5 = to_le 1 1" "slice d 5 6 = to_le 1 (frame_type_value (uf_frame_type f))"
    "slice d 6 8 = to_le 2 20" "slice d 8 12 = to_le 4 (nat (uf_sequence f))"
    "slice d 12 16 = to_le 4 (nat (uf_offset f))" "slice d 16 18 = to_le 2 len"
    "slice d 18 20 = to_le 2 0" "slice d (20 + len) (24 + len) = to_le 4 (crc32 (take (20 + len) d))"
    using part [of 4 1] part [of 5 1] part [of 6 2] part [of 8 4] part [of 12 4] part [of 16 2]
      part [of 18 2] part [of "20 + len" 4] c f(1-3)
    by (simp_all add: frame_type_of_Some len_def del: to_le.simps)
  moreover have "length (uf_payload f) = len" using c(7) f(4) by simp
  ultimately have d: "d = ota_header (uf_frame_type f) (nat (uf_sequence f)) (nat (uf_offset f)) len
      @ uf_payload f @ to_le 4 (crc32 (take (20 + len) d))"
    by (simp add: ota_header_def c(2) f(4) const_simps del: to_le.simps)
  have "take (20 + len) d = ota_header (uf_frame_type f) (nat (uf_sequence f)) (nat (uf_offset f)) len
      @ uf_payload f"
    by (subst d) (simp add: \<open>length (uf_payload f) = len\<close>)
  then have "d = wire_frame f"
    using d \<open>length (uf_payload f) = len\<close> by (simp add: wire_frame_def Let_def)
  moreover have "frame_fits f"
    using c(6) f \<open>length (uf_payload f) = len\<close> field_bound [of d 8 4] field_bound [of d 12 4]
    by (simp add: frame_fits_def)
  ultimately show ?thesis by simp
qed

section \<open>Reading reply lines\<close>

lemma strip_by_ends:
  "s \<noteq> [] \<Longrightarrow> \<not> P (hd s) \<Longrightarrow> \<not> P (last s) \<Longrightarrow> strip_by P s = s"
proof -
  assume a: "s \<noteq> []" "\<not> P (hd s)" "\<not> P (last s)"
  then have "dropWhile P s = s" by (cases s) auto
  moreover have "dropWhile P (rev s) = rev s" using a by (simp add: dropWhile_eq_self_iff hd_rev)
  ultimately show ?thesis by (simp add: strip_by_def)
qed

lemma decode_line_ascii:
  assumes "list_all (\<lambda>c. c < 128) s"
  shows "decode_line (ascii_encode s) = Inr (str_strip s)"
proof -
  have "map unat (ascii_encode s) = s"
    unfolding ascii_encode_def map_map
    by (rule map_idI) (use assms in \<open>auto simp: list_all_iff unat_of_nat\<close>)
  moreover have "list_all (\<lambda>b. unat b < 128) (ascii_encode s)"
    using assms by (auto simp: ascii_encode_def list_all_iff unat_of_nat)
  ultimately show ?thesis by (simp add: decode_line_def ascii_decode_def)
qed

lemma dec_digits_ascii: "list_all (\<lambda>c. c < 128) (dec_digits n)"
  by (auto simp: list_all_iff dest: dec_digits_range)

lemma dec_digits_no_sep: "44 \<notin> set (dec_digits n)" "61 \<notin> set (dec_digits n)"
  by (auto dest: dec_digits_range)

lemma last_dec_digits_not_space: "\<not> is_space (last (dec_digits n))"
  using dec_digits_range [of "last (dec_digits n)" n] by (auto simp: is_space_def)

lemma int_field_u64: "n < 10 ^ 20 \<Longrightarrow> int_field 0 (dec_digits n) = Inr (int n)"
  by (simp add: int_field_def py_int_u64)

lemma split_once_item: "61 \<notin> set k \<Longrightarrow> split_once 61 (k @ 61 # v) = (k, v)"
  by (rule split_once_append)

text \<open>Fields joined by commas, none of which contains a comma or an equals sign in its name.\<close>

lemma parse_items_append:
  "61 \<notin> set k \<Longrightarrow> parse_items ((k @ 61 # v) # items) m = parse_items items (m(k \<mapsto> v))"
  by (simp add: split_once_item)

lemma parse_fields_pair:
  assumes "61 \<notin> set k" "61 \<notin> set l" "44 \<notin> set k" "44 \<notin> set v" "44 \<notin> set l" "44 \<notin> set w"
  shows "parse_fields (k @ 61 # v @ 44 # l @ 61 # w) = Inr [k \<mapsto> v, l \<mapsto> w]"
proof -
  have "split_on 44 ((k @ 61 # v) @ 44 # (l @ 61 # w)) = [k @ 61 # v, l @ 61 # w]"
    using assms by (subst split_on_append) (auto simp: split_on_no_sep)
  then show ?thesis using assms by (simp add: parse_fields_def parse_items_append del: parse_items.simps(2))
qed

definition ack_line :: "nat \<Rightarrow> nat \<Rightarrow> bytes" where
  "ack_line s n = ascii_encode (lit ''+OTA:ACK,SEQ='' @ dec_digits s @ lit '',NEXT='' @ dec_digits n)"

definition staged_line :: "pystr \<Rightarrow> nat \<Rightarrow> bytes" where
  "staged_line v c = ascii_encode (lit ''+OTA:STAGED,VERSION='' @ v @ lit '',CRC='' @ hex_fixed 65 8 c)"

definition ready_line :: "nat \<Rightarrow> nat \<Rightarrow> bytes" where
  "ready_line m c =
     ascii_encode (lit ''+OTA:READY,PROTO=1,MAX='' @ dec_digits m @ lit '',CHUNK='' @ dec_digits c)"

lemma lit_ack: "lit ''+OTA:ACK,SEQ='' = lit ''+OTA:ACK,'' @ lit ''SEQ'' @ [61]"
  "lit '',NEXT='' = 44 # lit ''NEXT'' @ [61]"
  by (simp_all add: lit_def)

lemma parse_response_ack:
  assumes "s < 10 ^ 20" "n < 10 ^ 20"
  shows "parse_response (ack_line s n) =
    Inr \<lparr>dr_acknowledged = True, dr_sequence = int s, dr_next_offset = int n, dr_code = None,
         dr_version = None, dr_crc = None\<rparr>"
proof -
  define b where "b = lit ''SEQ'' @ 61 # dec_digits s @ 44 # lit ''NEXT'' @ 61 # dec_digits n"
  have l: "ack_line s n = ascii_encode (lit ''+OTA:ACK,'' @ b)"
    by (simp add: ack_line_def b_def lit_ack)
  have "str_strip (lit ''+OTA:ACK,'' @ b) = lit ''+OTA:ACK,'' @ b"
    unfolding str_strip_def
    by (rule strip_by_ends)
      (use last_dec_digits_not_space [of n] in \<open>simp_all add: b_def lit_def is_space_def\<close>)
  moreover have "list_all (\<lambda>c. c < 128) (lit ''+OTA:ACK,'' @ b)"
    using dec_digits_ascii by (simp add: b_def lit_def)
  ultimately have d: "decode_line (ack_line s n) = Inr (lit ''+OTA:ACK,'' @ b)"
    by (simp add: l decode_line_ascii del: list_all_append)
  have "parse_fields b = Inr [lit ''SEQ'' \<mapsto> dec_digits s, lit ''NEXT'' \<mapsto> dec_digits n]"
    unfolding b_def by (rule parse_fields_pair) (simp_all add: dec_digits_no_sep, simp_all add: lit_def)
  moreover have "lit ''SEQ'' \<noteq> lit ''NEXT''" by (simp add: lit_def)
  ultimately show ?thesis
    using assms by (simp add: parse_response_def d parse_ack_def int_field_u64)
qed

lemma parse_fields_triple:
  assumes "61 \<notin> set j" "44 \<notin> set j" "44 \<notin> set u"
    "61 \<notin> set k" "61 \<notin> set l" "44 \<notin> set k" "44 \<notin> set v" "44 \<notin> set l" "44 \<notin> set w"
  shows "parse_fields (j @ 61 # u @ 44 # k @ 61 # v @ 44 # l @ 61 # w) = Inr [j \<mapsto> u, k \<mapsto> v, l \<mapsto> w]"
proof -
  have "split_on 44 ((j @ 61 # u) @ 44 # (k @ 61 # v) @ 44 # (l @ 61 # w)) =
      [j @ 61 # u, k @ 61 # v, l @ 61 # w]"
    using assms by (subst split_on_append, simp, subst split_on_append) (auto simp: split_on_no_sep)
  then show ?thesis using assms by (simp add: parse_fields_def parse_items_append del: parse_items.simps(2))
qed

lemma parse_ready_line:
  assumes "m < 10 ^ 20" "c < 10 ^ 20"
  shows "parse_ready (ready_line m c) = Inr (int m, int c)"
proof -
  define b where
    "b = lit ''PROTO'' @ 61 # lit ''1'' @ 44 # lit ''MAX'' @ 61 # dec_digits m @ 44 # lit ''CHUNK'' @ 61 # dec_digits c"
  have l: "ready_line m c = ascii_encode (lit ''+OTA:READY,'' @ b)"
    by (simp add: ready_line_def b_def, simp add: lit_def)
  have "str_strip (lit ''+OTA:READY,'' @ b) = lit ''+OTA:READY,'' @ b"
    unfolding str_strip_def
    by (rule strip_by_ends)
      (use last_dec_digits_not_space [of c] in \<open>simp_all add: b_def lit_def is_space_def\<close>)
  moreover have "list_all (\<lambda>c. c < 128) (lit ''+OTA:READY,'' @ b)"
    using dec_digits_ascii by (simp add: b_def lit_def)
  ultimately have d: "decode_line (ready_line m c) = Inr (lit ''+OTA:READY,'' @ b)"
    by (simp add: l decode_line_ascii del: list_all_append)
  have "parse_fields b =
      Inr [lit ''PROTO'' \<mapsto> lit ''1'', lit ''MAX'' \<mapsto> dec_digits m, lit ''CHUNK'' \<mapsto> dec_digits c]"
    unfolding b_def
    by (rule parse_fields_triple) (simp_all add: dec_digits_no_sep, simp_all add: lit_def)
  moreover have "lit ''MAX'' \<noteq> lit ''CHUNK''" by (simp add: lit_def)
  ultimately show ?thesis
    using assms by (simp add: parse_ready_def d int_field_u64)
qed

subsection \<open>Hexadecimal fields\<close>

lemma digit_value_hex_char: "d < 16 \<Longrightarrow> digit_value (hex_char 65 d) = Some d"
  by (auto simp: hex_char_def digit_value_def decimal_value_ascii decimal_value_def decimal_zeros_def)

lemma hex_char_range: "d < 16 \<Longrightarrow> 48 \<le> hex_char 65 d \<and> hex_char 65 d \<le> 70 \<and> hex_char 65 d \<noteq> 61"
  by (auto simp: hex_char_def)

lemma hex_fixed_range: "c \<in> set (hex_fixed 65 k n) \<Longrightarrow> 48 \<le> c \<and> c \<le> 70 \<and> c \<noteq> 61"
proof (induction k arbitrary: n)
  case (Suc k)
  then show ?case using hex_char_range [of "n mod 16"] by auto
qed simp

lemma digits_value_hex:
  "(\<And>x. x \<in> set s \<Longrightarrow> x \<noteq> 95) \<Longrightarrow> d < 16 \<Longrightarrow>
     digits_value 16 acc (s @ [hex_char 65 d]) = map_option (\<lambda>v. v * 16 + d) (digits_value 16 acc s)"
proof (induction s arbitrary: acc)
  case Nil
  then show ?case using hex_char_range [of d] by (simp add: digit_value_hex_char)
next
  case (Cons x xs)
  then show ?case by (simp split: option.split)
qed

lemma digits_value_hex_fixed: "digits_value 16 0 (hex_fixed 65 k n) = Some (n mod 16 ^ k)"
proof (induction k arbitrary: n)
  case (Suc k)
  have "digits_value 16 0 (hex_fixed 65 k (n div 16) @ [hex_char 65 (n mod 16)]) =
      Some ((n div 16) mod 16 ^ k * 16 + n mod 16)"
    using hex_fixed_range [of 95 k "n div 16"] by (subst digits_value_hex) (auto simp: Suc.IH)
  then show ?case by (simp add: mod_mult2_eq)
qed simp

lemma py_int_hex:
  assumes "n < 16 ^ Suc k"
  shows "py_int 16 (hex_fixed 65 (Suc k) n) = Some (int n)"
proof -
  let ?s = "hex_fixed 65 (Suc k) n"
  have r: "\<And>c. c \<in> set ?s \<Longrightarrow> 48 \<le> c \<and> c \<le> 70" using hex_fixed_range by blast
  have st: "str_strip ?s = ?s"
    unfolding str_strip_def
  proof (rule strip_by_none)
    fix x assume "x \<in> set ?s"
    then have "48 \<le> x \<and> x \<le> 70" by (rule r)
    then show "\<not> is_space x" by (auto simp: is_space_def)
  qed
  obtain c cs where s: "?s = c # cs" by (metis length_hex_fixed length_Suc_conv)
  then have c: "48 \<le> c" "c \<le> 70" using r [of c] by auto
  have pd: "parse_digits 16 ?s = Some n"
    using digits_value_hex_fixed [of "Suc k" n] assms s c by (simp add: parse_digits_def)
  have "prefix_base ?s \<noteq> Some 16"
  proof (cases ?s rule: prefix_base.cases)
    case (1 a b v)
    then have "b \<le> 70" using r [of b] by simp
    then show ?thesis by (subst 1) auto
  qed (use s in auto)
  then have "parse_unsigned 16 ?s = Some n"
    using pd by (auto simp: parse_unsigned_def split: option.split)
  then show ?thesis using st s c by (simp add: py_int_def)
qed

lemma parse_response_staged:
  assumes "list_all (\<lambda>c. c < 128) v" "44 \<notin> set v" "c < 2 ^ 32"
  shows "parse_response (staged_line v c) =
    Inr \<lparr>dr_acknowledged = True, dr_sequence = 0, dr_next_offset = 0,
         dr_code = Some (lit ''STAGED''), dr_version = Some v, dr_crc = Some (int c)\<rparr>"
proof -
  define h where "h = hex_fixed 65 8 c"
  define b where "b = lit ''VERSION'' @ 61 # v @ 44 # lit ''CRC'' @ 61 # h"
  have hr: "\<And>x. x \<in> set h \<Longrightarrow> 48 \<le> x \<and> x \<le> 70 \<and> x \<noteq> 61"
    unfolding h_def by (rule hex_fixed_range)
  have hne: "h \<noteq> []" unfolding h_def by (metis length_hex_fixed list.size(3) zero_neq_numeral)
  have l: "staged_line v c = ascii_encode (lit ''+OTA:STAGED,'' @ b)"
    by (simp add: staged_line_def b_def h_def [symmetric], simp add: lit_def)
  have "\<not> is_space (last h)" using hr [of "last h"] hne by (auto simp: is_space_def)
  then have "str_strip (lit ''+OTA:STAGED,'' @ b) = lit ''+OTA:STAGED,'' @ b"
    unfolding str_strip_def
    by (intro strip_by_ends) (use hne in \<open>simp_all add: b_def lit_def is_space_def\<close>)
  moreover have "list_all (\<lambda>c. c < 128) h" using hr by (fastforce simp: list_all_iff)
  then have "list_all (\<lambda>c. c < 128) (lit ''+OTA:STAGED,'' @ b)"
    using assms(1) by (simp add: b_def lit_def)
  ultimately have d: "decode_line (staged_line v c) = Inr (lit ''+OTA:STAGED,'' @ b)"
    by (simp add: l decode_line_ascii del: list_all_append)
  have "44 \<notin> set h" using hr by fastforce
  then have "parse_fields b = Inr [lit ''VERSION'' \<mapsto> v, lit ''CRC'' \<mapsto> h]"
    unfolding b_def using assms(2) by (intro parse_fields_pair) (simp_all add: lit_def)
  moreover have "lit ''VERSION'' \<noteq> lit ''CRC''" by (simp add: lit_def)
  moreover have "py_int 16 h = Some (int c)"
    unfolding h_def using py_int_hex [of c 7] assms(3) by simp
  moreover have "\<not> starts_with (lit ''+OTA:ACK,'') (lit ''+OTA:STAGED,'' @ b)"
    "\<not> starts_with (lit ''+OTA:NACK,'') (lit ''+OTA:STAGED,'' @ b)"
    by (simp_all add: lit_def starts_with_def)
  ultimately show ?thesis
    by (simp add: parse_response_def d parse_staged_def int_field_def)
qed

section \<open>Properties\<close>

text \<open>
  C27. The decoder accepts exactly the wire forms of frames whose fields fit: a byte string decodes
  to a frame if and only if it is that frame's header, payload and CRC, with nothing missing, added
  or altered.
\<close>

theorem ota_decode_exact: "ota_decode_frame d = Inr f \<longleftrightarrow> frame_fits f \<and> d = wire_frame f"
  using ota_decode_wire ota_decode_frame_Inr by blast

text \<open>Whatever the encoder returns decodes to the frame it was given.\<close>

theorem ota_encode_round_trip:
  assumes "ota_encode_frame f = Inr d"
  shows "ota_decode_frame d = Inr f"
  using assms ota_decode_wire by (simp add: ota_encode_frame_Inr)

definition sample_commit :: upload_frame where
  "sample_commit = \<lparr>uf_frame_type = COMMIT, uf_sequence = 7, uf_offset = 1024, uf_payload = []\<rparr>"

theorem ota_encode_round_trip_witness:
  "ota_encode_frame sample_commit = Inr (wire_frame sample_commit) \<and>
   ota_decode_frame (wire_frame sample_commit) = Inr sample_commit"
proof -
  have "ota_encode_frame sample_commit = Inr (wire_frame sample_commit)"
    by (simp add: ota_encode_frame_Inr sample_commit_def frame_fits_def frame_shape_def)
  then show ?thesis using ota_encode_round_trip by blast
qed

text \<open>
  The reply lines of the device are read back: an acknowledgement yields its sequence number and
  its offset, a STAGED line its version and its eight-digit checksum, a READY line the maximal
  image and the chunk size.
\<close>

theorem reply_lines_round_trip:
  assumes "s < 10 ^ 20" and "n < 10 ^ 20" and "c < 2 ^ 32"
    and "list_all (\<lambda>x. x < 128) v" and "44 \<notin> set v"
  shows "parse_response (ack_line s n) =
      Inr \<lparr>dr_acknowledged = True, dr_sequence = int s, dr_next_offset = int n, dr_code = None,
           dr_version = None, dr_crc = None\<rparr> \<and>
    parse_response (staged_line v c) =
      Inr \<lparr>dr_acknowledged = True, dr_sequence = 0, dr_next_offset = 0,
           dr_code = Some (lit ''STAGED''), dr_version = Some v, dr_crc = Some (int c)\<rparr> \<and>
    parse_ready (ready_line s n) = Inr (int s, int n)"
  using parse_response_ack [OF assms(1,2)] parse_response_staged [OF assms(4,5,3)]
    parse_ready_line [OF assms(1,2)] by simp

theorem reply_lines_round_trip_witness:
  "parse_ready (ready_line 327680 512) = Inr (327680, 512)"
  using reply_lines_round_trip [of 327680 512 0 "[]"] by simp

end
