(* ===== verification/OtaPackage.thy ===== *)
theory OtaPackage
  imports OtaCodec
begin

unbundle bit_operations_syntax

text \<open>
  \<^verbatim>\<open>ota/package.py\<close>: the 512-byte manifest of an OTA package, its validation, the packing of
  an image, and versions. The dictionary \<^verbatim>\<open>parse_manifest\<close> returns is a record with one field
  per key. A file the operator selects is its name and what reading it yields.
\<close>

section \<open>Constants\<close>

definition MANIFEST_MAGIC :: bytes where "MANIFEST_MAGIC = blit ''OTA1''"
definition MANIFEST_FORMAT_VERSION :: nat where [const_simps]: "MANIFEST_FORMAT_VERSION = 1"
definition MANIFEST_HEADER_SIZE :: nat where [const_simps]: "MANIFEST_HEADER_SIZE = 80"
definition MANIFEST_BLOCK_SIZE :: nat where [const_simps]: "MANIFEST_BLOCK_SIZE = 512"
definition MANIFEST_CRC_OFFSET :: nat where [const_simps]: "MANIFEST_CRC_OFFSET = 508"
definition MANIFEST_HEADER_RESERVED_OFFSET :: nat where
  [const_simps]: "MANIFEST_HEADER_RESERVED_OFFSET = 0x48"
definition TARGET_ID :: bytes where "TARGET_ID = blit ''F407VE-JY-I3DWB'' @ [0]"
definition MCU_DEVICE_ID :: nat where [const_simps]: "MCU_DEVICE_ID = 0x413"
definition PROTOCOL_VERSION :: nat where [const_simps]: "PROTOCOL_VERSION = 1"
definition PACKAGE_ID_SIZE :: nat where [const_simps]: "PACKAGE_ID_SIZE = 12"
definition APP_FLASH_START :: nat where [const_simps]: "APP_FLASH_START = 0x08010000"
definition APP_FLASH_SIZE :: nat where [const_simps]: "APP_FLASH_SIZE = 0x08060000 - 0x08010000"
definition MIN_APP_IMAGE_SIZE :: nat where [const_simps]: "MIN_APP_IMAGE_SIZE = 8"
definition STATE_PACKAGE :: nat where [const_simps]: "STATE_PACKAGE = 0"
definition STATE_RECEIVING :: nat where [const_simps]: "STATE_RECEIVING = 1"
definition STATE_READY :: nat where [const_simps]: "STATE_READY = 2"
definition STATE_INSTALLING :: nat where [const_simps]: "STATE_INSTALLING = 3"
definition STATE_APPLIED :: nat where [const_simps]: "STATE_APPLIED = 4"

definition STATE_NAMES :: "(nat \<times> pystr) list" where
  "STATE_NAMES = [(STATE_PACKAGE, lit ''PACKAGE''), (STATE_RECEIVING, lit ''RECEIVING''),
     (STATE_READY, lit ''READY''), (STATE_INSTALLING, lit ''INSTALLING''),
     (STATE_APPLIED, lit ''APPLIED'')]"

section \<open>Data\<close>

record manifest =
  mf_generation :: nat
  mf_state :: nat
  mf_state_name :: pystr
  mf_target_id :: bytes
  mf_device_id :: nat
  mf_minimum_bootloader_version :: nat
  mf_app_version :: nat
  mf_app_address :: nat
  mf_image_size :: nat
  mf_image_crc32 :: nat
  mf_protocol_version :: nat
  mf_flags :: nat
  mf_package_id :: bytes

record ota_package =
  op_data :: bytes
  op_manifest :: manifest

definition package_image :: "ota_package \<Rightarrow> bytes" where
  "package_image p = drop MANIFEST_BLOCK_SIZE (op_data p)"

definition manifest_block :: "ota_package \<Rightarrow> bytes" where
  "manifest_block p = take MANIFEST_BLOCK_SIZE (op_data p)"

definition begin_payload :: "ota_package \<Rightarrow> bytes" where
  "begin_payload p = take MANIFEST_HEADER_SIZE (manifest_block p)"

section \<open>Versions and texts\<close>

text \<open>A version argument: an integer, a text, or a sequence of integers.\<close>

datatype version_arg = VersionInt int | VersionText pystr | VersionSeq "int list"

definition format_version :: "int \<Rightarrow> pystr" where
  "format_version v =
     show_int (v div 2 ^ 24 mod 256) @ [46] @ show_int (v div 2 ^ 16 mod 256) @ [46]
     @ show_int (v mod 65536)"

definition format_crc :: "int \<Rightarrow> pystr" where
  "format_crc c = hex_fixed 65 8 (nat (c mod 2 ^ 32))"

definition version_text :: "ota_package \<Rightarrow> pystr" where
  "version_text p = format_version (int (mf_app_version (op_manifest p)))"

definition crc_text :: "ota_package \<Rightarrow> pystr" where
  "crc_text p = format_crc (int (mf_image_crc32 (op_manifest p)))"

fun int_parts :: "pystr list \<Rightarrow> int list option" where
  "int_parts [] = Some []"
| "int_parts (p # ps) =
     (case py_int 0 p of None \<Rightarrow> None | Some i \<Rightarrow> map_option (\<lambda>is. i # is) (int_parts ps))"

definition version_of_seq :: "int list \<Rightarrow> nat res" where
  "version_of_seq parts =
     (case parts of
        [major, minor, patch] \<Rightarrow>
          if \<not> (0 \<le> major \<and> major \<le> 0xFF) then Inl (OtaPackageError ''major version exceeds 8 bits'')
          else if \<not> (0 \<le> minor \<and> minor \<le> 0xFF)
          then Inl (OtaPackageError ''minor version exceeds 8 bits'')
          else if \<not> (0 \<le> patch \<and> patch \<le> 0xFFFF)
          then Inl (OtaPackageError ''patch version exceeds 16 bits'')
          else Inr (push_bit 24 (nat major) OR push_bit 16 (nat minor) OR nat patch)
      | _ \<Rightarrow> Inl (OtaPackageError ''version must contain major, minor and patch''))"

definition version_value :: "version_arg \<Rightarrow> nat res" where
  "version_value a =
     (case a of
        VersionInt i \<Rightarrow>
          if 0 \<le> i \<and> i \<le> 0xFFFFFFFF then Inr (nat i)
          else Inl (OtaPackageError ''version must fit in 32 bits'')
      | VersionText s \<Rightarrow>
          let parts = split_on 46 s in
          if length parts \<noteq> 3 then Inl (OtaPackageError ''version must be major.minor.patch'')
          else (case int_parts parts of
                  None \<Rightarrow> Inl (OtaPackageError ''version must contain decimal fields'')
                | Some is \<Rightarrow> version_of_seq is)
      | VersionSeq is \<Rightarrow> version_of_seq is)"

text \<open>
  The first match of \<^verbatim>\<open>\d{1,3}\.\d{1,3}\.\d{1,5}\<close>. A dot is no digit, so the first two runs
  match only as a whole.
\<close>

definition is_digit :: "nat \<Rightarrow> bool" where
  "is_digit c \<longleftrightarrow> decimal_value c \<noteq> None"

definition short_run :: "pystr \<Rightarrow> (pystr \<times> pystr) option" where
  "short_run s =
     (let run = takeWhile is_digit s; rest = dropWhile is_digit s
      in if 1 \<le> length run \<and> length run \<le> 3 \<and> rest \<noteq> [] \<and> hd rest = 46
         then Some (run, tl rest) else None)"

definition version_at :: "pystr \<Rightarrow> pystr option" where
  "version_at s =
     (case short_run s of None \<Rightarrow> None
      | Some (a, s1) \<Rightarrow> (case short_run s1 of None \<Rightarrow> None
          | Some (b, s2) \<Rightarrow>
              let c = take 5 (takeWhile is_digit s2)
              in if c = [] then None else Some (a @ [46] @ b @ [46] @ c)))"

fun version_from_text :: "pystr \<Rightarrow> pystr option" where
  "version_from_text [] = None"
| "version_from_text (c # cs) =
     (case version_at (c # cs) of Some v \<Rightarrow> Some v | None \<Rightarrow> version_from_text cs)"

section \<open>Validation\<close>

definition decode_manifest :: "bytes \<Rightarrow> manifest" where
  "decode_manifest block =
     \<lparr>mf_generation = field block 8 4, mf_state = field block 12 4,
      mf_state_name = (case map_of STATE_NAMES (field block 12 4) of Some n \<Rightarrow> n
        | None \<Rightarrow> show_int (int (field block 12 4))),
      mf_target_id = slice block 16 32, mf_device_id = field block 32 4,
      mf_minimum_bootloader_version = field block 36 4, mf_app_version = field block 40 4,
      mf_app_address = field block 44 4, mf_image_size = field block 48 4,
      mf_image_crc32 = field block 52 4, mf_protocol_version = field block 56 2,
      mf_flags = field block 58 2, mf_package_id = slice block 60 72\<rparr>"

definition parse_manifest :: "bytes \<Rightarrow> manifest res" where
  "parse_manifest block =
     (let m = decode_manifest block in
      if length block \<noteq> MANIFEST_BLOCK_SIZE
      then Inl (OtaPackageError ''manifest block must be 512 bytes'')
      else if slice block 0 4 \<noteq> MANIFEST_MAGIC then Inl (OtaPackageError ''manifest magic is invalid'')
      else if field block 4 2 \<noteq> MANIFEST_FORMAT_VERSION
      then Inl (OtaPackageError ''manifest format version is invalid'')
      else if field block 6 2 \<noteq> MANIFEST_HEADER_SIZE
      then Inl (OtaPackageError ''manifest header size is invalid'')
      else if field block MANIFEST_CRC_OFFSET 4 \<noteq> crc32 (take MANIFEST_CRC_OFFSET block)
      then Inl (OtaPackageError ''manifest CRC is invalid'')
      else if list_ex (\<lambda>b. b \<noteq> 0) (slice block MANIFEST_HEADER_RESERVED_OFFSET MANIFEST_CRC_OFFSET)
      then Inl (OtaPackageError ''manifest reserved bytes must be zero'')
      else if mf_target_id m \<noteq> TARGET_ID then Inl (OtaPackageError ''manifest target ID is invalid'')
      else if mf_device_id m \<noteq> MCU_DEVICE_ID
      then Inl (OtaPackageError ''manifest device ID is invalid'')
      else if mf_app_address m \<noteq> APP_FLASH_START
      then Inl (OtaPackageError ''manifest application address is invalid'')
      else if \<not> (MIN_APP_IMAGE_SIZE \<le> mf_image_size m \<and> mf_image_size m \<le> APP_FLASH_SIZE)
      then Inl (OtaPackageError ''manifest image size is invalid'')
      else if mf_protocol_version m \<noteq> PROTOCOL_VERSION \<or> mf_flags m \<noteq> 0
      then Inl (OtaPackageError ''manifest protocol fields are invalid'')
      else if \<not> (STATE_PACKAGE \<le> mf_state m \<and> mf_state m \<le> STATE_APPLIED)
      then Inl (OtaPackageError ''manifest state is invalid'')
      else Inr m)"

definition validate_package :: "bytes \<Rightarrow> manifest res" where
  "validate_package package =
     (if length package < MANIFEST_BLOCK_SIZE then Inl (OtaPackageError ''OTA package is truncated'')
      else rbind (parse_manifest (take MANIFEST_BLOCK_SIZE package))
        (\<lambda>m. if mf_state m \<noteq> STATE_PACKAGE
             then Inl (OtaPackageError ''OTA package header is not in PACKAGE state (state={})'')
             else if mf_target_id m \<noteq> TARGET_ID
             then Inl (OtaPackageError ''OTA package target does not match the device'')
             else
               let image = drop MANIFEST_BLOCK_SIZE package
               in if length image \<noteq> mf_image_size m
                  then Inl (OtaPackageError ''OTA package image length does not match manifest'')
                  else if crc32 image \<noteq> mf_image_crc32 m
                  then Inl (OtaPackageError ''OTA package image CRC is invalid'')
                  else Inr m))"

section \<open>Files\<close>

text \<open>
  A path is the last component of its name; reading it gives its bytes or the error. The
  suffix is the part from the last dot, unless that dot is the first or the last character.
  Only ASCII letters lower to the letters of the suffix, so the ASCII case map decides.
\<close>

record path_file =
  pf_name :: pystr
  pf_read :: "bytes res"

definition path_suffix :: "pystr \<Rightarrow> pystr" where
  "path_suffix name =
     (let ext = rev (takeWhile (\<lambda>c. c \<noteq> 46) (rev name));
          n = length name - length ext
      in if 46 \<in> set name \<and> ext \<noteq> [] \<and> 1 < n then 46 # ext else [])"

definition lower_ascii :: "pystr \<Rightarrow> pystr" where
  "lower_ascii s = map (\<lambda>c. if 65 \<le> c \<and> c \<le> 90 then c + 32 else c) s"

definition load_package :: "path_file \<Rightarrow> ota_package res" where
  "load_package path =
     (if lower_ascii (path_suffix (pf_name path)) \<noteq> lit ''.ota''
      then Inl (OtaPackageError ''uploader accepts only .ota package files'')
      else case pf_read path of
        Inl (OSError _) \<Rightarrow> Inl (OtaPackageError ''cannot read OTA package: {}'')
      | Inl e \<Rightarrow> Inl e
      | Inr package \<Rightarrow>
          rbind (validate_package package) (\<lambda>m. Inr \<lparr>op_data = package, op_manifest = m\<rparr>))"

definition is_package_image :: "bytes \<Rightarrow> bool" where
  "is_package_image data \<longleftrightarrow> MANIFEST_BLOCK_SIZE \<le> length data \<and> take 4 data = MANIFEST_MAGIC"

definition load_image_or_package :: "path_file \<Rightarrow> ota_package res" where
  "load_image_or_package path =
     (case pf_read path of
        Inl (OSError _) \<Rightarrow> Inl (OtaPackageError ''cannot read firmware file: {}'')
      | Inl e \<Rightarrow> Inl e
      | Inr raw \<Rightarrow>
          if is_package_image raw \<or> lower_ascii (path_suffix (pf_name path)) = lit ''.ota''
          then rbind (validate_package raw) (\<lambda>m. Inr \<lparr>op_data = raw, op_manifest = m\<rparr>)
          else Inl (OtaPackageError
            ''selected file is a raw image; provide an app version to package it''))"

section \<open>Packing\<close>

text \<open>The first 508 bytes of the block, field by field.\<close>

definition manifest_fields :: "nat \<Rightarrow> nat \<Rightarrow> nat \<Rightarrow> nat \<Rightarrow> nat \<Rightarrow> nat \<Rightarrow> nat \<Rightarrow> bytes \<Rightarrow> bytes" where
  "manifest_fields generation state minimum app address len crc package_id =
     MANIFEST_MAGIC @ to_le 2 MANIFEST_FORMAT_VERSION @ to_le 2 MANIFEST_HEADER_SIZE
     @ to_le 4 generation @ to_le 4 state @ TARGET_ID @ to_le 4 MCU_DEVICE_ID @ to_le 4 minimum
     @ to_le 4 app @ to_le 4 address @ to_le 4 len @ to_le 4 crc @ to_le 2 PROTOCOL_VERSION
     @ to_le 2 0 @ package_id @ replicate (508 - 72) 0"

record pack_args =
  pa_image :: bytes
  pa_app_version :: version_arg
  pa_minimum_bootloader_version :: version_arg
  pa_generation :: int
  pa_state :: int
  pa_image_size :: "int option"
  pa_image_crc32 :: "int option"
  pa_package_id :: "bytes option"
  pa_app_address :: int

definition pack_manifest :: "pack_args \<Rightarrow> bytes res" where
  "pack_manifest a =
     (let image = pa_image a;
          effective_size = (case pa_image_size a of None \<Rightarrow> int (length image) | Some n \<Rightarrow> n);
          effective_crc = (case pa_image_crc32 a of None \<Rightarrow> int (crc32 image) | Some c \<Rightarrow> c);
          effective_package_id =
            (case pa_package_id a of None \<Rightarrow> take PACKAGE_ID_SIZE (sha256 image) | Some i \<Rightarrow> i)
      in if effective_size \<noteq> int (length image)
      then Inl (OtaPackageError ''image size does not match image bytes'')
      else if effective_size < int MIN_APP_IMAGE_SIZE
      then Inl (OtaPackageError ''image size is below the minimum'')
      else if int APP_FLASH_SIZE < effective_size
      then Inl (OtaPackageError ''image size exceeds the application region'')
      else if pa_app_address a \<noteq> int APP_FLASH_START
      then Inl (OtaPackageError ''application address must be 0x08010000'')
      else if \<not> (0 \<le> pa_generation a \<and> pa_generation a \<le> 0xFFFFFFFF)
      then Inl (OtaPackageError ''generation must fit in 32 bits'')
      else if \<not> (int STATE_PACKAGE \<le> pa_state a \<and> pa_state a \<le> int STATE_APPLIED)
      then Inl (OtaPackageError ''manifest state is invalid'')
      else if \<not> (0 \<le> effective_crc \<and> effective_crc \<le> 0xFFFFFFFF)
      then Inl (OtaPackageError ''image CRC must fit in 32 bits'')
      else if length effective_package_id \<noteq> PACKAGE_ID_SIZE
      then Inl (OtaPackageError ''package ID must be 12 bytes'')
      else rbind (version_value (pa_minimum_bootloader_version a))
        (\<lambda>minimum. rbind (version_value (pa_app_version a))
          (\<lambda>app.
             let block = manifest_fields (nat (pa_generation a)) (nat (pa_state a)) minimum app
                           (nat (pa_app_address a)) (nat effective_size) (nat effective_crc)
                           effective_package_id
             in Inr (block @ to_le 4 (crc32 block)))))"

definition pack_ota ::
  "bytes \<Rightarrow> version_arg \<Rightarrow> version_arg \<Rightarrow> int \<Rightarrow> int option \<Rightarrow> int \<Rightarrow> bytes res" where
  "pack_ota img app_version minimum generation image_crc state =
     rbind (pack_manifest \<lparr>pa_image = img, pa_app_version = app_version,
         pa_minimum_bootloader_version = minimum, pa_generation = generation, pa_state = state,
         pa_image_size = None, pa_image_crc32 = image_crc, pa_package_id = None,
         pa_app_address = int APP_FLASH_START\<rparr>)
       (\<lambda>header. Inr (header @ img))"

definition build_package :: "bytes \<Rightarrow> version_arg \<Rightarrow> version_arg \<Rightarrow> int \<Rightarrow> ota_package res" where
  "build_package img app_version minimum generation =
     rbind (pack_ota img app_version minimum generation None (int STATE_PACKAGE))
       (\<lambda>data. rbind (validate_package data)
         (\<lambda>m. Inr \<lparr>op_data = data, op_manifest = m\<rparr>))"

section \<open>Versions\<close>

lemma push_bit_or:
  assumes "b < 2 ^ k"
  shows "push_bit k a OR b = a * 2 ^ k + (b :: nat)"
proof -
  have "push_bit k a AND b = 0"
  proof (rule bit_eqI)
    fix n
    have "take_bit k b = b" using assms by (simp add: take_bit_nat_eq_self)
    then have "bit b n \<longleftrightarrow> n < k \<and> bit b n" by (metis bit_take_bit_iff)
    then show "bit (push_bit k a AND b) n \<longleftrightarrow> bit 0 n" by (auto simp: bit_simps)
  qed
  then have "push_bit k a + b = push_bit k a OR b" by (rule disjunctive_add_eq_or)
  then show ?thesis by (simp add: push_bit_eq_mult)
qed

lemma version_of_seq_value:
  assumes "a < 256" "b < 256" "c < 65536"
  shows "version_of_seq [int a, int b, int c] = Inr (a * 2 ^ 24 + b * 2 ^ 16 + c)"
proof -
  have "push_bit 16 b OR c = b * 2 ^ 16 + c" using assms by (intro push_bit_or) simp
  moreover have "push_bit 24 a OR (b * 2 ^ 16 + c) = a * 2 ^ 24 + (b * 2 ^ 16 + c)"
    using assms by (intro push_bit_or) simp
  ultimately show ?thesis using assms by (simp add: version_of_seq_def or.assoc)
qed

lemma version_of_seq_bound: "version_of_seq is = Inr v \<Longrightarrow> v < 2 ^ 32"
proof -
  assume "version_of_seq is = Inr v"
  then obtain a b c where p: "is = [a, b, c]" "0 \<le> a" "a \<le> 0xFF" "0 \<le> b" "b \<le> 0xFF" "0 \<le> c"
    "c \<le> 0xFFFF" by (auto simp: version_of_seq_def split: list.splits if_splits)
  then have "version_of_seq [int (nat a), int (nat b), int (nat c)] =
      Inr (nat a * 2 ^ 24 + nat b * 2 ^ 16 + nat c)"
    by (intro version_of_seq_value) (simp_all add: nat_less_iff)
  then have "v = nat a * 2 ^ 24 + nat b * 2 ^ 16 + nat c"
    using \<open>version_of_seq is = Inr v\<close> p by simp
  then show ?thesis using p by simp
qed

lemma version_value_bound: "version_value a = Inr v \<Longrightarrow> v < 2 ^ 32"
  by (auto simp: version_value_def Let_def split: version_arg.splits if_splits option.splits
      dest: version_of_seq_bound)

lemma dec_digits_no_dot: "46 \<notin> set (dec_digits n)"
  by (auto dest: dec_digits_range)

lemma format_version_digits:
  "format_version (int v) = dec_digits (v div 2 ^ 24 mod 256) @ 46 # dec_digits (v div 2 ^ 16 mod 256)
     @ 46 # dec_digits (v mod 65536)"
  by (simp add: format_version_def show_int_def nat_mod_distrib nat_div_distrib not_less)

lemma version_round_trip:
  assumes "v < 2 ^ 32"
  shows "version_value (VersionText (format_version (int v))) = Inr v"
proof -
  define a b c where abc: "a = v div 2 ^ 24 mod 256" "b = v div 2 ^ 16 mod 256" "c = v mod 65536"
  have r: "a < 256" "b < 256" "c < 65536" by (simp_all add: abc)
  have sp: "split_on 46 (format_version (int v)) = [dec_digits a, dec_digits b, dec_digits c]"
    by (simp add: format_version_digits abc split_on_append dec_digits_no_dot
        split_on_no_sep)
  have "int_parts [dec_digits a, dec_digits b, dec_digits c] = Some [int a, int b, int c]"
    using r by (simp add: py_int_u64)
  moreover have "a * 2 ^ 24 + b * 2 ^ 16 + c = v"
  proof -
    have "a = v div 2 ^ 16 div 256" using assms by (simp add: abc div_mult2_eq [symmetric])
    then have "a * 256 + b = v div 2 ^ 16" by (simp add: abc)
    moreover have "v div 2 ^ 16 * 2 ^ 16 + c = v" by (simp add: abc)
    ultimately show ?thesis by (simp add: add_mult_distrib [symmetric])
  qed
  ultimately show ?thesis
    using version_of_seq_value [OF r] by (simp add: version_value_def sp)
qed

section \<open>A packed image validates\<close>

lemma length_TARGET_ID [simp]: "length TARGET_ID = 16"
  by (simp add: TARGET_ID_def)

lemma length_manifest_fields [simp]:
  "length (manifest_fields g s mi ap ad n c i) = 496 + length i"
  by (simp add: manifest_fields_def MANIFEST_MAGIC_def)

lemma manifest_fields_read:
  assumes "length i = 12" "g < 2 ^ 32" "s < 2 ^ 32" "mi < 2 ^ 32" "ap < 2 ^ 32" "ad < 2 ^ 32"
    "n < 2 ^ 32" "c < 2 ^ 32"
  defines "b \<equiv> manifest_fields g s mi ap ad n c i"
  shows "slice b 0 4 = MANIFEST_MAGIC" "field b 4 2 = 1" "field b 6 2 = 80" "field b 8 4 = g"
    "field b 12 4 = s" "slice b 16 32 = TARGET_ID" "field b 32 4 = 0x413" "field b 36 4 = mi"
    "field b 40 4 = ap" "field b 44 4 = ad" "field b 48 4 = n" "field b 52 4 = c" "field b 56 2 = 1"
    "field b 58 2 = 0" "slice b 60 72 = i" "slice b 72 508 = replicate 436 0"
  using assms
  by (simp_all add: manifest_fields_def MANIFEST_MAGIC_def le_simps slice_0 const_simps
      slice_append_right slice_def [of "_ @ _" 0] del: to_le.simps)

text \<open>What validation establishes about a package.\<close>

definition package_ok :: "bytes \<Rightarrow> manifest \<Rightarrow> bool" where
  "package_ok p m \<longleftrightarrow>
     512 \<le> length p \<and> m = decode_manifest (take 512 p) \<and> take 4 p = MANIFEST_MAGIC \<and>
     field p 4 2 = 1 \<and> field p 6 2 = 80 \<and> field p 508 4 = crc32 (take 508 p) \<and>
     list_all (\<lambda>b. b = 0) (slice p 72 508) \<and> mf_target_id m = TARGET_ID \<and> mf_device_id m = 0x413 \<and>
     mf_app_address m = 0x08010000 \<and> mf_protocol_version m = 1 \<and> mf_flags m = 0 \<and>
     mf_state m = STATE_PACKAGE \<and> mf_image_size m = length p - 512 \<and>
     8 \<le> mf_image_size m \<and> mf_image_size m \<le> 327680 \<and> crc32 (drop 512 p) = mf_image_crc32 m"

lemma validate_package_Inr: "validate_package p = Inr m \<longleftrightarrow> package_ok p m"
proof (cases "512 \<le> length p")
  case True
  then have e: "field (take 512 p) 4 2 = field p 4 2" "field (take 512 p) 6 2 = field p 6 2"
    "field (take 512 p) 508 4 = field p 508 4" "slice (take 512 p) 0 4 = take 4 p"
    "take 508 (take 512 p) = take 508 p" "slice (take 512 p) 72 508 = slice p 72 508"
    by (simp_all add: field_take slice_take slice_0)
  show ?thesis
    using True
    unfolding validate_package_def parse_manifest_def package_ok_def Let_def rbind_Inr_iff const_simps e
      guard_Inr_iff
    by (auto simp: list_ex_iff list_all_iff const_simps)
next
  case False
  then show ?thesis by (auto simp: validate_package_def package_ok_def const_simps)
qed

definition version_ok :: "version_arg \<Rightarrow> bool" where
  "version_ok a \<longleftrightarrow> (case version_value a of Inl _ \<Rightarrow> False | Inr _ \<Rightarrow> True)"

definition version_nat :: "version_arg \<Rightarrow> nat" where
  "version_nat a = (case version_value a of Inl _ \<Rightarrow> 0 | Inr v \<Rightarrow> v)"

lemma version_ok_value: "version_ok a \<Longrightarrow> version_value a = Inr (version_nat a)"
  by (auto simp: version_ok_def version_nat_def split: sum.splits)

text \<open>The package a packed image yields.\<close>

definition packed_block :: "bytes \<Rightarrow> version_arg \<Rightarrow> version_arg \<Rightarrow> int \<Rightarrow> bytes" where
  "packed_block img app mi g =
     manifest_fields (nat g) 0 (version_nat mi) (version_nat app) 0x08010000 (length img) (crc32 img)
       (take 12 (sha256 img))"

lemma pack_ota_Inr:
  assumes "8 \<le> length img" "length img \<le> 327680" "version_ok app" "version_ok mi" "0 \<le> g" "g < 2 ^ 32"
  defines "b \<equiv> packed_block img app mi g"
  shows "pack_ota img app mi g None 0 = Inr (b @ to_le 4 (crc32 b) @ img)"
proof -
  have "crc32 img \<le> 0xFFFFFFFF" using crc32_bound [of img] by (simp add: less_eq_Suc_le)
  then show ?thesis
  using assms length_sha256 [of img]
  by (simp add: pack_ota_def pack_manifest_def Let_def const_simps packed_block_def version_ok_value
      nat_less_iff del: to_le.simps)
qed

lemma packed_package_ok:
  assumes "8 \<le> length img" "length img \<le> 327680" "version_ok app" "version_ok mi" "0 \<le> g" "g < 2 ^ 32"
  defines "b \<equiv> packed_block img app mi g"
  defines "p \<equiv> b @ to_le 4 (crc32 b) @ img"
  shows "package_ok p (decode_manifest (take 512 p)) \<and> drop 512 p = img \<and>
    mf_app_version (decode_manifest (take 512 p)) = version_nat app \<and>
    mf_minimum_bootloader_version (decode_manifest (take 512 p)) = version_nat mi \<and>
    int (mf_generation (decode_manifest (take 512 p))) = g \<and>
    mf_package_id (decode_manifest (take 512 p)) = take 12 (sha256 img)"
proof -
  let ?i = "take 12 (sha256 img)"
  have li: "length ?i = 12" using length_sha256 [of img] by simp
  have v: "version_nat app < 2 ^ 32" "version_nat mi < 2 ^ 32"
    using assms(3,4) version_value_bound version_ok_value by blast+
  have g: "nat g < 2 ^ 32" using assms(5,6) by (simp add: nat_less_iff)
  have n: "length img < 2 ^ 32" "(0 :: nat) < 2 ^ 32" "(0x08010000 :: nat) < 2 ^ 32" "crc32 img < 2 ^ 32"
    using assms(2) crc32_bound [of img] by simp_all
  note r = manifest_fields_read [OF li g n(2) v(2,1) n(3,1,4), folded packed_block_def, folded b_def]
  have lb: "length b = 508" by (simp add: b_def packed_block_def li)
  have f: "field p off n = field b off n" "slice p off (off + n) = slice b off (off + n)"
    "field (take 512 p) off n = field b off n" "slice (take 512 p) off (off + n) = slice b off (off + n)"
    if "off + n \<le> 508" for off n
    using that lb by (simp_all add: p_def field_append slice_append_left field_take slice_take)
  have t: "take 4 p = MANIFEST_MAGIC" "slice p 72 508 = replicate 436 0"
    using r(1,16) f(2) [of 0 4] f(2) [of 72 436] by (simp_all add: slice_0)
  have c: "field p 508 4 = crc32 (take 508 p)"
    using crc32_bound [of b] lb by (simp add: p_def le_simps del: to_le.simps)
  have "decode_manifest (take 512 p) =
      \<lparr>mf_generation = nat g, mf_state = 0, mf_state_name = lit ''PACKAGE'', mf_target_id = TARGET_ID,
       mf_device_id = 0x413, mf_minimum_bootloader_version = version_nat mi,
       mf_app_version = version_nat app, mf_app_address = 0x08010000, mf_image_size = length img,
       mf_image_crc32 = crc32 img, mf_protocol_version = 1, mf_flags = 0, mf_package_id = ?i\<rparr>"
    using r f(4) [of 16 16] f(4) [of 60 12]
    by (simp add: decode_manifest_def f(3) STATE_NAMES_def const_simps)
  moreover have "drop 512 p = img" "length p = 512 + length img" using lb by (simp_all add: p_def)
  moreover have "field p 4 2 = 1" "field p 6 2 = 80"
    using r(2,3) by (simp_all add: f(1))
  ultimately show ?thesis
    using t c assms by (simp add: package_ok_def const_simps list_all_iff)
qed

section \<open>Properties\<close>

text \<open>Printing a 32-bit version as \<open>major.minor.patch\<close> and reading it back gives the version.\<close>

theorem version_text_round_trip:
  assumes "v < 2 ^ 32"
  shows "version_value (VersionText (format_version (int v))) = Inr v"
  using assms by (rule version_round_trip)

theorem version_text_round_trip_witness:
  "version_value (VersionText (format_version (int 16908291))) = Inr 16908291"
  by (rule version_text_round_trip) simp

text \<open>
  C25. Validation is exact: a package is accepted with the manifest \<open>m\<close> if and only if it has the
  magic, format and header size, a matching manifest CRC, zero reserved bytes, the target, device,
  address and protocol of the hardware, the PACKAGE state, an image of 8 to 327680 bytes whose
  length and CRC are those of the manifest, and \<open>m\<close> is what its first 512 bytes decode to.
\<close>

theorem validate_package_exact: "validate_package p = Inr m \<longleftrightarrow> package_ok p m"
  by (rule validate_package_Inr)

text \<open>
  C26. Packing succeeds and its result validates: every image of admissible size with valid versions
  and a 32-bit generation becomes a package whose image is that image, whose manifest carries the
  versions, the generation and the first 12 bytes of the image's SHA-256, and whose first 80
  bytes are the payload of the BEGIN frame.
\<close>

theorem build_package_total:
  assumes "8 \<le> length img" and "length img \<le> 327680" and "version_ok app" and "version_ok mi"
    and "0 \<le> g" and "g < 2 ^ 32"
  shows "\<exists>p. build_package img app mi g = Inr p \<and> package_image p = img \<and>
    validate_package (op_data p) = Inr (op_manifest p) \<and>
    mf_app_version (op_manifest p) = version_nat app \<and>
    mf_minimum_bootloader_version (op_manifest p) = version_nat mi \<and>
    int (mf_generation (op_manifest p)) = g \<and>
    mf_package_id (op_manifest p) = take 12 (sha256 img) \<and> length (begin_payload p) = 80"
proof -
  define b where "b = packed_block img app mi g"
  define d where "d = b @ to_le 4 (crc32 b) @ img"
  have po: "pack_ota img app mi g None (int STATE_PACKAGE) = Inr d"
    using pack_ota_Inr [OF assms] by (simp add: d_def b_def const_simps)
  note ok = packed_package_ok [OF assms, folded b_def, folded d_def]
  then have v: "validate_package d = Inr (decode_manifest (take 512 d))"
    by (simp add: validate_package_Inr)
  show ?thesis
    using ok po v
    by (simp add: build_package_def package_image_def begin_payload_def manifest_block_def const_simps
        package_ok_def)
qed

theorem build_package_total_witness:
  "\<exists>p. build_package (replicate 8 0) (VersionInt 16909060) (VersionSeq [1, 0, 0]) 5 = Inr p \<and>
    package_image p = replicate 8 0"
proof -
  have "version_ok (VersionInt 16909060)" "version_ok (VersionSeq [1, 0, 0])"
    by (simp_all add: version_ok_def version_value_def version_of_seq_def)
  then show ?thesis
    using build_package_total [of "replicate 8 0" "VersionInt 16909060" "VersionSeq [1, 0, 0]" 5] by auto
qed

end
