(* ===== verification/OtaUploader.thy ===== *)
theory OtaUploader
  imports OtaPackage Float64
begin

text \<open>
  \<^verbatim>\<open>ota/uploader.py\<close>: the stop-and-wait upload of a package. The \<^verbatim>\<open>UploadTransport\<close>, the
  cancellation callback and the progress callback act on a state of type \<open>'w\<close> that the caller
  supplies. The locale \<open>ota_device\<close> states what the upload relies on; its lemmas hold for every
  transport that keeps that contract.
\<close>

section \<open>Uploader\<close>

definition BEGIN_COMMAND :: bytes where
  "BEGIN_COMMAND = blit ''AT+OTA=BEGIN'' @ [13, 10]"

definition PHASE_HANDSHAKE :: pystr where "PHASE_HANDSHAKE = lit ''HANDSHAKE''"
definition PHASE_BEGIN :: pystr where "PHASE_BEGIN = lit ''BEGIN''"
definition PHASE_DATA :: pystr where "PHASE_DATA = lit ''DATA''"
definition PHASE_COMMIT :: pystr where "PHASE_COMMIT = lit ''COMMIT''"
definition PHASE_STAGED :: pystr where "PHASE_STAGED = lit ''STAGED''"

record 'w upload_transport =
  ut_send :: "bytes \<Rightarrow> ('w, unit) io"
  ut_readline :: "float64 \<Rightarrow> ('w, bytes option) io"
  ut_cancel_requested :: "('w, bool) io option"
  ut_progress :: "(nat \<Rightarrow> nat \<Rightarrow> pystr \<Rightarrow> ('w, unit) io) option"

record uploader =
  up_max_retries :: nat
  up_ack_timeout :: float64
  up_commit_timeout :: float64

definition OtaUploader_init :: "int \<Rightarrow> float64 \<Rightarrow> float64 \<Rightarrow> uploader res" where
  "OtaUploader_init max_retries ack_timeout commit_timeout =
     (if max_retries < 0 then Inl (ValueError ''max_retries must be non-negative'')
      else if ack_timeout \<le> 0 then Inl (ValueError ''ack_timeout must be positive'')
      else if commit_timeout \<le> 0 then Inl (ValueError ''commit_timeout must be positive'')
      else Inr \<lparr>up_max_retries = nat max_retries, up_ack_timeout = ack_timeout,
                up_commit_timeout = commit_timeout\<rparr>)"

record staged_summary =
  ss_staged_version :: "pystr option"
  ss_staged_crc :: "int option"
  ss_app_version :: nat
  ss_app_version_text :: pystr
  ss_image_crc32 :: nat
  ss_image_crc_text :: pystr
  ss_image_size :: nat
  ss_package_id :: bytes

definition notify :: "'w upload_transport \<Rightarrow> nat \<Rightarrow> nat \<Rightarrow> pystr \<Rightarrow> ('w, unit) io" where
  "notify tr sent_bytes total_bytes phase =
     (case ut_progress tr of None \<Rightarrow> io_return () | Some progress \<Rightarrow> progress sent_bytes total_bytes phase)"

text \<open>The exceptions \<^verbatim>\<open>cancel\<close> swallows: a codec error, \<^verbatim>\<open>OSError\<close> and every \<^verbatim>\<open>RuntimeError\<close>.\<close>

fun swallowed :: "exn \<Rightarrow> bool" where
  "swallowed (OtaCodecError _) = True"
| "swallowed (OSError _) = True"
| "swallowed (RuntimeError _) = True"
| "swallowed (TransportError _) = True"
| "swallowed (OtaUploadError _ _) = True"
| "swallowed OtaUploadCancelled = True"
| "swallowed (DeviceIdentityError _) = True"
| "swallowed (SessionCapacityError _) = True"
| "swallowed (DuplicateDeviceError _) = True"
| "swallowed _ = False"

definition cancel_upload :: "'w upload_transport \<Rightarrow> int \<Rightarrow> int \<Rightarrow> ('w, unit) io" where
  "cancel_upload tr sequence offset =
     io_suppress swallowed
       (io_bind (io_lift (ota_encode_frame \<lparr>uf_frame_type = CANCEL, uf_sequence = sequence,
          uf_offset = offset, uf_payload = []\<rparr>)) (ut_send tr))"

definition check_cancelled :: "'w upload_transport \<Rightarrow> int \<Rightarrow> int \<Rightarrow> ('w, unit) io" where
  "check_cancelled tr sequence offset =
     (case ut_cancel_requested tr of
        None \<Rightarrow> io_return ()
      | Some cancel_requested \<Rightarrow> io_bind cancel_requested (\<lambda>requested.
          if requested
          then io_bind (cancel_upload tr sequence offset) (\<lambda>_. io_raise OtaUploadCancelled)
          else io_return ()))"

text \<open>\<^verbatim>\<open>_handshake\<close>: what follows the READY line, what follows any answer, and the whole.\<close>

definition handshake_ready :: "uploader \<Rightarrow> 'w upload_transport \<Rightarrow> bytes \<Rightarrow> ('w, int \<times> int) io" where
  "handshake_ready u tr rline =
     io_bind (io_lift (parse_ready rline)) (\<lambda>ready.
     io_bind (ut_readline tr (up_ack_timeout u)) (\<lambda>ok.
       if ok = None \<or> bytes_strip (the ok) \<noteq> blit ''OK''
       then io_raise (OtaUploadError ''device READY handshake did not complete'' None)
       else io_return ready))"

definition handshake_answer ::
  "uploader \<Rightarrow> 'w upload_transport \<Rightarrow> bytes option \<Rightarrow> ('w, int \<times> int) io" where
  "handshake_answer u tr reply =
     (case reply of
        None \<Rightarrow> io_raise (OtaUploadError ''device did not answer AT+OTA=BEGIN'' None)
      | Some rline \<Rightarrow>
          if \<not> starts_with (blit ''+OTA:READY,'') (bytes_strip rline) then
            (if starts_with (lit ''ERROR:SOURCE'') (str_strip (ascii_replace rline))
             then io_raise (OtaUploadError
               ''OTA is only allowed from a UART-source link (Wi-Fi gateway)'' (Some (lit ''SOURCE'')))
             else io_raise (OtaUploadError ''device did not enter OTA mode: {}'' None))
          else handshake_ready u tr rline)"

definition handshake :: "uploader \<Rightarrow> 'w upload_transport \<Rightarrow> ('w, int \<times> int) io" where
  "handshake u tr =
     io_bind (check_cancelled tr 0 0) (\<lambda>_.
     io_bind (ut_send tr BEGIN_COMMAND) (\<lambda>_.
     io_bind (ut_readline tr (up_ack_timeout u)) (handshake_answer u tr)))"

text \<open>
  \<^verbatim>\<open>_exchange\<close>: the attempts of one frame. The reply of the device decides: an acknowledgement
  ends the exchange, silence and an \<^verbatim>\<open>OFFSET\<close> rejection at the frame's own offset are retried.
  Only a codec error of the reply becomes an upload error.
\<close>

definition read_reply :: "bytes \<Rightarrow> device_response res" where
  "read_reply line =
     (case parse_response line of
        Inl (OtaCodecError m) \<Rightarrow> Inl (OtaUploadError m None) | r \<Rightarrow> r)"

fun exchange_attempts ::
  "nat \<Rightarrow> 'w upload_transport \<Rightarrow> upload_frame \<Rightarrow> bytes \<Rightarrow> float64 \<Rightarrow> ('w, device_response) io" where
  "exchange_attempts 0 tr f encoded timeout =
     io_raise (OtaUploadError ''timeout waiting for {} acknowledgement'' (Some (lit ''TIMEOUT'')))"
| "exchange_attempts (Suc n) tr f encoded timeout =
     io_bind (check_cancelled tr (uf_sequence f) (uf_offset f)) (\<lambda>_.
     io_bind (ut_send tr encoded) (\<lambda>_.
     io_bind (ut_readline tr timeout) (\<lambda>reply.
       case reply of
         None \<Rightarrow> exchange_attempts n tr f encoded timeout
       | Some line \<Rightarrow>
           io_bind (io_lift (read_reply line)) (\<lambda>response.
             if dr_acknowledged response then io_return response
             else if dr_code response = Some (lit ''OFFSET'') \<and> dr_next_offset response = uf_offset f
             then exchange_attempts n tr f encoded timeout
             else io_raise (OtaUploadError ''device rejected {}: {} seq={} next={}''
               (dr_code response))))))"

declare exchange_attempts.simps(2) [simp del]

definition exchange ::
  "uploader \<Rightarrow> 'w upload_transport \<Rightarrow> upload_frame \<Rightarrow> float64 \<Rightarrow> ('w, device_response) io" where
  "exchange u tr f timeout =
     io_bind (io_lift (ota_encode_frame f))
       (\<lambda>encoded. exchange_attempts (up_max_retries u + 1) tr f encoded timeout)"

text \<open>
  The DATA phase. One turn sends the chunk at the offset and checks that the device acknowledges
  the end of it, so the offset of the next turn is that end. The caller guarantees a positive
  limit; the guard on it only makes the recursion well-founded.
\<close>

definition data_turn ::
  "uploader \<Rightarrow> 'w upload_transport \<Rightarrow> bytes \<Rightarrow> nat \<Rightarrow> nat \<Rightarrow> nat \<Rightarrow> ('w, unit) io" where
  "data_turn u tr img limit sequence offset =
     (let chunk_bytes = slice img offset (offset + limit) in
      io_bind (check_cancelled tr (int sequence) (int offset)) (\<lambda>_.
      io_bind (exchange u tr \<lparr>uf_frame_type = DATA, uf_sequence = int sequence,
          uf_offset = int offset, uf_payload = chunk_bytes\<rparr> (up_ack_timeout u)) (\<lambda>response.
        if dr_next_offset response \<noteq> int (offset + length chunk_bytes)
        then io_raise (OtaUploadError ''device acknowledged unexpected offset {}'' None)
        else notify tr (offset + length chunk_bytes) (length img) PHASE_DATA)))"

function data_loop ::
  "uploader \<Rightarrow> 'w upload_transport \<Rightarrow> bytes \<Rightarrow> nat \<Rightarrow> nat \<Rightarrow> nat \<Rightarrow> 'w \<Rightarrow> (nat \<times> nat) res \<times> 'w" where
  "data_loop u tr img limit sequence offset w =
     (if offset < length img \<and> 0 < limit then
        (case data_turn u tr img limit sequence offset w of
           (Inl e, w') \<Rightarrow> (Inl e, w')
         | (Inr _, w') \<Rightarrow>
             data_loop u tr img limit ((sequence + 1) mod 2 ^ 32)
               (offset + length (slice img offset (offset + limit))) w')
      else (Inr (sequence, offset), w))"
  by pat_completeness auto
termination
  by (relation "measure (\<lambda>(u, tr, img, limit, sequence, offset, w). length img - offset)")
    (auto simp: length_slice)

declare data_loop.simps [simp del]

definition payload_limit :: "int \<Rightarrow> int" where
  "payload_limit chunk = (if chunk \<noteq> 0 then min (int FRAME_MAX_PAYLOAD) chunk else int FRAME_MAX_PAYLOAD)"

definition upload ::
  "uploader \<Rightarrow> bytes \<Rightarrow> 'w upload_transport \<Rightarrow> bytes \<Rightarrow> ('w, staged_summary) io" where
  "upload u package tr expected_target_id =
     io_bind (io_lift (validate_package package)) (\<lambda>m.
     if mf_target_id m \<noteq> expected_target_id
     then io_raise (OtaUploadError ''OTA package target does not match the device'' (Some (lit ''TARGET'')))
     else
       let image = drop MANIFEST_BLOCK_SIZE package;
           manifest_block = take MANIFEST_BLOCK_SIZE package;
           image_size = length image
       in
       io_bind (notify tr 0 image_size PHASE_HANDSHAKE) (\<lambda>_.
       io_bind (handshake u tr) (\<lambda>(max_image, chunk).
       if max_image < int image_size
       then io_raise (OtaUploadError ''image size {} exceeds device maximum {}'' None)
       else if payload_limit chunk \<le> 0
       then io_raise (OtaUploadError ''device advertised an invalid chunk size'' None)
       else
       io_bind (notify tr 0 image_size PHASE_BEGIN) (\<lambda>_.
       io_bind (exchange u tr \<lparr>uf_frame_type = BEGIN, uf_sequence = 0, uf_offset = 0,
           uf_payload = take BEGIN_PAYLOAD_SIZE manifest_block\<rparr> (up_ack_timeout u)) (\<lambda>response.
       if dr_next_offset response \<noteq> 0
       then io_raise (OtaUploadError ''device acknowledged a non-zero BEGIN offset'' None)
       else
       io_bind (notify tr 0 image_size PHASE_DATA) (\<lambda>_.
       io_bind (data_loop u tr image (nat (payload_limit chunk)) 1 0) (\<lambda>(sequence, offset).
       io_bind (notify tr image_size image_size PHASE_COMMIT) (\<lambda>_.
       io_bind (check_cancelled tr (int sequence) (int offset)) (\<lambda>_.
       io_bind (exchange u tr \<lparr>uf_frame_type = COMMIT, uf_sequence = int sequence,
           uf_offset = int offset, uf_payload = []\<rparr> (up_commit_timeout u)) (\<lambda>response.
       if \<not> staged response
       then io_raise (OtaUploadError ''device did not stage the image after COMMIT'' (dr_code response))
       else
       io_bind (ut_readline tr (up_ack_timeout u)) (\<lambda>_.
       io_bind (notify tr image_size image_size PHASE_STAGED) (\<lambda>_.
       io_return \<lparr>ss_staged_version = dr_version response, ss_staged_crc = dr_crc response,
          ss_app_version = mf_app_version m,
          ss_app_version_text = format_version (int (mf_app_version m)),
          ss_image_crc32 = mf_image_crc32 m,
          ss_image_crc_text = format_crc (int (mf_image_crc32 m)),
          ss_image_size = image_size, ss_package_id = mf_package_id m\<rparr>))))))))))))"

section \<open>The contract of the device\<close>

text \<open>One attempt: send a burst and wait for a line.\<close>

definition ask :: "'w upload_transport \<Rightarrow> bytes \<Rightarrow> float64 \<Rightarrow> ('w, bytes option) io" where
  "ask tr data timeout = io_bind (ut_send tr data) (\<lambda>_. ut_readline tr timeout)"

definition data_frame :: "nat \<Rightarrow> nat \<Rightarrow> bytes \<Rightarrow> upload_frame" where
  "data_frame s off pl =
     \<lparr>uf_frame_type = DATA, uf_sequence = int s, uf_offset = int off, uf_payload = pl\<rparr>"

definition begin_frame :: "bytes \<Rightarrow> upload_frame" where
  "begin_frame pl = \<lparr>uf_frame_type = BEGIN, uf_sequence = 0, uf_offset = 0, uf_payload = pl\<rparr>"

definition commit_frame :: "nat \<Rightarrow> nat \<Rightarrow> upload_frame" where
  "commit_frame s off =
     \<lparr>uf_frame_type = COMMIT, uf_sequence = int s, uf_offset = int off, uf_payload = []\<rparr>"

text \<open>
  The link and the device behind it, as the upload sees them. \<open>stored\<close> is the part of the image
  the device keeps. In a \<open>good\<close> state no burst and no reply is in flight, in a \<open>committed\<close> state
  the session has ended. A DATA frame is stored if it continues the image and is ignored
  otherwise; an acknowledgement names the length of what is stored; a STAGED reply names its
  checksum.
\<close>

locale ota_device =
  fixes tr :: "'w upload_transport"
    and good :: "'w \<Rightarrow> bool"
    and committed :: "'w \<Rightarrow> bool"
    and stored :: "'w \<Rightarrow> bytes"
  assumes poll_keeps: "ut_cancel_requested tr = Some c \<Longrightarrow> c w = (Inr b, w') \<Longrightarrow>
      stored w' = stored w \<and> (good w \<longrightarrow> good w') \<and> (committed w \<longrightarrow> committed w')"
    and progress_keeps: "ut_progress tr = Some p \<Longrightarrow> p m n ph w = (Inr x, w') \<Longrightarrow>
      stored w' = stored w \<and> (good w \<longrightarrow> good w') \<and> (committed w \<longrightarrow> committed w')"
    and handshake_law: "good w \<Longrightarrow> ask tr BEGIN_COMMAND t w = (Inr (Some line), w1) \<Longrightarrow>
      ut_readline tr t w1 = (Inr r, w2) \<Longrightarrow> good w2 \<and> stored w2 = []"
    and begin_law: "good w \<Longrightarrow> ask tr (wire_frame (begin_frame pl)) t w = (Inr r, w') \<Longrightarrow>
      frame_fits (begin_frame pl) \<Longrightarrow> good w' \<and> stored w' = stored w"
    and data_law: "good w \<Longrightarrow> ask tr (wire_frame (data_frame s off pl)) t w = (Inr r, w') \<Longrightarrow>
      frame_fits (data_frame s off pl) \<Longrightarrow>
      good w' \<and> (stored w' = stored w \<or> off = length (stored w) \<and> stored w' = stored w @ pl)"
    and data_ack: "good w \<Longrightarrow>
      ask tr (wire_frame (data_frame s off pl)) t w = (Inr (Some line), w') \<Longrightarrow>
      frame_fits (data_frame s off pl) \<Longrightarrow> parse_response line = Inr resp \<Longrightarrow> dr_acknowledged resp \<Longrightarrow>
      dr_next_offset resp = int (length (stored w'))"
    and commit_law: "good w \<Longrightarrow> ask tr (wire_frame (commit_frame s off)) t w = (Inr r, w') \<Longrightarrow>
      frame_fits (commit_frame s off) \<Longrightarrow>
      stored w' = stored w \<and> (r = None \<longrightarrow> good w') \<and>
      (\<forall>line resp. r = Some line \<longrightarrow> parse_response line = Inr resp \<longrightarrow>
         (if dr_acknowledged resp then committed w' else good w') \<and>
         (staged resp \<longrightarrow> dr_crc resp = Some (int (crc32 (stored w)))))"
    and readline_committed: "committed w \<Longrightarrow> ut_readline tr t w = (Inr r, w') \<Longrightarrow> stored w' = stored w"
begin

lemma notify_keeps:
  "notify tr m n ph w = (Inr x, w') \<Longrightarrow>
     stored w' = stored w \<and> (good w \<longrightarrow> good w') \<and> (committed w \<longrightarrow> committed w')"
  by (auto simp: notify_def io_return_def split: option.splits dest: progress_keeps)

lemma check_cancelled_keeps:
  "check_cancelled tr s f w = (Inr x, w') \<Longrightarrow>
     stored w' = stored w \<and> (good w \<longrightarrow> good w') \<and> (committed w \<longrightarrow> committed w')"
  by (auto simp: check_cancelled_def io_return_def io_raise_def io_bind_Inr_iff
      split: option.splits if_splits dest: poll_keeps)

lemma read_reply_Inr: "read_reply line = Inr r \<longleftrightarrow> parse_response line = Inr r"
  by (auto simp: read_reply_def split: sum.splits exn.splits)

text \<open>One attempt of an exchange, seen from its result.\<close>

lemma exchange_step:
  assumes "exchange_attempts (Suc n) tr f encoded t w = (Inr resp, w')"
  obtains w0 w1 where "check_cancelled tr (uf_sequence f) (uf_offset f) w = (Inr (), w0)"
      "ask tr encoded t w0 = (Inr None, w1)" "exchange_attempts n tr f encoded t w1 = (Inr resp, w')"
  | w0 w1 line r where "check_cancelled tr (uf_sequence f) (uf_offset f) w = (Inr (), w0)"
      "ask tr encoded t w0 = (Inr (Some line), w1)" "parse_response line = Inr r"
      "\<not> dr_acknowledged r" "exchange_attempts n tr f encoded t w1 = (Inr resp, w')"
  | w0 line where "check_cancelled tr (uf_sequence f) (uf_offset f) w = (Inr (), w0)"
      "ask tr encoded t w0 = (Inr (Some line), w')" "parse_response line = Inr resp"
      "dr_acknowledged resp"
proof -
  obtain w0 reply w1 where c: "check_cancelled tr (uf_sequence f) (uf_offset f) w = (Inr (), w0)"
    and a: "ask tr encoded t w0 = (Inr reply, w1)"
    and k: "(case reply of
         None \<Rightarrow> exchange_attempts n tr f encoded t
       | Some line \<Rightarrow>
           io_bind (io_lift (read_reply line)) (\<lambda>response.
             if dr_acknowledged response then io_return response
             else if dr_code response = Some (lit ''OFFSET'') \<and> dr_next_offset response = uf_offset f
             then exchange_attempts n tr f encoded t
             else io_raise (OtaUploadError ''device rejected {}: {} seq={} next={}''
               (dr_code response)))) w1 = (Inr resp, w')"
    using assms unfolding exchange_attempts.simps ask_def by (auto simp: io_bind_Inr_iff)
  show thesis
  proof (cases reply)
    case None
    then show thesis using that(1) c a k by simp
  next
    case (Some line)
    then obtain r where r: "parse_response line = Inr r"
      and k': "(if dr_acknowledged r then io_return r
             else if dr_code r = Some (lit ''OFFSET'') \<and> dr_next_offset r = uf_offset f
             then exchange_attempts n tr f encoded t
             else io_raise (OtaUploadError ''device rejected {}: {} seq={} next={}''
               (dr_code r))) w1 = (Inr resp, w')"
      using k by (auto simp: io_bind_Inr_iff io_lift_def read_reply_Inr)
    then show thesis
      using that(2) [OF c a [unfolded Some] r] that(3) [OF c] a Some
      by (auto simp: io_return_def io_raise_def split: if_splits)
  qed
qed

text \<open>A DATA exchange that the device acknowledges to its end has stored the chunk once.\<close>

lemma exchange_data:
  assumes "exchange_attempts n tr (data_frame s off pl) (wire_frame (data_frame s off pl)) t w =
      (Inr resp, w')"
    and "good w" "frame_fits (data_frame s off pl)" "stored w \<in> {S, S @ pl}" "length S = off"
  shows "good w' \<and> stored w' \<in> {S, S @ pl} \<and> dr_next_offset resp = int (length (stored w'))"
  using assms
proof (induction n arbitrary: w)
  case 0
  then show ?case by (simp add: io_raise_def)
next
  case (Suc n)
  let ?f = "data_frame s off pl"
  have step: "good w1 \<and> stored w1 \<in> {S, S @ pl}"
    if c: "check_cancelled tr (uf_sequence ?f) (uf_offset ?f) w = (Inr (), w0)"
      and a: "ask tr (wire_frame ?f) t w0 = (Inr r, w1)" for w0 w1 r
  proof -
    have g: "good w0" and st: "stored w0 = S \<or> stored w0 = S @ pl"
      using check_cancelled_keeps [OF c] Suc.prems(2,4) by simp_all
    have d: "stored w1 = stored w0 \<or> off = length (stored w0) \<and> stored w1 = stored w0 @ pl" "good w1"
      using data_law [OF g a Suc.prems(3)] by simp_all
    from d(1) have "stored w1 = S \<or> stored w1 = S @ pl"
    proof
      assume o: "off = length (stored w0) \<and> stored w1 = stored w0 @ pl"
      then have "length (stored w0) = length S" using Suc.prems(5) by simp
      then have "stored w0 = S" using st by (metis append_eq_append_conv append_Nil2)
      then show ?thesis using o by simp
    qed (use st in simp)
    then show ?thesis using d(2) by simp
  qed
  from Suc.prems(1) show ?case
  proof (cases rule: exchange_step)
    case (1 w0 w1)
    then show ?thesis using Suc.IH [of w1] step [of w0 None w1] Suc.prems by simp
  next
    case (2 w0 w1 line r)
    then show ?thesis using Suc.IH [of w1] step [of w0 "Some line" w1] Suc.prems by simp
  next
    case (3 w0 line)
    then have "good w0" using check_cancelled_keeps [OF 3(1)] Suc.prems(2) by blast
    then have "dr_next_offset resp = int (length (stored w'))"
      using data_ack [OF _ 3(2) Suc.prems(3) 3(3,4)] by blast
    then show ?thesis using step [OF 3(1,2)] by blast
  qed
qed

lemma exchange_begin:
  assumes "exchange_attempts n tr (begin_frame pl) (wire_frame (begin_frame pl)) t w = (Inr resp, w')"
    and "good w" "frame_fits (begin_frame pl)"
  shows "good w' \<and> stored w' = stored w"
  using assms
proof (induction n arbitrary: w)
  case 0
  then show ?case by (simp add: io_raise_def)
next
  case (Suc n)
  from Suc.prems(1) show ?case
  proof (cases rule: exchange_step)
    case (1 w0 w1)
    then show ?thesis
      using Suc.IH [of w1] check_cancelled_keeps [OF 1(1)] begin_law [OF _ 1(2)] Suc.prems(2,3) by simp
  next
    case (2 w0 w1 line r)
    then show ?thesis
      using Suc.IH [of w1] check_cancelled_keeps [OF 2(1)] begin_law [OF _ 2(2)] Suc.prems(2,3) by simp
  next
    case (3 w0 line)
    then show ?thesis
      using check_cancelled_keeps [OF 3(1)] begin_law [OF _ 3(2)] Suc.prems(2,3) by simp
  qed
qed

lemma exchange_commit:
  assumes "exchange_attempts n tr (commit_frame s off) (wire_frame (commit_frame s off)) t w =
      (Inr resp, w')"
    and "good w" "frame_fits (commit_frame s off)"
  shows "committed w' \<and> stored w' = stored w \<and>
    (staged resp \<longrightarrow> dr_crc resp = Some (int (crc32 (stored w))))"
  using assms
proof (induction n arbitrary: w)
  case 0
  then show ?case by (simp add: io_raise_def)
next
  case (Suc n)
  from Suc.prems(1) show ?case
  proof (cases rule: exchange_step)
    case (1 w0 w1)
    then show ?thesis
      using Suc.IH [of w1] check_cancelled_keeps [OF 1(1)] commit_law [OF _ 1(2)] Suc.prems(2,3) by simp
  next
    case (2 w0 w1 line r)
    then show ?thesis
      using Suc.IH [of w1] check_cancelled_keeps [OF 2(1)] commit_law [OF _ 2(2)] Suc.prems(2,3) by simp
  next
    case (3 w0 line)
    then show ?thesis
      using check_cancelled_keeps [OF 3(1)] commit_law [OF _ 3(2)] Suc.prems(2,3) by simp
  qed
qed

lemma exchange_Inr:
  "exchange u tr f t w = (Inr resp, w') \<Longrightarrow> frame_fits f \<and> frame_shape f \<and>
     exchange_attempts (up_max_retries u + 1) tr f (wire_frame f) t w = (Inr resp, w')"
  by (auto simp: exchange_def io_bind_Inr_iff io_lift_def ota_encode_frame_Inr)

lemma data_turn_stores:
  assumes "data_turn u tr img limit s off w = (Inr x, w')"
    and "good w" "stored w = take off img" "off \<le> length img"
  shows "good w' \<and> stored w' = take (off + length (slice img off (off + limit))) img"
proof -
  define pl where "pl = slice img off (off + limit)"
  obtain w0 resp w1 where c: "check_cancelled tr (int s) (int off) w = (Inr (), w0)"
    and e: "exchange u tr (data_frame s off pl) (up_ack_timeout u) w0 = (Inr resp, w1)"
    and n: "dr_next_offset resp = int (off + length pl)"
    and y: "notify tr (off + length pl) (length img) PHASE_DATA w1 = (Inr x, w')"
    using assms(1)
    by (auto simp: data_turn_def pl_def data_frame_def Let_def io_bind_Inr_iff io_raise_def
        split: if_splits)
  note k = check_cancelled_keeps [OF c]
  note ex = exchange_Inr [OF e]
  have "good w1 \<and> stored w1 \<in> {take off img, take off img @ pl} \<and>
      dr_next_offset resp = int (length (stored w1))"
    using exchange_data [OF conjunct2 [OF conjunct2 [OF ex]], of "take off img"] ex k assms(2-4) by simp
  moreover have "take off img @ pl = take (off + length pl) img"
    by (simp add: pl_def slice_def take_add min_def)
  ultimately have "good w1" "stored w1 = take (off + length pl) img"
    using n assms(4) by force+
  then show ?thesis using notify_keeps [OF y] by (simp add: pl_def)
qed

lemma data_loop_stores:
  "data_loop u tr img limit s off w = (Inr (s', off'), w') \<Longrightarrow> good w \<Longrightarrow> stored w = take off img \<Longrightarrow>
     off \<le> length img \<Longrightarrow> 0 < limit \<Longrightarrow>
     good w' \<and> stored w' = img \<and> off' = length img"
proof (induction "length img - off" arbitrary: s off w rule: less_induct)
  case less
  show ?case
  proof (cases "off < length img")
    case False
    then show ?thesis using less.prems data_loop.simps [of u tr img limit s off w] by simp
  next
    case True
    let ?off = "off + length (slice img off (off + limit))"
    obtain w1 where t: "data_turn u tr img limit s off w = (Inr (), w1)"
      and l: "data_loop u tr img limit ((s + 1) mod 2 ^ 32) ?off w1 = (Inr (s', off'), w')"
      using less.prems(1,5) True
      by (auto simp: data_loop.simps [of u tr img limit s off w] split: prod.splits sum.splits)
    have "length img - ?off < length img - off" "?off \<le> length img"
      using True less.prems(5) by (auto simp: length_slice)
    then show ?thesis
      using less.hyps [OF _ l] data_turn_stores [OF t less.prems(2-4)] less.prems(5) by simp
  qed
qed

lemma handshake_Inr:
  assumes "handshake u tr w = (Inr ready, w')"
  obtains w0 line w1 ok where "check_cancelled tr 0 0 w = (Inr (), w0)"
    "ask tr BEGIN_COMMAND (up_ack_timeout u) w0 = (Inr (Some line), w1)"
    "ut_readline tr (up_ack_timeout u) w1 = (Inr ok, w')"
proof -
  obtain w0 reply w1 where c: "check_cancelled tr 0 0 w = (Inr (), w0)"
    and a: "ask tr BEGIN_COMMAND (up_ack_timeout u) w0 = (Inr reply, w1)"
    and k: "handshake_answer u tr reply w1 = (Inr ready, w')"
    using assms by (auto simp: handshake_def ask_def io_bind_Inr_iff)
  obtain line where r: "reply = Some line" "handshake_ready u tr line w1 = (Inr ready, w')"
    using k by (auto simp: handshake_answer_def io_raise_def split: option.splits if_splits)
  then obtain ok where "ut_readline tr (up_ack_timeout u) w1 = (Inr ok, w')"
    by (auto simp: handshake_ready_def io_bind_Inr_iff io_lift_def io_raise_def io_return_def
        split: if_splits)
  then show thesis using that c a r(1) by blast
qed

text \<open>An upload that returns has put exactly the image of the package on the device.\<close>

lemma upload_stores:
  assumes "upload u package tr target w = (Inr summary, w')" and "good w"
  shows "\<exists>m. package_ok package m \<and> stored w' = drop 512 package \<and> mf_target_id m = target \<and>
    ss_staged_crc summary = Some (int (mf_image_crc32 m)) \<and> ss_image_crc32 summary = mf_image_crc32 m \<and>
    ss_image_size summary = length package - 512 \<and> ss_app_version summary = mf_app_version m"
proof -
  define img where "img = drop MANIFEST_BLOCK_SIZE package"
  obtain m where m: "validate_package package = Inr m" "mf_target_id m = target"
    using assms(1) by (auto simp: upload_def io_bind_Inr_iff io_lift_def io_raise_def split: if_splits)
  obtain w1 w2 mx ch w3 r1 w4 w5 s off w6 w7 w8 r2 w9 line w10 x where
    s1: "notify tr 0 (length img) PHASE_HANDSHAKE w = (Inr (), w1)"
    and s2: "handshake u tr w1 = (Inr (mx, ch), w2)"
    and lim: "0 < payload_limit ch"
    and s3: "notify tr 0 (length img) PHASE_BEGIN w2 = (Inr (), w3)"
    and s4: "exchange u tr (begin_frame (take BEGIN_PAYLOAD_SIZE (take MANIFEST_BLOCK_SIZE package)))
        (up_ack_timeout u) w3 = (Inr r1, w4)"
    and s5: "notify tr 0 (length img) PHASE_DATA w4 = (Inr (), w5)"
    and s6: "data_loop u tr img (nat (payload_limit ch)) 1 0 w5 = (Inr (s, off), w6)"
    and s7: "notify tr (length img) (length img) PHASE_COMMIT w6 = (Inr (), w7)"
    and s8: "check_cancelled tr (int s) (int off) w7 = (Inr (), w8)"
    and s9: "exchange u tr (commit_frame s off) (up_commit_timeout u) w8 = (Inr r2, w9)"
    and st: "staged r2"
    and s10: "ut_readline tr (up_ack_timeout u) w9 = (Inr line, w10)"
    and s11: "notify tr (length img) (length img) PHASE_STAGED w10 = (Inr x, w')"
    and sum: "ss_staged_crc summary = dr_crc r2" "ss_image_crc32 summary = mf_image_crc32 m"
      "ss_image_size summary = length img" "ss_app_version summary = mf_app_version m"
    using assms(1) m
    by (auto simp: upload_def io_bind_Inr_iff io_lift_def io_raise_def io_return_def Let_def img_def
        begin_frame_def commit_frame_def split: if_splits prod.splits)
  obtain h0 h1 l h2 where h: "check_cancelled tr 0 0 w1 = (Inr (), h0)"
    "ask tr BEGIN_COMMAND (up_ack_timeout u) h0 = (Inr (Some l), h1)"
    "ut_readline tr (up_ack_timeout u) h1 = (Inr h2, w2)"
    using s2 by (rule handshake_Inr)
  have "good h0" using notify_keeps [OF s1] check_cancelled_keeps [OF h(1)] assms(2) by simp
  then have "good w3 \<and> stored w3 = []" using handshake_law [OF _ h(2,3)] notify_keeps [OF s3] by simp
  then have "good w5 \<and> stored w5 = []"
    using exchange_begin exchange_Inr [OF s4] notify_keeps [OF s5] by metis
  then have "good w6 \<and> stored w6 = img" using data_loop_stores [OF s6] lim by simp
  then have "good w8 \<and> stored w8 = img" using notify_keeps [OF s7] check_cancelled_keeps [OF s8] by simp
  then have "committed w9 \<and> stored w9 = img \<and> dr_crc r2 = Some (int (crc32 img))"
    using exchange_commit exchange_Inr [OF s9] st by metis
  then have "stored w' = img" "dr_crc r2 = Some (int (crc32 img))"
    using readline_committed [OF _ s10] notify_keeps [OF s11] by simp_all
  moreover have "package_ok package m" using m(1) by (simp add: validate_package_Inr)
  ultimately show ?thesis
    using m(2) sum by (auto simp: package_ok_def img_def const_simps)
qed

end

section \<open>A device that answers\<close>

text \<open>
  A link on which no cancellation comes and every burst is answered in time, as a \<open>ready\<close> device
  answers it. For such a link the upload returns.
\<close>

locale responsive_device = ota_device +
  fixes ready :: "'a \<Rightarrow> bool" and max_image :: nat and chunk :: nat
  assumes ready_good: "ready w \<Longrightarrow> good w"
    and chunk_pos: "0 < chunk"
    and poll_ready: "ready w \<Longrightarrow> ut_cancel_requested tr = Some c \<Longrightarrow> \<exists>w'. c w = (Inr False, w') \<and> ready w'"
    and progress_ready: "ready w \<Longrightarrow> ut_progress tr = Some p \<Longrightarrow> \<exists>w'. p m n ph w = (Inr (), w') \<and> ready w'"
    and progress_returns: "ut_progress tr = Some p \<Longrightarrow> \<exists>w'. p m n ph w = (Inr (), w')"
    and handshake_ready_law: "ready w \<Longrightarrow>
      \<exists>line w1 ok w2. ask tr BEGIN_COMMAND t w = (Inr (Some line), w1) \<and>
        starts_with (blit ''+OTA:READY,'') (bytes_strip line) \<and> parse_ready line = Inr (int max_image, int chunk) \<and>
        ut_readline tr t w1 = (Inr (Some ok), w2) \<and> bytes_strip ok = blit ''OK'' \<and> ready w2"
    and begin_ready: "ready w \<Longrightarrow> frame_fits (begin_frame pl) \<Longrightarrow>
      \<exists>line resp w'. ask tr (wire_frame (begin_frame pl)) t w = (Inr (Some line), w') \<and>
        parse_response line = Inr resp \<and> dr_acknowledged resp \<and> dr_next_offset resp = 0 \<and> ready w'"
    and data_ready: "ready w \<Longrightarrow> frame_fits (data_frame s off pl) \<Longrightarrow> off = length (stored w) \<Longrightarrow>
      \<exists>line resp w'. ask tr (wire_frame (data_frame s off pl)) t w = (Inr (Some line), w') \<and>
        parse_response line = Inr resp \<and> dr_acknowledged resp \<and>
        dr_next_offset resp = int (off + length pl) \<and> ready w'"
    and commit_ready: "ready w \<Longrightarrow> frame_fits (commit_frame s off) \<Longrightarrow>
      \<exists>line resp w'. ask tr (wire_frame (commit_frame s off)) t w = (Inr (Some line), w') \<and>
        parse_response line = Inr resp \<and> dr_acknowledged resp \<and> staged resp"
    and readline_returns: "committed w \<Longrightarrow> \<exists>r w'. ut_readline tr t w = (Inr r, w')"
begin

lemma notify_ready: "ready w \<Longrightarrow> \<exists>w'. notify tr m n ph w = (Inr (), w') \<and> ready w' \<and> stored w' = stored w"
proof (cases "ut_progress tr")
  case None
  then show "ready w \<Longrightarrow> ?thesis" by (simp add: notify_def io_return_def)
next
  case (Some p)
  assume "ready w"
  then obtain w' where w': "p m n ph w = (Inr (), w')" "ready w'" using progress_ready Some by blast
  then show ?thesis using Some progress_keeps [OF Some w'(1)] by (simp add: notify_def)
qed

lemma notify_returns: "\<exists>w'. notify tr m n ph w = (Inr (), w')"
  using progress_returns by (auto simp: notify_def io_return_def split: option.splits)

lemma check_ready: "ready w \<Longrightarrow> \<exists>w'. check_cancelled tr s f w = (Inr (), w') \<and> ready w' \<and> stored w' = stored w"
proof (cases "ut_cancel_requested tr")
  case None
  then show "ready w \<Longrightarrow> ?thesis" by (simp add: check_cancelled_def io_return_def)
next
  case (Some c)
  assume "ready w"
  then obtain w' where w': "c w = (Inr False, w')" "ready w'" using poll_ready Some by blast
  then show ?thesis using Some poll_keeps [OF Some w'(1)] by (simp add: check_cancelled_def io_bind_def io_return_def)
qed

text \<open>A frame that the device acknowledges in every ready state is acknowledged at the first attempt.\<close>

lemma exchange_answered:
  assumes r: "ready w" and f: "frame_fits f" "frame_shape f"
    and a: "\<And>w. ready w \<Longrightarrow> stored w = S \<Longrightarrow>
      \<exists>line resp w'. ask tr (wire_frame f) t w = (Inr (Some line), w') \<and> parse_response line = Inr resp \<and>
        dr_acknowledged resp \<and> Q resp w'"
    and s: "stored w = S"
  shows "\<exists>resp w'. exchange u tr f t w = (Inr resp, w') \<and> Q resp w'"
proof -
  obtain w0 where c: "check_cancelled tr (uf_sequence f) (uf_offset f) w = (Inr (), w0)" "ready w0" "stored w0 = S"
    using check_ready [OF r] s by blast
  obtain line resp w' where l: "ask tr (wire_frame f) t w0 = (Inr (Some line), w')"
    "parse_response line = Inr resp" "dr_acknowledged resp" "Q resp w'"
    using a [OF c(2,3)] by blast
  have "ota_encode_frame f = Inr (wire_frame f)" using f by (simp add: ota_encode_frame_Inr)
  moreover have "read_reply line = Inr resp" using l(2) by (simp add: read_reply_Inr)
  ultimately have "exchange u tr f t w = (Inr resp, w')"
    using c(1) l(1,3)
    by (auto simp: exchange_def exchange_attempts.simps(2) ask_def io_bind_def io_lift_def io_return_def
        split: prod.splits sum.splits)
  then show ?thesis using l(4) by blast
qed

lemma data_turn_returns:
  assumes "ready w" and "stored w = take off img" and "off < length img" and "length img \<le> 2 ^ 32"
    and "s < 2 ^ 32" and "limit \<le> 512"
  shows "\<exists>w'. data_turn u tr img limit s off w = (Inr (), w') \<and> ready w'"
proof -
  define pl where "pl = slice img off (off + limit)"
  have fits: "frame_fits (data_frame s off pl)" "frame_shape (data_frame s off pl)"
    using assms(3-6) by (auto simp: frame_fits_def frame_shape_def data_frame_def pl_def length_slice)
  obtain w0 where c: "check_cancelled tr (int s) (int off) w = (Inr (), w0)" "ready w0" "stored w0 = take off img"
    using check_ready [OF assms(1)] assms(2) by metis
  have "\<exists>resp w'. exchange u tr (data_frame s off pl) (up_ack_timeout u) w0 = (Inr resp, w') \<and>
      (dr_next_offset resp = int (off + length pl) \<and> ready w')"
  proof (rule exchange_answered [OF c(2) fits _ c(3)])
    fix v assume v: "ready v" "stored v = take off img"
    then have "off = length (stored v)" using assms(3) by simp
    from data_ready [OF v(1) fits(1) this]
    show "\<exists>line resp w'. ask tr (wire_frame (data_frame s off pl)) (up_ack_timeout u) v = (Inr (Some line), w') \<and>
        parse_response line = Inr resp \<and> dr_acknowledged resp \<and>
        dr_next_offset resp = int (off + length pl) \<and> ready w'" .
  qed
  then obtain resp w1 where e: "exchange u tr (data_frame s off pl) (up_ack_timeout u) w0 = (Inr resp, w1)"
    "dr_next_offset resp = int (off + length pl)" "ready w1" by blast
  obtain w2 where n: "notify tr (off + length pl) (length img) PHASE_DATA w1 = (Inr (), w2)" "ready w2"
    using notify_ready [OF e(3)] by blast
  show ?thesis
    using c(1) e(1,2) n
    by (simp add: data_turn_def io_bind_def pl_def [symmetric] data_frame_def [symmetric] Let_def)
qed

lemma data_loop_returns:
  "ready w \<Longrightarrow> stored w = take off img \<Longrightarrow> off \<le> length img \<Longrightarrow> length img \<le> 2 ^ 32 \<Longrightarrow> s < 2 ^ 32 \<Longrightarrow>
     0 < limit \<Longrightarrow> limit \<le> 512 \<Longrightarrow>
     \<exists>s' w'. data_loop u tr img limit s off w = (Inr (s', length img), w') \<and> ready w' \<and> s' < 2 ^ 32"
proof (induction "length img - off" arbitrary: s off w rule: less_induct)
  case less
  show ?case
  proof (cases "off < length img")
    case False
    then show ?thesis using less.prems data_loop.simps [of u tr img limit s off w] by simp
  next
    case True
    let ?off = "off + length (slice img off (off + limit))"
    obtain w1 where t: "data_turn u tr img limit s off w = (Inr (), w1)" "ready w1"
      using data_turn_returns [of w off img s limit u] less.prems True by blast
    have st: "stored w1 = take ?off img"
      using data_turn_stores [OF t(1) ready_good [OF less.prems(1)] less.prems(2,3)] by blast
    have "length img - ?off < length img - off" "?off \<le> length img"
      using True less.prems(6) by (auto simp: length_slice)
    then obtain s' w' where "data_loop u tr img limit ((s + 1) mod 2 ^ 32) ?off w1 = (Inr (s', length img), w')"
      "ready w'" "s' < 2 ^ 32"
      using less.hyps [of ?off w1 "(s + 1) mod 2 ^ 32"] t(2) st less.prems by auto
    then show ?thesis
      using True t(1) less.prems(6) by (simp add: data_loop.simps [of u tr img limit s off w])
  qed
qed

lemma handshake_returns:
  assumes "ready w"
  shows "\<exists>w'. handshake u tr w = (Inr (int max_image, int chunk), w') \<and> ready w'"
proof -
  obtain w0 where c: "check_cancelled tr 0 0 w = (Inr (), w0)" "ready w0" using check_ready [OF assms] by blast
  obtain line w1 ok w2 where h: "ask tr BEGIN_COMMAND (up_ack_timeout u) w0 = (Inr (Some line), w1)"
    "starts_with (blit ''+OTA:READY,'') (bytes_strip line)" "parse_ready line = Inr (int max_image, int chunk)"
    "ut_readline tr (up_ack_timeout u) w1 = (Inr (Some ok), w2)" "bytes_strip ok = blit ''OK''" "ready w2"
    using handshake_ready_law [OF c(2)] by blast
  have "handshake u tr w = handshake_answer u tr (Some line) w1"
    using c(1) h(1) by (auto simp: handshake_def ask_def io_bind_def split: prod.splits sum.splits)
  also have "\<dots> = (Inr (int max_image, int chunk), w2)"
    using h(2-5) by (simp add: handshake_answer_def handshake_ready_def io_bind_def io_lift_def io_return_def)
  finally show ?thesis using h(6) by blast
qed

text \<open>The opening of an upload, up to the first DATA frame, and its end, from the COMMIT on.\<close>

lemma opening_returns:
  assumes "ready w" and "length bp = 80"
  shows "\<exists>w1 w2 w3 r w4 w5. notify tr 0 n PHASE_HANDSHAKE w = (Inr (), w1) \<and>
    handshake u tr w1 = (Inr (int max_image, int chunk), w2) \<and> notify tr 0 n PHASE_BEGIN w2 = (Inr (), w3) \<and>
    exchange u tr (begin_frame bp) (up_ack_timeout u) w3 = (Inr r, w4) \<and> dr_next_offset r = 0 \<and>
    notify tr 0 n PHASE_DATA w4 = (Inr (), w5) \<and> ready w5 \<and> stored w5 = []"
proof -
  have bf: "frame_fits (begin_frame bp)" "frame_shape (begin_frame bp)"
    using assms(2) by (simp_all add: frame_fits_def frame_shape_def begin_frame_def)
  obtain w1 where s1: "notify tr 0 n PHASE_HANDSHAKE w = (Inr (), w1)" "ready w1"
    using notify_ready [OF assms(1)] by blast
  obtain w2 where s2: "handshake u tr w1 = (Inr (int max_image, int chunk), w2)" "ready w2"
    using handshake_returns [OF s1(2)] by blast
  obtain w3 where s3: "notify tr 0 n PHASE_BEGIN w2 = (Inr (), w3)" "ready w3" "stored w3 = stored w2"
    using notify_ready [OF s2(2)] by blast
  obtain r w4 where s4: "exchange u tr (begin_frame bp) (up_ack_timeout u) w3 = (Inr r, w4)"
      "dr_next_offset r = 0" "ready w4"
    using exchange_answered [OF s3(2) bf, of "stored w3" "up_ack_timeout u" "\<lambda>r w. dr_next_offset r = 0 \<and> ready w" u]
      begin_ready [OF _ bf(1)] by blast
  obtain h0 l h1 h2 where h: "check_cancelled tr 0 0 w1 = (Inr (), h0)"
      "ask tr BEGIN_COMMAND (up_ack_timeout u) h0 = (Inr (Some l), h1)"
      "ut_readline tr (up_ack_timeout u) h1 = (Inr h2, w2)"
    using s2(1) by (rule handshake_Inr)
  have "good h0" using check_cancelled_keeps [OF h(1)] ready_good [OF s1(2)] by blast
  then have "stored w3 = []" using handshake_law [OF _ h(2,3)] s3(3) by simp
  then have "stored w4 = []"
    using exchange_begin exchange_Inr [OF s4(1)] ready_good [OF s3(2)] bf(1) by metis
  then obtain w5 where "notify tr 0 n PHASE_DATA w4 = (Inr (), w5)" "ready w5" "stored w5 = []"
    using notify_ready [OF s4(3)] by metis
  then show ?thesis using s1(1) s2(1) s3(1) s4(1,2) by blast
qed

lemma closing_returns:
  assumes "ready w" and "s < 2 ^ 32" and "n < 2 ^ 32"
  shows "\<exists>w1 w2 r w3 l w4 w5. notify tr n n PHASE_COMMIT w = (Inr (), w1) \<and>
    check_cancelled tr (int s) (int n) w1 = (Inr (), w2) \<and>
    exchange u tr (commit_frame s n) (up_commit_timeout u) w2 = (Inr r, w3) \<and> staged r \<and>
    ut_readline tr (up_ack_timeout u) w3 = (Inr l, w4) \<and> notify tr n n PHASE_STAGED w4 = (Inr (), w5)"
proof -
  have cf: "frame_fits (commit_frame s n)" "frame_shape (commit_frame s n)"
    using assms(2,3) by (auto simp: frame_fits_def frame_shape_def commit_frame_def)
  obtain w1 where s1: "notify tr n n PHASE_COMMIT w = (Inr (), w1)" "ready w1"
    using notify_ready [OF assms(1)] by blast
  obtain w2 where s2: "check_cancelled tr (int s) (int n) w1 = (Inr (), w2)" "ready w2"
    using check_ready [OF s1(2)] by blast
  obtain r w3 where s3: "exchange u tr (commit_frame s n) (up_commit_timeout u) w2 = (Inr r, w3)" "staged r"
    using exchange_answered [OF s2(2) cf, of "stored w2" "up_commit_timeout u" "\<lambda>r w. staged r" u]
      commit_ready [OF _ cf(1)] by blast
  have "committed w3" using exchange_commit exchange_Inr [OF s3(1)] ready_good [OF s2(2)] cf(1) by metis
  then obtain l w4 where s4: "ut_readline tr (up_ack_timeout u) w3 = (Inr l, w4)"
    using readline_returns by blast
  then show ?thesis using s1(1) s2(1) s3 notify_returns by blast
qed

text \<open>An upload of a valid package that the device has room for returns.\<close>

lemma upload_returns:
  assumes "ready w" and "package_ok package m" and "mf_target_id m = target"
    and "length package - 512 \<le> max_image"
  shows "\<exists>summary w'. upload u package tr target w = (Inr summary, w')"
proof -
  define img where "img = drop MANIFEST_BLOCK_SIZE package"
  define bp where "bp = take BEGIN_PAYLOAD_SIZE (take MANIFEST_BLOCK_SIZE package)"
  define limit where "limit = nat (payload_limit (int chunk))"
  have img: "length img \<le> max_image" "length img < 2 ^ 32" "length bp = 80"
    using assms(2,4) by (auto simp: img_def bp_def const_simps package_ok_def)
  have lim: "0 < payload_limit (int chunk)" "0 < limit" "limit \<le> 512"
    using chunk_pos by (auto simp: limit_def payload_limit_def const_simps)
  obtain w1 w2 w3 r1 w4 w5 where o: "notify tr 0 (length img) PHASE_HANDSHAKE w = (Inr (), w1)"
      "handshake u tr w1 = (Inr (int max_image, int chunk), w2)"
      "notify tr 0 (length img) PHASE_BEGIN w2 = (Inr (), w3)"
      "exchange u tr (begin_frame bp) (up_ack_timeout u) w3 = (Inr r1, w4)" "dr_next_offset r1 = 0"
      "notify tr 0 (length img) PHASE_DATA w4 = (Inr (), w5)" and w5: "ready w5" "stored w5 = []"
    using opening_returns [OF assms(1) img(3), of "length img" u] by blast
  obtain s w6 where d: "data_loop u tr img limit 1 0 w5 = (Inr (s, length img), w6)"
    and w6: "ready w6" "s < 2 ^ 32"
    using data_loop_returns [OF w5(1), of 0 img 1 limit u] w5(2) img(2) lim(2,3) by auto
  obtain w7 w8 r2 w9 l w10 w11 where c: "notify tr (length img) (length img) PHASE_COMMIT w6 = (Inr (), w7)"
      "check_cancelled tr (int s) (int (length img)) w7 = (Inr (), w8)"
      "exchange u tr (commit_frame s (length img)) (up_commit_timeout u) w8 = (Inr r2, w9)" "staged r2"
      "ut_readline tr (up_ack_timeout u) w9 = (Inr l, w10)"
      "notify tr (length img) (length img) PHASE_STAGED w10 = (Inr (), w11)"
    using closing_returns [OF w6 img(2), of u] by blast
  have m: "validate_package package = Inr m" using assms(2) by (simp add: validate_package_Inr)
  show ?thesis
    using m assms(3) img(1) lim o d c
    by (simp add: upload_def io_bind_def io_lift_def io_return_def Let_def img_def [symmetric] bp_def [symmetric]
        limit_def [symmetric] begin_frame_def [symmetric] commit_frame_def [symmetric] del: take_take)
qed

end

end
