(* ===== verification/FakeTransport.thy ===== *)
theory FakeTransport
  imports StreamParser OtaCodec
begin

text \<open>
  \<^verbatim>\<open>transport/base.py\<close> and \<^verbatim>\<open>transport/fake.py\<close>: the simulated sensor. It answers control
  lines with framed CLI responses, produces sensor frames when read, exports its simulated SD
  archive and plays the device side of an OTA session.

  \<^verbatim>\<open>math.sin\<close> and \<^verbatim>\<open>math.cos\<close> are parameters. The clock is the list of the values the calls of
  \<^verbatim>\<open>clock()\<close> in one \<^verbatim>\<open>read\<close> return; sleeping only lets time pass between two of them.
\<close>

section \<open>State\<close>

record libm =
  lm_sin :: "float64 \<Rightarrow> float64"
  lm_cos :: "float64 \<Rightarrow> float64"

definition libm_ok :: "libm \<Rightarrow> bool" where
  "libm_ok lm \<longleftrightarrow> (\<forall>x. \<bar>lm_sin lm x\<bar> \<le> 1 \<and> \<bar>lm_cos lm x\<bar> \<le> 1)"

record device_descriptor =
  dd_device_id :: pystr
  dd_label :: pystr
  dd_vid :: "nat option"
  dd_pid :: "nat option"

definition ARCHIVE_FLAG :: nat where [const_simps]: "ARCHIVE_FLAG = 0x8000"
definition MAXIMUM_CONTROL_BYTES :: nat where [const_simps]: "MAXIMUM_CONTROL_BYTES = 94"
definition LIVE_INTERVAL_SECONDS :: float64 where "LIVE_INTERVAL_SECONDS = fl (5 / 100)"
definition EXPORT_INTERVAL_SECONDS :: float64 where "EXPORT_INTERVAL_SECONDS = fl (12 / 100)"
definition TIMESTAMP_START_US :: nat where [const_simps]: "TIMESTAMP_START_US = 1700000000000000"
definition JY_SAMPLE_PERIOD_US :: nat where [const_simps]: "JY_SAMPLE_PERIOD_US = 37500"
definition FAKE_TICK_US :: nat where [const_simps]: "FAKE_TICK_US = 25"
definition SD_CAPACITY_BYTES :: nat where [const_simps]: "SD_CAPACITY_BYTES = 16384"
definition SD_FRAME_COUNT :: nat where [const_simps]: "SD_FRAME_COUNT = 24"
definition SD_FRAME_BYTES :: nat where [const_simps]: "SD_FRAME_BYTES = 62"
definition OTA_MAX_IMAGE :: nat where [const_simps]: "OTA_MAX_IMAGE = 327680"
definition OTA_CHUNK :: nat where [const_simps]: "OTA_CHUNK = 512"
definition OTA_APP_VERSION :: pystr where "OTA_APP_VERSION = lit ''1.0.0''"
definition FAKE_DEVICE_ID :: pystr where "FAKE_DEVICE_ID = lit ''FAKE-001''"
definition FAKE_DEVICE_UUID :: nat where
  "FAKE_DEVICE_UUID = 0x550e8400e29b41d4a716446655440000"
definition FAKE_UUID_TEXT :: pystr where
  "FAKE_UUID_TEXT = lit ''550e8400-e29b-41d4-a716-446655440000''"

record fake =
  fk_opened :: bool
  fk_state :: pystr
  fk_live_target :: pystr
  fk_export_target :: pystr
  fk_export_active :: bool
  fk_export_frame_index :: nat
  fk_next_live_at :: float64
  fk_next_export_at :: float64
  fk_sensor_sequence :: nat
  fk_cli_sequence :: nat
  fk_sensor_frame_index :: nat
  fk_pending_packets :: "bytes list"
  fk_pending_bytes :: bytes
  fk_sd_used :: nat
  fk_sd_retained_frames :: nat
  fk_sd_retained_chunks :: nat
  fk_sd_overwritten_frames :: nat
  fk_raw_writes :: "bytes list"
  fk_ota_active :: bool
  fk_ota_next_offset :: nat
  fk_ota_image :: bytes

definition FakeTransport_init :: fake where
  "FakeTransport_init =
     \<lparr>fk_opened = False, fk_state = lit ''IDLE'', fk_live_target = lit ''UART'',
      fk_export_target = lit ''NONE'', fk_export_active = False, fk_export_frame_index = 0,
      fk_next_live_at = 0, fk_next_export_at = 0, fk_sensor_sequence = 0, fk_cli_sequence = 0,
      fk_sensor_frame_index = 0, fk_pending_packets = [], fk_pending_bytes = [],
      fk_sd_used = SD_FRAME_COUNT * SD_FRAME_BYTES, fk_sd_retained_frames = SD_FRAME_COUNT,
      fk_sd_retained_chunks = 1, fk_sd_overwritten_frames = 0, fk_raw_writes = [],
      fk_ota_active = False, fk_ota_next_offset = 0, fk_ota_image = []\<rparr>"

definition fake_discover :: "device_descriptor list" where
  "fake_discover =
     [\<lparr>dd_device_id = FAKE_DEVICE_ID,
       dd_label = lit ''FAKE-001 '' @ [0x2014] @ lit '' Simulated Sensor'',
       dd_vid = None, dd_pid = None\<rparr>]"

definition fake_open :: "float64 \<Rightarrow> pystr \<Rightarrow> fake \<Rightarrow> fake res" where
  "fake_open now device_id k =
     (if device_id \<noteq> FAKE_DEVICE_ID then Inl (TransportError ''unknown fake device {}'')
      else if fk_opened k then Inl (TransportError ''a fake endpoint is already open'')
      else Inr (k\<lparr>fk_opened := True, fk_next_live_at := now\<rparr>))"

definition fake_close :: "fake \<Rightarrow> fake" where
  "fake_close k =
     k\<lparr>fk_opened := False, fk_pending_packets := [], fk_pending_bytes := [],
       fk_export_active := False, fk_export_target := lit ''NONE'', fk_state := lit ''IDLE'',
       fk_ota_active := False, fk_ota_next_offset := 0, fk_ota_image := []\<rparr>"

definition require_open :: "fake \<Rightarrow> unit res" where
  "require_open k = (if fk_opened k then Inr () else Inl (TransportError ''fake endpoint is not open''))"

section \<open>Frames\<close>

text \<open>\<^verbatim>\<open>_HEADER.pack\<close> with format \<^verbatim>\<open><4sBBHHHIQHH\<close>, and the CRC behind the content.\<close>

definition sdf1_header :: "nat \<Rightarrow> message_type \<Rightarrow> nat \<Rightarrow> nat \<Rightarrow> nat \<Rightarrow> nat \<Rightarrow> nat \<Rightarrow> nat \<Rightarrow> bytes" where
  "sdf1_header version t flags header_size payload_size sequence timestamp item_count =
     MAGIC @ to_le 1 version @ to_le 1 (message_type_value t) @ to_le 2 flags @ to_le 2 header_size
     @ to_le 2 payload_size @ to_le 4 sequence @ to_le 8 timestamp @ to_le 2 item_count @ to_le 2 0"

definition with_crc :: "bytes \<Rightarrow> bytes" where
  "with_crc content = content @ to_le 4 (crc32 content)"

definition encode_data_frame :: "message_type \<Rightarrow> bytes \<Rightarrow> nat \<Rightarrow> nat \<Rightarrow> nat \<Rightarrow> nat \<Rightarrow> bytes" where
  "encode_data_frame t payload item_count sequence timestamp_us flags =
     with_crc (sdf1_header 2 t flags DATA_HEADER_SIZE (length payload) sequence timestamp_us item_count
       @ to_be 16 FAKE_DEVICE_UUID @ payload)"

definition cli_frame :: "nat \<Rightarrow> pystr \<Rightarrow> bytes" where
  "cli_frame sequence s =
     with_crc (sdf1_header 1 CLI_RESPONSE 0 HEADER_SIZE (length s) sequence
       (TIMESTAMP_START_US + sequence) 1 @ ascii_encode s)"

definition queue_cli :: "pystr \<Rightarrow> fake \<Rightarrow> fake" where
  "queue_cli s k =
     (let n = fk_cli_sequence k + 1
      in k\<lparr>fk_cli_sequence := n, fk_pending_packets := fk_pending_packets k @ [cli_frame n s]\<rparr>)"

definition queue_raw :: "bytes \<Rightarrow> fake \<Rightarrow> fake" where
  "queue_raw data k = k\<lparr>fk_pending_packets := fk_pending_packets k @ [data]\<rparr>"

text \<open>\<^verbatim>\<open>int(x)\<close> truncates; \<^verbatim>\<open>struct.pack("<h", i)\<close> of a value in range.\<close>

definition trunc :: "float64 \<Rightarrow> int" where
  "trunc x = (if 0 \<le> x then \<lfloor>x\<rfloor> else - \<lfloor>- x\<rfloor>)"

definition pack_h :: "int \<Rightarrow> bytes" where
  "pack_h i = to_le 2 (u16 i)"

definition scaled :: "nat \<Rightarrow> float64 \<Rightarrow> int" where
  "scaled n x = trunc (fmul (of_nat n) x)"

definition iis_phase :: "nat \<Rightarrow> nat \<Rightarrow> float64" where
  "iis_phase frame_index sample_index =
     fadd (fmul (of_pyint (int frame_index)) (fl (18 / 100)))
          (fmul (of_nat sample_index) (fl (31 / 100)))"

definition iis_raw :: "libm \<Rightarrow> float64 \<Rightarrow> int list" where
  "iis_raw lm phase =
     [scaled 6000 (lm_sin lm phase), scaled 5000 (lm_cos lm (fmul phase (fl (8 / 10)))),
      16384 + scaled 300 (lm_sin lm (fmul phase (fl (4 / 10))))]"

definition iis_payload :: "libm \<Rightarrow> nat \<Rightarrow> nat \<Rightarrow> bytes" where
  "iis_payload lm frame_index timestamp_ticks =
     (32 # to_le 4 timestamp_ticks @ [0, 0])
     @ concat (map (\<lambda>i. 16 # concat (map pack_h (iis_raw lm (iis_phase frame_index i)))) [0..<8])"

definition make_iis_frame :: "libm \<Rightarrow> fake \<Rightarrow> bytes \<times> fake" where
  "make_iis_frame lm k =
     (let frame_index = fk_sensor_frame_index k;
          timestamp_us = TIMESTAMP_START_US + frame_index * JY_SAMPLE_PERIOD_US;
          timestamp_ticks = (timestamp_us div FAKE_TICK_US) mod 2 ^ 32;
          n = fk_sensor_sequence k + 1
      in (encode_data_frame IIS3DWB_FIFO (iis_payload lm frame_index timestamp_ticks) 9 n timestamp_us 0,
          k\<lparr>fk_sensor_sequence := n\<rparr>))"

definition jy_raw_values :: "libm \<Rightarrow> nat \<Rightarrow> int list" where
  "jy_raw_values lm frame_index =
     (let phase = fmul (of_pyint (int frame_index)) (fl (14 / 100)) in
      [scaled 4000 (lm_sin lm phase), scaled 4000 (lm_cos lm phase), 16384, 2500,
       scaled 8000 (lm_sin lm (fmul phase (5 / 10))),
       scaled 6000 (lm_cos lm (fmul phase (fl (6 / 10)))),
       scaled 3000 (lm_sin lm (fmul phase (fl (7 / 10))))])"

definition make_jy_frame :: "libm \<Rightarrow> bool \<Rightarrow> nat option \<Rightarrow> fake \<Rightarrow> bytes \<times> fake" where
  "make_jy_frame lm archive sequence k =
     (let frame_index = fk_sensor_frame_index k + fk_export_frame_index k;
          timestamp_us = TIMESTAMP_START_US + max frame_index 1 * JY_SAMPLE_PERIOD_US;
          (n, k') = (case sequence of
             None \<Rightarrow> (fk_sensor_sequence k + 1, k\<lparr>fk_sensor_sequence := fk_sensor_sequence k + 1\<rparr>)
           | Some s \<Rightarrow> (s, k))
      in (encode_data_frame JY61PL_SAMPLE (concat (map pack_h (jy_raw_values lm frame_index))) 1 n
            timestamp_us (if archive then ARCHIVE_FLAG else 0), k'))"

definition make_live_frame :: "libm \<Rightarrow> fake \<Rightarrow> bytes \<times> fake" where
  "make_live_frame lm k =
     (let k' = k\<lparr>fk_sensor_frame_index := fk_sensor_frame_index k + 1\<rparr>
      in if odd (fk_sensor_frame_index k') then make_iis_frame lm k'
         else make_jy_frame lm False None k')"

section \<open>Control commands\<close>

definition crlf :: pystr where "crlf = [13, 10]"

definition state_reply :: "fake \<Rightarrow> pystr" where
  "state_reply k =
     lit ''+STATE:'' @ fk_state k @ crlf
     @ lit ''+SD:USED='' @ dec_digits (fk_sd_used k) @ lit '',CAPACITY='' @ dec_digits SD_CAPACITY_BYTES
     @ lit '',PENDING_FRAMES=0,RETAINED_CHUNKS='' @ dec_digits (fk_sd_retained_chunks k)
     @ lit '',RETAINED_FRAMES='' @ dec_digits (fk_sd_retained_frames k)
     @ lit '',OVERWRITTEN_CHUNKS=0,OVERWRITTEN_FRAMES='' @ dec_digits (fk_sd_overwritten_frames k)
     @ lit '',READY=1,FORMAT_REQUIRED=0'' @ crlf
     @ lit ''+EXPORT:TARGET='' @ fk_export_target k @ lit '',CHUNK='' @ dec_digits (fk_export_frame_index k)
     @ lit '',FRAME='' @ dec_digits (fk_export_frame_index k) @ crlf
     @ lit ''+OTA:STATE=OFF,RECEIVED=0,TOTAL=0,ERROR=0'' @ crlf @ lit ''OK'' @ crlf"

definition ok_text :: pystr where "ok_text = lit ''OK'' @ crlf"
definition error_state_text :: pystr where "error_state_text = lit ''ERROR:STATE'' @ crlf"

definition idle_or_error :: "fake \<Rightarrow> bool" where
  "idle_or_error k \<longleftrightarrow> fk_state k \<in> {lit ''IDLE'', lit ''ERROR''}"

definition handle_acquisition_command :: "pystr \<Rightarrow> fake \<Rightarrow> fake" where
  "handle_acquisition_command command k =
     (if command = lit ''AT+START'' then
        (if \<not> idle_or_error k then queue_cli error_state_text k
         else queue_cli (lit ''+STATE:ACQUIRE'' @ crlf @ ok_text) (k\<lparr>fk_state := lit ''ACQUIRE''\<rparr>))
      else
        let k' = (if fk_export_active k
                  then k\<lparr>fk_export_active := False, fk_export_target := lit ''NONE'',
                         fk_export_frame_index := 0\<rparr> else k)
        in if fk_state k' \<in> {lit ''ACQUIRE'', lit ''EXPORT'', lit ''IDLE'', lit ''ERROR''}
           then queue_cli ok_text (k'\<lparr>fk_state := lit ''IDLE''\<rparr>)
           else queue_cli error_state_text k')"

definition start_export :: "float64 \<Rightarrow> pystr \<Rightarrow> fake \<Rightarrow> fake" where
  "start_export now target k =
     (if target \<notin> {lit ''UART'', lit ''CDC''} \<or> \<not> idle_or_error k then queue_cli error_state_text k
      else if fk_sd_retained_frames k = 0 then queue_cli (lit ''EXPORT_EMPTY'' @ crlf) k
      else queue_cli (lit ''EXPORT_BEGIN:'' @ target @ crlf @ ok_text)
        (k\<lparr>fk_state := lit ''EXPORT'', fk_export_target := target, fk_export_active := True,
           fk_export_frame_index := 0, fk_next_export_at := fadd now EXPORT_INTERVAL_SECONDS\<rparr>))"

definition clear_sd :: "fake \<Rightarrow> fake" where
  "clear_sd k =
     (if \<not> idle_or_error k then queue_cli error_state_text k
      else queue_cli ok_text
        (k\<lparr>fk_sd_used := 0, fk_sd_retained_frames := 0, fk_sd_retained_chunks := 0,
           fk_sd_overwritten_frames := 0\<rparr>))"

definition finish_export :: "fake \<Rightarrow> fake" where
  "finish_export k =
     (let k' = k\<lparr>fk_export_active := False, fk_state := lit ''IDLE'', fk_export_target := lit ''NONE'',
                 fk_sd_used := 0, fk_sd_retained_frames := 0, fk_sd_retained_chunks := 0\<rparr>
      in queue_cli (lit ''EXPORT_END:CHUNKS=1,FRAMES=24'' @ crlf @ state_reply k') k')"

definition upper_ascii :: "pystr \<Rightarrow> pystr" where
  "upper_ascii s = map (\<lambda>c. if 97 \<le> c \<and> c \<le> 122 then c - 32 else c) s"

definition apply_control :: "float64 \<Rightarrow> pystr \<Rightarrow> fake \<Rightarrow> fake" where
  "apply_control now normalized k =
     (if normalized = lit ''AT+UUID?''
      then queue_cli (lit ''+UUID:'' @ FAKE_UUID_TEXT @ lit '',SOURCE=FAKE'' @ crlf @ ok_text) k
      else if normalized = lit ''AT+STATE?'' then queue_cli (state_reply k) k
      else if normalized = lit ''AT+LIVESTREAM?''
      then queue_cli (lit ''+LIVESTREAM:'' @ fk_live_target k @ crlf @ ok_text) k
      else if starts_with (lit ''AT+LIVESTREAM='') normalized then
        let target = removeprefix (lit ''AT+LIVESTREAM='') normalized
        in if target \<notin> {lit ''UART'', lit ''CDC''} \<or> \<not> idle_or_error k
           then queue_cli error_state_text k
           else queue_cli ok_text (k\<lparr>fk_live_target := target\<rparr>)
      else if normalized \<in> {lit ''AT+START'', lit ''AT+STOP''}
      then handle_acquisition_command normalized k
      else if starts_with (lit ''AT+EXPORT='') normalized
      then start_export now (removeprefix (lit ''AT+EXPORT='') normalized) k
      else if normalized = lit ''AT+SDCLEAR=CONFIRM'' then clear_sd k
      else if starts_with (lit ''ACQ WATERMARK '') normalized then queue_cli ok_text k
      else queue_cli (lit ''ERROR:UNKNOWN'' @ crlf) k)"

definition fake_write_control :: "float64 \<Rightarrow> bytes \<Rightarrow> fake \<Rightarrow> unit res \<times> fake" where
  "fake_write_control now command k =
     (case require_open k of
        Inl e \<Rightarrow> (Inl e, k)
      | Inr _ \<Rightarrow>
          let content = rstrip_by (\<lambda>b. b = 13 \<or> b = 10) command
          in if content = [] \<or> MAXIMUM_CONTROL_BYTES < length content
             then (Inl (ValueError ''control command must contain 1..94 bytes''), k)
             else if 0 \<in> set content \<or> list_ex (\<lambda>b. 0x7F < unat b) content
             then (Inl (ValueError ''control command must contain ASCII without NUL''), k)
             else (Inr (), apply_control now (upper_ascii (str_strip (map unat content))) k))"

section \<open>The OTA device\<close>

definition crlf_bytes :: bytes where "crlf_bytes = [13, 10]"

definition handle_ota_frame :: "bytes \<Rightarrow> fake \<Rightarrow> fake" where
  "handle_ota_frame payload k =
     (case ota_decode_frame payload of
        Inl _ \<Rightarrow>
          queue_raw (ascii_encode (lit ''+OTA:NACK,CODE=FRAME_CRC,SEQ=0,NEXT=''
            @ dec_digits (fk_ota_next_offset k)) @ crlf_bytes) k
      | Inr f \<Rightarrow>
          (case uf_frame_type f of
             BEGIN \<Rightarrow> queue_raw (ack_line 0 0 @ crlf_bytes) k
           | CANCEL \<Rightarrow>
               queue_raw (ack_line (nat (uf_sequence f)) (fk_ota_next_offset k) @ crlf_bytes)
                 (k\<lparr>fk_ota_active := False\<rparr>)
           | COMMIT \<Rightarrow>
               queue_raw (staged_line OTA_APP_VERSION (crc32 (fk_ota_image k)) @ crlf_bytes
                   @ blit ''OK'' @ crlf_bytes)
                 (k\<lparr>fk_ota_active := False\<rparr>)
           | DATA \<Rightarrow>
               let k' = (if uf_offset f = int (fk_ota_next_offset k)
                         then k\<lparr>fk_ota_image := fk_ota_image k @ uf_payload f,
                                fk_ota_next_offset := fk_ota_next_offset k + length (uf_payload f)\<rparr>
                         else k)
               in queue_raw (ack_line (nat (uf_sequence f)) (fk_ota_next_offset k') @ crlf_bytes) k'))"

definition fake_write_raw :: "bytes \<Rightarrow> fake \<Rightarrow> unit res \<times> fake" where
  "fake_write_raw data k =
     (case require_open k of
        Inl e \<Rightarrow> (Inl e, k)
      | Inr _ \<Rightarrow>
          if data = [] then (Inl (ValueError ''raw write must contain at least one byte''), k)
          else
            let k' = k\<lparr>fk_raw_writes := fk_raw_writes k @ [data]\<rparr>
            in if starts_with (blit ''AT+OTA'') data
               then (Inr (), queue_raw (ready_line OTA_MAX_IMAGE OTA_CHUNK @ crlf_bytes @ blit ''OK'' @ crlf_bytes)
                      (k'\<lparr>fk_ota_active := True, fk_ota_next_offset := 0, fk_ota_image := []\<rparr>))
               else (Inr (), handle_ota_frame data k'))"

section \<open>Reading\<close>

definition take_pending_packet :: "fake \<Rightarrow> (bytes \<times> fake) option" where
  "take_pending_packet k =
     (if fk_pending_bytes k \<noteq> [] then Some (fk_pending_bytes k, k\<lparr>fk_pending_bytes := []\<rparr>)
      else case fk_pending_packets k of
        [] \<Rightarrow> None
      | p # ps \<Rightarrow> Some (p, k\<lparr>fk_pending_packets := ps\<rparr>))"

definition take_bytes :: "nat \<Rightarrow> bytes \<times> fake \<Rightarrow> bytes \<times> fake" where
  "take_bytes max_bytes pk =
     (case pk of (packet, k) \<Rightarrow>
        if length packet \<le> max_bytes then (packet, k)
        else (take max_bytes packet, k\<lparr>fk_pending_bytes := drop max_bytes packet\<rparr>))"

text \<open>
  The loop of \<^verbatim>\<open>read\<close>, one clock value per turn; a turn with a pending packet reads no clock. A
  difference of two doubles is rounded, which keeps its sign, so the remaining time is tested
  on the exact difference. \<open>None\<close>: the clock values given do not reach the point where the call
  returns.
\<close>

fun fake_read_loop :: "libm \<Rightarrow> float64 \<Rightarrow> nat \<Rightarrow> float64 list \<Rightarrow> fake \<Rightarrow> (bytes \<times> fake) option" where
  "fake_read_loop lm deadline max_bytes nows k =
     (case take_pending_packet k of
        Some pk \<Rightarrow> Some (take_bytes max_bytes pk)
      | None \<Rightarrow>
          (case nows of
             [] \<Rightarrow> None
           | now # later \<Rightarrow>
               if fk_ota_active k then
                 (if deadline - now \<le> 0 then Some ([], k)
                  else fake_read_loop lm deadline max_bytes later k)
               else if fk_export_active k \<and> SD_FRAME_COUNT \<le> fk_export_frame_index k then
                 fake_read_loop lm deadline max_bytes later (finish_export k)
               else if fk_export_active k \<and> fk_next_export_at k \<le> now then
                 (let (frame, k1) = make_jy_frame lm True (Some (fk_export_frame_index k + 1)) k
                  in Some (take_bytes max_bytes (frame,
                       k1\<lparr>fk_export_frame_index := fk_export_frame_index k1 + 1,
                          fk_next_export_at := fadd now EXPORT_INTERVAL_SECONDS\<rparr>)))
               else if \<not> fk_export_active k \<and> fk_next_live_at k \<le> now then
                 (let (frame, k1) = make_live_frame lm k
                  in Some (take_bytes max_bytes (frame,
                       k1\<lparr>fk_next_live_at := fadd now LIVE_INTERVAL_SECONDS\<rparr>)))
               else if deadline - now \<le> 0 then Some ([], k)
               else fake_read_loop lm deadline max_bytes later k))"

declare fake_read_loop.simps [simp del]

definition fake_read ::
  "libm \<Rightarrow> float64 list \<Rightarrow> int \<Rightarrow> float64 \<Rightarrow> fake \<Rightarrow> (bytes res \<times> fake) option" where
  "fake_read lm nows max_bytes timeout_s k =
     (if max_bytes \<le> 0 then Some (Inl (ValueError ''max_bytes must be positive''), k)
      else if timeout_s < 0 then Some (Inl (ValueError ''timeout_s must not be negative''), k)
      else case require_open k of
        Inl e \<Rightarrow> Some (Inl e, k)
      | Inr _ \<Rightarrow>
          (case nows of
             [] \<Rightarrow> None
           | start # later \<Rightarrow>
               map_option (\<lambda>(bs, k'). (Inr bs, k'))
                 (fake_read_loop lm (fadd start timeout_s) (nat max_bytes) later k)))"

section \<open>Reads end\<close>

lemma take_bytes_length: "length (fst (take_bytes n pk)) \<le> n"
  by (cases pk) (simp add: take_bytes_def)

lemma finish_export_pending: "take_pending_packet (finish_export k) \<noteq> None"
  by (simp add: take_pending_packet_def finish_export_def queue_cli_def Let_def split: list.splits)

text \<open>Once a clock reading reaches the deadline the loop returns at the latest.\<close>

lemma read_loop_returns:
  assumes "deadline \<le> t"
  shows "\<exists>bs k'. fake_read_loop lm deadline n (nows @ [t]) k = Some (bs, k') \<and> length bs \<le> n"
proof (induction nows arbitrary: k)
  case Nil
  show ?case
  proof (cases "take_pending_packet k")
    case (Some pk)
    then show ?thesis
      using take_bytes_length [of n pk] by (cases "take_bytes n pk") (simp add: fake_read_loop.simps [of _ _ _ _ k])
  next
    case None
    obtain pk where p: "take_pending_packet (finish_export k) = Some pk" using finish_export_pending by blast
    have f: "\<exists>bs k'. Some (take_bytes n x) = Some (bs, k') \<and> length bs \<le> n" for x
      using take_bytes_length [of n x] by (cases "take_bytes n x") simp
    show ?thesis
      using None assms f p
      by (auto simp: fake_read_loop.simps [of _ _ _ _ k] fake_read_loop.simps [of _ _ _ _ "finish_export k"]
          Let_def split: prod.splits)
  qed
next
  case (Cons a nows)
  have f: "\<exists>bs k'. Some (take_bytes n x) = Some (bs, k') \<and> length bs \<le> n" for x
    using take_bytes_length [of n x] by (cases "take_bytes n x") simp
  show ?case
    using Cons.IH f by (auto simp: fake_read_loop.simps [of _ _ _ "a # nows @ [t]" k] Let_def
        split: option.splits prod.splits)
qed

lemma fake_read_returns_within:
  assumes "fadd start timeout \<le> t"
  shows "\<exists>r k'. fake_read lm (start # nows @ [t]) n timeout k = Some (r, k') \<and>
    (case r of Inl _ \<Rightarrow> k' = k | Inr bs \<Rightarrow> int (length bs) \<le> n)"
proof -
  obtain bs k' where "fake_read_loop lm (fadd start timeout) (nat n) (nows @ [t]) k = Some (bs, k')"
      "length bs \<le> nat n"
    using read_loop_returns [OF assms] by blast
  then show ?thesis by (auto simp: fake_read_def require_open_def)
qed

text \<open>A pending packet that fits is returned at once and as a whole.\<close>

lemma fake_read_pending:
  assumes "fk_opened k" and "fk_pending_bytes k = []" and "fk_pending_packets k = p # ps"
    and "0 < n" and "0 \<le> timeout" and "int (length p) \<le> n"
  shows "fake_read lm (start # nows) n timeout k = Some (Inr p, k\<lparr>fk_pending_packets := ps\<rparr>)"
  using assms
  by (auto simp: fake_read_def require_open_def fake_read_loop.simps take_pending_packet_def take_bytes_def)

section \<open>Properties\<close>

text \<open>
  C34. Every \<^verbatim>\<open>read\<close> of the simulated sensor ends: whatever the state and whatever the clock reads
  before, the call returns by the first reading at or after the deadline, with at most
  \<^verbatim>\<open>max_bytes\<close> bytes, or raises and leaves the state as it was.
\<close>

theorem fake_read_returns:
  "\<exists>r k'. fake_read lm (start # nows @ [max t (fadd start timeout)]) n timeout k = Some (r, k') \<and>
    (case r of Inl _ \<Rightarrow> k' = k | Inr bs \<Rightarrow> int (length bs) \<le> n)"
  by (rule fake_read_returns_within) simp

end
