(* ===== verification/OtaLink.thy ===== *)
theory OtaLink
  imports Acquisition OtaUploader FakeTransport
begin

text \<open>
  The OTA path from end to end: the uploader of \<^verbatim>\<open>ota/uploader.py\<close> over the bridge
  \<^verbatim>\<open>_ControllerOtaAdapter\<close> of \<^verbatim>\<open>presentation/app_controller.py\<close>, the worker loop of
  \<^verbatim>\<open>acquisition/controller.py\<close> with its demultiplexer, and the simulated sensor of
  \<^verbatim>\<open>transport/fake.py\<close>. The contracts \<open>ota_device\<close> and \<open>responsive_device\<close> are interpreted on this
  composition, so the lemmas of the uploader hold for it.
\<close>

section \<open>The link\<close>

text \<open>
  What the clocks read during one turn of the worker: when a control line is written, when the
  read starts and while it waits, and when the frames are handled. A read that is still waiting
  finds the deadline at the end.
\<close>

record tick =
  tk_control :: float64
  tk_start :: float64
  tk_waiting :: "float64 list"
  tk_now :: float64

definition fake_transport :: "libm \<Rightarrow> tick \<Rightarrow> fake transport" where
  "fake_transport lm k =
     \<lparr>tp_read = (\<lambda>n t d. the (fake_read lm (tk_start k # tk_waiting k @ [fadd (tk_start k) t]) (int n) t d)),
      tp_write_control = fake_write_control (tk_control k), tp_write_raw = fake_write_raw,
      tp_close = (\<lambda>d. (Inr (), fake_close d))\<rparr>"

text \<open>
  The state of an upload in progress: the controller and the device, the exception that ended the
  worker if one did, the clocks of the worker's turns, what the cancel event reads at each poll,
  and the progress signals emitted.
\<close>

record link =
  lk_controller :: controller
  lk_device :: fake
  lk_failed :: "exn option"
  lk_ticks :: "nat \<Rightarrow> tick"
  lk_turns :: nat
  lk_polls :: "bool list"
  lk_progress :: "(nat \<times> nat \<times> pystr) list"

text \<open>A turn of the worker; an exception ends the worker and closes the transport.\<close>

definition worker_turn :: "numpy \<Rightarrow> libm \<Rightarrow> link \<Rightarrow> link" where
  "worker_turn np lm w =
     (if lk_failed w \<noteq> None then w
      else
        let k = lk_ticks w (lk_turns w)
        in case run_turn np (fake_transport lm k) (tk_now k) (lk_controller w, lk_device w) of
             (r, c, d) \<Rightarrow>
               w\<lparr>lk_controller := c, lk_device := (case r of Inl _ \<Rightarrow> fake_close d | Inr _ \<Rightarrow> d),
                 lk_failed := (case r of Inl e \<Rightarrow> Some e | Inr _ \<Rightarrow> None), lk_turns := lk_turns w + 1\<rparr>)"

definition link_send :: "bytes \<Rightarrow> (link, unit) io" where
  "link_send data w = (Inr (), w\<lparr>lk_controller := send_ota_frame data (lk_controller w)\<rparr>)"

text \<open>
  \<^verbatim>\<open>readline\<close> waits for the next reply line while the worker runs: \<open>n\<close> is the number of turns the
  worker completes before the timeout.
\<close>

fun link_wait :: "numpy \<Rightarrow> libm \<Rightarrow> nat \<Rightarrow> link \<Rightarrow> bytes option \<times> link" where
  "link_wait np lm n w =
     (if ac_ota_replies (lk_controller w) \<noteq> [] \<or> n = 0
      then case next_ota_reply (lk_controller w) of (l, c) \<Rightarrow> (l, w\<lparr>lk_controller := c\<rparr>)
      else link_wait np lm (n - 1) (worker_turn np lm w))"

declare link_wait.simps [simp del]

definition poll_cancel :: "(link, bool) io" where
  "poll_cancel w =
     (case lk_polls w of [] \<Rightarrow> (Inr False, w) | b # bs \<Rightarrow> (Inr b, w\<lparr>lk_polls := bs\<rparr>))"

definition emit_progress :: "nat \<Rightarrow> nat \<Rightarrow> pystr \<Rightarrow> (link, unit) io" where
  "emit_progress sent all phase w = (Inr (), w\<lparr>lk_progress := lk_progress w @ [(sent, all, phase)]\<rparr>)"

text \<open>
  The transport and the callbacks \<^verbatim>\<open>OtaUploadWorker.run\<close> hands to the uploader. The timeouts are 2 and
  30 seconds, a turn waits at most 50 milliseconds: \<open>patience t\<close> is the number of turns the worker
  completes within the timeout beyond the first.
\<close>

definition ota_adapter :: "numpy \<Rightarrow> libm \<Rightarrow> (float64 \<Rightarrow> nat) \<Rightarrow> link upload_transport" where
  "ota_adapter np lm patience =
     \<lparr>ut_send = link_send,
      ut_readline = (\<lambda>t w. case link_wait np lm (Suc (patience t)) w of (l, w') \<Rightarrow> (Inr l, w')),
      ut_cancel_requested = Some poll_cancel, ut_progress = Some emit_progress\<rparr>"

section \<open>Reply lines\<close>

definition reply_line :: "bytes \<Rightarrow> bool" where
  "reply_line l \<longleftrightarrow> list_all (\<lambda>b. 33 \<le> unat b \<and> unat b \<le> 126) l \<and> is_ota_line l"

definition on_wire :: "bytes list \<Rightarrow> bytes" where
  "on_wire ls = concat (map (\<lambda>l. l @ crlf_bytes) ls)"

lemma reply_line_start: "reply_line l \<Longrightarrow> \<exists>x xs. l = x # xs \<and> x \<noteq> 83"
  by (cases l) (auto simp: reply_line_def is_ota_line_def OTA_PREFIX_def OK_LINE_def blit_def starts_with_def)

lemma printable_not_space: "33 \<le> unat (b :: byte) \<Longrightarrow> \<not> is_byte_space b"
  by (auto simp: is_byte_space_def)

lemma reply_line_strip:
  assumes "reply_line l"
  shows "bytes_strip (l @ [13]) = l"
proof -
  have "l \<noteq> []" using reply_line_start [OF assms] by auto
  then have l: "\<not> is_byte_space (hd l)" "\<not> is_byte_space (last l)" "l \<noteq> []"
    using assms printable_not_space by (auto simp: reply_line_def list_all_iff)
  have "dropWhile is_byte_space (l @ [13]) = l @ [13]" using l by (cases l) auto
  moreover have "dropWhile is_byte_space (rev l) = rev l" using l by (cases "rev l") (auto simp: last_rev [symmetric])
  ultimately show ?thesis by (simp add: bytes_strip_def strip_by_def is_byte_space_def)
qed

lemma reply_line_loop:
  assumes "reply_line l"
  shows "demux_loop (l @ crlf_bytes @ c) =
    (OtaLine l (l @ crlf_bytes) # fst (demux_loop c), snd (demux_loop c))"
proof -
  have "NEWLINE \<notin> set (l @ [13])" using assms by (auto simp: reply_line_def list_all_iff NEWLINE_def)
  moreover have "\<not> starts_sdf1_frame ((l @ [13]) @ [NEWLINE])"
    using reply_line_start [OF assms] by (auto simp: starts_sdf1_frame_def MAGIC_bytes)
  moreover have "is_ota_line (bytes_strip (l @ [13]))"
    using assms by (simp add: reply_line_strip reply_line_def)
  ultimately show ?thesis
    using demux_loop_line [of "l @ [13]" c] assms by (simp add: reply_line_strip crlf_bytes_def NEWLINE_def)
qed

lemma demux_loop_lines:
  "list_all reply_line ls \<Longrightarrow> demux_loop (on_wire ls) = (map (\<lambda>l. OtaLine l (l @ crlf_bytes)) ls, [])"
proof (induction ls)
  case Nil
  then show ?case by (simp add: on_wire_def demux_loop.simps [of "[]"] demux_turn_def)
next
  case (Cons l ls)
  then show ?case using reply_line_loop [of l "on_wire ls"] by (simp add: on_wire_def)
qed

lemma demux_feed_lines:
  assumes "list_all reply_line ls" and "dm_pending d = []"
  shows "demux_feed d (on_wire ls) = ((ls, []), d)"
proof -
  have "ota_lines (map (\<lambda>l. OtaLine l (l @ crlf_bytes)) ls) = ls" "parser_parts (map (\<lambda>l. OtaLine l (l @ crlf_bytes)) ls) = []"
    by (induction ls) auto
  then show ?thesis using assms by (simp add: demux_feed_def demux_loop_lines release_held_residue_def)
qed

section \<open>One burst, one answer\<close>

text \<open>Nothing in flight between the uploader and the device.\<close>

definition quiet :: "link \<Rightarrow> bool" where
  "quiet w \<longleftrightarrow> lk_failed w = None \<and> fk_opened (lk_device w) \<and> fk_pending_packets (lk_device w) = [] \<and>
     fk_pending_bytes (lk_device w) = [] \<and> ac_commands (lk_controller w) = [] \<and>
     ac_ota_outbound (lk_controller w) = [] \<and> ac_ota_active (lk_controller w) \<and>
     dm_pending (armed_demux (lk_controller w)) = []"

lemma armed_demux_simps [simp]:
  "armed_demux (ac_bytes_received_update f c) = armed_demux c"
  "armed_demux (ac_frames_received_update f c) = armed_demux c"
  "armed_demux (ac_store_update g c) = armed_demux c"
  "armed_demux (ac_commands_update h c) = armed_demux c"
  "armed_demux (ac_ota_outbound_update i c) = armed_demux c"
  "armed_demux (ac_ota_replies_update i c) = armed_demux c"
  "armed_demux (c\<lparr>ac_ota_demux := d, ac_ota_reset_pending := False\<rparr>) = d"
  by (simp_all add: armed_demux_def)

lemma read_timeout_nonneg: "0 \<le> READ_TIMEOUT_SECONDS"
  by (simp add: READ_TIMEOUT_SECONDS_def fl_nonneg)

text \<open>Reply lines handed to the controller go to the reply queue and nowhere else.\<close>

lemma ingest_lines:
  assumes "ac_ota_active c" and "dm_pending (armed_demux c) = []" and "list_all reply_line ls"
    and "ac_ota_replies c = []"
  shows "\<exists>c'. ingest_chunk np now (on_wire ls) c = (Inr (), c') \<and> ac_commands c' = ac_commands c \<and>
    ac_ota_outbound c' = ac_ota_outbound c \<and> ac_ota_active c' \<and> dm_pending (armed_demux c') = [] \<and>
    ac_ota_replies c' = ls"
proof -
  define c0 where "c0 = c\<lparr>ac_bytes_received := ac_bytes_received c + length (on_wire ls)\<rparr>"
  have d: "demux_feed (armed_demux c0) (on_wire ls) = ((ls, []), armed_demux c0)"
    using demux_feed_lines [OF assms(3)] assms(2) by (simp add: c0_def)
  have a: "ac_ota_active c0" using assms(1) by (simp add: c0_def)
  show ?thesis
    unfolding ingest_chunk_def Let_def c0_def [symmetric] parse_chunk_ota [OF a d]
    using assms by (auto simp: io_return_def c0_def)
qed

lemma worker_turn_answer:
  assumes w: "lk_failed w = None" "ac_commands (lk_controller w) = []" "ac_ota_outbound (lk_controller w) = [b]"
      "ac_ota_active (lk_controller w)" "dm_pending (armed_demux (lk_controller w)) = []"
      "ac_ota_replies (lk_controller w) = []"
    and d: "fake_write_raw b (lk_device w) = (Inr (), d)" "fk_opened d" "fk_pending_bytes d = []"
      "fk_pending_packets d = [on_wire ls]"
    and ls: "list_all reply_line ls" "ls \<noteq> []" "length (on_wire ls) \<le> 65536"
  shows "\<exists>c'. lk_controller (worker_turn np lm w) = c' \<and> quiet (worker_turn np lm w) \<and>
    ac_ota_replies c' = ls \<and> lk_device (worker_turn np lm w) = d\<lparr>fk_pending_packets := []\<rparr> \<and>
    lk_polls (worker_turn np lm w) = lk_polls w"
proof -
  define k where "k = lk_ticks w (lk_turns w)"
  define c where "c = (lk_controller w)\<lparr>ac_commands := [], ac_ota_outbound := []\<rparr>"
  obtain c' where c': "ingest_chunk np (tk_now k) (on_wire ls) c = (Inr (), c')"
      "ac_commands c' = []" "ac_ota_outbound c' = []" "ac_ota_active c'" "dm_pending (armed_demux c') = []"
      "ac_ota_replies c' = ls"
    using ingest_lines [OF _ _ ls(1), of c np "tk_now k"] w by (auto simp: c_def)
  have ne: "on_wire ls \<noteq> []" using ls(2) by (cases ls) (simp_all add: on_wire_def crlf_bytes_def)
  have r: "fake_read lm (tk_start k # tk_waiting k @ [fadd (tk_start k) READ_TIMEOUT_SECONDS])
      (int READ_CHUNK_BYTES) READ_TIMEOUT_SECONDS d = Some (Inr (on_wire ls), d\<lparr>fk_pending_packets := []\<rparr>)"
    using d(2-4) ls(3) read_timeout_nonneg by (intro fake_read_pending) (simp_all add: const_simps)
  have "run_turn np (fake_transport lm k) (tk_now k) (lk_controller w, lk_device w) =
      (Inr True, c', d\<lparr>fk_pending_packets := []\<rparr>)"
    using w(2,3) d(1) r ne c'(1)
    by (simp add: run_turn_def io_bind_def send_pending_commands_def send_pending_ota_frames_def read_chunk_def
        fake_transport_def on_controller_def io_return_def c_def)
  then have "worker_turn np lm w = w\<lparr>lk_controller := c', lk_device := d\<lparr>fk_pending_packets := []\<rparr>,
      lk_failed := None, lk_turns := lk_turns w + 1\<rparr>"
    using w(1) by (simp add: worker_turn_def k_def Let_def)
  then show ?thesis using c' d(2,3) by (simp add: quiet_def)
qed

text \<open>A burst the device answers with lines: the first line is returned, the others stay queued.\<close>

lemma ask_answer:
  assumes "quiet w" and "ac_ota_replies (lk_controller w) = []"
    and "fake_write_raw b (lk_device w) = (Inr (), d)" and "fk_opened d" and "fk_pending_bytes d = []"
    and "fk_pending_packets d = [on_wire (l # ls)]" and "list_all reply_line (l # ls)"
    and "length (on_wire (l # ls)) \<le> 65536"
  shows "\<exists>w'. ask (ota_adapter np lm patience) b t w = (Inr (Some l), w') \<and> quiet w' \<and>
    ac_ota_replies (lk_controller w') = ls \<and> lk_device w' = d\<lparr>fk_pending_packets := []\<rparr> \<and> lk_polls w' = lk_polls w"
proof -
  define v where "v = w\<lparr>lk_controller := send_ota_frame b (lk_controller w)\<rparr>"
  have v: "lk_failed v = None" "ac_commands (lk_controller v) = []" "ac_ota_outbound (lk_controller v) = [b]"
    "ac_ota_active (lk_controller v)" "dm_pending (armed_demux (lk_controller v)) = []"
    "ac_ota_replies (lk_controller v) = []" "fake_write_raw b (lk_device v) = (Inr (), d)" "lk_polls v = lk_polls w"
    using assms(1-3) by (simp_all add: v_def quiet_def send_ota_frame_def)
  define u where "u = worker_turn np lm v"
  have u: "quiet u" "ac_ota_replies (lk_controller u) = l # ls" "lk_device u = d\<lparr>fk_pending_packets := []\<rparr>"
    "lk_polls u = lk_polls w"
    using worker_turn_answer [OF v(1-7) assms(4-7) _ assms(8), of np lm] v(8) by (simp_all add: u_def)
  have "link_wait np lm (Suc (patience t)) v = link_wait np lm (patience t) u"
    using v(6) by (simp add: link_wait.simps [of _ _ "Suc (patience t)"] u_def)
  also have "\<dots> = (Some l, u\<lparr>lk_controller := (lk_controller u)\<lparr>ac_ota_replies := ls\<rparr>\<rparr>)"
    using u(2) by (simp add: link_wait.simps [of _ _ "patience t"] next_ota_reply_def)
  finally show ?thesis
    using u by (simp add: ask_def io_bind_def ota_adapter_def link_send_def v_def [symmetric] quiet_def)
qed

lemma readline_queued:
  assumes "ac_ota_replies (lk_controller w) = l # ls"
  shows "ut_readline (ota_adapter np lm patience) t w =
    (Inr (Some l), w\<lparr>lk_controller := (lk_controller w)\<lparr>ac_ota_replies := ls\<rparr>\<rparr>)"
  using assms by (simp add: ota_adapter_def link_wait.simps next_ota_reply_def)

section \<open>The simulated device keeps the contract\<close>

lemma reply_line_ascii:
  assumes "list_all (\<lambda>c. 33 \<le> c \<and> c \<le> 126) s" and "starts_with (lit ''+OTA:'') s"
  shows "reply_line (ascii_encode s)"
proof -
  have "list_all (\<lambda>b. 33 \<le> unat b \<and> unat b \<le> 126) (ascii_encode s)"
    using assms(1) by (auto simp: list_all_iff ascii_encode_def unat_of_nat)
  moreover have "take 5 (ascii_encode s) = OTA_PREFIX"
    using assms(2) by (simp add: starts_with_def ascii_encode_def take_map OTA_PREFIX_def lit_def blit_def
        eval_nat_numeral)
  ultimately show ?thesis 
    by (simp add: reply_line_def is_ota_line_def starts_with_def OTA_PREFIX_def eval_nat_numeral)
qed

lemma dec_digits_printable: "list_all (\<lambda>c. 33 \<le> c \<and> c \<le> 126) (dec_digits n)"
  using dec_digits_range by (force simp: list_all_iff)

lemma hex_fixed_printable: "list_all (\<lambda>c. 33 \<le> c \<and> c \<le> 126) (hex_fixed 65 k n)"
  using hex_fixed_range by (force simp: list_all_iff)

lemma reply_lines [simp]:
  "reply_line (ack_line s n)" "reply_line (ready_line m c)" "reply_line (staged_line OTA_APP_VERSION c)"
  "reply_line (blit ''OK'')"
  unfolding ack_line_def ready_line_def staged_line_def
  by (rule reply_line_ascii; simp add: starts_with_def dec_digits_printable hex_fixed_printable OTA_APP_VERSION_def
      lit_def del: hex_fixed.simps)+
    (simp add: reply_line_def is_ota_line_def OK_LINE_def blit_def)

lemma length_ack_line: "s < 10 ^ 11 \<Longrightarrow> n < 10 ^ 11 \<Longrightarrow> length (ack_line s n) \<le> 64"
  using length_dec_digits [of s 10] length_dec_digits [of n 10] by (simp add: ack_line_def ascii_encode_def)

lemma wire_frame_start: "\<not> starts_with (blit ''AT+OTA'') (wire_frame f) \<and> wire_frame f \<noteq> []"
  by (simp add: wire_frame_def ota_header_def FRAME_MAGIC_bytes starts_with_def blit_def Let_def)

lemma write_frame:
  assumes "fk_opened d" and "frame_fits f"
  shows "fake_write_raw (wire_frame f) d =
    (Inr (), handle_ota_frame (wire_frame f) (d\<lparr>fk_raw_writes := fk_raw_writes d @ [wire_frame f]\<rparr>))"
  using assms wire_frame_start [of f] by (simp add: fake_write_raw_def require_open_def)

text \<open>The states of the contract.\<close>

definition link_good :: "link \<Rightarrow> bool" where
  "link_good w \<longleftrightarrow> quiet w \<and> ac_ota_replies (lk_controller w) = [] \<and>
     fk_ota_next_offset (lk_device w) = length (fk_ota_image (lk_device w)) \<and>
     length (fk_ota_image (lk_device w)) \<le> 2 ^ 32 + 512"

definition link_committed :: "link \<Rightarrow> bool" where
  "link_committed w \<longleftrightarrow> ac_ota_replies (lk_controller w) \<noteq> []"

definition link_stored :: "link \<Rightarrow> bytes" where
  "link_stored w = fk_ota_image (lk_device w)"

definition link_ready :: "link \<Rightarrow> bool" where
  "link_ready w \<longleftrightarrow> link_good w \<and> list_all Not (lk_polls w)"

lemma ask_data:
  assumes g: "link_good w" and f: "frame_fits (data_frame s off pl)"
  shows "\<exists>w'. ask (ota_adapter np lm patience) (wire_frame (data_frame s off pl)) t w =
      (Inr (Some (ack_line s (length (link_stored w')))), w') \<and> link_good w' \<and>
    link_stored w' = (if off = length (link_stored w) then link_stored w @ pl else link_stored w) \<and>
    lk_polls w' = lk_polls w"
proof -
  let ?f = "data_frame s off pl" and ?d = "lk_device w"
  let ?img = "if off = length (link_stored w) then link_stored w @ pl else link_stored w"
  let ?e = "?d\<lparr>fk_raw_writes := fk_raw_writes ?d @ [wire_frame ?f], fk_ota_image := ?img,
      fk_ota_next_offset := length ?img, fk_pending_packets := [on_wire [ack_line s (length ?img)]]\<rparr>"
  have q: "quiet w" "ac_ota_replies (lk_controller w) = []" using g by (auto simp: link_good_def)
  have len: "length ?img \<le> 2 ^ 32 + 512" "s < 10 ^ 11"
    using g f by (auto simp: link_good_def link_stored_def frame_fits_def data_frame_def)
  have "ota_decode_frame (wire_frame ?f) = Inr ?f" using f by (simp add: ota_decode_wire)
  then have "fake_write_raw (wire_frame ?f) ?d = (Inr (), ?e)"
    using g f by (simp add: write_frame link_good_def quiet_def handle_ota_frame_def data_frame_def queue_raw_def
        link_stored_def on_wire_def Let_def)
  moreover have "length (on_wire [ack_line s (length ?img)]) \<le> 65536"
    using length_ack_line [of s "length ?img"] len by (simp add: on_wire_def crlf_bytes_def)
  ultimately obtain w' where w': "ask (ota_adapter np lm patience) (wire_frame ?f) t w =
      (Inr (Some (ack_line s (length ?img))), w')" "quiet w'" "ac_ota_replies (lk_controller w') = []"
      "lk_device w' = ?e\<lparr>fk_pending_packets := []\<rparr>" "lk_polls w' = lk_polls w"
    using ask_answer [OF q, of "wire_frame ?f" ?e "ack_line s (length ?img)" "[]" np lm patience t] q(1)
    by (auto simp: quiet_def)
  have "link_stored w' = ?img" using w'(4) by (simp add: link_stored_def)
  then show ?thesis using w' len by (auto simp: link_good_def)
qed

lemma ask_begin:
  assumes g: "link_good w" and f: "frame_fits (begin_frame pl)"
  shows "\<exists>w'. ask (ota_adapter np lm patience) (wire_frame (begin_frame pl)) t w = (Inr (Some (ack_line 0 0)), w') \<and>
    link_good w' \<and> link_stored w' = link_stored w \<and> lk_polls w' = lk_polls w"
proof -
  let ?f = "begin_frame pl" and ?d = "lk_device w"
  let ?e = "?d\<lparr>fk_raw_writes := fk_raw_writes ?d @ [wire_frame ?f], fk_pending_packets := [on_wire [ack_line 0 0]]\<rparr>"
  have q: "quiet w" "ac_ota_replies (lk_controller w) = []" using g by (auto simp: link_good_def)
  have "ota_decode_frame (wire_frame ?f) = Inr ?f" using f by (simp add: ota_decode_wire)
  then have "fake_write_raw (wire_frame ?f) ?d = (Inr (), ?e)"
    using g f by (simp add: write_frame link_good_def quiet_def handle_ota_frame_def begin_frame_def queue_raw_def
        on_wire_def)
  moreover have "length (on_wire [ack_line 0 0]) \<le> 65536"
    using length_ack_line [of 0 0] by (simp add: on_wire_def crlf_bytes_def)
  ultimately obtain w' where "ask (ota_adapter np lm patience) (wire_frame ?f) t w = (Inr (Some (ack_line 0 0)), w')"
      "quiet w'" "ac_ota_replies (lk_controller w') = []" "lk_device w' = ?e\<lparr>fk_pending_packets := []\<rparr>"
      "lk_polls w' = lk_polls w"
    using ask_answer [OF q, of "wire_frame ?f" ?e "ack_line 0 0" "[]" np lm patience t] q(1) by (auto simp: quiet_def)
  then show ?thesis using g by (auto simp: link_good_def link_stored_def)
qed

lemma ask_commit:
  assumes g: "link_good w" and f: "frame_fits (commit_frame s off)"
  shows "\<exists>w'. ask (ota_adapter np lm patience) (wire_frame (commit_frame s off)) t w =
      (Inr (Some (staged_line OTA_APP_VERSION (crc32 (link_stored w)))), w') \<and>
    link_committed w' \<and> link_stored w' = link_stored w"
proof -
  let ?f = "commit_frame s off" and ?d = "lk_device w" and ?l = "staged_line OTA_APP_VERSION (crc32 (link_stored w))"
  let ?e = "?d\<lparr>fk_raw_writes := fk_raw_writes ?d @ [wire_frame ?f], fk_ota_active := False,
      fk_pending_packets := [on_wire [?l, blit ''OK'']]\<rparr>"
  have q: "quiet w" "ac_ota_replies (lk_controller w) = []" using g by (auto simp: link_good_def)
  have "ota_decode_frame (wire_frame ?f) = Inr ?f" using f by (simp add: ota_decode_wire)
  then have "fake_write_raw (wire_frame ?f) ?d = (Inr (), ?e)"
    using g f by (simp add: write_frame link_good_def quiet_def handle_ota_frame_def commit_frame_def queue_raw_def
        on_wire_def link_stored_def)
  moreover have "length (on_wire [?l, blit ''OK'']) \<le> 65536"
    by (simp add: on_wire_def crlf_bytes_def staged_line_def ascii_encode_def OTA_APP_VERSION_def del: hex_fixed.simps)
  ultimately obtain w' where "ask (ota_adapter np lm patience) (wire_frame ?f) t w = (Inr (Some ?l), w')"
      "ac_ota_replies (lk_controller w') = [blit ''OK'']" "lk_device w' = ?e\<lparr>fk_pending_packets := []\<rparr>"
    using ask_answer [OF q, of "wire_frame ?f" ?e ?l "[blit ''OK'']" np lm patience t] q(1) by (auto simp: quiet_def)
  then show ?thesis by (auto simp: link_committed_def link_stored_def)
qed

lemma ask_handshake:
  assumes g: "link_good w"
  shows "\<exists>w1 w2. ask (ota_adapter np lm patience) BEGIN_COMMAND t w =
      (Inr (Some (ready_line OTA_MAX_IMAGE OTA_CHUNK)), w1) \<and>
    ut_readline (ota_adapter np lm patience) t' w1 = (Inr (Some (blit ''OK'')), w2) \<and>
    link_good w2 \<and> link_stored w2 = [] \<and> lk_polls w2 = lk_polls w"
proof -
  let ?d = "lk_device w" and ?l = "ready_line OTA_MAX_IMAGE OTA_CHUNK"
  let ?e = "?d\<lparr>fk_raw_writes := fk_raw_writes ?d @ [BEGIN_COMMAND], fk_ota_active := True, fk_ota_next_offset := 0,
      fk_ota_image := [], fk_pending_packets := [on_wire [?l, blit ''OK'']]\<rparr>"
  have q: "quiet w" "ac_ota_replies (lk_controller w) = []" using g by (auto simp: link_good_def)
  have "starts_with (blit ''AT+OTA'') BEGIN_COMMAND" "BEGIN_COMMAND \<noteq> []"
    by (simp_all add: BEGIN_COMMAND_def blit_def starts_with_def)
  then have "fake_write_raw BEGIN_COMMAND ?d = (Inr (), ?e)"
    using q(1) by (simp add: fake_write_raw_def require_open_def quiet_def queue_raw_def on_wire_def Let_def)
  moreover have "length (on_wire [?l, blit ''OK'']) \<le> 65536"
    by (simp add: on_wire_def crlf_bytes_def ready_line_def ascii_encode_def const_simps dec_digits.simps)
  ultimately obtain w1 where w1: "ask (ota_adapter np lm patience) BEGIN_COMMAND t w = (Inr (Some ?l), w1)"
      "quiet w1" "ac_ota_replies (lk_controller w1) = [blit ''OK'']" "lk_device w1 = ?e\<lparr>fk_pending_packets := []\<rparr>"
      "lk_polls w1 = lk_polls w"
    using ask_answer [OF q, of BEGIN_COMMAND ?e ?l "[blit ''OK'']" np lm patience t] q(1) by (auto simp: quiet_def)
  then show ?thesis
    using readline_queued [OF w1(3), of np lm patience t']
    by (auto simp: link_good_def quiet_def link_stored_def)
qed

lemma poll_cancel_keeps:
  assumes "poll_cancel w = (Inr b, w')"
  shows "link_stored w' = link_stored w \<and> link_good w' = link_good w \<and> link_committed w' = link_committed w"
  using assms
  by (auto simp: poll_cancel_def link_stored_def link_good_def link_committed_def quiet_def split: list.splits)

lemma emit_progress_keeps:
  assumes "emit_progress m n ph w = (Inr x, w')"
  shows "link_stored w' = link_stored w \<and> link_good w' = link_good w \<and> link_committed w' = link_committed w \<and>
    lk_polls w' = lk_polls w"
  using assms
  by (auto simp: emit_progress_def link_stored_def link_good_def link_committed_def quiet_def)

lemma parse_ack: "s < 2 ^ 32 \<Longrightarrow> n \<le> 2 ^ 32 + 512 \<Longrightarrow> parse_response (ack_line s n) =
    Inr \<lparr>dr_acknowledged = True, dr_sequence = int s, dr_next_offset = int n, dr_code = None,
         dr_version = None, dr_crc = None\<rparr>"
  by (rule parse_response_ack) simp_all

lemma parse_staged: "parse_response (staged_line OTA_APP_VERSION (crc32 x)) =
    Inr \<lparr>dr_acknowledged = True, dr_sequence = 0, dr_next_offset = 0, dr_code = Some (lit ''STAGED''),
         dr_version = Some OTA_APP_VERSION, dr_crc = Some (int (crc32 x))\<rparr>"
  by (rule parse_response_staged) (simp_all add: OTA_APP_VERSION_def lit_def)

text \<open>The composition satisfies the contract of the uploader: its laws are those of the burst lemmas.\<close>

interpretation fake_link: ota_device "ota_adapter np lm patience" link_good link_committed link_stored
  for np lm patience
proof (unfold_locales, goal_cases)
  case (1 c w b w')
  then show ?case using poll_cancel_keeps by (auto simp: ota_adapter_def)
next
  case (2 p m n ph w x w')
  then show ?case using emit_progress_keeps by (auto simp: ota_adapter_def)
next
  case (3 w t line w1 r w2)
  then show ?case using ask_handshake [OF 3(1), of np lm patience t t] by auto
next
  case (4 w pl t r w')
  then show ?case using ask_begin [OF 4(1,3), of np lm patience t] by auto
next
  case (5 w s off pl t r w')
  then show ?case using ask_data [OF 5(1,3), of np lm patience t] by auto
next
  case (6 w s off pl t line w' resp)
  have s: "s < 2 ^ 32" using 6(3) by (simp add: frame_fits_def data_frame_def)
  obtain v where v: "ask (ota_adapter np lm patience) (wire_frame (data_frame s off pl)) t w =
      (Inr (Some (ack_line s (length (link_stored v)))), v)" "link_good v"
    using ask_data [OF 6(1,3), of np lm patience t] by blast
  then have "line = ack_line s (length (link_stored w'))" "length (link_stored w') \<le> 2 ^ 32 + 512"
    using 6(2) by (auto simp: link_good_def link_stored_def)
  then show ?case using parse_ack [OF s] 6(4) by auto
next
  case (7 w s off t r w')
  then show ?case using ask_commit [OF 7(1,3), of np lm patience t] parse_staged by auto
next
  case (8 w t r w')
  then obtain l ls where "ac_ota_replies (lk_controller w) = l # ls"
    by (auto simp: link_committed_def neq_Nil_conv)
  from readline_queued [OF this, of np lm patience t] 8 show ?case by (auto simp: link_stored_def)
qed

lemma ready_line_strip: "bytes_strip (ready_line m c) = ready_line m c"
proof -
  have "ready_line m c \<noteq> []" by (simp add: ready_line_def ascii_encode_def)
  moreover have "reply_line (ready_line m c)" by simp
  ultimately have "\<not> is_byte_space (hd (ready_line m c))" "\<not> is_byte_space (last (ready_line m c))"
    using printable_not_space by (auto simp: reply_line_def list_all_iff)
  then show ?thesis
    unfolding bytes_strip_def using strip_by_ends [OF \<open>ready_line m c \<noteq> []\<close>] by blast
qed

interpretation fake_link: responsive_device "ota_adapter np lm patience" link_good link_committed link_stored
    link_ready OTA_MAX_IMAGE OTA_CHUNK for np lm patience
proof (unfold_locales, goal_cases)
  case (1 w)
  then show ?case by (simp add: link_ready_def)
next
  case 2
  show ?case by (simp add: const_simps)
next
  case (3 w c)
  then show ?case
    by (auto simp: ota_adapter_def poll_cancel_def link_ready_def link_good_def quiet_def split: list.splits)
next
  case (4 w p m n ph)
  then show ?case by (auto simp: ota_adapter_def emit_progress_def link_ready_def link_good_def quiet_def)
next
  case (5 p m n ph w)
  then show ?case by (auto simp: ota_adapter_def emit_progress_def)
next
  case (6 w t)
  then obtain w1 w2 where "ask (ota_adapter np lm patience) BEGIN_COMMAND t w =
        (Inr (Some (ready_line OTA_MAX_IMAGE OTA_CHUNK)), w1)"
      "ut_readline (ota_adapter np lm patience) t w1 = (Inr (Some (blit ''OK'')), w2)" "link_ready w2"
    using ask_handshake [of w np lm patience t t] by (auto simp: link_ready_def)
  moreover have "starts_with (blit ''+OTA:READY,'') (ready_line OTA_MAX_IMAGE OTA_CHUNK)"
    by (simp add: ready_line_def starts_with_def ascii_encode_def lit_def blit_def)
  moreover have "parse_ready (ready_line OTA_MAX_IMAGE OTA_CHUNK) = Inr (int OTA_MAX_IMAGE, int OTA_CHUNK)"
    by (rule parse_ready_line) (simp_all add: const_simps)
  moreover have "bytes_strip (blit ''OK'') = blit ''OK''"
    by (simp add: bytes_strip_def strip_by_def is_byte_space_def blit_def)
  ultimately show ?case using ready_line_strip by metis
next
  case (7 w pl t)
  then show ?case using ask_begin [of w pl np lm patience t] parse_ack [of 0 0] by (auto simp: link_ready_def)
next
  case (8 w s off pl t)
  have s: "s < 2 ^ 32" using 8(2) by (simp add: frame_fits_def data_frame_def)
  obtain w' where "ask (ota_adapter np lm patience) (wire_frame (data_frame s off pl)) t w =
      (Inr (Some (ack_line s (length (link_stored w')))), w')" "link_ready w'"
      "length (link_stored w') = off + length pl" "length (link_stored w') \<le> 2 ^ 32 + 512"
    using ask_data [OF _ 8(2), of w np lm patience t] 8(1,3)
    by (auto simp: link_ready_def link_good_def link_stored_def)
  then show ?case using parse_ack [OF s] by fastforce
next
  case (9 w s off t)
  then show ?case
    using ask_commit [of w s off np lm patience t] parse_staged [of "link_stored w"]
    by (auto simp: link_ready_def staged_def)
next
  case (10 w t)
  then show ?case by (auto simp: ota_adapter_def split: prod.splits)
qed

section \<open>Properties\<close>

text \<open>
  C3. An upload that reports success has put the image on the device: over the bridge, the worker and
  the demultiplexer, whatever the clocks and however many attempts were needed, the simulated
  device then holds exactly the image of the package, the package was valid for the requested
  target, and the checksum the device reports is the one of the manifest.
\<close>

theorem upload_stores_image:
  assumes "upload u package (ota_adapter np lm patience) target w = (Inr summary, w')" and "link_good w"
  shows "fk_ota_image (lk_device w') = drop 512 package \<and>
    (\<exists>m. validate_package package = Inr m \<and> mf_target_id m = target \<and>
      ss_staged_crc summary = Some (int (mf_image_crc32 m)) \<and> ss_image_size summary = length package - 512 \<and>
      ss_app_version summary = mf_app_version m)"
  using fake_link.upload_stores [OF assms] by (auto simp: validate_package_Inr link_stored_def)

text \<open>
  C13. The upload succeeds: started on an open device with nothing in flight, and not cancelled, the
  upload of every package that validates for the target returns a summary, with any number of
  retries and any timeouts, and leaves the image of the package on the device.
\<close>

theorem upload_succeeds:
  assumes "link_ready w" and "validate_package package = Inr m" and "mf_target_id m = target"
  shows "\<exists>summary w'. upload u package (ota_adapter np lm patience) target w = (Inr summary, w') \<and>
    fk_ota_image (lk_device w') = drop 512 package \<and> ss_staged_crc summary = Some (int (mf_image_crc32 m))"
proof -
  have ok: "package_ok package m" using assms(2) by (simp add: validate_package_Inr)
  then have "length package - 512 \<le> OTA_MAX_IMAGE" by (simp add: package_ok_def const_simps)
  then obtain summary w' where s: "upload u package (ota_adapter np lm patience) target w = (Inr summary, w')"
    using fake_link.upload_returns [OF assms(1) ok assms(3)] by blast
  have "link_good w" using assms(1) by (simp add: link_ready_def)
  then obtain m' where "package_ok package m'" "link_stored w' = drop 512 package"
      "ss_staged_crc summary = Some (int (mf_image_crc32 m'))"
    using fake_link.upload_stores [OF s] by blast
  moreover from this(1) have "m' = m" using ok by (simp add: package_ok_def)
  ultimately show ?thesis using s by (auto simp: link_stored_def)
qed

definition sample_package :: bytes where
  "sample_package =
     (let b = packed_block (replicate 8 0) (VersionInt 1) (VersionInt 1) 0
      in b @ to_le 4 (crc32 b) @ replicate 8 0)"

definition sample_link :: link where
  "sample_link = \<lparr>lk_controller = start_ota (AcquisitionController_init sample_store0 None),
     lk_device = FakeTransport_init\<lparr>fk_opened := True\<rparr>, lk_failed = None,
     lk_ticks = (\<lambda>i. \<lparr>tk_control = 0, tk_start = of_nat i, tk_waiting = [], tk_now = of_nat i\<rparr>),
     lk_turns = 0, lk_polls = [], lk_progress = []\<rparr>"

definition sample_libm :: libm where
  "sample_libm = \<lparr>lm_sin = (\<lambda>_. 0), lm_cos = (\<lambda>_. 1)\<rparr>"

definition sample_uploader :: uploader where
  "sample_uploader = \<lparr>up_max_retries = 3, up_ack_timeout = 2, up_commit_timeout = 30\<rparr>"

lemma sample_ready: "link_ready sample_link"
  by (simp add: link_ready_def link_good_def quiet_def sample_link_def start_ota_def
      AcquisitionController_init_def FakeTransport_init_def armed_demux_def demux_reset_def)

lemma sample_package_ok:
  "package_ok sample_package (decode_manifest (take 512 sample_package))" "drop 512 sample_package = replicate 8 0"
proof -
  have v: "version_ok (VersionInt 1)" by (simp add: version_ok_def version_value_def)
  note ok = packed_package_ok [of "replicate 8 0" "VersionInt 1" "VersionInt 1" 0, OF _ _ v v]
  show "package_ok sample_package (decode_manifest (take 512 sample_package))"
    unfolding sample_package_def Let_def by (rule ok [THEN conjunct1]) simp_all
  show "drop 512 sample_package = replicate 8 0"
    unfolding sample_package_def Let_def by (rule ok [THEN conjunct2, THEN conjunct1]) simp_all
qed

lemma sample_target: "mf_target_id (decode_manifest (take 512 sample_package)) = TARGET_ID"
    "length sample_package - 512 \<le> OTA_MAX_IMAGE"
  using sample_package_ok(1) by (simp_all add: package_ok_def const_simps)

theorem upload_succeeds_witness:
  "\<exists>summary w'. upload sample_uploader sample_package (ota_adapter np_ref sample_libm (\<lambda>_. 0)) TARGET_ID sample_link =
      (Inr summary, w') \<and> fk_ota_image (lk_device w') = replicate 8 0"
proof -
  have "validate_package sample_package = Inr (decode_manifest (take 512 sample_package))"
    using sample_package_ok(1) by (simp add: validate_package_Inr)
  from upload_succeeds [OF sample_ready this sample_target(1), of sample_uploader np_ref sample_libm "\<lambda>_. 0"]
  show ?thesis using sample_package_ok(2) by metis
qed

theorem upload_stores_image_witness:
  "\<exists>summary w'. upload sample_uploader sample_package (ota_adapter np_ref sample_libm (\<lambda>_. 0)) TARGET_ID sample_link =
      (Inr summary, w') \<and> fk_ota_image (lk_device w') = drop 512 sample_package"
proof -
  obtain summary w' where s: "upload sample_uploader sample_package (ota_adapter np_ref sample_libm (\<lambda>_. 0))
      TARGET_ID sample_link = (Inr summary, w')"
    using fake_link.upload_returns [OF sample_ready sample_package_ok(1) sample_target] by blast
  have "link_good sample_link" using sample_ready by (simp add: link_ready_def)
  from upload_stores_image [OF s this] s show ?thesis by metis
qed

end
