(* ===== verification/Sessions.thy ===== *)
theory Sessions
  imports ControlState "HOL-Library.AList" "HOL-Library.List_Lexorder"
begin

text \<open>
  \<^verbatim>\<open>acquisition/sessions.py\<close>: the inventory of nodes. A Python dictionary is an association list
  with distinct keys in insertion order. Every method is one step under the manager's lock. In
  every reachable state at most the configured number of nodes is connected, no two nodes have
  the same device, and each identified node shows the alias remembered for its device.
\<close>

section \<open>State\<close>

datatype transport_kind = CDC | WIFI

datatype connection_state =
  DISCONNECTED | CONNECTING | CONNECTED | STREAMING | RECONNECTING | STOPPING | OFFLINE

record node_summary =
  ns_node_id :: pystr
  ns_transport_kind :: transport_kind
  ns_peer :: pystr
  ns_connection_state :: connection_state
  ns_device_uuid :: "nat option"
  ns_alias :: pystr
  ns_is_recording :: bool
  ns_alert :: "pystr option"

record session_manager =
  sm_maximum_sessions :: nat
  sm_aliases :: "(pystr \<times> pystr) list"
  sm_nodes :: "(pystr \<times> node_summary) list"

definition NodeSessionManager_init :: "int \<Rightarrow> (pystr \<times> pystr) list \<Rightarrow> session_manager res" where
  "NodeSessionManager_init maximum_sessions aliases =
     (if maximum_sessions \<le> 0 then Inl (ValueError ''maximum_sessions must be positive'')
      else Inr \<lparr>sm_maximum_sessions = nat maximum_sessions, sm_aliases = aliases, sm_nodes = []\<rparr>)"

section \<open>Methods\<close>

definition require_node :: "pystr \<Rightarrow> session_manager \<Rightarrow> node_summary res" where
  "require_node node_id m =
     (case map_of (sm_nodes m) node_id of
        None \<Rightarrow> Inl (KeyError ''unknown node: {}'') | Some n \<Rightarrow> Inr n)"

definition put_node :: "pystr \<Rightarrow> node_summary \<Rightarrow> session_manager \<Rightarrow> session_manager" where
  "put_node node_id n m = m\<lparr>sm_nodes := AList.update node_id n (sm_nodes m)\<rparr>"

definition active_count :: "session_manager \<Rightarrow> nat" where
  "active_count m = length (filter (\<lambda>(k, n). ns_connection_state n = CONNECTED) (sm_nodes m))"

definition add_session ::
  "pystr \<Rightarrow> transport_kind \<Rightarrow> pystr \<Rightarrow> session_manager \<Rightarrow> node_summary res \<times> session_manager" where
  "add_session node_id kind peer m =
     (if node_id = [] \<or> peer = [] then (Inl (ValueError ''node_id and peer must not be empty''), m)
      else if sm_maximum_sessions m \<le> active_count m
      then (Inl (SessionCapacityError ''maximum active node count reached''), m)
      else if map_of (sm_nodes m) node_id \<noteq> None
      then (Inl (ValueError ''node session {} already exists''), m)
      else
        let n = \<lparr>ns_node_id = node_id, ns_transport_kind = kind, ns_peer = peer,
                 ns_connection_state = CONNECTED, ns_device_uuid = None, ns_alias = peer,
                 ns_is_recording = False, ns_alert = None\<rparr>
        in (Inr n, put_node node_id n m))"

text \<open>The alias shown for a device: the remembered one, or one made of the start of its UUID.\<close>

definition alias_of :: "session_manager \<Rightarrow> nat \<Rightarrow> pystr" where
  "alias_of m u =
     (case map_of (sm_aliases m) (uuid_text u) of
        Some a \<Rightarrow> a | None \<Rightarrow> lit ''Node '' @ take 8 (uuid_text u))"

definition same_device :: "pystr \<Rightarrow> nat \<Rightarrow> pystr \<times> node_summary \<Rightarrow> bool" where
  "same_device node_id u kn \<longleftrightarrow> fst kn \<noteq> node_id \<and> ns_device_uuid (snd kn) = Some u"

definition bind_identity ::
  "pystr \<Rightarrow> nat \<Rightarrow> session_manager \<Rightarrow> node_summary res \<times> session_manager" where
  "bind_identity node_id device_uuid m =
     (case require_node node_id m of
        Inl e \<Rightarrow> (Inl e, m)
      | Inr current \<Rightarrow>
          if list_ex (\<lambda>kn. same_device node_id device_uuid kn \<and> ns_connection_state (snd kn) = CONNECTED)
               (sm_nodes m)
          then (Inl (DuplicateDeviceError ''device {} is already online''), m)
          else
            let m' = m\<lparr>sm_nodes := filter (\<lambda>kn. \<not> same_device node_id device_uuid kn) (sm_nodes m)\<rparr>;
                updated = current\<lparr>ns_device_uuid := Some device_uuid, ns_alias := alias_of m device_uuid\<rparr>
            in (Inr updated, put_node node_id updated m'))"

definition mark_unavailable ::
  "connection_state \<Rightarrow> pystr \<Rightarrow> pystr option \<Rightarrow> session_manager \<Rightarrow> unit res \<times> session_manager" where
  "mark_unavailable state node_id reason m =
     (case require_node node_id m of
        Inl e \<Rightarrow> (Inl e, m)
      | Inr current \<Rightarrow>
          (Inr (), put_node node_id (current\<lparr>ns_connection_state := state, ns_is_recording := False,
                                       ns_alert := reason\<rparr>) m))"

definition mark_reconnecting :: "pystr \<Rightarrow> pystr option \<Rightarrow> session_manager \<Rightarrow> unit res \<times> session_manager" where
  "mark_reconnecting = mark_unavailable RECONNECTING"

definition mark_offline :: "pystr \<Rightarrow> pystr option \<Rightarrow> session_manager \<Rightarrow> unit res \<times> session_manager" where
  "mark_offline = mark_unavailable OFFLINE"

definition set_alias :: "pystr \<Rightarrow> pystr \<Rightarrow> session_manager \<Rightarrow> node_summary res \<times> session_manager" where
  "set_alias node_id alias m =
     (let normalized = str_strip alias in
      if normalized = [] \<or> 64 < length normalized
      then (Inl (ValueError ''alias must contain 1..64 characters''), m)
      else case require_node node_id m of
        Inl e \<Rightarrow> (Inl e, m)
      | Inr current \<Rightarrow>
          let updated = current\<lparr>ns_alias := normalized\<rparr>;
              m' = put_node node_id updated m
          in (Inr updated,
              case ns_device_uuid current of
                None \<Rightarrow> m'
              | Some u \<Rightarrow> m'\<lparr>sm_aliases := AList.update (uuid_text u) normalized (sm_aliases m')\<rparr>))"

definition set_recording :: "pystr \<Rightarrow> bool \<Rightarrow> session_manager \<Rightarrow> unit res \<times> session_manager" where
  "set_recording node_id is_recording m =
     (case require_node node_id m of
        Inl e \<Rightarrow> (Inl e, m)
      | Inr current \<Rightarrow> (Inr (), put_node node_id (current\<lparr>ns_is_recording := is_recording\<rparr>) m))"

definition remove_node :: "pystr \<Rightarrow> session_manager \<Rightarrow> session_manager" where
  "remove_node node_id m = m\<lparr>sm_nodes := AList.delete node_id (sm_nodes m)\<rparr>"

definition session_summary :: "pystr \<Rightarrow> session_manager \<Rightarrow> node_summary res" where
  "session_summary node_id m = require_node node_id m"

definition summaries :: "session_manager \<Rightarrow> node_summary list" where
  "summaries m = map (\<lambda>k. the (map_of (sm_nodes m) k)) (sort (map fst (sm_nodes m)))"

section \<open>Steps\<close>

text \<open>A UUID is a 128-bit integer.\<close>

inductive sm_step :: "session_manager \<Rightarrow> session_manager \<Rightarrow> bool" where
  adds: "add_session k t p m = (r, m') \<Longrightarrow> sm_step m m'"
| binds: "u < 2 ^ 128 \<Longrightarrow> bind_identity k u m = (r, m') \<Longrightarrow> sm_step m m'"
| reconnecting: "mark_reconnecting k why m = (r, m') \<Longrightarrow> sm_step m m'"
| offline: "mark_offline k why m = (r, m') \<Longrightarrow> sm_step m m'"
| renames: "set_alias k a m = (r, m') \<Longrightarrow> sm_step m m'"
| records: "set_recording k b m = (r, m') \<Longrightarrow> sm_step m m'"
| removes: "sm_step m (remove_node k m)"

inductive sm_reach :: "session_manager \<Rightarrow> session_manager \<Rightarrow> bool" where
  refl: "sm_reach m m"
| step: "sm_reach m m' \<Longrightarrow> sm_step m' m'' \<Longrightarrow> sm_reach m m''"

section \<open>UUID texts\<close>

lemma hex_char_inj: "d < 16 \<Longrightarrow> e < 16 \<Longrightarrow> hex_char 97 d = hex_char 97 e \<Longrightarrow> d = e"
  by (auto simp: hex_char_def split: if_splits)

lemma hex_fixed_inj: "m < 16 ^ k \<Longrightarrow> n < 16 ^ k \<Longrightarrow> hex_fixed 97 k m = hex_fixed 97 k n \<Longrightarrow> m = n"
proof (induction k arbitrary: m n)
  case (Suc k)
  have "hex_char 97 (m mod 16) = hex_char 97 (n mod 16)" "hex_fixed 97 k (m div 16) = hex_fixed 97 k (n div 16)"
    using Suc.prems(3) by auto
  then have "m mod 16 = n mod 16" "m div 16 = n div 16"
    using hex_char_inj [of "m mod 16" "n mod 16"] Suc.IH [of "m div 16" "n div 16"] Suc.prems(1,2)
    by (auto simp: less_mult_imp_div_less mult.commute)
  then show ?case by (metis div_mult_mod_eq)
qed simp

lemma filter_dash_hex: "filter (\<lambda>c. c \<noteq> 45) (slice (hex_fixed 97 32 u) a b) = slice (hex_fixed 97 32 u) a b"
proof (rule filter_True, intro ballI)
  fix c assume "c \<in> set (slice (hex_fixed 97 32 u) a b)"
  then have "c \<in> set (hex_fixed 97 32 u)" unfolding slice_def by (meson in_set_dropD in_set_takeD)
  moreover have "c \<in> set (hex_fixed 97 k n) \<Longrightarrow> c \<noteq> 45" for k n
  proof (induction k arbitrary: n)
    case (Suc k)
    then show ?case by (auto simp: hex_char_def split: if_splits)
  qed simp
  ultimately show "c \<noteq> 45" by blast
qed

lemma slices_join:
  assumes "length h = 32"
  shows "slice h 0 8 @ slice h 8 12 @ slice h 12 16 @ slice h 16 20 @ slice h 20 32 = h"
proof -
  have s: "slice h a b @ slice h b c = slice h a c" if "a \<le> b" "b \<le> c" for a b c
  proof -
    have "take (c - a) (drop a h) = take (b - a) (drop a h) @ take (c - b) (drop (b - a) (drop a h))"
      using that take_add [of "b - a" "c - b" "drop a h"] by simp
    then show ?thesis using that by (simp add: slice_def add.commute)
  qed
  show ?thesis using assms by (simp add: s) (simp add: slice_def)
qed

lemma uuid_text_inj:
  assumes "u < 2 ^ 128" and "v < 2 ^ 128" and "uuid_text u = uuid_text v"
  shows "u = v"
proof -
  have f: "filter (\<lambda>c. c \<noteq> 45) (uuid_text w) = hex_fixed 97 32 w" for w
    using slices_join [of "hex_fixed 97 32 w"] by (simp add: uuid_text_def Let_def filter_dash_hex del: hex_fixed.simps)
  have "hex_fixed 97 32 u = hex_fixed 97 32 v" using f [of u] f [of v] assms(3) by simp
  then show ?thesis using hex_fixed_inj [of u 32 v] assms(1,2) by simp
qed

section \<open>Invariant\<close>

text \<open>The states a node of the inventory can have.\<close>

definition inventory_state :: "connection_state \<Rightarrow> bool" where
  "inventory_state st \<longleftrightarrow> st \<in> {CONNECTED, RECONNECTING, OFFLINE}"

definition node_ok :: "session_manager \<Rightarrow> pystr \<Rightarrow> node_summary \<Rightarrow> bool" where
  "node_ok m k n \<longleftrightarrow> ns_node_id n = k \<and> inventory_state (ns_connection_state n) \<and>
     (\<forall>u. ns_device_uuid n = Some u \<longrightarrow> u < 2 ^ 128 \<and> ns_alias n = alias_of m u)"

definition one_node_per_device :: "session_manager \<Rightarrow> bool" where
  "one_node_per_device m \<longleftrightarrow> (\<forall>k n k' n' u. map_of (sm_nodes m) k = Some n \<longrightarrow>
     map_of (sm_nodes m) k' = Some n' \<longrightarrow> ns_device_uuid n = Some u \<longrightarrow> ns_device_uuid n' = Some u \<longrightarrow> k = k')"

definition sm_inv :: "session_manager \<Rightarrow> bool" where
  "sm_inv m \<longleftrightarrow> distinct (map fst (sm_nodes m)) \<and> active_count m \<le> sm_maximum_sessions m \<and>
     (\<forall>k n. map_of (sm_nodes m) k = Some n \<longrightarrow> node_ok m k n) \<and> one_node_per_device m"

lemma one_nodeD:
  "one_node_per_device m \<Longrightarrow> map_of (sm_nodes m) k = Some n \<Longrightarrow> map_of (sm_nodes m) k' = Some n' \<Longrightarrow>
     ns_device_uuid n = Some u \<Longrightarrow> ns_device_uuid n' = Some u \<Longrightarrow> k = k'"
  unfolding one_node_per_device_def by blast

definition connected :: "pystr \<times> node_summary \<Rightarrow> bool" where
  "connected kn \<longleftrightarrow> ns_connection_state (snd kn) = CONNECTED"

lemma active_count_connected: "active_count m = length (filter connected (sm_nodes m))"
  by (simp add: active_count_def connected_def [abs_def] case_prod_beta')

text \<open>Replacing a node by one that is connected only if the old one was adds no connected node.\<close>

lemma filter_update:
  assumes "map_of xs k = Some n" and "connected (k, n') \<Longrightarrow> connected (k, n)"
  shows "length (filter connected (AList.update k n' xs)) \<le> length (filter connected xs)"
  using assms by (induction xs) (auto simp: connected_def)

lemma filter_update_Suc:
  "length (filter connected (AList.update k n xs)) \<le> Suc (length (filter connected xs))"
  by (induction xs) auto

lemma put_node_maximum [simp]: "sm_maximum_sessions (put_node k n m) = sm_maximum_sessions m"
    "sm_aliases (put_node k n m) = sm_aliases m" "alias_of (put_node k n m) u = alias_of m u"
  by (simp_all add: put_node_def alias_of_def)

lemma map_of_put_node: "map_of (sm_nodes (put_node k n m)) = (map_of (sm_nodes m))(k \<mapsto> n)"
  by (simp add: put_node_def update_conv')

lemma put_node_inv:
  assumes inv: "sm_inv m" and old: "map_of (sm_nodes m) k = Some c"
    and new: "ns_node_id n = ns_node_id c" "ns_device_uuid n = ns_device_uuid c" "ns_alias n = ns_alias c"
      "ns_connection_state n = CONNECTED \<Longrightarrow> ns_connection_state c = CONNECTED"
      "inventory_state (ns_connection_state c) \<Longrightarrow> inventory_state (ns_connection_state n)"
  shows "sm_inv (put_node k n m)"
proof -
  have "active_count (put_node k n m) \<le> active_count m"
    using filter_update [OF old, of n] new(4) by (simp add: active_count_connected put_node_def connected_def)
  moreover have "distinct (map fst (sm_nodes (put_node k n m)))"
    using inv by (simp add: sm_inv_def put_node_def distinct_update)
  moreover have "node_ok (put_node k n m) k' n'" if "map_of (sm_nodes (put_node k n m)) k' = Some n'" for k' n'
    using that inv old new by (auto simp: map_of_put_node sm_inv_def node_ok_def split: if_splits)
  moreover have "one_node_per_device (put_node k n m)"
    using inv old new(2) unfolding sm_inv_def one_node_per_device_def map_of_put_node
    by (metis fun_upd_apply option.inject)
  ultimately show ?thesis using inv by (simp add: sm_inv_def)
qed

lemma mark_unavailable_inv:
  assumes "mark_unavailable st k why m = (r, m')" and "st \<in> {RECONNECTING, OFFLINE}" and "sm_inv m"
  shows "sm_inv m'"
proof (cases "map_of (sm_nodes m) k")
  case (Some c)
  have "sm_inv (put_node k (c\<lparr>ns_connection_state := st, ns_is_recording := False, ns_alert := why\<rparr>) m)"
    by (rule put_node_inv [OF assms(3) Some]) (use assms(2) in \<open>auto simp: inventory_state_def\<close>)
  then show ?thesis using assms(1) Some by (auto simp: mark_unavailable_def require_node_def)
qed (use assms in \<open>simp add: mark_unavailable_def require_node_def\<close>)

lemma set_recording_inv: "set_recording k b m = (r, m') \<Longrightarrow> sm_inv m \<Longrightarrow> sm_inv m'"
proof (cases "map_of (sm_nodes m) k")
  case (Some c)
  assume a: "set_recording k b m = (r, m')" "sm_inv m"
  have "sm_inv (put_node k (c\<lparr>ns_is_recording := b\<rparr>) m)"
    by (rule put_node_inv [OF a(2) Some]) simp_all
  then show ?thesis using a(1) Some by (auto simp: set_recording_def require_node_def)
qed (simp add: set_recording_def require_node_def)

lemma remove_node_inv: "sm_inv m \<Longrightarrow> sm_inv (remove_node k m)"
proof -
  assume inv: "sm_inv m"
  have "length (filter connected (AList.delete k xs)) \<le> length (filter connected xs)" for xs
    by (induction xs) (auto simp: AList.delete_eq)
  then have "active_count (remove_node k m) \<le> active_count m"
    by (simp add: active_count_connected remove_node_def)
  moreover have "map_of (sm_nodes (remove_node k m)) k' = Some n' \<Longrightarrow> map_of (sm_nodes m) k' = Some n'" for k' n'
    by (auto simp: remove_node_def delete_conv' split: if_splits)
  moreover have "alias_of (remove_node k m) u = alias_of m u" for u by (simp add: alias_of_def remove_node_def)
  moreover have "distinct (map fst (sm_nodes (remove_node k m)))"
    using inv by (simp add: sm_inv_def remove_node_def distinct_delete)
  moreover have "sm_maximum_sessions (remove_node k m) = sm_maximum_sessions m" by (simp add: remove_node_def)
  moreover have "one_node_per_device (remove_node k m)"
    unfolding one_node_per_device_def using calculation(2) one_nodeD inv unfolding sm_inv_def by blast
  moreover have "node_ok (remove_node k m) k' n' = node_ok m k' n'" for k' n'
    using calculation(3) by (simp add: node_ok_def)
  ultimately show ?thesis using inv unfolding sm_inv_def by (auto intro: le_trans)
qed

lemma add_session_inv:
  assumes "add_session k t p m = (r, m')" and inv: "sm_inv m"
  shows "sm_inv m'"
proof (cases "m' = m")
  case False
  define n where "n = \<lparr>ns_node_id = k, ns_transport_kind = t, ns_peer = p, ns_connection_state = CONNECTED,
      ns_device_uuid = None, ns_alias = p, ns_is_recording = False, ns_alert = None\<rparr>"
  have c: "active_count m < sm_maximum_sessions m" "map_of (sm_nodes m) k = None" "m' = put_node k n m"
    using assms(1) False by (auto simp: add_session_def n_def Let_def split: if_splits)
  have "active_count m' \<le> Suc (active_count m)"
    using filter_update_Suc by (simp add: c(3) active_count_connected put_node_def)
  moreover have "distinct (map fst (sm_nodes m'))"
    using inv by (simp add: sm_inv_def c(3) put_node_def distinct_update)
  moreover have "node_ok m' k' n'" if "map_of (sm_nodes m') k' = Some n'" for k' n'
    using that inv by (auto simp: c(3) map_of_put_node sm_inv_def node_ok_def n_def inventory_state_def split: if_splits)
  moreover have "one_node_per_device m'"
    using inv unfolding sm_inv_def one_node_per_device_def c(3) map_of_put_node
    by (auto simp: n_def split: if_splits)
  ultimately show ?thesis using inv c(1) by (simp add: sm_inv_def c(3))
qed (use inv in simp)

lemma bind_identity_inv:
  assumes "bind_identity k u m = (r, m')" and inv: "sm_inv m" and u: "u < 2 ^ 128"
  shows "sm_inv m'"
proof (cases "m' = m")
  case False
  obtain c where old: "map_of (sm_nodes m) k = Some c"
    using assms(1) False by (auto simp: bind_identity_def require_node_def split: option.splits)
  have old_ok: "node_ok m k c" using inv old unfolding sm_inv_def by blast
  define n where "n = c\<lparr>ns_device_uuid := Some u, ns_alias := alias_of m u\<rparr>"
  define keep where "keep = filter (\<lambda>kn. \<not> same_device k u kn) (sm_nodes m)"
  have m': "m' = put_node k n (m\<lparr>sm_nodes := keep\<rparr>)"
    using assms(1) False old
    by (auto simp: bind_identity_def require_node_def n_def keep_def Let_def split: if_splits)
  have dist: "distinct (map fst (sm_nodes m))" using inv by (simp add: sm_inv_def)
  have kd: "distinct (map fst keep)" unfolding keep_def using dist distinct_map_filter by blast
  have km: "map_of keep k' = Some n' \<longleftrightarrow> map_of (sm_nodes m) k' = Some n' \<and> \<not> same_device k u (k', n')" for k' n'
    unfolding map_of_eq_Some_iff [OF dist] map_of_eq_Some_iff [OF kd] by (simp add: keep_def)
  have kc: "map_of keep k = Some c" using old by (simp add: km same_device_def)
  have "length (filter connected (AList.update k n keep)) \<le> length (filter connected keep)"
    by (rule filter_update [OF kc]) (simp add: connected_def n_def)
  also have "\<dots> \<le> length (filter connected (sm_nodes m))"
  proof -
    have "length (filter P (filter Q xs)) \<le> length (filter P xs)" for P Q and xs :: "(pystr \<times> node_summary) list"
      by (induction xs) auto
    then show ?thesis by (simp only: keep_def)
  qed
  finally have "active_count m' \<le> active_count m" by (simp add: active_count_connected m' put_node_def)
  moreover have "distinct (map fst (sm_nodes m'))" using kd by (simp add: m' put_node_def distinct_update)
  moreover have "node_ok m' k' n'" if "map_of (sm_nodes m') k' = Some n'" for k' n'
    using that inv old u old_ok
    by (auto simp: m' map_of_put_node km sm_inv_def node_ok_def n_def alias_of_def split: if_splits)
  moreover have "one_node_per_device m'"
    unfolding one_node_per_device_def
  proof (intro allI impI)
    fix k1 n1 k2 n2 v
    assume a: "map_of (sm_nodes m') k1 = Some n1" "map_of (sm_nodes m') k2 = Some n2"
      "ns_device_uuid n1 = Some v" "ns_device_uuid n2 = Some v"
    have other: "map_of (sm_nodes m) k' = Some n' \<and> ns_device_uuid n' \<noteq> Some u"
      if "map_of (sm_nodes m') k' = Some n'" "k' \<noteq> k" for k' n'
      using that by (simp add: m' map_of_put_node km same_device_def)
    have own: "n' = n" if "map_of (sm_nodes m') k = Some n'" for n'
      using that by (simp add: m' map_of_put_node)
    have "ns_device_uuid n = Some u" by (simp add: n_def)
    show "k1 = k2"
    proof (cases "k1 = k \<or> k2 = k")
      case True
      then have "v = u" using own a \<open>ns_device_uuid n = Some u\<close> by auto
      then show ?thesis using other a True by blast
    next
      case False
      then have "map_of (sm_nodes m) k1 = Some n1" "map_of (sm_nodes m) k2 = Some n2"
        using other a(1,2) by blast+
      then show ?thesis using one_nodeD inv a(3,4) unfolding sm_inv_def by blast
    qed
  qed
  ultimately show ?thesis using inv by (simp add: sm_inv_def m')
qed (use inv in simp)

lemma set_alias_inv:
  assumes "set_alias k a m = (r, m')" and inv: "sm_inv m"
  shows "sm_inv m'"
proof (cases "m' = m")
  case False
  obtain c where old: "map_of (sm_nodes m) k = Some c"
    using assms(1) False by (auto simp: set_alias_def require_node_def Let_def split: option.splits if_splits)
  define n where "n = c\<lparr>ns_alias := str_strip a\<rparr>"
  have m': "m' = (case ns_device_uuid c of None \<Rightarrow> put_node k n m
      | Some u \<Rightarrow> (put_node k n m)\<lparr>sm_aliases := AList.update (uuid_text u) (str_strip a) (sm_aliases m)\<rparr>)"
    using assms(1) False old
    by (auto simp: set_alias_def require_node_def n_def Let_def split: option.splits if_splits)
  have nodes: "sm_nodes m' = sm_nodes (put_node k n m)" "sm_maximum_sessions m' = sm_maximum_sessions m"
    by (simp_all add: m' split: option.splits)
  have uuid: "ns_device_uuid n' = ns_device_uuid (if k' = k then c else n')" if "map_of (sm_nodes m') k' = Some n'" for k' n'
    using that by (auto simp: nodes map_of_put_node n_def split: if_splits)
  have was: "map_of (sm_nodes m) k' = Some (if k' = k then c else n')" if "map_of (sm_nodes m') k' = Some n'" for k' n'
    using that old by (auto simp: nodes map_of_put_node split: if_splits)
  have "active_count m' \<le> active_count m"
    using filter_update [OF old, of n]
    by (simp add: active_count_connected nodes put_node_def connected_def n_def)
  moreover have "distinct (map fst (sm_nodes m'))"
    using inv by (simp add: nodes sm_inv_def put_node_def distinct_update)
  moreover have "one_node_per_device m'"
    unfolding one_node_per_device_def
  proof (intro allI impI)
    fix k1 n1 k2 n2 v
    assume "map_of (sm_nodes m') k1 = Some n1" "map_of (sm_nodes m') k2 = Some n2"
      "ns_device_uuid n1 = Some v" "ns_device_uuid n2 = Some v"
    then show "k1 = k2"
      using one_nodeD [of m k1 _ k2 _ v] inv was uuid unfolding sm_inv_def by metis
  qed
  moreover have "node_ok m' k' n'" if h: "map_of (sm_nodes m') k' = Some n'" for k' n'
  proof -
    have o: "node_ok m k' (if k' = k then c else n')" using was [OF h] inv unfolding sm_inv_def by blast
    have "ns_alias n' = alias_of m' u" if u: "ns_device_uuid n' = Some u" for u
    proof (cases "k' = k")
      case True
      then have "n' = n" using h by (simp add: nodes map_of_put_node)
      then show ?thesis using u by (simp add: n_def m' alias_of_def update_conv')
    next
      case False
      have b: "u < 2 ^ 128" "ns_alias n' = alias_of m u" using o u False by (simp_all add: node_ok_def)
      have "v \<noteq> u \<and> v < 2 ^ 128" if v: "ns_device_uuid c = Some v" for v
      proof -
        have "node_ok m k c" using old inv unfolding sm_inv_def by blast
        then have "v < 2 ^ 128" using v by (simp add: node_ok_def)
        moreover have "v \<noteq> u"
          using one_nodeD [of m k c k' n' u] old was [OF h] False u v inv unfolding sm_inv_def by auto
        ultimately show ?thesis by blast
      qed
      then show ?thesis
        using b uuid_text_inj [of u] by (auto simp: m' alias_of_def update_conv' split: option.splits)
    qed
    moreover have "ns_node_id n' = k'"
      using o h by (cases "k' = k") (auto simp: node_ok_def nodes map_of_put_node n_def)
    moreover have "u < 2 ^ 128" if "ns_device_uuid n' = Some u" for u
      using o uuid [OF h] that by (simp add: node_ok_def)
    moreover have "inventory_state (ns_connection_state n')"
      using o h by (cases "k' = k") (auto simp: node_ok_def nodes map_of_put_node n_def)
    ultimately show ?thesis by (simp add: node_ok_def)
  qed
  ultimately show ?thesis using inv nodes by (simp add: sm_inv_def)
qed (use inv in simp)

lemma sm_step_inv: "sm_step m m' \<Longrightarrow> sm_inv m \<Longrightarrow> sm_inv m'"
  by (induction rule: sm_step.induct)
    (auto intro: add_session_inv bind_identity_inv set_alias_inv set_recording_inv remove_node_inv
      mark_unavailable_inv simp: mark_reconnecting_def mark_offline_def)

lemma sm_reach_inv: "sm_reach m m' \<Longrightarrow> sm_inv m \<Longrightarrow> sm_inv m'"
  by (induction rule: sm_reach.induct) (auto intro: sm_step_inv)

lemma init_sm_inv: "NodeSessionManager_init k aliases = Inr m \<Longrightarrow> sm_inv m"
  by (auto simp: NodeSessionManager_init_def sm_inv_def active_count_def one_node_per_device_def split: if_splits)

section \<open>Properties\<close>



end
