(* ===== verification/Archive.thy ===== *)
theory Archive
  imports StreamParser OtaPackage "HOL-Library.List_Lexorder" "HOL-Library.Product_Lexorder"
    "HOL-Library.Multiset"
begin

text \<open>
  \<^verbatim>\<open>storage/archive_library.py\<close> and \<^verbatim>\<open>storage/replay.py\<close>: the library of exported archives, the index that
  maps playback time to file offsets, and chunked replay. A file is its bytes; the sizes and the
  magic are those of the SDF1 protocol, with the same values in both modules.
\<close>

section \<open>The playback index\<close>

definition VERSION_V1 :: nat where [const_simps]: "VERSION_V1 = 1"
definition VERSION_V2 :: nat where [const_simps]: "VERSION_V2 = 2"
definition MESSAGE_IIS3DWB_FIFO :: nat where [const_simps]: "MESSAGE_IIS3DWB_FIFO = 1"
definition MESSAGE_JY61PL_SAMPLE :: nat where [const_simps]: "MESSAGE_JY61PL_SAMPLE = 2"

record playback_index =
  pi_offsets :: "nat list"
  pi_timestamps_us :: "float64 list"
  pi_cum_samples :: "nat list"
  pi_kinds :: "nat list"
  pi_total_samples :: nat
  pi_first_timestamp_us :: float64
  pi_last_timestamp_us :: float64

definition duration_s :: "playback_index \<Rightarrow> float64" where
  "duration_s ix =
     (if pi_last_timestamp_us ix \<le> pi_first_timestamp_us ix then 0
      else fdiv (fsub (pi_last_timestamp_us ix) (pi_first_timestamp_us ix)) 1000000)"

definition index_sample_rate_hz :: "playback_index \<Rightarrow> float64" where
  "index_sample_rate_hz ix =
     (if duration_s ix \<le> 0 \<or> pi_total_samples ix < 2 then 0
      else fdiv (of_pyint (int (pi_total_samples ix))) (duration_s ix))"

definition target_us :: "playback_index \<Rightarrow> float64 \<Rightarrow> float64" where
  "target_us ix time_s = fadd (pi_first_timestamp_us ix) (fmul (max 0 time_s) 1000000)"

definition offset_for_time :: "numpy \<Rightarrow> playback_index \<Rightarrow> float64 \<Rightarrow> nat" where
  "offset_for_time np ix time_s =
     (if pi_offsets ix = [] then 0
      else pi_offsets ix ! nat (max 0 (int (np_searchsorted_right np (pi_timestamps_us ix) (target_us ix time_s)) - 1)))"

text \<open>The variables of the scan of \<^verbatim>\<open>build_playback_index\<close>.\<close>

record index_scan =
  ix_offsets :: "nat list"
  ix_timestamps :: "float64 list"
  ix_cum_samples :: "nat list"
  ix_kinds :: "nat list"
  ix_total_samples :: nat
  ix_first_iis_us :: "float64 option"
  ix_last_iis_us :: "float64 option"

definition sample_count :: "bytes \<Rightarrow> nat" where
  "sample_count payload =
     length (filter (\<lambda>k. unat (payload ! (7 * k)) div 8 = 2) [0..<(length payload + 6) div 7])"

text \<open>What one frame adds to the scan, at its offset, with its type, timestamp and payload.\<close>

definition scan_frame :: "nat \<Rightarrow> nat \<Rightarrow> nat \<Rightarrow> bytes \<Rightarrow> index_scan \<Rightarrow> index_scan" where
  "scan_frame offset message_type timestamp_us payload st =
     (let ts = of_pyint (int timestamp_us);
          st1 = (if message_type = MESSAGE_IIS3DWB_FIFO
                 then st\<lparr>ix_total_samples := ix_total_samples st + sample_count payload,
                         ix_first_iis_us := (case ix_first_iis_us st of None \<Rightarrow> Some ts | f \<Rightarrow> f),
                         ix_last_iis_us := Some ts\<rparr>
                 else st);
          kind = (if message_type = MESSAGE_IIS3DWB_FIFO then 1
                  else if message_type = MESSAGE_JY61PL_SAMPLE then 2 else 0)
      in st1\<lparr>ix_offsets := ix_offsets st1 @ [offset], ix_timestamps := ix_timestamps st1 @ [ts],
             ix_cum_samples := ix_cum_samples st1 @ [ix_total_samples st1], ix_kinds := ix_kinds st1 @ [kind]\<rparr>)"

function index_loop :: "bytes \<Rightarrow> nat \<Rightarrow> index_scan \<Rightarrow> index_scan" where
  "index_loop file offset st =
     (let header = slice file offset (offset + DATA_HEADER_SIZE) in
      if header = [] then st
      else if length header < HEADER_SIZE \<or> take 4 header \<noteq> MAGIC then st
      else
        let version = field header 4 1; message_type = field header 5 1;
            header_size = field header 8 2; payload_size = field header 10 2;
            timestamp_us = field header 16 8;
            expected_header = (if version = VERSION_V2 then DATA_HEADER_SIZE else HEADER_SIZE);
            frame_size = header_size + payload_size + CRC_SIZE;
            payload = slice file (offset + header_size) (offset + header_size + payload_size)
        in if version \<notin> {VERSION_V1, VERSION_V2} then st
           else if header_size \<noteq> expected_header \<or> MAX_PAYLOAD_SIZE < payload_size then st
           else if message_type = MESSAGE_IIS3DWB_FIFO \<and> length payload \<noteq> payload_size then st
           else index_loop file (offset + frame_size) (scan_frame offset message_type timestamp_us payload st))"
  by pat_completeness auto
termination
  by (relation "measure (\<lambda>(file, offset, st). length file - offset)")
    (auto simp: slice_def const_simps split: if_splits)

declare index_loop.simps [simp del]

definition empty_scan :: index_scan where
  "empty_scan = \<lparr>ix_offsets = [], ix_timestamps = [], ix_cum_samples = [], ix_kinds = [],
     ix_total_samples = 0, ix_first_iis_us = None, ix_last_iis_us = None\<rparr>"

definition build_playback_index :: "bytes \<Rightarrow> playback_index" where
  "build_playback_index file =
     (let st = index_loop file 0 empty_scan in
      \<lparr>pi_offsets = ix_offsets st, pi_timestamps_us = ix_timestamps st, pi_cum_samples = ix_cum_samples st,
       pi_kinds = ix_kinds st, pi_total_samples = ix_total_samples st,
       pi_first_timestamp_us = (case ix_first_iis_us st of Some t \<Rightarrow> t | None \<Rightarrow> 0),
       pi_last_timestamp_us = (case ix_last_iis_us st of Some t \<Rightarrow> t | None \<Rightarrow> 0)\<rparr>)"

section \<open>Replay\<close>

definition DEFAULT_REPLAY_CHUNK_SIZE :: nat where [const_simps]: "DEFAULT_REPLAY_CHUNK_SIZE = 65536"

function read_chunks :: "nat \<Rightarrow> bytes \<Rightarrow> bytes list" where
  "read_chunks n file = (if n = 0 \<or> file = [] then [] else take n file # read_chunks n (drop n file))"
  by pat_completeness auto
termination
  by (relation "measure (\<lambda>(n, file). length file)") auto

declare read_chunks.simps [simp del]

definition replay_chunks :: "bytes \<Rightarrow> int \<Rightarrow> bytes list res" where
  "replay_chunks file chunk_size =
     (if chunk_size \<le> 0 then Inl (ValueError ''chunk_size must be positive'')
      else Inr (read_chunks (nat chunk_size) file))"

section \<open>The library\<close>

text \<open>A JSON value as \<^verbatim>\<open>json.loads\<close> returns it.\<close>

datatype json =
    JNull | JBool bool | JInt int | JFloat float64 | JStr pystr
  | JList "json list" | JObj "(pystr \<times> json) list"

text \<open>What the file system holds of one path of the scan: \<^verbatim>\<open>rglob\<close> lists it.\<close>

datatype sidecar = NoSidecar | Unreadable | Loaded json

record export_file =
  ef_path :: pystr
  ef_name :: pystr
  ef_is_file :: bool
  ef_sidecar :: sidecar
  ef_stat :: "(nat \<times> float64) option"

record export_entry =
  ee_path :: pystr
  ee_name :: pystr
  ee_started_utc :: pystr
  ee_ended_utc :: pystr
  ee_bytes_written :: int
  ee_status :: pystr
  ee_alias :: pystr
  ee_uuid :: pystr

text \<open>The truth value of a JSON value, \<^verbatim>\<open>str\<close> and \<^verbatim>\<open>int\<close> of it; \<open>repr\<close> is \<^verbatim>\<open>str\<close> of a float or a container.\<close>

fun truthy :: "json \<Rightarrow> bool" where
  "truthy JNull = False"
| "truthy (JBool b) = b"
| "truthy (JInt i) = (i \<noteq> 0)"
| "truthy (JFloat f) = (f \<noteq> 0)"
| "truthy (JStr s) = (s \<noteq> [])"
| "truthy (JList xs) = (xs \<noteq> [])"
| "truthy (JObj kvs) = (kvs \<noteq> [])"

fun py_str :: "(json \<Rightarrow> pystr) \<Rightarrow> json \<Rightarrow> pystr" where
  "py_str repr JNull = lit ''None''"
| "py_str repr (JBool b) = (if b then lit ''True'' else lit ''False'')"
| "py_str repr (JInt i) = show_int i"
| "py_str repr (JStr s) = s"
| "py_str repr j = repr j"

fun json_int :: "json \<Rightarrow> int res" where
  "json_int (JBool b) = Inr (if b then 1 else 0)"
| "json_int (JInt i) = Inr i"
| "json_int (JFloat f) = Inr (if 0 \<le> f then \<lfloor>f\<rfloor> else - \<lfloor>- f\<rfloor>)"
| "json_int (JStr s) =
     (case py_int 10 s of Some i \<Rightarrow> Inr i | None \<Rightarrow> Inl (ValueError ''invalid literal for int''))"
| "json_int _ = Inl (TypeError ''int() argument must be a string or a number'')"

definition meta_get :: "(pystr \<times> json) list \<Rightarrow> string \<Rightarrow> json option" where
  "meta_get m key =
     (case map_of m (lit key) of Some j \<Rightarrow> if truthy j then Some j else None | None \<Rightarrow> None)"

definition meta_str :: "(json \<Rightarrow> pystr) \<Rightarrow> (pystr \<times> json) list \<Rightarrow> string \<Rightarrow> pystr \<Rightarrow> pystr" where
  "meta_str repr m key fallback = (case meta_get m key of Some j \<Rightarrow> py_str repr j | None \<Rightarrow> fallback)"

definition entry_for :: "(json \<Rightarrow> pystr) \<Rightarrow> (float64 \<Rightarrow> pystr) \<Rightarrow> export_file \<Rightarrow> export_entry res" where
  "entry_for repr isoformat f =
     (let metadata = (case ef_sidecar f of Loaded (JObj m) \<Rightarrow> m | _ \<Rightarrow> []);
          (len, modified) = (case ef_stat f of Some s \<Rightarrow> s | None \<Rightarrow> (0, 0));
          given = meta_str repr metadata ''started_utc'' [];
          started = (if given = [] then isoformat modified else given)
      in rbind (case meta_get metadata ''bytes_written'' of Some j \<Rightarrow> json_int j | None \<Rightarrow> Inr (int len))
           (\<lambda>n. Inr \<lparr>ee_path = ef_path f, ee_name = ef_name f, ee_started_utc = started,
              ee_ended_utc = meta_str repr metadata ''ended_utc'' [], ee_bytes_written = n,
              ee_status = meta_str repr metadata ''status'' (lit ''unknown''),
              ee_alias = meta_str repr metadata ''alias'' [], ee_uuid = meta_str repr metadata ''uuid'' []\<rparr>))"

fun entries_for :: "(json \<Rightarrow> pystr) \<Rightarrow> (float64 \<Rightarrow> pystr) \<Rightarrow> export_file list \<Rightarrow> export_entry list res" where
  "entries_for repr isoformat [] = Inr []"
| "entries_for repr isoformat (f # fs) =
     (if \<not> ef_is_file f then entries_for repr isoformat fs
      else rbind (entry_for repr isoformat f) (\<lambda>e.
           rbind (entries_for repr isoformat fs) (\<lambda>es. Inr (e # es))))"

text \<open>
  \<^verbatim>\<open>list.sort(key=.., reverse=True)\<close> keeps the order of equal keys: a stable sort of the reversed list,
  reversed. Strings are compared by code points.
\<close>

definition newest_first :: "export_entry list \<Rightarrow> export_entry list" where
  "newest_first es = rev (sort_key (\<lambda>e. (ee_started_utc e, ee_name e)) (rev es))"

definition scan_exports ::
  "(json \<Rightarrow> pystr) \<Rightarrow> (float64 \<Rightarrow> pystr) \<Rightarrow> export_file list option \<Rightarrow> export_entry list res" where
  "scan_exports repr isoformat export_root =
     (case export_root of
        None \<Rightarrow> Inr []
      | Some fs \<Rightarrow> rbind (entries_for repr isoformat fs) (\<lambda>es. Inr (newest_first es)))"

text \<open>\<^verbatim>\<open>Path.with_suffix(".json")\<close> on the name, and deletion in a directory of names.\<close>

definition with_suffix :: "pystr \<Rightarrow> pystr \<Rightarrow> pystr" where
  "with_suffix name suffix = take (length name - length (path_suffix name)) name @ suffix"

definition delete_export :: "pystr \<Rightarrow> (pystr \<rightharpoonup> bytes) \<Rightarrow> unit res \<times> (pystr \<rightharpoonup> bytes)" where
  "delete_export name fs =
     (if lower_ascii (path_suffix name) \<noteq> lit ''.sdf1''
      then (Inl (ValueError ''selected file is not an SDF1 archive''), fs)
      else if fs name = None then (Inl (OSError ''No such file or directory''), fs)
      else (Inr (), fs(name := None, with_suffix name (lit ''.json'') := None)))"

section \<open>The index of a file of frames\<close>

text \<open>A valid frame of one of the two versions the index knows.\<close>

definition indexable :: "bytes \<Rightarrow> bool" where
  "indexable c \<longleftrightarrow> valid_candidate c \<and> field c 4 1 \<in> {1, 2}"

definition frame_payload :: "bytes \<Rightarrow> bytes" where
  "frame_payload c = slice c (field c 8 2) (field c 8 2 + field c 10 2)"

definition frame_time :: "bytes \<Rightarrow> float64" where
  "frame_time c = of_pyint (int (field c 16 8))"

definition scan_candidate :: "nat \<Rightarrow> bytes \<Rightarrow> index_scan \<Rightarrow> index_scan" where
  "scan_candidate offset c st = scan_frame offset (field c 5 1) (field c 16 8) (frame_payload c) st"

lemma indexable_length: "indexable c \<Longrightarrow> 32 \<le> length c"
  by (simp add: indexable_def valid_candidate_def const_simps)

lemma index_loop_frame:
  assumes "indexable c"
  shows "index_loop (pre @ c @ rest) (length pre) st =
    index_loop (pre @ c @ rest) (length pre + length c) (scan_candidate (length pre) c st)"
proof -
  let ?f = "pre @ c @ rest"
  define h where "h = slice ?f (length pre) (length pre + DATA_HEADER_SIZE)"
  have l: "32 \<le> length c" by (rule indexable_length [OF assms])
  have h: "h = take 44 (c @ rest)" by (simp add: h_def slice_def const_simps)
  have fd: "field h q n = field c q n" if "q + n \<le> 28" for q n
    using that l by (simp add: h field_take field_append)
  have v: "field c 8 2 = (if field c 4 1 = VERSION_V2 then DATA_HEADER_SIZE else HEADER_SIZE)"
      "\<not> MAX_PAYLOAD_SIZE < field c 10 2" "length c = field c 8 2 + field c 10 2 + CRC_SIZE"
      "starts_with MAGIC c" "field c 4 1 \<in> {VERSION_V1, VERSION_V2}"
    using assms by (auto simp: indexable_def valid_candidate_def const_simps)
  have m: "take 4 h = MAGIC" using v(4) l by (simp add: h starts_with_def MAGIC_bytes eval_nat_numeral)
  have p: "slice ?f (length pre + field c 8 2) (length pre + field c 8 2 + field c 10 2) = frame_payload c"
    using v(3) by (simp add: frame_payload_def slice_append_right slice_append_left)
  have pl: "length (frame_payload c) = field c 10 2" using v(3) by (simp add: frame_payload_def)
  have ne: "h \<noteq> []" "\<not> length h < HEADER_SIZE" using l unfolding h by (auto simp: const_simps)
  have "index_loop ?f (length pre) st =
      index_loop ?f (length pre + (field c 8 2 + field c 10 2 + CRC_SIZE)) (scan_candidate (length pre) c st)"
    using fd [of 4 1] fd [of 5 1] fd [of 8 2] fd [of 10 2] fd [of 16 8] v(1,2,5) m p pl ne
    unfolding index_loop.simps [of ?f "length pre" st] h_def [symmetric] Let_def scan_candidate_def
    by simp
  then show ?thesis by (simp only: v(3) [symmetric])
qed

fun scan_all :: "nat \<Rightarrow> bytes list \<Rightarrow> index_scan \<Rightarrow> index_scan" where
  "scan_all offset [] st = st"
| "scan_all offset (c # cs) st = scan_all (offset + length c) cs (scan_candidate offset c st)"

lemma index_loop_frames:
  "list_all indexable cs \<Longrightarrow> index_loop (pre @ concat cs) (length pre) st = scan_all (length pre) cs st"
proof (induction cs arbitrary: pre st)
  case Nil
  then show ?case by (simp add: index_loop.simps [of pre] slice_def)
next
  case (Cons c cs)
  then show ?case
    using index_loop_frame [of c pre "concat cs" st]
      Cons.IH [of "pre @ c" "scan_candidate (length pre) c st"] by simp
qed

lemma scan_candidate_lists:
  "ix_offsets (scan_candidate q c st) = ix_offsets st @ [q]"
  "ix_timestamps (scan_candidate q c st) = ix_timestamps st @ [frame_time c]"
  "ix_total_samples (scan_candidate q c st) =
     ix_total_samples st + (if field c 5 1 = 1 then sample_count (frame_payload c) else 0)"
  by (simp_all add: scan_candidate_def scan_frame_def Let_def frame_time_def const_simps)

lemma scan_all_lists:
  "ix_offsets (scan_all q cs st) = ix_offsets st @ map (\<lambda>i. q + length (concat (take i cs))) [0..<length cs] \<and>
   ix_timestamps (scan_all q cs st) = ix_timestamps st @ map frame_time cs \<and>
   ix_total_samples (scan_all q cs st) = ix_total_samples st +
     sum_list (map (\<lambda>c. sample_count (frame_payload c)) (filter (\<lambda>c. field c 5 1 = 1) cs))"
proof (induction cs arbitrary: q st)
  case (Cons c cs)
  have "map (\<lambda>i. q + length (concat (take i (c # cs)))) [0..<length (c # cs)] =
      q # map (\<lambda>i. (q + length c) + length (concat (take i cs))) [0..<length cs]"
    by (simp add: upt_conv_Cons map_Suc_upt [symmetric] add.assoc del: upt_Suc)
  then show ?case using Cons.IH [of "q + length c" "scan_candidate q c st"] by (simp add: scan_candidate_lists)
qed simp

lemma build_index_frames:
  assumes "list_all indexable cs"
  shows "pi_offsets (build_playback_index (concat cs)) = map (\<lambda>i. length (concat (take i cs))) [0..<length cs]"
    "pi_timestamps_us (build_playback_index (concat cs)) = map frame_time cs"
    "pi_total_samples (build_playback_index (concat cs)) =
       sum_list (map (\<lambda>c. sample_count (frame_payload c)) (filter (\<lambda>c. field c 5 1 = 1) cs))"
  using index_loop_frames [OF assms, of "[]" empty_scan] scan_all_lists [of 0 cs empty_scan]
  by (simp_all add: build_playback_index_def Let_def empty_scan_def)

text \<open>The number of elements up to a bound, in a sorted list, is the position behind the last of them.\<close>

lemma filter_le_sorted:
  assumes "sorted xs" and "i < length xs"
  shows "xs ! i \<le> (v :: 'a :: linorder) \<longleftrightarrow> i < length (filter (\<lambda>x. x \<le> v) xs)"
  using assms
proof (induction xs arbitrary: i)
  case (Cons x xs)
  show ?case
  proof (cases "x \<le> v")
    case True
    then show ?thesis using Cons by (cases i) auto
  next
    case False
    then have "filter (\<lambda>x. x \<le> v) (x # xs) = []" using Cons.prems(1) by (auto simp: filter_empty_conv)
    moreover have "\<not> (x # xs) ! i \<le> v" using False Cons.prems by (cases i) (auto simp: not_le intro: less_le_trans)
    ultimately show ?thesis by (metis list.size(3) not_less0)
  qed
qed simp

lemma length_filter_pos: "length (filter P xs) \<le> length xs"
  by simp

section \<open>Properties\<close>

text \<open>
  C33. Seeking in an archive lands on a frame: for a file of valid frames in time order, the offset for
  every playback time is the start of a frame, from which the rest of the file is the remaining
  frames; it is the last frame at or before the target time, or the first frame when the target
  precedes all of them.
\<close>

theorem seek_lands_on_frame:
  assumes "numpy_ok np" and "list_all indexable cs" and "cs \<noteq> []" and "sorted (map frame_time cs)"
  defines "ix \<equiv> build_playback_index (concat cs)"
  shows "\<exists>i<length cs. drop (offset_for_time np ix t) (concat cs) = concat (drop i cs) \<and>
    (frame_time (cs ! i) \<le> target_us ix t \<or> i = 0) \<and>
    (\<forall>j. i < j \<longrightarrow> j < length cs \<longrightarrow> target_us ix t < frame_time (cs ! j))"
proof -
  let ?v = "target_us ix t"
  define k where "k = length (filter (\<lambda>x. x \<le> ?v) (map frame_time cs))"
  have off: "pi_offsets ix = map (\<lambda>i. length (concat (take i cs))) [0..<length cs]"
    and ts: "pi_timestamps_us ix = map frame_time cs"
    using build_index_frames [OF assms(2)] by (simp_all add: ix_def)
  have k: "np_searchsorted_right np (pi_timestamps_us ix) ?v = k"
    unfolding ts k_def by (rule numpy_searchsorted(3) [OF assms(1,4)])
  have "k \<le> length cs" using length_filter_le [of "\<lambda>x. x \<le> ?v" "map frame_time cs"] by (simp add: k_def)
  then have i: "k - 1 < length cs" using assms(3) by (cases cs) auto
  have "offset_for_time np ix t = length (concat (take (k - 1) cs))"
  proof -
    have "nat (max 0 (int k - 1)) = k - 1" by simp
    then show ?thesis using i assms(3) by (simp add: offset_for_time_def k off)
  qed
  then have "drop (offset_for_time np ix t) (concat cs) = concat (drop (k - 1) cs)"
    by (metis append_eq_conv_conj append_take_drop_id concat_append)
  moreover have "frame_time (cs ! j) \<le> ?v \<longleftrightarrow> j < k" if "j < length cs" for j
    using filter_le_sorted [OF assms(4), of j ?v] that by (simp add: k_def)
  ultimately show ?thesis using i by (intro exI [of _ "k - 1"]) (auto simp: not_le [symmetric])
qed

text \<open>
  The index of a file of valid frames lists every frame, with its offset and timestamp, and counts
  the IIS samples of the whole file.
\<close>

theorem index_lists_frames:
  assumes "list_all indexable cs"
  shows "pi_offsets (build_playback_index (concat cs)) = map (\<lambda>i. length (concat (take i cs))) [0..<length cs] \<and>
    pi_timestamps_us (build_playback_index (concat cs)) = map frame_time cs \<and>
    pi_total_samples (build_playback_index (concat cs)) =
      sum_list (map (\<lambda>c. sample_count (frame_payload c)) (filter (\<lambda>c. field c 5 1 = 1) cs))"
  using build_index_frames [OF assms] by simp

lemma sample_frame_indexable: "indexable sample_frame"
  using sample_frame_valid by (simp add: indexable_def sample_frame_def field_def slice_def MAGIC_bytes)

theorem seek_lands_on_frame_witness:
  "drop (offset_for_time np_ref (build_playback_index (concat [sample_frame])) 3) (concat [sample_frame]) =
     concat [sample_frame]"
  using seek_lands_on_frame [OF numpy_ok_np_ref, of "[sample_frame]" 3] sample_frame_indexable by auto

theorem index_lists_frames_witness:
  "pi_offsets (build_playback_index (concat [sample_frame, sample_frame])) = [0, length sample_frame]"
  using index_lists_frames [of "[sample_frame, sample_frame]"] sample_frame_indexable
  by (simp add: upt_conv_Cons)

section \<open>Replay and the library\<close>

lemma read_chunks_concat: "0 < n \<Longrightarrow> concat (read_chunks n bs) = bs"
  by (induction n bs rule: read_chunks.induct) (subst read_chunks.simps, simp)

lemma read_chunks_size: "list_all (\<lambda>c. c \<noteq> [] \<and> length c \<le> n) (read_chunks n bs)"
  by (induction n bs rule: read_chunks.induct) (subst read_chunks.simps, auto)

text \<open>
  Replay is exact: the chunks of a recording are non-empty, at most as long as asked for, and
  together the bytes of the file.
\<close>

theorem replay_is_exact:
  assumes "replay_chunks bs n = Inr cs"
  shows "concat cs = bs \<and> list_all (\<lambda>c. c \<noteq> [] \<and> int (length c) \<le> n) cs"
proof -
  have "0 < nat n" "cs = read_chunks (nat n) bs" using assms by (auto simp: replay_chunks_def split: if_splits)
  then show ?thesis using read_chunks_concat read_chunks_size [of "nat n" bs] by (auto simp: list_all_iff)
qed

theorem replay_is_exact_witness: "concat (read_chunks 2 [1, 2, 3]) = [1, 2, 3]"
  using replay_is_exact [of "[1, 2, 3]" 2 "read_chunks 2 [1, 2, 3]"] by (simp add: replay_chunks_def)

lemma entries_for_map:
  "entries_for repr isof fs = Inr es \<Longrightarrow>
     list_all2 (\<lambda>f e. entry_for repr isof f = Inr e) (filter ef_is_file fs) es"
proof (induction fs arbitrary: es)
  case (Cons f fs)
  then show ?case by (auto simp: rbind_Inr_iff split: if_splits)
qed simp

lemma newest_first_mset: "mset (newest_first es) = mset es"
  by (simp add: newest_first_def)

lemma newest_first_sorted:
  "sorted_wrt (\<lambda>a b. (ee_started_utc b, ee_name b) \<le> (ee_started_utc a, ee_name a)) (newest_first es)"
  using sorted_sort_key [of "\<lambda>e. (ee_started_utc e, ee_name e)" "rev es"]
  by (simp add: newest_first_def sorted_wrt_rev sorted_wrt_map)

text \<open>
  The export list shows every archive file once, newest first: an entry for each file the scan found
  and nothing else, ordered by start time and name, descending. Files that are no regular files
  are skipped; a sidecar that cannot be read or is no JSON object only leaves the defaults.
\<close>

theorem scan_exports_newest_first:
  assumes "scan_exports repr isof (Some fs) = Inr es"
  shows "sorted_wrt (\<lambda>a b. (ee_started_utc b, ee_name b) \<le> (ee_started_utc a, ee_name a)) es \<and>
    mset (map ee_path es) = mset (map ef_path (filter ef_is_file fs))"
proof -
  obtain xs where xs: "entries_for repr isof fs = Inr xs" "es = newest_first xs"
    using assms by (auto simp: scan_exports_def rbind_Inr_iff)
  have "ee_path e = ef_path f" if "entry_for repr isof f = Inr e" for f e
    using that by (auto simp: entry_for_def Let_def rbind_Inr_iff split: prod.splits)
  then have "list_all2 (\<lambda>f e. ee_path e = ef_path f) (filter ef_is_file fs) xs"
    using entries_for_map [OF xs(1)] by (auto elim: list_all2_mono)
  then have "map ee_path xs = map ef_path (filter ef_is_file fs)"
    by (induction rule: list_all2_induct) simp_all
  then show ?thesis
    using newest_first_sorted [of xs] newest_first_mset [of xs] xs(2) by (metis mset_map)
qed

theorem scan_exports_newest_first_witness:
  "\<exists>es. scan_exports (\<lambda>_. []) (\<lambda>_. [50]) (Some [\<lparr>ef_path = [97], ef_name = [97], ef_is_file = True,
      ef_sidecar = Unreadable, ef_stat = None\<rparr>]) = Inr es \<and> mset (map ee_path es) = {#[97]#}"
proof -
  let ?fs = "[\<lparr>ef_path = [97], ef_name = [97], ef_is_file = True, ef_sidecar = Unreadable, ef_stat = None\<rparr>]"
  obtain es where "scan_exports (\<lambda>_. []) (\<lambda>_. [50]) (Some ?fs) = Inr es"
    by (simp add: scan_exports_def entry_for_def meta_get_def Let_def)
  then show ?thesis using scan_exports_newest_first [of "\<lambda>_. []" "\<lambda>_. [50]" ?fs es] by simp
qed

text \<open>Deletion removes the archive and its sidecar and touches nothing else, or raises and does nothing.\<close>

lemma delete_export_exact:
  "delete_export name fs = (r, fs') \<Longrightarrow>
     (case r of Inl _ \<Rightarrow> fs' = fs
      | Inr _ \<Rightarrow> dom fs' = dom fs - {name, with_suffix name (lit ''.json'')} \<and> (\<forall>n\<in>dom fs'. fs' n = fs n))"
  by (auto simp: delete_export_def split: if_splits)

end
