(* ===== verification/Playback.thy ===== *)
theory Playback
  imports Archive SampleStore
begin

text \<open>
  \<^verbatim>\<open>presentation/playback_controller.py\<close>: playback of one archive file. Qt is a library of the environment:
  the timer is a flag, an emitted signal is appended to a list. What the clock and the window
  provider return during a call is an input of the call.
\<close>

section \<open>State\<close>

definition MAX_DISPLAY_POINTS :: int where "MAX_DISPLAY_POINTS = 5000"
definition PLAYBACK_CHUNK_BYTES :: nat where [const_simps]: "PLAYBACK_CHUNK_BYTES = 262144"
definition ALLOWED_SPEEDS :: "float64 list" where "ALLOWED_SPEEDS = [1 / 2, 1, 2, 4]"
definition END_EPSILON_S :: float64 where "END_EPSILON_S = fl (1 / 1000000)"

text \<open>An open binary file: its bytes, the position, and whether it has been closed.\<close>

record file_stream =
  sf_bytes :: bytes
  sf_pos :: nat
  sf_closed :: bool

datatype playback_signal = SnapshotReady ui_snapshot | StateChanged bool float64 float64 | PlaybackStopped

record playback =
  pb_timer :: bool
  pb_parser :: stream_parser
  pb_store :: sample_store
  pb_stream :: "file_stream option"
  pb_index :: "playback_index option"
  pb_pending_frames :: "frame list"
  pb_playing :: bool
  pb_eof :: bool
  pb_playhead_s :: float64
  pb_speed :: float64
  pb_last_tick_s :: float64
  pb_signals :: "playback_signal list"

record playback_env =
  pe_np :: numpy
  pe_set_order :: "nat set \<Rightarrow> nat list"
  pe_window :: "float64 res"
  pe_now :: float64

definition fresh_store :: sample_store where
  "fresh_store = \<lparr>ss_retention_us = fmul DEFAULT_RETENTION_SECONDS MICROSECONDS_PER_SECOND, ss_chunks = [],
     ss_latest_orientation = None, ss_orientation_received_s = None, ss_firmware_status = None,
     ss_firmware_control_state = None, ss_parser_stats = empty_stats\<rparr>"

definition PlaybackController_init :: playback where
  "PlaybackController_init =
     \<lparr>pb_timer = False, pb_parser = StreamParser_init True, pb_store = fresh_store, pb_stream = None,
      pb_index = None, pb_pending_frames = [], pb_playing = False, pb_eof = False, pb_playhead_s = 0,
      pb_speed = 1, pb_last_tick_s = 0, pb_signals = []\<rparr>"

definition is_loaded :: "playback \<Rightarrow> bool" where
  "is_loaded p \<longleftrightarrow> pb_index p \<noteq> None"

definition playback_duration :: "playback \<Rightarrow> float64" where
  "playback_duration p = (case pb_index p of None \<Rightarrow> 0 | Some ix \<Rightarrow> duration_s ix)"

section \<open>Helpers\<close>

definition emit_state :: "(playback, unit) io" where
  "emit_state p =
     (Inr (), p\<lparr>pb_signals := pb_signals p @ [StateChanged (pb_playing p) (pb_playhead_s p) (playback_duration p)]\<rparr>)"

definition window_seconds :: "float64 res \<Rightarrow> float64 res" where
  "window_seconds provided =
     (case provided of
        Inl (TypeError _) \<Rightarrow> Inr 10
      | Inl (ValueError _) \<Rightarrow> Inr 10
      | Inl e \<Rightarrow> Inl e
      | Inr w \<Rightarrow> Inr (if 0 < w then w else 10))"

definition emit_snapshot :: "playback_env \<Rightarrow> (playback, unit) io" where
  "emit_snapshot e p =
     (case rbind (window_seconds (pe_window e))
        (\<lambda>w. snapshot (pe_np e) (pe_set_order e) w MAX_DISPLAY_POINTS (pe_now e) (pb_store p)) of
        Inl x \<Rightarrow> (Inl x, p)
      | Inr s \<Rightarrow> (Inr (), p\<lparr>pb_signals := pb_signals p @ [SnapshotReady s]\<rparr>))"

definition restart_decoder :: "numpy \<Rightarrow> float64 \<Rightarrow> (playback, unit) io" where
  "restart_decoder np time_s p =
     (case (pb_index p, pb_stream p) of
        (Some ix, Some f) \<Rightarrow>
          if sf_closed f then (Inl (ValueError ''seek of closed file''), p)
          else (Inr (), p\<lparr>pb_stream := Some (f\<lparr>sf_pos := offset_for_time np ix time_s\<rparr>),
                         pb_parser := reset_session (pb_parser p), pb_pending_frames := [], pb_eof := False\<rparr>)
      | _ \<Rightarrow> (Inr (), p))"

definition apply_frame :: "playback_env \<Rightarrow> frame \<Rightarrow> sample_store \<Rightarrow> sample_store" where
  "apply_frame e f s =
     (case fr_message_type f of
        IIS3DWB_FIFO \<Rightarrow>
          (case fr_iis_ts_us f of
             Some ts \<Rightarrow> append_iis_arrays (pe_np e) ts (case fr_iis_accel_g f of Some a \<Rightarrow> a | None \<Rightarrow> []) s
           | None \<Rightarrow> append_iis (pe_np e) (case iis_samples f of Some ss \<Rightarrow> ss | None \<Rightarrow> []) s)
      | JY61PL_SAMPLE \<Rightarrow> (case fr_jy61pl f of None \<Rightarrow> s | Some j \<Rightarrow> update_jy j (pe_now e) s)
      | _ \<Rightarrow> s)"

definition cutoff_us :: "playback \<Rightarrow> float64 \<Rightarrow> float64" where
  "cutoff_us p time_s =
     fadd (case pb_index p of None \<Rightarrow> 0 | Some ix \<Rightarrow> pi_first_timestamp_us ix) (fmul time_s 1000000)"

definition due :: "float64 \<Rightarrow> frame \<Rightarrow> bool" where
  "due cutoff f \<longleftrightarrow> of_nat (fr_timestamp_us f) \<le> cutoff"

text \<open>The inner loop of \<^verbatim>\<open>_fill_until\<close>: apply the frames that are due, from the front.\<close>

fun apply_due :: "playback_env \<Rightarrow> float64 \<Rightarrow> frame list \<Rightarrow> sample_store \<Rightarrow> frame list \<times> sample_store" where
  "apply_due e cutoff [] s = ([], s)"
| "apply_due e cutoff (f # fs) s =
     (if due cutoff f then apply_due e cutoff fs (apply_frame e f s) else (f # fs, s))"

definition is_media :: "frame \<Rightarrow> bool" where
  "is_media f \<longleftrightarrow> fr_message_type f \<in> {IIS3DWB_FIFO, JY61PL_SAMPLE}"

definition read_stream :: "file_stream \<Rightarrow> bytes" where
  "read_stream f = slice (sf_bytes f) (sf_pos f) (sf_pos f + PLAYBACK_CHUNK_BYTES)"

definition left_bytes :: "playback \<Rightarrow> bytes" where
  "left_bytes p = (case pb_stream p of None \<Rightarrow> [] | Some f \<Rightarrow> drop (sf_pos f) (sf_bytes f))"

function fill_loop :: "playback_env \<Rightarrow> float64 \<Rightarrow> playback \<Rightarrow> unit res \<times> playback" where
  "fill_loop e cutoff p =
     (let (pending, store) = apply_due e cutoff (pb_pending_frames p) (pb_store p);
          p1 = p\<lparr>pb_pending_frames := pending, pb_store := store\<rparr>
      in if pending \<noteq> [] \<or> pb_eof p then (Inr (), p1)
         else case pb_stream p of
           None \<Rightarrow> fill_loop e cutoff (p1\<lparr>pb_eof := True\<rparr>)
         | Some f \<Rightarrow>
             if sf_closed f then (Inl (ValueError ''read of closed file''), p1)
             else if read_stream f = [] then fill_loop e cutoff (p1\<lparr>pb_eof := True\<rparr>)
             else
               let (fs, parser) = feed (pe_np e) (pb_parser p) (read_stream f)
               in fill_loop e cutoff (p1\<lparr>pb_stream := Some (f\<lparr>sf_pos := sf_pos f + length (read_stream f)\<rparr>),
                    pb_parser := parser, pb_pending_frames := filter is_media fs\<rparr>))"
  by pat_completeness auto
termination
  by (relation "measure (\<lambda>(e, cutoff, p). (if pb_eof p then 0 else Suc (length (left_bytes p))))")
    (auto simp: left_bytes_def read_stream_def slice_def const_simps split: if_splits)

declare fill_loop.simps [simp del]

definition fill_until :: "playback_env \<Rightarrow> float64 \<Rightarrow> (playback, unit) io" where
  "fill_until e time_s p = fill_loop e (cutoff_us p time_s) p"

section \<open>Operations\<close>

definition playback_pause :: "(playback, unit) io" where
  "playback_pause p = (if \<not> pb_playing p then (Inr (), p) else emit_state (p\<lparr>pb_playing := False, pb_timer := False\<rparr>))"

definition close_stream :: "playback \<Rightarrow> playback" where
  "close_stream p = p\<lparr>pb_stream := map_option (\<lambda>f. f\<lparr>sf_closed := True\<rparr>) (pb_stream p)\<rparr>"

text \<open>\<open>opened\<close> is the content of the file, or the exception of opening it.\<close>

definition playback_load :: "playback_env \<Rightarrow> bytes res \<Rightarrow> playback_index \<Rightarrow> (playback, unit) io" where
  "playback_load e opened ix =
     io_bind playback_pause (\<lambda>_ p.
       let p1 = close_stream p in
       case opened of
         Inl x \<Rightarrow> (Inl x, p1)
       | Inr bs \<Rightarrow>
           io_bind (restart_decoder (pe_np e) 0) (\<lambda>_. emit_state)
             (p1\<lparr>pb_stream := Some \<lparr>sf_bytes = bs, sf_pos = 0, sf_closed = False\<rparr>, pb_index := Some ix,
                 pb_store := fresh_store, pb_playhead_s := 0\<rparr>))"

definition playback_seek :: "playback_env \<Rightarrow> float64 \<Rightarrow> (playback, unit) io" where
  "playback_seek e time_s p =
     (if pb_index p = None then (Inr (), p)
      else
        let target = min (max 0 time_s) (playback_duration p) in
        case window_seconds (pe_window e) of
          Inl x \<Rightarrow> (Inl x, p\<lparr>pb_playhead_s := target, pb_store := clear_samples (pb_store p)\<rparr>)
        | Inr window_s \<Rightarrow>
            io_bind (restart_decoder (pe_np e) (max 0 (fsub target window_s))) (\<lambda>_.
            io_bind (fill_until e target) (\<lambda>_.
            io_bind (emit_snapshot e) (\<lambda>_. emit_state)))
              (p\<lparr>pb_playhead_s := target, pb_store := clear_samples (pb_store p)\<rparr>))"

definition playback_play :: "playback_env \<Rightarrow> (playback, unit) io" where
  "playback_play e p =
     (if pb_index p = None then (Inr (), p)
      else
        io_bind
          (if fsub (playback_duration p) END_EPSILON_S \<le> pb_playhead_s p then playback_seek e 0 else io_return ())
          (\<lambda>_ p1. if pb_playing p1 then (Inr (), p1)
                  else emit_state (p1\<lparr>pb_playing := True, pb_last_tick_s := pe_now e, pb_timer := True\<rparr>)) p)"

definition playback_stop :: "playback_env \<Rightarrow> (playback, unit) io" where
  "playback_stop e p =
     (let p1 = p\<lparr>pb_playing := False, pb_timer := False\<rparr> in
      io_bind
        (if pb_index p1 = None then io_return ()
         else (\<lambda>q. restart_decoder (pe_np e) 0 (q\<lparr>pb_playhead_s := 0, pb_store := clear_samples (pb_store q)\<rparr>)))
        (\<lambda>_. io_bind emit_state (\<lambda>_ q. (Inr (), q\<lparr>pb_signals := pb_signals q @ [PlaybackStopped]\<rparr>))) p1)"

definition set_speed :: "float64 \<Rightarrow> (playback, unit) io" where
  "set_speed speed p =
     (if speed \<notin> set ALLOWED_SPEEDS then (Inl (ValueError ''speed must be one of 0.5, 1, 2 or 4''), p)
      else (Inr (), p\<lparr>pb_speed := speed\<rparr>))"

definition playback_close :: "(playback, unit) io" where
  "playback_close =
     io_bind playback_pause (\<lambda>_ p. (Inr (), p\<lparr>pb_stream := None, pb_index := None\<rparr>))"

definition playback_tick :: "playback_env \<Rightarrow> (playback, unit) io" where
  "playback_tick e p =
     (case pb_index p of
        None \<Rightarrow> playback_pause p
      | Some ix \<Rightarrow>
          let elapsed_s = max 0 (fsub (pe_now e) (pb_last_tick_s p));
              reach = fadd (pb_playhead_s p) (fmul elapsed_s (pb_speed p));
              reached_end = (fsub (duration_s ix) END_EPSILON_S \<le> reach);
              target = min reach (duration_s ix)
          in io_bind (fill_until e target) (\<lambda>_.
             io_bind (emit_snapshot e) (\<lambda>_ q.
               emit_state (if reached_end \<and> pb_eof q \<and> pb_pending_frames q = []
                           then q\<lparr>pb_playing := False, pb_timer := False\<rparr> else q)))
               (p\<lparr>pb_last_tick_s := pe_now e, pb_playhead_s := target\<rparr>))"

section \<open>What is shown\<close>

text \<open>The frames still to be shown: those decoded, then those in the rest of the file.\<close>

definition media_of :: "numpy \<Rightarrow> stream_parser \<Rightarrow> bytes \<Rightarrow> frame list" where
  "media_of np parser bs = (if bs = [] then [] else filter is_media (fst (feed np parser bs)))"

definition upcoming :: "numpy \<Rightarrow> playback \<Rightarrow> frame list" where
  "upcoming np p = pb_pending_frames p @ (if pb_eof p then [] else media_of np (pb_parser p) (left_bytes p))"

lemma apply_due_split:
  "apply_due e c fs s = (dropWhile (due c) fs, fold (apply_frame e) (takeWhile (due c) fs) s)"
  by (induction fs arbitrary: s) auto

lemma media_of_append:
  "a \<noteq> [] \<Longrightarrow> media_of np ps (a @ b) = filter is_media (fst (feed np ps a)) @ media_of np (snd (feed np ps a)) b"
  by (cases "b = []") (simp_all add: media_of_def feed_append_parts)

lemma takeWhile_whole: "dropWhile P xs = [] \<Longrightarrow> takeWhile P (xs @ ys) = xs @ takeWhile P ys"
  by (simp add: takeWhile_append)

lemma dropWhile_whole: "dropWhile P xs = [] \<Longrightarrow> dropWhile P (xs @ ys) = dropWhile P ys"
  by (simp add: dropWhile_append)

definition fill_left :: "playback \<Rightarrow> nat" where
  "fill_left p = (if pb_eof p then 0 else Suc (length (left_bytes p)))"

definition after_due :: "playback_env \<Rightarrow> float64 \<Rightarrow> playback \<Rightarrow> playback" where
  "after_due e c p = p\<lparr>pb_pending_frames := dropWhile (due c) (pb_pending_frames p),
     pb_store := fold (apply_frame e) (takeWhile (due c) (pb_pending_frames p)) (pb_store p)\<rparr>"

lemma fill_loop_unfold:
  "fill_loop e c p =
     (if dropWhile (due c) (pb_pending_frames p) \<noteq> [] \<or> pb_eof p then (Inr (), after_due e c p)
      else case pb_stream p of
        None \<Rightarrow> fill_loop e c (after_due e c p\<lparr>pb_eof := True\<rparr>)
      | Some f \<Rightarrow>
          if sf_closed f then (Inl (ValueError ''read of closed file''), after_due e c p)
          else if read_stream f = [] then fill_loop e c (after_due e c p\<lparr>pb_eof := True\<rparr>)
          else fill_loop e c (after_due e c p\<lparr>
            pb_stream := Some (f\<lparr>sf_pos := sf_pos f + length (read_stream f)\<rparr>),
            pb_parser := snd (feed (pe_np e) (pb_parser p) (read_stream f)),
            pb_pending_frames := filter is_media (fst (feed (pe_np e) (pb_parser p) (read_stream f)))\<rparr>))"
  by (subst fill_loop.simps)
    (simp only: apply_due_split after_due_def Let_def prod.case split_beta fst_conv snd_conv cong: option.case_cong)

lemma fill_loop_stop:
  "dropWhile (due c) (pb_pending_frames p) \<noteq> [] \<or> pb_eof p \<Longrightarrow> fill_loop e c p = (Inr (), after_due e c p)"
  by (subst fill_loop_unfold) (simp only: if_True)

lemma fill_loop_end:
  assumes "dropWhile (due c) (pb_pending_frames p) = []" "\<not> pb_eof p"
    and "pb_stream p = None \<or> (\<exists>f. pb_stream p = Some f \<and> \<not> sf_closed f \<and> read_stream f = [])"
  shows "fill_loop e c p = fill_loop e c (after_due e c p\<lparr>pb_eof := True\<rparr>)"
  using assms(3) by (subst fill_loop_unfold) (elim disjE exE conjE; simp only: assms simp_thms if_False if_True option.case)

lemma fill_loop_read:
  assumes "dropWhile (due c) (pb_pending_frames p) = []" "\<not> pb_eof p"
    and "pb_stream p = Some f" "\<not> sf_closed f" "read_stream f \<noteq> []"
  shows "fill_loop e c p = fill_loop e c (after_due e c p\<lparr>
      pb_stream := Some (f\<lparr>sf_pos := sf_pos f + length (read_stream f)\<rparr>),
      pb_parser := snd (feed (pe_np e) (pb_parser p) (read_stream f)),
      pb_pending_frames := filter is_media (fst (feed (pe_np e) (pb_parser p) (read_stream f)))\<rparr>)"
  by (subst fill_loop_unfold) (simp only: assms simp_thms if_False if_True option.case)

lemma read_stream_split: "drop (sf_pos f) (sf_bytes f) = read_stream f @ drop (sf_pos f + length (read_stream f)) (sf_bytes f)"
proof -
  have "r = take n r @ drop (length (take n r)) r" for n and r :: bytes by (simp add: min_def)
  from this [of "drop (sf_pos f) (sf_bytes f)" PLAYBACK_CHUNK_BYTES] show ?thesis
    by (simp add: read_stream_def slice_def add.commute)
qed

text \<open>A turn of the loop that does not end it passes on a state with the same frames to come.\<close>

definition stream_open :: "playback \<Rightarrow> bool" where
  "stream_open p \<longleftrightarrow> (case pb_stream p of None \<Rightarrow> True | Some f \<Rightarrow> \<not> sf_closed f)"

lemma read_stream_Nil: "read_stream f = [] \<longleftrightarrow> drop (sf_pos f) (sf_bytes f) = []"
  by (auto simp: read_stream_def slice_def const_simps)

lemma fill_loop_at_end:
  assumes "dropWhile (due c) (pb_pending_frames p) = []" "\<not> pb_eof p" "stream_open p" "left_bytes p = []"
  shows "fill_loop e c p = fill_loop e c (after_due e c p\<lparr>pb_eof := True\<rparr>)"
  using assms(3,4)
  by (intro fill_loop_end [OF assms(1,2)])
    (cases "pb_stream p"; simp add: stream_open_def left_bytes_def read_stream_Nil)

lemma fill_loop_more:
  assumes "dropWhile (due c) (pb_pending_frames p) = []" "\<not> pb_eof p" "stream_open p"
  obtains q where "fill_loop e c p = fill_loop e c q" "fill_left q < fill_left p"
    "pb_store q = pb_store (after_due e c p)"
    "upcoming (pe_np e) q = media_of (pe_np e) (pb_parser p) (left_bytes p)" "stream_open q"
proof (cases "left_bytes p = []")
  case True
  let ?q = "after_due e c p\<lparr>pb_eof := True\<rparr>"
  have "pb_pending_frames ?q = []" unfolding after_due_def by (simp only: assms(1)) simp
  then have "upcoming (pe_np e) ?q = media_of (pe_np e) (pb_parser p) (left_bytes p)"
    using True by (simp add: upcoming_def media_of_def)
  moreover have "fill_left ?q < fill_left p" "stream_open ?q"
    using assms(2,3) by (simp_all add: fill_left_def stream_open_def after_due_def)
  ultimately show ?thesis using that [OF fill_loop_at_end [OF assms True]] by simp
next
  case False
  then obtain f where f: "pb_stream p = Some f" "\<not> sf_closed f" "read_stream f \<noteq> []"
    using assms(3) by (auto simp: left_bytes_def stream_open_def read_stream_Nil split: option.splits)
  let ?q = "after_due e c p\<lparr>pb_stream := Some (f\<lparr>sf_pos := sf_pos f + length (read_stream f)\<rparr>),
    pb_parser := snd (feed (pe_np e) (pb_parser p) (read_stream f)),
    pb_pending_frames := filter is_media (fst (feed (pe_np e) (pb_parser p) (read_stream f)))\<rparr>"
  have l: "left_bytes p = read_stream f @ left_bytes ?q"
    using f(1) read_stream_split [of f] by (simp add: left_bytes_def)
  have "fill_left ?q < fill_left p" using l f(3) assms(2) by (simp add: fill_left_def after_due_def)
  moreover have "upcoming (pe_np e) ?q = media_of (pe_np e) (pb_parser p) (left_bytes p)"
    unfolding l media_of_append [OF f(3)] using assms(2) by (simp add: upcoming_def after_due_def)
  ultimately show ?thesis
    using that [OF fill_loop_read [OF assms(1,2) f]] f(2) by (simp add: stream_open_def)
qed

text \<open>
  The fill returns, and applies exactly the frames of the file that are due, in order, however the
  file is cut into chunks; it keeps the others for later.
\<close>

lemma fill_loop_shows:
  "stream_open p \<Longrightarrow>
     \<exists>p'. fill_loop e c p = (Inr (), p') \<and>
       pb_store p' = fold (apply_frame e) (takeWhile (due c) (upcoming (pe_np e) p)) (pb_store p) \<and>
       upcoming (pe_np e) p' = dropWhile (due c) (upcoming (pe_np e) p)"
proof (induction "fill_left p" arbitrary: p rule: less_induct)
  case less
  show ?case
  proof (cases "dropWhile (due c) (pb_pending_frames p) \<noteq> [] \<or> pb_eof p")
    case True
    have "upcoming (pe_np e) (after_due e c p) = dropWhile (due c) (upcoming (pe_np e) p) \<and>
        takeWhile (due c) (upcoming (pe_np e) p) = takeWhile (due c) (pb_pending_frames p)"
    proof (cases "pb_eof p")
      case False
      then obtain x where "x \<in> set (pb_pending_frames p)" "\<not> due c x" using True by auto
      then show ?thesis
        using False by (auto simp: upcoming_def after_due_def left_bytes_def dropWhile_append1 takeWhile_append1)
    qed (simp add: upcoming_def after_due_def)
    then show ?thesis using fill_loop_stop [OF True, of e] by (simp add: after_due_def)
  next
    case False
    then have d: "dropWhile (due c) (pb_pending_frames p) = []" "\<not> pb_eof p" by auto
    obtain q where q: "fill_loop e c p = fill_loop e c q" "fill_left q < fill_left p"
        "pb_store q = pb_store (after_due e c p)"
        "upcoming (pe_np e) q = media_of (pe_np e) (pb_parser p) (left_bytes p)"
        "stream_open q"
      using fill_loop_more [OF d less.prems] by blast
    have u: "upcoming (pe_np e) p = pb_pending_frames p @ upcoming (pe_np e) q"
      using d(2) by (simp add: upcoming_def q(4) [unfolded upcoming_def])
    have all: "takeWhile (due c) (pb_pending_frames p) = pb_pending_frames p" using d(1) by simp
    show ?thesis
      using less.hyps [OF q(2,5)] unfolding q(1) u takeWhile_whole [OF d(1)] dropWhile_whole [OF d(1)]
      by (simp add: q(3) after_due_def all)
  qed
qed

section \<open>The controls\<close>

text \<open>The part of the state the user controls; decoding leaves it alone.\<close>

definition controls :: "playback \<Rightarrow> bool \<times> playback_index option \<times> bool \<times> float64 \<times> float64" where
  "controls p = (pb_timer p, pb_index p, pb_playing p, pb_playhead_s p, pb_speed p)"

definition playback_inv :: "playback \<Rightarrow> bool" where
  "playback_inv p \<longleftrightarrow> pb_timer p = pb_playing p \<and> (pb_playing p \<longrightarrow> is_loaded p) \<and>
     pb_speed p \<in> set ALLOWED_SPEEDS \<and> 0 \<le> pb_playhead_s p \<and>
     (is_loaded p \<longrightarrow> pb_playhead_s p \<le> playback_duration p)"

lemma playback_inv_controls: "controls p = controls q \<Longrightarrow> playback_inv q \<Longrightarrow> playback_inv p"
  by (simp add: controls_def playback_inv_def is_loaded_def playback_duration_def)

lemma controls_update [simp]:
  "controls (p\<lparr>pb_signals := s\<rparr>) = controls p" "controls (p\<lparr>pb_stream := f\<rparr>) = controls p"
  "controls (p\<lparr>pb_store := st\<rparr>) = controls p" "controls (p\<lparr>pb_parser := ps\<rparr>) = controls p"
  "controls (p\<lparr>pb_pending_frames := fs\<rparr>) = controls p" "controls (p\<lparr>pb_eof := b\<rparr>) = controls p"
  "controls (p\<lparr>pb_last_tick_s := t\<rparr>) = controls p"
  by (simp_all add: controls_def)

lemma fill_loop_controls: "controls (snd (fill_loop e c p)) = controls p"
proof (induction "fill_left p" arbitrary: p rule: less_induct)
  case less
  have a: "controls (after_due e c q) = controls q" for q by (simp add: after_due_def)
  have step: "fill_left q < fill_left p \<Longrightarrow> controls q = controls p \<Longrightarrow>
      fill_loop e c p = fill_loop e c q \<Longrightarrow> ?case" for q
    using less by metis
  show ?case
  proof (cases "(dropWhile (due c) (pb_pending_frames p) \<noteq> [] \<or> pb_eof p) \<or> \<not> stream_open p")
    case True
    then show ?thesis
      by (subst fill_loop_unfold) (auto simp: a stream_open_def split: option.splits)
  next
    case False
    then have d: "dropWhile (due c) (pb_pending_frames p) = []" "\<not> pb_eof p" "stream_open p" by auto
    show ?thesis
    proof (cases "left_bytes p = []")
      case True
      show ?thesis
        by (rule step [OF _ _ fill_loop_at_end [OF d True]]) (use d(2) in \<open>simp_all add: a fill_left_def\<close>)
    next
      case False
      then obtain f where f: "pb_stream p = Some f" "\<not> sf_closed f" "read_stream f \<noteq> []"
        using d(3) by (auto simp: left_bytes_def stream_open_def read_stream_Nil split: option.splits)
      have "0 < length (read_stream f)" "0 < length (drop (sf_pos f) (sf_bytes f))"
        using f(3) by (simp_all add: read_stream_Nil)
      then have "length (sf_bytes f) - (sf_pos f + length (read_stream f)) < length (sf_bytes f) - sf_pos f"
        by (simp only: length_drop)
      then show ?thesis
        by (intro step [OF _ _ fill_loop_read [OF d(1,2) f]])
          (use d(2) f(1) in \<open>simp_all add: a fill_left_def left_bytes_def after_due_def\<close>)
    qed
  qed
qed

lemma fill_until_controls [simp]: "controls (snd (fill_until e t p)) = controls p"
  by (simp add: fill_until_def fill_loop_controls)

lemma restart_decoder_controls [simp]: "controls (snd (restart_decoder np t p)) = controls p"
  by (simp add: restart_decoder_def split: option.splits)

lemma emit_snapshot_controls [simp]: "controls (snd (emit_snapshot e p)) = controls p"
  by (simp add: emit_snapshot_def split: sum.splits)

lemma emit_state_controls [simp]: "controls (snd (emit_state p)) = controls p"
  by (simp add: emit_state_def)

lemma close_stream_controls [simp]: "controls (close_stream p) = controls p"
  by (simp add: close_stream_def)

text \<open>An invariant passes through a sequence of calls, whether one of them raises or not.\<close>

lemma snd_io_bind: "P (snd (m w)) \<Longrightarrow> (\<And>a w'. m w = (Inr a, w') \<Longrightarrow> P (snd (f a w'))) \<Longrightarrow> P (snd (io_bind m f w))"
  by (auto simp: io_bind_def split: prod.splits sum.splits)

lemma snd_io_bind_controls:
  "controls (snd (m w)) = controls p \<Longrightarrow> (\<And>a w'. controls w' = controls p \<Longrightarrow> controls (snd (f a w')) = controls p) \<Longrightarrow>
     controls (snd (io_bind m f w)) = controls p"
  by (rule snd_io_bind [where P = "\<lambda>q. controls q = controls p"]) auto

lemma inv_bind:
  "playback_inv (snd (m w)) \<Longrightarrow> (\<And>a w'. playback_inv w' \<Longrightarrow> playback_inv (snd (f a w'))) \<Longrightarrow>
     playback_inv (snd (io_bind m f w))"
  by (rule snd_io_bind [where P = playback_inv]) auto

lemma inv_emit_state: "playback_inv p \<Longrightarrow> playback_inv (snd (emit_state p))"
  by (rule playback_inv_controls [OF emit_state_controls])

lemma inv_parked: "playback_inv p \<Longrightarrow> playback_inv (p\<lparr>pb_playing := False, pb_timer := False\<rparr>)"
  by (simp add: playback_inv_def is_loaded_def playback_duration_def)

lemma inv_pause: "playback_inv p \<Longrightarrow> playback_inv (snd (playback_pause p))"
  by (auto simp: playback_pause_def emit_state_def playback_inv_def is_loaded_def playback_duration_def)

lemma duration_nonneg: "0 \<le> duration_s ix"
  by (simp add: duration_s_def fdiv_def fsub_def fl_nonneg)

lemma playback_duration_nonneg: "0 \<le> playback_duration p"
  by (simp add: playback_duration_def duration_nonneg split: option.splits)

lemma inv_load: "playback_inv p \<Longrightarrow> playback_inv (snd (playback_load e opened ix p))"
  unfolding playback_load_def
proof (rule snd_io_bind [where P = playback_inv])
  fix a q assume "playback_inv p" and "playback_pause p = (Inr a, q)"
  then have q: "playback_inv q" using inv_pause [of p] by simp
  show "playback_inv (snd (let p1 = close_stream q in
      case opened of Inl x \<Rightarrow> (Inl x, p1)
      | Inr bs \<Rightarrow> io_bind (restart_decoder (pe_np e) 0) (\<lambda>_. emit_state)
          (p1\<lparr>pb_stream := Some \<lparr>sf_bytes = bs, sf_pos = 0, sf_closed = False\<rparr>, pb_index := Some ix,
              pb_store := fresh_store, pb_playhead_s := 0\<rparr>)))"
  proof (cases opened)
    case (Inl x)
    then show ?thesis using playback_inv_controls [OF close_stream_controls q] by simp
  next
    case (Inr bs)
    let ?q = "close_stream q\<lparr>pb_stream := Some \<lparr>sf_bytes = bs, sf_pos = 0, sf_closed = False\<rparr>,
      pb_index := Some ix, pb_store := fresh_store, pb_playhead_s := 0\<rparr>"
    have "playback_inv ?q"
      using q duration_nonneg [of ix]
      by (simp add: playback_inv_def is_loaded_def playback_duration_def close_stream_def)
    moreover have "controls (snd (io_bind (restart_decoder (pe_np e) 0) (\<lambda>_. emit_state) ?q)) = controls ?q"
      by (intro snd_io_bind_controls) simp_all
    ultimately have "playback_inv (snd (io_bind (restart_decoder (pe_np e) 0) (\<lambda>_. emit_state) ?q))"
      using playback_inv_controls by blast
    then show ?thesis using Inr by simp
  qed
qed (rule inv_pause)

definition sought :: "float64 \<Rightarrow> playback \<Rightarrow> playback" where
  "sought t p = p\<lparr>pb_playhead_s := min (max 0 t) (playback_duration p), pb_store := clear_samples (pb_store p)\<rparr>"

lemma seek_controls: "controls (snd (playback_seek e t p)) = controls (if pb_index p = None then p else sought t p)"
  by (auto simp: playback_seek_def Let_def sought_def [symmetric] intro!: snd_io_bind_controls split: sum.splits)

lemma inv_seek: "playback_inv p \<Longrightarrow> playback_inv (snd (playback_seek e t p))"
  using playback_duration_nonneg [of p]
  by (intro playback_inv_controls [OF seek_controls])
    (auto simp: sought_def playback_inv_def is_loaded_def playback_duration_def)

lemma inv_play: "playback_inv p \<Longrightarrow> playback_inv (snd (playback_play e p))"
proof (cases "pb_index p")
  case (Some ix)
  assume inv: "playback_inv p"
  let ?first = "if fsub (playback_duration p) END_EPSILON_S \<le> pb_playhead_s p then playback_seek e 0 else io_return ()"
  have "pb_index (snd (playback_seek e 0 p)) = Some ix"
    using seek_controls [of e 0 p] Some by (simp add: controls_def sought_def)
  then have first: "pb_index (snd (?first p)) = Some ix" "playback_inv (snd (?first p))"
    using Some inv inv_seek by (simp_all add: io_return_def)
  have "playback_inv (snd (if pb_playing q then (Inr (), q)
      else emit_state (q\<lparr>pb_playing := True, pb_last_tick_s := pe_now e, pb_timer := True\<rparr>)))"
    if "pb_index q = Some ix" "playback_inv q" for q
    using that by (simp add: playback_inv_def is_loaded_def emit_state_def playback_duration_def)
  then have "playback_inv (snd (io_bind ?first (\<lambda>_ q. if pb_playing q then (Inr (), q)
      else emit_state (q\<lparr>pb_playing := True, pb_last_tick_s := pe_now e, pb_timer := True\<rparr>)) p))"
    using first by (intro snd_io_bind [where P = playback_inv]) auto
  then show ?thesis using Some by (simp add: playback_play_def)
qed (simp add: playback_play_def)

lemma inv_stop: "playback_inv p \<Longrightarrow> playback_inv (snd (playback_stop e p))"
proof -
  assume inv: "playback_inv p"
  let ?p = "p\<lparr>pb_playing := False, pb_timer := False\<rparr>"
  let ?q = "if pb_index p = None then ?p else ?p\<lparr>pb_playhead_s := 0, pb_store := clear_samples (pb_store p)\<rparr>"
  have "controls (snd (playback_stop e p)) = controls ?q"
    unfolding playback_stop_def Let_def
    by (intro snd_io_bind_controls) (auto simp: io_return_def)
  moreover have "playback_inv ?q"
    using inv playback_duration_nonneg [of p] by (auto simp: playback_inv_def is_loaded_def playback_duration_def)
  ultimately show ?thesis using playback_inv_controls by blast
qed

lemma inv_set_speed: "playback_inv p \<Longrightarrow> playback_inv (snd (set_speed v p))"
  by (simp add: set_speed_def playback_inv_def is_loaded_def playback_duration_def)

lemma inv_close: "playback_inv p \<Longrightarrow> playback_inv (snd (playback_close p))"
  unfolding playback_close_def
proof (rule snd_io_bind [where P = playback_inv])
  fix a q assume "playback_inv p" and q: "playback_pause p = (Inr a, q)"
  then have "playback_inv q" "\<not> pb_playing q"
    using inv_pause [of p] by (auto simp: playback_pause_def emit_state_def split: if_splits)
  then show "playback_inv (snd (Inr (), q\<lparr>pb_stream := None, pb_index := None\<rparr>))"
    by (simp add: playback_inv_def is_loaded_def)
qed (rule inv_pause)

lemma speed_nonneg: "v \<in> set ALLOWED_SPEEDS \<Longrightarrow> 0 \<le> v"
  by (auto simp: ALLOWED_SPEEDS_def)

lemma inv_tick: "playback_inv p \<Longrightarrow> playback_inv (snd (playback_tick e p))"
proof (cases "pb_index p")
  case None
  assume "playback_inv p"
  then show ?thesis using None inv_pause by (simp add: playback_tick_def)
next
  case (Some ix)
  assume inv: "playback_inv p"
  let ?reach = "fadd (pb_playhead_s p) (fmul (max 0 (fsub (pe_now e) (pb_last_tick_s p))) (pb_speed p))"
  let ?q = "p\<lparr>pb_last_tick_s := pe_now e, pb_playhead_s := min ?reach (duration_s ix)\<rparr>"
  have "0 \<le> ?reach"
    using inv speed_nonneg [of "pb_speed p"]
    by (auto simp: playback_inv_def fadd_def fmul_def intro!: fl_nonneg add_nonneg_nonneg mult_nonneg_nonneg)
  then have q: "playback_inv ?q"
    using inv Some duration_nonneg [of ix] by (simp add: playback_inv_def is_loaded_def playback_duration_def)
  have c: "playback_inv q'" if "controls q' = controls ?q" for q' using q that playback_inv_controls by blast
  have "playback_inv (snd (io_bind (fill_until e (min ?reach (duration_s ix))) (\<lambda>_.
      io_bind (emit_snapshot e) (\<lambda>_ q. emit_state (if b \<and> pb_eof q \<and> pb_pending_frames q = []
        then q\<lparr>pb_playing := False, pb_timer := False\<rparr> else q))) ?q))" for b
    by (intro inv_bind inv_emit_state playback_inv_controls [OF fill_until_controls]
        playback_inv_controls [OF emit_snapshot_controls] q) (auto intro: inv_parked)
  then show ?thesis using Some by (simp add: playback_tick_def Let_def)
qed

section \<open>Sequences of calls\<close>

datatype playback_call =
    Load "bytes res" playback_index | Play | Pause | Stop | Seek float64 | SetSpeed float64 | Close | Tick

fun run_call :: "playback_env \<times> playback_call \<Rightarrow> playback \<Rightarrow> playback" where
  "run_call (e, Load opened ix) p = snd (playback_load e opened ix p)"
| "run_call (e, Play) p = snd (playback_play e p)"
| "run_call (e, Pause) p = snd (playback_pause p)"
| "run_call (e, Stop) p = snd (playback_stop e p)"
| "run_call (e, Seek t) p = snd (playback_seek e t p)"
| "run_call (e, SetSpeed v) p = snd (set_speed v p)"
| "run_call (e, Close) p = snd (playback_close p)"
| "run_call (e, Tick) p = snd (playback_tick e p)"

lemma inv_run_call: "playback_inv p \<Longrightarrow> playback_inv (run_call call p)"
  by (induction call p rule: run_call.induct)
    (simp_all add: inv_load inv_play inv_pause inv_stop inv_seek inv_set_speed inv_close inv_tick)

lemma inv_run_calls: "playback_inv p \<Longrightarrow> playback_inv (fold run_call calls p)"
  by (induction calls arbitrary: p) (simp_all add: inv_run_call)

lemma inv_init: "playback_inv PlaybackController_init"
  by (simp add: playback_inv_def PlaybackController_init_def is_loaded_def ALLOWED_SPEEDS_def)

text \<open>
  C17. After any sequence of calls and timer ticks, raising ones included, the timer runs exactly while the
  controller plays, it plays only a loaded archive, the speed is an offered one, and the playhead is not
  negative and, with an archive loaded, not past its end.
\<close>

theorem playback_invariant:
  "playback_inv (fold run_call calls PlaybackController_init)"
  by (rule inv_run_calls [OF inv_init])

lemma restart_decoder_open:
  assumes "pb_index p = Some ix" "pb_stream p = Some f" "\<not> sf_closed f"
  shows "\<exists>q. restart_decoder np t p = (Inr (), q) \<and> controls q = controls p \<and> stream_open q \<and> pb_store q = pb_store p \<and>
    upcoming np q = media_of np (reset_session (pb_parser p)) (drop (offset_for_time np ix t) (sf_bytes f))"
  using assms by (simp add: restart_decoder_def stream_open_def upcoming_def left_bytes_def controls_def)

lemma emit_snapshot_then_state:
  "fst (io_bind (emit_snapshot e) (\<lambda>_. emit_state) p) =
     rbind (rbind (window_seconds (pe_window e))
       (\<lambda>w. snapshot (pe_np e) (pe_set_order e) w MAX_DISPLAY_POINTS (pe_now e) (pb_store p))) (\<lambda>_. Inr ())"
  "pb_store (snd (io_bind (emit_snapshot e) (\<lambda>_. emit_state) p)) = pb_store p"
  "upcoming np (snd (io_bind (emit_snapshot e) (\<lambda>_. emit_state) p)) = upcoming np p"
  by (auto simp: io_bind_def emit_snapshot_def emit_state_def upcoming_def left_bytes_def split: sum.splits)


definition sample_playback :: playback where
  "sample_playback = PlaybackController_init\<lparr>pb_index := Some (build_playback_index sample_frame),
     pb_stream := Some \<lparr>sf_bytes = sample_frame, sf_pos = 0, sf_closed = False\<rparr>\<rparr>"

definition sample_playback_env :: playback_env where
  "sample_playback_env = \<lparr>pe_np = np_ref, pe_set_order = sorted_list_of_set, pe_window = Inr 10, pe_now = 5\<rparr>"


text \<open>
  A load whose \<^verbatim>\<open>open\<close> raises has already closed the previous file but keeps its index: the controller
  still counts as loaded, and the next seek raises.
\<close>

lemma failed_load_breaks_seek:
  assumes "pb_index p = Some ix" "pb_stream p = Some f" "window_seconds (pe_window e) = Inr w"
  shows "is_loaded (snd (playback_load e (Inl x) ix' p)) \<and>
    fst (playback_seek e t (snd (playback_load e (Inl x) ix' p))) = Inl (ValueError ''seek of closed file'')"
  using assms
  by (simp add: playback_load_def playback_pause_def emit_state_def close_stream_def is_loaded_def
      playback_seek_def restart_decoder_def io_bind_def)

end
