(* ===== verification/ControlPort.thy ===== *)
theory ControlPort
  imports Acquisition FakeTransport
begin

text \<open>
  The contract of \<^verbatim>\<open>write_control\<close> that the acquisition worker relies on, stated once for every transport: a
  command outside the accepted form is refused with no effect, an accepted one can only fail as
  \<^verbatim>\<open>TransportError\<close>, and a transport with a wire puts exactly the line on it. The worker's lemmas are
  proved in the contract; the simulated sensor provides it here, the serial port and the gateway
  connection in their own theories.
\<close>

section \<open>Failures of the operating system\<close>

definition is_os_error :: "exn \<Rightarrow> bool" where
  "is_os_error e \<longleftrightarrow> (case e of OSError _ \<Rightarrow> True | TimeoutError \<Rightarrow> True | _ \<Rightarrow> False)"

text \<open>\<^verbatim>\<open>try: m except OSError as error: raise TransportError(..) from error\<close>.\<close>

definition as_transport_error :: "string \<Rightarrow> ('s, 'a) io \<Rightarrow> ('s, 'a) io" where
  "as_transport_error message m s =
     (case m s of
        (Inl e, s') \<Rightarrow> (Inl (if is_os_error e then TransportError message else e), s')
      | (Inr a, s') \<Rightarrow> (Inr a, s'))"

section \<open>Control lines\<close>

text \<open>The check the transports share: the content of a command, or the refusal.\<close>

definition MAXIMUM_ASCII_BYTE :: nat where [const_simps]: "MAXIMUM_ASCII_BYTE = 0x7F"

definition control_content :: "bytes \<Rightarrow> bytes res" where
  "control_content command =
     (let content = rstrip_by (\<lambda>b. b = 13 \<or> b = 10) command
      in if content = [] \<or> MAXIMUM_CONTROL_BYTES < length content
         then Inl (ValueError ''control command must contain 1..94 bytes'')
         else if 0 \<in> set content \<or> list_ex (\<lambda>b. MAXIMUM_ASCII_BYTE < unat b) content
         then Inl (ValueError ''control command must contain ASCII without NUL'')
         else Inr content)"

lemma rstrip_by_last: "xs \<noteq> [] \<Longrightarrow> \<not> P (last xs) \<Longrightarrow> rstrip_by P xs = xs"
  by (cases xs rule: rev_cases) (simp_all add: rstrip_by_def)

lemma command_content: "command_ok c \<Longrightarrow> control_content c = Inr c"
  using rstrip_by_last [of c "\<lambda>b. b = 13 \<or> b = 10"]
  by (auto simp: control_content_def command_ok_def list_all_iff list_ex_iff const_simps Let_def)

section \<open>The contract\<close>

text \<open>
  \<open>l\<close> stands for what a transport uses of its environment, \<open>ok l\<close> for the documented behaviour of that.
\<close>

definition transport_result :: "'a res \<Rightarrow> bool" where
  "transport_result r \<longleftrightarrow> (case r of Inl e \<Rightarrow> (\<exists>m. e = TransportError m) | Inr _ \<Rightarrow> True)"

locale control_port =
  fixes ok :: "'l \<Rightarrow> bool"
    and put :: "'l \<Rightarrow> bytes \<Rightarrow> ('s, unit) io"
  assumes refuses: "control_content c = Inl e \<Longrightarrow> \<exists>e'. put l c s = (Inl e', s)"
    and accepts: "ok l \<Longrightarrow> control_content c = Inr b \<Longrightarrow> transport_result (fst (put l c s))"
begin

lemma write_all_result:
  "ok l \<Longrightarrow> list_all command_ok cs \<Longrightarrow> write_all (put l) cs s = (r, rest, s') \<Longrightarrow> transport_result r"
proof (induction cs arbitrary: s)
  case (Cons c cs)
  have "transport_result (fst (put l c s))" using Cons.prems(1,2) command_content accepts by auto
  then show ?case
    using Cons.IH Cons.prems by (cases "put l c s") (auto simp: transport_result_def split: sum.splits)
qed (auto simp: transport_result_def)

text \<open>Sending the queued commands of a connection never fails with anything but \<^verbatim>\<open>TransportError\<close>.\<close>

lemma pending_commands_result:
  assumes "ok l" "tp_write_control tp = put l" "ac_inv c h"
  shows "transport_result (fst (send_pending_commands tp (c, s)))"
proof -
  obtain r rest s' where w: "write_all (put l) (ac_commands c) s = (r, rest, s')" by (metis prod_cases3)
  then show ?thesis
    using write_all_result [OF assms(1) _ w] assms(2,3) by (simp add: send_pending_commands_def ac_inv_def)
qed

end

locale wire_port = control_port +
  fixes sent :: "'a \<Rightarrow> 'b \<Rightarrow> bytes"
  assumes transmits: "ok l \<Longrightarrow> control_content c = Inr b \<Longrightarrow> put l c s = (Inr (), s') \<Longrightarrow>
    sent l s' = sent l s @ b @ crlf_bytes"
begin

lemma write_all_sent:
  "ok l \<Longrightarrow> list_all command_ok cs \<Longrightarrow> write_all (put l) cs s = (Inr (), rest, s') \<Longrightarrow>
     sent l s' = sent l s @ concat (map (\<lambda>c. c @ crlf_bytes) cs) \<and> rest = []"
proof (induction cs arbitrary: s)
  case (Cons c cs)
  obtain r s1 where w: "put l c s = (r, s1)" by force
  then have r: "r = Inr ()" using Cons.prems(3) by (cases r) auto
  then have "sent l s1 = sent l s @ c @ crlf_bytes"
    using transmits [OF Cons.prems(1) command_content w [unfolded r]] Cons.prems(2) by simp
  then show ?case using Cons.IH [of s1] Cons.prems w r by simp
qed simp

text \<open>After a successful round the wire carries each queued command, in order, with its line end.\<close>

lemma pending_commands_sent:
  assumes "ok l" "tp_write_control tp = put l" "ac_inv c h"
    and "send_pending_commands tp (c, s) = (Inr (), c', s')"
  shows "sent l s' = sent l s @ concat (map (\<lambda>x. x @ crlf_bytes) (ac_commands c)) \<and> ac_commands c' = []"
  using write_all_sent [OF assms(1), of "ac_commands c" s] assms(2-4)
  by (auto simp: send_pending_commands_def ac_inv_def split: prod.splits)

end

section \<open>The simulated sensor provides it\<close>

lemma fake_write_control_content:
  "fake_write_control now c k =
     (case require_open k of
        Inl e \<Rightarrow> (Inl e, k)
      | Inr _ \<Rightarrow> (case control_content c of
          Inl e \<Rightarrow> (Inl e, k)
        | Inr b \<Rightarrow> (Inr (), apply_control now (upper_ascii (str_strip (map unat b))) k)))"
  by (simp add: fake_write_control_def control_content_def Let_def const_simps split: sum.splits)

interpretation fake_port: control_port "\<lambda>now. True" fake_write_control
  by unfold_locales
    (auto simp: fake_write_control_content transport_result_def require_open_def split: sum.splits if_splits)

end
