(* ===== verification/CdcSerial.thy ===== *)
theory CdcSerial
  imports ControlPort "HOL-Library.List_Lexorder"
begin

text \<open>
  \<^verbatim>\<open>transport/cdc_serial.py\<close>: the USB CDC transport. The \<^verbatim>\<open>pyserial\<close> package is a parameter: a record of the
  operations the code calls, acting on a state of its own; a port is a handle. \<open>serial_ok\<close> states the
  documented behaviour of its \<^verbatim>\<open>write\<close>: it reports the number of bytes it put on the line, or raises a
  \<^verbatim>\<open>SerialException\<close>, which is an \<^verbatim>\<open>OSError\<close>.
\<close>

section \<open>The serial package\<close>

record 'w pyserial =
  ps_open :: "pystr \<Rightarrow> nat \<Rightarrow> float64 \<Rightarrow> ('w, nat) io"
  ps_set_timeout :: "nat \<Rightarrow> float64 \<Rightarrow> ('w, unit) io"
  ps_in_waiting :: "nat \<Rightarrow> ('w, int) io"
  ps_read :: "nat \<Rightarrow> int \<Rightarrow> ('w, bytes) io"
  ps_write :: "nat \<Rightarrow> bytes \<Rightarrow> ('w, int) io"
  ps_close :: "nat \<Rightarrow> ('w, unit) io"

section \<open>The transport\<close>

definition CDC_BAUD_PLACEHOLDER :: nat where "CDC_BAUD_PLACEHOLDER = 115200"
definition DEFAULT_TIMEOUT_SECONDS :: float64 where "DEFAULT_TIMEOUT_SECONDS = fl (5 / 100)"

record 'w cdc =
  cd_serial_port :: "nat option"
  cd_device_id :: "pystr option"
  cd_world :: 'w

definition CdcSerialTransport_init :: "'w \<Rightarrow> 'w cdc" where
  "CdcSerialTransport_init w = \<lparr>cd_serial_port = None, cd_device_id = None, cd_world = w\<rparr>"

definition cdc_io :: "('w, 'a) io \<Rightarrow> ('w cdc, 'a) io" where
  "cdc_io m d = (case m (cd_world d) of (r, w) \<Rightarrow> (r, d\<lparr>cd_world := w\<rparr>))"

text \<open>What the port enumerator reports of one port.\<close>

record port_info =
  po_device :: pystr
  po_description :: "pystr option"
  po_vid :: "nat option"
  po_pid :: "nat option"

definition describe_port :: "port_info \<Rightarrow> device_descriptor" where
  "describe_port p =
     (let description = (case po_description p of
            Some d \<Rightarrow> if d = [] then lit ''Serial Port'' else d | None \<Rightarrow> lit ''Serial Port'')
      in \<lparr>dd_device_id = po_device p, dd_label = po_device p @ [32, 8212, 32] @ description,
          dd_vid = po_vid p, dd_pid = po_pid p\<rparr>)"

definition cdc_discover :: "port_info list \<Rightarrow> device_descriptor list" where
  "cdc_discover ports = sort_key dd_device_id (map describe_port ports)"

definition cdc_open :: "'w pyserial \<Rightarrow> pystr \<Rightarrow> ('w cdc, unit) io" where
  "cdc_open lib device_id d =
     (if device_id = [] then (Inl (ValueError ''device_id must not be empty''), d)
      else if cd_serial_port d \<noteq> None then (Inl (TransportError ''a CDC endpoint is already open''), d)
      else io_bind
        (as_transport_error ''cannot open CDC endpoint''
          (cdc_io (ps_open lib device_id CDC_BAUD_PLACEHOLDER DEFAULT_TIMEOUT_SECONDS)))
        (\<lambda>port d1. (Inr (), d1\<lparr>cd_serial_port := Some port, cd_device_id := Some device_id\<rparr>)) d)"

definition cdc_close :: "'w pyserial \<Rightarrow> ('w cdc, unit) io" where
  "cdc_close lib d =
     (let d1 = d\<lparr>cd_serial_port := None, cd_device_id := None\<rparr> in
      case cd_serial_port d of
        None \<Rightarrow> (Inr (), d1)
      | Some port \<Rightarrow> as_transport_error ''cannot close CDC endpoint'' (cdc_io (ps_close lib port)) d1)"

definition require_open_port :: "('w cdc, nat) io" where
  "require_open_port d =
     (case cd_serial_port d of
        None \<Rightarrow> (Inl (TransportError ''CDC endpoint is not open''), d)
      | Some port \<Rightarrow> (Inr port, d))"

definition cdc_read :: "'w pyserial \<Rightarrow> int \<Rightarrow> float64 \<Rightarrow> ('w cdc, bytes) io" where
  "cdc_read lib max_bytes timeout_s =
     (if max_bytes \<le> 0 then io_raise (ValueError ''max_bytes must be positive'')
      else if timeout_s < 0 then io_raise (ValueError ''timeout_s must not be negative'')
      else io_bind require_open_port (\<lambda>port.
           io_bind (cdc_io (ps_set_timeout lib port timeout_s)) (\<lambda>_.
           as_transport_error ''cannot read CDC endpoint''
             (io_bind (cdc_io (ps_in_waiting lib port)) (\<lambda>waiting.
              cdc_io (ps_read lib port (min max_bytes (max 1 waiting))))))))"

definition write_port :: "'w pyserial \<Rightarrow> bytes \<Rightarrow> ('w cdc, unit) io" where
  "write_port lib data =
     io_bind require_open_port (\<lambda>port.
     io_bind (as_transport_error ''cannot write CDC endpoint'' (cdc_io (ps_write lib port data))) (\<lambda>bytes_written.
       if bytes_written \<noteq> int (length data) then io_raise (TransportError ''short CDC write'')
       else io_return ()))"

definition cdc_write_control :: "'w pyserial \<Rightarrow> bytes \<Rightarrow> ('w cdc, unit) io" where
  "cdc_write_control lib command =
     io_bind (io_lift (control_content command)) (\<lambda>content. write_port lib (content @ crlf_bytes))"

definition cdc_write_raw :: "'w pyserial \<Rightarrow> bytes \<Rightarrow> ('w cdc, unit) io" where
  "cdc_write_raw lib data =
     (if data = [] then io_raise (ValueError ''raw write must contain at least one byte'')
      else write_port lib data)"

definition cdc_transport :: "'w pyserial \<Rightarrow> 'w cdc transport" where
  "cdc_transport lib =
     \<lparr>tp_read = (\<lambda>n. cdc_read lib (int n)), tp_write_control = cdc_write_control lib,
      tp_write_raw = cdc_write_raw lib, tp_close = cdc_close lib\<rparr>"

section \<open>The contract of control lines\<close>

definition serial_ok :: "'w pyserial \<times> ('w \<Rightarrow> bytes) \<Rightarrow> bool" where
  "serial_ok lw \<longleftrightarrow> (case lw of (lib, wire) \<Rightarrow>
     \<forall>port data w. case ps_write lib port data w of
       (Inl e, w') \<Rightarrow> is_os_error e
     | (Inr n, w') \<Rightarrow> 0 \<le> n \<and> n \<le> int (length data) \<and> wire w' = wire w @ take (nat n) data)"

lemma serial_okD:
  assumes "serial_ok (lib, wire)" "ps_write lib port data w = (x, w')"
  shows "case x of Inl e \<Rightarrow> is_os_error e
    | Inr n \<Rightarrow> 0 \<le> n \<and> n \<le> int (length data) \<and> wire w' = wire w @ take (nat n) data"
  using assms(1) [unfolded serial_ok_def prod.case, THEN spec [of _ port], THEN spec [of _ data], THEN spec [of _ w]]
  by (simp add: assms(2))

text \<open>A write to the port succeeds with all bytes on the line, or raises \<^verbatim>\<open>TransportError\<close>.\<close>

lemma write_port_result:
  assumes "serial_ok (lib, wire)" "write_port lib data d = (r, d')"
  shows "transport_result r \<and> (r = Inr () \<longrightarrow> wire (cd_world d') = wire (cd_world d) @ data)"
proof (cases "cd_serial_port d")
  case (Some port)
  obtain x w' where w: "ps_write lib port data (cd_world d) = (x, w')" by force
  have ok: "case x of Inl e \<Rightarrow> is_os_error e
      | Inr n \<Rightarrow> 0 \<le> n \<and> n \<le> int (length data) \<and> wire w' = wire (cd_world d) @ take (nat n) data"
    by (rule serial_okD [OF assms(1) w])
  show ?thesis
    using assms(2) ok Some w
    by (auto simp: write_port_def require_open_port_def io_bind_def as_transport_error_def cdc_io_def io_raise_def
        io_return_def transport_result_def split: sum.splits if_splits)
qed (use assms(2) in \<open>auto simp: write_port_def require_open_port_def io_bind_def transport_result_def\<close>)

interpretation cdc_port: wire_port serial_ok "\<lambda>lw. cdc_write_control (fst lw)" "\<lambda>lw d. snd lw (cd_world d)"
proof unfold_locales
  fix c e l and s :: "'a cdc" assume "control_content c = Inl e"
  then show "\<exists>e'. cdc_write_control (fst (l :: 'a pyserial \<times> ('a \<Rightarrow> bytes))) c s = (Inl e', s)"
    by (simp add: cdc_write_control_def io_bind_def io_lift_def)
next
  fix l :: "'a pyserial \<times> ('a \<Rightarrow> bytes)" and c b and s :: "'a cdc"
  assume "serial_ok l" "control_content c = Inr b"
  then show "transport_result (fst (cdc_write_control (fst l) c s))"
    using write_port_result [of "fst l" "snd l" "b @ crlf_bytes" s]
    by (cases "write_port (fst l) (b @ crlf_bytes) s") (simp add: cdc_write_control_def io_bind_def io_lift_def)
next
  fix l :: "'a pyserial \<times> ('a \<Rightarrow> bytes)" and c b and s s' :: "'a cdc"
  assume "serial_ok l" "control_content c = Inr b" "cdc_write_control (fst l) c s = (Inr (), s')"
  then show "snd l (cd_world s') = snd l (cd_world s) @ b @ crlf_bytes"
    using write_port_result [of "fst l" "snd l" "b @ crlf_bytes" s "Inr ()" s']
    by (simp add: cdc_write_control_def io_bind_def io_lift_def)
qed

section \<open>Properties\<close>

text \<open>Closing always releases the port, and a second close does nothing.\<close>

lemma cdc_close_releases:
  "cd_serial_port (snd (cdc_close lib d)) = None \<and>
     cdc_close lib (snd (cdc_close lib d)) = (Inr (), snd (cdc_close lib d))"
  by (auto simp: cdc_close_def as_transport_error_def cdc_io_def Let_def split: option.splits prod.splits sum.splits)

text \<open>A read asks the port for at least one and at most \<open>max_bytes\<close> bytes.\<close>

lemma cdc_read_bounded:
  assumes "cdc_read lib n t d = (Inr bs, d')"
    and "\<And>port k w b w'. ps_read lib port k w = (Inr b, w') \<Longrightarrow> int (length b) \<le> k"
  shows "int (length bs) \<le> n"
  using assms(1)
  by (auto simp: cdc_read_def io_bind_def io_raise_def as_transport_error_def cdc_io_def split: if_splits prod.splits sum.splits
      dest!: assms(2))

text \<open>
  A line end inside a command is neither refused nor escaped: the port then carries two lines.
\<close>

lemma inner_line_end_accepted:
  "control_content (a @ [65, 13, 10, 66]) = Inr b \<Longrightarrow> b = a @ [65] @ crlf_bytes @ [66]"
  by (auto simp: control_content_def rstrip_by_def crlf_bytes_def Let_def split: if_splits)

text \<open>
  C20. Commands over the serial port: in every state a connection can reach, sending the queued commands
  either puts each of them on the line, complete and in order, each with one line end, and leaves the queue
  empty, or raises \<^verbatim>\<open>TransportError\<close>; no queued command is ever refused as malformed.
\<close>

theorem cdc_commands_on_wire:
  assumes "serial_ok (lib, wire)"
    and "ac_reach np (cdc_transport lib) (AcquisitionController_init store recorder, d0, []) (c, d, drained)"
    and "send_pending_commands (cdc_transport lib) (c, d) = (r, c', d')"
  shows "(case r of
      Inr _ \<Rightarrow> wire (cd_world d') = wire (cd_world d) @ concat (map (\<lambda>x. x @ [13, 10]) (ac_commands c)) \<and> ac_commands c' = []
    | Inl e \<Rightarrow> \<exists>m. e = TransportError m)"
proof -
  have inv: "ac_inv c drained" using ac_reach_inv [OF assms(2)] init_inv by blast
  have w: "tp_write_control (cdc_transport lib) = cdc_write_control (fst (lib, wire))" by (simp add: cdc_transport_def)
  show ?thesis
    using cdc_port.pending_commands_result [OF assms(1) w inv, of d]
      cdc_port.pending_commands_sent [OF assms(1) w inv, of d c' d'] assms(3)
    by (auto simp: transport_result_def crlf_bytes_def split: sum.splits)
qed

text \<open>A port that accepts every write and remembers the bytes.\<close>

definition recording_port :: "bytes pyserial" where
  "recording_port =
     \<lparr>ps_open = (\<lambda>_ _ _. io_return 0), ps_set_timeout = (\<lambda>_ _. io_return ()), ps_in_waiting = (\<lambda>_. io_return 0),
      ps_read = (\<lambda>_ _. io_return []), ps_write = (\<lambda>_ data w. (Inr (int (length data)), w @ data)),
      ps_close = (\<lambda>_. io_return ())\<rparr>"

lemma recording_port_ok: "serial_ok (recording_port, id)"
  by (simp add: serial_ok_def recording_port_def)

theorem cdc_commands_on_wire_witness:
  "cd_world (snd (snd (send_pending_commands (cdc_transport recording_port)
     (snd (request_uuid (AcquisitionController_init sample_store0 None)),
      \<lparr>cd_serial_port = Some 0, cd_device_id = None, cd_world = []\<rparr>)))) = ascii_encode (lit ''AT+UUID?'') @ [13, 10]"
proof -
  let ?c = "snd (request_uuid (AcquisitionController_init sample_store0 None))"
  let ?d = "\<lparr>cd_serial_port = Some 0, cd_device_id = None, cd_world = []\<rparr>"
  have "ac_step np_ref (cdc_transport recording_port) (AcquisitionController_init sample_store0 None, ?d, []) (?c, ?d, [])"
    unfolding request_uuid_def by (rule ac_step.command, rule surjective_pairing)
  then have reach: "ac_reach np_ref (cdc_transport recording_port)
      (AcquisitionController_init sample_store0 None, ?d, []) (?c, ?d, [])"
    using ac_reach.intros by blast
  obtain r c' d' where s: "send_pending_commands (cdc_transport recording_port) (?c, ?d) = (r, c', d')"
    by (metis prod_cases3)
  have line: "lit ''AT+UUID?'' = [65, 84, 43, 85, 85, 73, 68, 63]" by (simp add: lit_def)
  then have cs: "ac_commands ?c = [ascii_encode (lit ''AT+UUID?'')]"
    by (simp add: request_uuid_def enqueue_command_def str_strip_def strip_by_def is_space_def ascii_encode_def
        const_simps AcquisitionController_init_def)
  have "control_content (ascii_encode (lit ''AT+UUID?'')) = Inr (ascii_encode (lit ''AT+UUID?''))"
    by (simp add: line ascii_encode_def control_content_def rstrip_by_def const_simps)
  then have "r = Inr ()"
    using s cs by (simp add: send_pending_commands_def cdc_transport_def cdc_write_control_def write_port_def
        require_open_port_def as_transport_error_def cdc_io_def recording_port_def io_simps io_bind_def)
  then show ?thesis using cdc_commands_on_wire [OF recording_port_ok reach s] s cs by simp
qed

end
