(* ===== verification/Ipv4.thy ===== *)
theory Ipv4
  imports PyText
begin

text \<open>
  What \<^verbatim>\<open>transport/gateway.py\<close> uses of Python's \<^verbatim>\<open>ipaddress\<close>: \<^verbatim>\<open>IPv4Address\<close> and \<^verbatim>\<open>IPv4Interface\<close> of a text, the
  text of an address, its loopback test, and the broadcast address of a network. An address is a
  32-bit word. \<^verbatim>\<open>AddressValueError\<close> and \<^verbatim>\<open>NetmaskValueError\<close> are \<^verbatim>\<open>ValueError\<close>s.
\<close>

unbundle bit_operations_syntax

type_synonym ipv4 = "32 word"

section \<open>Texts of addresses\<close>

definition parse_octet :: "pystr \<Rightarrow> nat option" where
  "parse_octet s =
     (if s = [] \<or> \<not> list_all (\<lambda>c. 48 \<le> c \<and> c \<le> 57) s \<or> 3 < length s then None
      else if s \<noteq> [48] \<and> hd s = 48 then None
      else let v = foldl (\<lambda>a c. 10 * a + (c - 48)) 0 s in if 255 < v then None else Some v)"

definition octets :: "ipv4 \<Rightarrow> nat list" where
  "octets a = [unat a div 2 ^ 24, unat a div 2 ^ 16 mod 256, unat a div 2 ^ 8 mod 256, unat a mod 256]"

definition of_octets :: "nat list \<Rightarrow> ipv4" where
  "of_octets os = of_nat (foldl (\<lambda>a v. 256 * a + v) 0 os)"

fun parse_octets :: "pystr list \<Rightarrow> nat list option" where
  "parse_octets [] = Some []"
| "parse_octets (s # ss) =
     (case parse_octet s of None \<Rightarrow> None | Some v \<Rightarrow> map_option ((#) v) (parse_octets ss))"

definition IPv4Address :: "pystr \<Rightarrow> ipv4 res" where
  "IPv4Address s =
     (if 47 \<in> set s \<or> length (split_on 46 s) \<noteq> 4 then Inl (ValueError ''not an IPv4 address'')
      else case parse_octets (split_on 46 s) of
        None \<Rightarrow> Inl (ValueError ''not an IPv4 address'')
      | Some os \<Rightarrow> Inr (of_octets os))"

definition ipv4_text :: "ipv4 \<Rightarrow> pystr" where
  "ipv4_text a = join_with 46 (map dec_digits (octets a))"

definition is_loopback :: "ipv4 \<Rightarrow> bool" where
  "is_loopback a \<longleftrightarrow> unat a div 2 ^ 24 = 127"

section \<open>Networks\<close>

text \<open>The number of trailing zero bits of a mask, 32 for zero.\<close>

fun trailing_zeros :: "nat \<Rightarrow> nat \<Rightarrow> nat" where
  "trailing_zeros 0 v = 0"
| "trailing_zeros (Suc n) v = (if even v then Suc (trailing_zeros n (v div 2)) else 0)"

definition prefix_from_ip_int :: "ipv4 \<Rightarrow> nat option" where
  "prefix_from_ip_int v =
     (let zeros = trailing_zeros 32 (unat v)
      in if unat v div 2 ^ zeros = 2 ^ (32 - zeros) - 1 then Some (32 - zeros) else None)"

text \<open>A prefix length, or a dotted netmask, or a dotted hostmask.\<close>

definition prefix_length :: "pystr \<Rightarrow> nat res" where
  "prefix_length s =
     (if s \<noteq> [] \<and> list_all (\<lambda>c. 48 \<le> c \<and> c \<le> 57) s \<and> foldl (\<lambda>a c. 10 * a + (c - 48)) 0 s \<le> 32
      then Inr (foldl (\<lambda>a c. 10 * a + (c - 48)) 0 s)
      else rbind (IPv4Address s) (\<lambda>v.
        case prefix_from_ip_int v of
          Some n \<Rightarrow> Inr n
        | None \<Rightarrow> (case prefix_from_ip_int (NOT v) of
            Some n \<Rightarrow> Inr n
          | None \<Rightarrow> Inl (ValueError ''not a valid netmask''))))"

record ipv4_interface =
  if_ip :: ipv4
  if_prefix :: nat

definition IPv4Interface :: "pystr \<Rightarrow> ipv4_interface res" where
  "IPv4Interface s =
     (case split_on 47 s of
        [address] \<Rightarrow> rbind (IPv4Address address) (\<lambda>ip. Inr \<lparr>if_ip = ip, if_prefix = 32\<rparr>)
      | [address, netmask] \<Rightarrow>
          rbind (IPv4Address address) (\<lambda>ip.
          rbind (prefix_length netmask) (\<lambda>n. Inr \<lparr>if_ip = ip, if_prefix = n\<rparr>))
      | _ \<Rightarrow> Inl (ValueError ''only one slash permitted''))"

definition hostmask :: "nat \<Rightarrow> ipv4" where
  "hostmask n = mask (32 - n)"

definition broadcast_address :: "ipv4_interface \<Rightarrow> ipv4" where
  "broadcast_address i = (if_ip i AND NOT (hostmask (if_prefix i))) OR hostmask (if_prefix i)"

section \<open>Round trips\<close>

lemma foldl_dec_digits: "foldl (\<lambda>a c. 10 * a + (c - 48)) 0 (dec_digits n) = n"
proof (induction n rule: dec_digits.induct)
  case (1 n)
  then show ?case by (subst dec_digits.simps) simp
qed

lemma parse_octet_digits:
  assumes "v < 256"
  shows "parse_octet (dec_digits v) = Some v"
proof -
  have "length (dec_digits v) \<le> Suc 2" using assms by (intro length_dec_digits) simp
  moreover have "dec_digits v \<noteq> [48] \<Longrightarrow> hd (dec_digits v) \<noteq> 48"
    using hd_dec_digits [of v] by (cases "v = 0") (simp_all add: dec_digits.simps [of 0])
  moreover have "list_all (\<lambda>c. 48 \<le> c \<and> c \<le> 57) (dec_digits v)"
    using dec_digits_range by (auto simp: list_all_iff)
  ultimately show ?thesis using assms foldl_dec_digits [of v] by (auto simp: parse_octet_def Let_def)
qed

lemma octets_range: "v \<in> set (octets a) \<Longrightarrow> v < 256"
proof -
  have "unat a < 2 ^ 32" using unsigned_less [of a, where ?'a = nat] by simp
  then show "v \<in> set (octets a) \<Longrightarrow> v < 256" by (auto simp: octets_def)
qed

lemma length_octets: "length (octets a) = 4"
  by (simp add: octets_def)

lemma of_octets_octets: "of_octets (octets a) = a"
proof -
  have "256 * (256 * (256 * (n div 2 ^ 24) + n div 2 ^ 16 mod 256) + n div 2 ^ 8 mod 256) + n mod 256 = n" for n :: nat
  proof -
    have "n div 2 ^ 16 = 256 * (n div 2 ^ 24) + n div 2 ^ 16 mod 256"
      using mult_div_mod_eq [of 256 "n div 2 ^ 16"] by (simp add: div_mult2_eq [symmetric])
    moreover have "n div 2 ^ 8 = 256 * (n div 2 ^ 16) + n div 2 ^ 8 mod 256"
      using mult_div_mod_eq [of 256 "n div 2 ^ 8"] by (simp add: div_mult2_eq [symmetric])
    ultimately show ?thesis using mult_div_mod_eq [of 256 n] by simp
  qed
  from this [of "unat a"] show ?thesis
    by (simp add: of_octets_def octets_def)
qed

lemma dec_digits_no_dot_slash: "46 \<notin> set (dec_digits v)" "47 \<notin> set (dec_digits v)"
  using dec_digits_range by fastforce+

lemma ipv4_text_no_slash: "47 \<notin> set (ipv4_text a)"
  by (simp add: ipv4_text_def octets_def dec_digits_no_dot_slash)

lemma ipv4_round_trip: "IPv4Address (ipv4_text a) = Inr a"
proof -
  have split: "split_on 46 (ipv4_text a) = map dec_digits (octets a)"
    by (simp add: ipv4_text_def octets_def split_on_append split_on_no_sep dec_digits_no_dot_slash)
  have "parse_octets (map dec_digits os) = Some os" if "\<forall>v\<in>set os. v < 256" for os
    using that by (induction os) (simp_all add: parse_octet_digits)
  then have "parse_octets (map dec_digits (octets a)) = Some (octets a)" using octets_range by blast
  then show ?thesis using ipv4_text_no_slash unfolding IPv4Address_def split by (simp add: of_octets_octets length_octets del: map_map)
qed

lemma ipv4_text_inj: "ipv4_text a = ipv4_text b \<Longrightarrow> a = b"
  by (metis ipv4_round_trip sum.inject(2))

end
