(* ===== verification/Gateway.thy ===== *)
theory Gateway
  imports ControlPort Ipv4
begin

text \<open>
  \<^verbatim>\<open>transport/gateway.py\<close>: the connection of one ESP gateway, the listener that accepts a bounded number of
  them, the checked Wi-Fi configuration and the UDP wake service. The operating system's sockets and
  clock are a parameter, a record of the calls the code makes on a state of their own.
\<close>

section \<open>Sockets\<close>

record 'w sockets =
  so_create :: "bool \<Rightarrow> ('w, nat) io"
  so_setsockopt :: "nat \<Rightarrow> ('w, unit) io"
  so_bind :: "nat \<Rightarrow> pystr \<Rightarrow> int \<Rightarrow> ('w, unit) io"
  so_listen :: "nat \<Rightarrow> int \<Rightarrow> ('w, unit) io"
  so_getsockname :: "nat \<Rightarrow> ('w, int) io"
  so_accept :: "nat \<Rightarrow> ('w, nat \<times> pystr \<times> int) io"
  so_settimeout :: "nat \<Rightarrow> float64 \<Rightarrow> ('w, unit) io"
  so_recv :: "nat \<Rightarrow> int \<Rightarrow> ('w, bytes) io"
  so_sendall :: "nat \<Rightarrow> bytes \<Rightarrow> ('w, unit) io"
  so_sendto :: "nat \<Rightarrow> bytes \<Rightarrow> pystr \<Rightarrow> int \<Rightarrow> ('w, int) io"
  so_shutdown :: "nat \<Rightarrow> ('w, unit) io"
  so_close :: "nat \<Rightarrow> ('w, unit) io"
  so_monotonic :: "'w \<Rightarrow> float64 \<times> 'w"

definition DEFAULT_TCP_PORT :: int where "DEFAULT_TCP_PORT = 54321"
definition DEFAULT_UDP_PORT :: int where "DEFAULT_UDP_PORT = 12345"
definition DEFAULT_MAXIMUM_CLIENTS :: int where "DEFAULT_MAXIMUM_CLIENTS = 16"
definition DEFAULT_WAKE_INTERVAL_SECONDS :: float64 where "DEFAULT_WAKE_INTERVAL_SECONDS = 2"
definition GATEWAY_INACTIVITY_SECONDS :: float64 where "GATEWAY_INACTIVITY_SECONDS = 20"
definition WAKE_PAYLOAD :: bytes where "WAKE_PAYLOAD = blit ''TCPCONNECT''"

section \<open>The configuration\<close>

record wifi_config =
  wc_local_ipv4 :: pystr
  wc_netmask :: pystr
  wc_expected_pc_ipv4 :: pystr
  wc_tcp_port :: int
  wc_udp_port :: int
  wc_unicast_targets :: "pystr list"

fun parse_targets :: "pystr list \<Rightarrow> ipv4 list res" where
  "parse_targets [] = Inr []"
| "parse_targets (t # ts) = rbind (IPv4Address t) (\<lambda>a. rbind (parse_targets ts) (\<lambda>as. Inr (a # as)))"

definition interface_of :: "pystr \<Rightarrow> pystr \<Rightarrow> ipv4_interface res" where
  "interface_of local_ipv4 netmask = IPv4Interface (local_ipv4 @ [47] @ netmask)"

definition WifiServerConfig_check :: "wifi_config \<Rightarrow> unit res" where
  "WifiServerConfig_check c =
     rbind (interface_of (wc_local_ipv4 c) (wc_netmask c)) (\<lambda>interface.
     rbind (IPv4Address (wc_expected_pc_ipv4 c)) (\<lambda>expected.
       if is_loopback (if_ip interface) then Inl (ValueError ''Wi-Fi interface must not be loopback'')
       else if if_ip interface \<noteq> expected
       then Inl (ValueError ''ESP configured PC IPv4 does not match the selected interface'')
       else if \<not> (1 \<le> wc_tcp_port c \<and> wc_tcp_port c \<le> 65535)
       then Inl (ValueError ''TCP port must be in 1..65535'')
       else if \<not> (1 \<le> wc_udp_port c \<and> wc_udp_port c \<le> 65535)
       then Inl (ValueError ''UDP port must be in 1..65535'')
       else rbind (parse_targets (wc_unicast_targets c)) (\<lambda>_. Inr ())))"

section \<open>One gateway connection\<close>

record 'w gateway_conn =
  gc_socket :: "nat option"
  gc_peer :: pystr
  gc_last_received_s :: float64
  gc_world :: 'w

definition AcceptedSocketTransport_init :: "'w sockets \<Rightarrow> nat \<Rightarrow> pystr \<Rightarrow> 'w \<Rightarrow> 'w gateway_conn" where
  "AcceptedSocketTransport_init lib sock peer w =
     (case so_monotonic lib w of (now, w') \<Rightarrow>
        \<lparr>gc_socket = Some sock, gc_peer = peer, gc_last_received_s = now, gc_world = w'\<rparr>)"

definition gc_io :: "('w, 'a) io \<Rightarrow> ('w gateway_conn, 'a) io" where
  "gc_io m c = (case m (gc_world c) of (r, w) \<Rightarrow> (r, c\<lparr>gc_world := w\<rparr>))"

definition gateway_discover :: "device_descriptor list" where
  "gateway_discover = []"

definition gateway_open :: "pystr \<Rightarrow> ('w gateway_conn, unit) io" where
  "gateway_open device_id c =
     (if gc_socket c = None then (Inl (TransportError ''gateway connection is closed''), c) else (Inr (), c))"

definition gateway_close :: "'w sockets \<Rightarrow> ('w gateway_conn, unit) io" where
  "gateway_close lib c =
     (case gc_socket c of
        None \<Rightarrow> (Inr (), c\<lparr>gc_socket := None\<rparr>)
      | Some sock \<Rightarrow>
          io_bind (io_suppress is_os_error (gc_io (so_shutdown lib sock))) (\<lambda>_. gc_io (so_close lib sock))
            (c\<lparr>gc_socket := None\<rparr>))"

definition require_socket :: "('w gateway_conn, nat) io" where
  "require_socket c =
     (case gc_socket c of None \<Rightarrow> (Inl (TransportError ''gateway is closed''), c) | Some sock \<Rightarrow> (Inr sock, c))"

definition monotonic :: "'w sockets \<Rightarrow> ('w gateway_conn, float64) io" where
  "monotonic lib = gc_io (\<lambda>w. case so_monotonic lib w of (now, w') \<Rightarrow> (Inr now, w'))"

text \<open>The answers to \<^verbatim>\<open>recv\<close>: data, the orderly end of the stream, a timeout, another failure.\<close>

definition received :: "'w sockets \<Rightarrow> bytes res \<Rightarrow> ('w gateway_conn, bytes) io" where
  "received lib r =
     (case r of
        Inr payload \<Rightarrow>
          if payload = [] then io_raise (TransportError ''gateway disconnected'')
          else io_bind (monotonic lib) (\<lambda>now c. (Inr payload, c\<lparr>gc_last_received_s := now\<rparr>))
      | Inl TimeoutError \<Rightarrow>
          io_bind (monotonic lib) (\<lambda>now c.
            if GATEWAY_INACTIVITY_SECONDS \<le> fsub now (gc_last_received_s c)
            then io_bind (gateway_close lib) (\<lambda>_. io_raise (TransportError ''gateway inactive for 20 seconds'')) c
            else (Inr [], c))
      | Inl e \<Rightarrow> io_raise (if is_os_error e then TransportError ''cannot read gateway'' else e))"

definition gateway_read :: "'w sockets \<Rightarrow> int \<Rightarrow> float64 \<Rightarrow> ('w gateway_conn, bytes) io" where
  "gateway_read lib max_bytes timeout_s =
     (if max_bytes \<le> 0 then io_raise (ValueError ''max_bytes must be positive'')
      else if timeout_s < 0 then io_raise (ValueError ''timeout_s must not be negative'')
      else io_bind require_socket (\<lambda>sock.
           io_bind (gc_io (so_settimeout lib sock timeout_s)) (\<lambda>_ c.
             case gc_io (so_recv lib sock max_bytes) c of (r, c') \<Rightarrow> received lib r c')))"

definition gateway_send :: "'w sockets \<Rightarrow> bytes \<Rightarrow> ('w gateway_conn, unit) io" where
  "gateway_send lib data =
     as_transport_error ''cannot write gateway''
       (io_bind require_socket (\<lambda>sock. gc_io (so_sendall lib sock data)))"

definition gateway_write_control :: "'w sockets \<Rightarrow> bytes \<Rightarrow> ('w gateway_conn, unit) io" where
  "gateway_write_control lib command =
     io_bind (io_lift (control_content command)) (\<lambda>content. gateway_send lib (content @ crlf_bytes))"

definition gateway_write_raw :: "'w sockets \<Rightarrow> bytes \<Rightarrow> ('w gateway_conn, unit) io" where
  "gateway_write_raw lib data =
     (if data = [] then io_raise (ValueError ''raw write must contain at least one byte'')
      else gateway_send lib data)"

definition gateway_transport :: "'w sockets \<Rightarrow> 'w gateway_conn transport" where
  "gateway_transport lib =
     \<lparr>tp_read = (\<lambda>n. gateway_read lib (int n)), tp_write_control = gateway_write_control lib,
      tp_write_raw = gateway_write_raw lib, tp_close = gateway_close lib\<rparr>"

section \<open>The listener\<close>

record 'w gateway_client =
  gw_connection_id :: pystr
  gw_peer :: pystr
  gw_transport :: "'w gateway_conn"

record 'w listener =
  gl_maximum_clients :: int
  gl_listener :: "nat option"
  gl_active_connections :: "pystr set"
  gl_next_connection_number :: nat
  gl_bound_port :: int
  gl_rejected_clients :: nat
  gl_world :: 'w

definition GatewayListener_init :: "int \<Rightarrow> 'w \<Rightarrow> 'w listener res" where
  "GatewayListener_init maximum_clients w =
     (if maximum_clients \<le> 0 then Inl (ValueError ''maximum_clients must be positive'')
      else Inr \<lparr>gl_maximum_clients = maximum_clients, gl_listener = None, gl_active_connections = {},
        gl_next_connection_number = 1, gl_bound_port = 0, gl_rejected_clients = 0, gl_world = w\<rparr>)"

definition gl_io :: "('w, 'a) io \<Rightarrow> ('w listener, 'a) io" where
  "gl_io m g = (case m (gl_world g) of (r, w) \<Rightarrow> (r, g\<lparr>gl_world := w\<rparr>))"

text \<open>\<^verbatim>\<open>try: m except OSError: cleanup; raise TransportError(..)\<close>.\<close>

definition or_close :: "('s, unit) io \<Rightarrow> string \<Rightarrow> ('s, 'a) io \<Rightarrow> ('s, 'a) io" where
  "or_close cleanup message m s =
     (case m s of
        (Inl e, s') \<Rightarrow>
          if is_os_error e then io_bind cleanup (\<lambda>_. io_raise (TransportError message)) s' else (Inl e, s')
      | (Inr a, s') \<Rightarrow> (Inr a, s'))"

definition open_listener :: "'w sockets \<Rightarrow> pystr \<Rightarrow> int \<Rightarrow> ('w listener, unit) io" where
  "open_listener lib local_ipv4 tcp_port =
     io_bind (gl_io (so_create lib True)) (\<lambda>sock.
     io_bind (gl_io (so_setsockopt lib sock)) (\<lambda>_.
     io_bind (or_close (gl_io (so_close lib sock)) ''cannot listen''
       (io_bind (gl_io (so_bind lib sock local_ipv4 tcp_port)) (\<lambda>_ g.
          gl_io (so_listen lib sock (gl_maximum_clients g)) g))) (\<lambda>_ g.
     io_bind (gl_io (so_getsockname lib sock)) (\<lambda>port g1. (Inr (), g1\<lparr>gl_bound_port := port\<rparr>))
       (g\<lparr>gl_listener := Some sock\<rparr>))))"

definition listener_start :: "'w sockets \<Rightarrow> pystr \<Rightarrow> int \<Rightarrow> ('w listener, unit) io" where
  "listener_start lib local_ipv4 tcp_port g =
     (if gl_listener g \<noteq> None then (Inl (TransportError ''gateway listener is already running''), g)
      else io_bind (io_lift (IPv4Address local_ipv4)) (\<lambda>_.
        if \<not> (0 \<le> tcp_port \<and> tcp_port \<le> 65535) then io_raise (ValueError ''TCP port must be in 0..65535'')
        else open_listener lib local_ipv4 tcp_port) g)"

definition listener_close :: "'w sockets \<Rightarrow> ('w listener, unit) io" where
  "listener_close lib g =
     (case gl_listener g of
        None \<Rightarrow> (Inr (), g)
      | Some sock \<Rightarrow> gl_io (so_close lib sock) (g\<lparr>gl_listener := None\<rparr>))"

definition connection_id_of :: "nat \<Rightarrow> pystr" where
  "connection_id_of n = lit ''wifi-'' @ dec_digits n"

text \<open>The part of \<^verbatim>\<open>accept\<close> that the lock protects, and the client it returns.\<close>

definition admit :: "'w sockets \<Rightarrow> nat \<Rightarrow> pystr \<Rightarrow> ('w listener, 'w gateway_client option) io" where
  "admit lib sock peer g =
     (if gl_maximum_clients g \<le> int (card (gl_active_connections g))
      then io_bind (gl_io (so_close lib sock)) (\<lambda>_. io_return None)
             (g\<lparr>gl_rejected_clients := gl_rejected_clients g + 1\<rparr>)
      else
        let connection_id = connection_id_of (gl_next_connection_number g);
            conn = AcceptedSocketTransport_init lib sock peer (gl_world g)
        in (Inr (Some \<lparr>gw_connection_id = connection_id, gw_peer = peer, gw_transport = conn\<rparr>),
            g\<lparr>gl_next_connection_number := gl_next_connection_number g + 1,
              gl_active_connections := insert connection_id (gl_active_connections g),
              gl_world := gc_world conn\<rparr>))"

text \<open>\<open>closing\<close> tells whether another thread closes the listener while this one waits for a client.\<close>

definition listener_accept ::
  "'w sockets \<Rightarrow> bool \<Rightarrow> float64 \<Rightarrow> ('w listener, 'w gateway_client option) io" where
  "listener_accept lib closing timeout_s g =
     (case gl_listener g of
        None \<Rightarrow> (Inl (TransportError ''gateway listener is not running''), g)
      | Some sock \<Rightarrow>
          io_bind (gl_io (so_settimeout lib sock timeout_s)) (\<lambda>_ g1.
            case gl_io (so_accept lib sock) g1 of (r, g2) \<Rightarrow>
              let g3 = (if closing then snd (listener_close lib g2) else g2)
              in case r of
                Inl e \<Rightarrow>
                  if e = TimeoutError then (Inr None, g3)
                  else if \<not> is_os_error e then (Inl e, g3)
                  else if gl_listener g3 = None then (Inr None, g3)
                  else (Inl (TransportError ''gateway listener failed''), g3)
              | Inr (stream, address, port) \<Rightarrow> admit lib stream (address @ 58 # show_int port) g3) g)"

definition listener_release :: "pystr \<Rightarrow> 'w listener \<Rightarrow> 'w listener" where
  "listener_release connection_id g =
     g\<lparr>gl_active_connections := gl_active_connections g - {connection_id}\<rparr>"

section \<open>The wake service\<close>

record wake_service =
  wk_targets :: "pystr list"
  wk_udp_port :: int
  wk_interval_s :: float64
  wk_stop_event :: bool
  wk_thread :: bool
  wk_last_error :: "string option"

text \<open>\<^verbatim>\<open>tuple(dict.fromkeys(xs))\<close>: the first occurrence of each.\<close>

definition unique :: "'a list \<Rightarrow> 'a list" where
  "unique xs = rev (remdups (rev xs))"

definition UdpWakeService_init ::
  "pystr \<Rightarrow> pystr \<Rightarrow> int \<Rightarrow> pystr list \<Rightarrow> float64 \<Rightarrow> wake_service res" where
  "UdpWakeService_init local_ipv4 netmask udp_port unicast_targets interval_s =
     rbind (interface_of local_ipv4 netmask) (\<lambda>interface.
       if is_loopback (if_ip interface) then Inl (ValueError ''wake interface must not be loopback'')
       else if \<not> (1 \<le> udp_port \<and> udp_port \<le> 65535) then Inl (ValueError ''UDP port must be in 1..65535'')
       else if interval_s \<le> 0 then Inl (ValueError ''wake interval must be positive'')
       else rbind (parse_targets unicast_targets) (\<lambda>targets.
         Inr \<lparr>wk_targets = ipv4_text (broadcast_address interface) # unique (map ipv4_text targets),
              wk_udp_port = udp_port, wk_interval_s = interval_s, wk_stop_event = False, wk_thread = False,
              wk_last_error = None\<rparr>))"

definition create_wake_service :: "wifi_config \<Rightarrow> wake_service res" where
  "create_wake_service c =
     UdpWakeService_init (wc_local_ipv4 c) (wc_netmask c) (wc_udp_port c) (wc_unicast_targets c)
       DEFAULT_WAKE_INTERVAL_SECONDS"

fun wake_targets :: "'w sockets \<Rightarrow> nat \<Rightarrow> int \<Rightarrow> pystr list \<Rightarrow> ('w, unit) io" where
  "wake_targets lib sock port [] = io_return ()"
| "wake_targets lib sock port (t # ts) =
     io_bind (so_sendto lib sock WAKE_PAYLOAD t port) (\<lambda>sent.
       if sent \<noteq> int (length WAKE_PAYLOAD) then io_raise (TransportError ''short UDP wake write'')
       else wake_targets lib sock port ts)"

text \<open>\<^verbatim>\<open>try: m finally: cleanup\<close>; an exception of the cleanup replaces the outcome.\<close>

definition io_finally :: "('w, 'a) io \<Rightarrow> ('w, unit) io \<Rightarrow> ('w, 'a) io" where
  "io_finally m cleanup w =
     (case m w of (r, w1) \<Rightarrow> case cleanup w1 of (Inl e, w2) \<Rightarrow> (Inl e, w2) | (Inr _, w2) \<Rightarrow> (r, w2))"

definition send_once :: "'w sockets \<Rightarrow> wake_service \<Rightarrow> ('w, unit) io" where
  "send_once lib k =
     io_bind (so_create lib False) (\<lambda>sock.
       io_finally
         (as_transport_error ''cannot send UDP gateway wake''
           (io_bind (so_setsockopt lib sock) (\<lambda>_. wake_targets lib sock (wk_udp_port k) (wk_targets k))))
         (so_close lib sock))"

text \<open>The thread of the service starts unless one is alive.\<close>

definition wake_start :: "bool \<Rightarrow> wake_service \<Rightarrow> wake_service" where
  "wake_start alive k = (if wk_thread k \<and> alive then k else k\<lparr>wk_stop_event := False, wk_thread := True\<rparr>)"

definition wake_stop :: "wake_service \<Rightarrow> wake_service" where
  "wake_stop k = k\<lparr>wk_stop_event := True, wk_thread := False\<rparr>"

text \<open>
  The loop of the thread; \<open>stops\<close> lists what the stop event reads at each turn. It ends when the event
  is set or by an exception other than \<^verbatim>\<open>TransportError\<close>; \<open>None\<close>: still running.
\<close>

fun wake_run :: "'w sockets \<Rightarrow> bool list \<Rightarrow> wake_service \<times> 'w \<Rightarrow> (unit res \<times> wake_service \<times> 'w) option" where
  "wake_run lib [] kw = None"
| "wake_run lib (stop # stops) (k, w) =
     (if stop then Some (Inr (), k, w)
      else case send_once lib k w of
        (Inr _, w') \<Rightarrow> wake_run lib stops (k\<lparr>wk_last_error := None\<rparr>, w')
      | (Inl (TransportError m), w') \<Rightarrow> wake_run lib stops (k\<lparr>wk_last_error := Some m\<rparr>, w')
      | (Inl e, w') \<Rightarrow> Some (Inl e, k, w'))"

section \<open>The contract of control lines\<close>

text \<open>
  The documented behaviour of \<^verbatim>\<open>sendall\<close>: it returns after all data, or raises an \<^verbatim>\<open>OSError\<close>; \<open>wire\<close> is what has
  been sent.
\<close>

definition sendall_ok :: "'w sockets \<times> ('w \<Rightarrow> bytes) \<Rightarrow> bool" where
  "sendall_ok lw \<longleftrightarrow> (case lw of (lib, wire) \<Rightarrow>
     \<forall>sock data w. case so_sendall lib sock data w of
       (Inl e, w') \<Rightarrow> is_os_error e
     | (Inr _, w') \<Rightarrow> wire w' = wire w @ data)"

lemma gateway_send_result:
  assumes "sendall_ok (lib, wire)" "gateway_send lib data c = (r, c')"
  shows "transport_result r \<and> (r = Inr () \<longrightarrow> wire (gc_world c') = wire (gc_world c) @ data)"
proof (cases "gc_socket c")
  case None
  then show ?thesis using assms(2)
    by (auto simp: gateway_send_def as_transport_error_def require_socket_def io_bind_def is_os_error_def transport_result_def)
next
  case (Some sock)
  obtain x w' where w: "so_sendall lib sock data (gc_world c) = (x, w')" by force
  have "case x of Inl e \<Rightarrow> is_os_error e | Inr _ \<Rightarrow> wire w' = wire (gc_world c) @ data"
    using assms(1) [unfolded sendall_ok_def prod.case, THEN spec [of _ sock], THEN spec [of _ data],
        THEN spec [of _ "gc_world c"]] by (simp add: w)
  then show ?thesis using assms(2) Some w
    by (auto simp: gateway_send_def as_transport_error_def require_socket_def io_bind_def gc_io_def transport_result_def
        split: sum.splits)
qed

interpretation gateway_port: wire_port sendall_ok "\<lambda>lw. gateway_write_control (fst lw)" "\<lambda>lw c. snd lw (gc_world c)"
proof unfold_locales
  fix c e l and s :: "'a gateway_conn" assume "control_content c = Inl e"
  then show "\<exists>e'. gateway_write_control (fst (l :: 'a sockets \<times> ('a \<Rightarrow> bytes))) c s = (Inl e', s)"
    by (simp add: gateway_write_control_def io_bind_def io_lift_def)
next
  fix l :: "'a sockets \<times> ('a \<Rightarrow> bytes)" and c b and s :: "'a gateway_conn"
  assume "sendall_ok l" "control_content c = Inr b"
  then show "transport_result (fst (gateway_write_control (fst l) c s))"
    using gateway_send_result [of "fst l" "snd l" "b @ crlf_bytes" s]
    by (cases "gateway_send (fst l) (b @ crlf_bytes) s") (simp add: gateway_write_control_def io_bind_def io_lift_def)
next
  fix l :: "'a sockets \<times> ('a \<Rightarrow> bytes)" and c b and s s' :: "'a gateway_conn"
  assume "sendall_ok l" "control_content c = Inr b" "gateway_write_control (fst l) c s = (Inr (), s')"
  then show "snd l (gc_world s') = snd l (gc_world s) @ b @ crlf_bytes"
    using gateway_send_result [of "fst l" "snd l" "b @ crlf_bytes" s "Inr ()" s']
    by (simp add: gateway_write_control_def io_bind_def io_lift_def)
qed

section \<open>Silent connections\<close>

text \<open>
  A read that returns nothing means that the timeout passed and that the last data is less than 20
  seconds old; a timeout after 20 silent seconds closes the connection. Writing does not count.
\<close>

lemma gateway_read_empty:
  assumes "gateway_read lib n t c = (Inr [], c')"
  shows "\<exists>w now. so_monotonic lib w = (now, gc_world c') \<and> fsub now (gc_last_received_s c) < 20 \<and> gc_last_received_s c' = gc_last_received_s c \<and>
    gc_socket c' = gc_socket c \<and> gc_socket c \<noteq> None"
  using assms
  by (auto simp: gateway_read_def io_bind_def io_raise_def require_socket_def received_def monotonic_def gc_io_def
      GATEWAY_INACTIVITY_SECONDS_def not_le split: if_splits prod.splits sum.splits option.splits exn.splits) blast+

lemma gateway_write_keeps_deadline:
  "gc_last_received_s (snd (gateway_write_control lib b c)) = gc_last_received_s c"
  by (auto simp: gateway_write_control_def gateway_send_def as_transport_error_def io_bind_def io_lift_def
      require_socket_def gc_io_def split: prod.splits sum.splits option.splits)

section \<open>Runs of the listener\<close>

text \<open>
  One step of a listener with the identifiers it has handed out so far: a call of a method, or a
  change of the environment between calls.
\<close>

inductive gl_step :: "'w sockets \<Rightarrow> 'w listener \<times> pystr list \<Rightarrow> 'w listener \<times> pystr list \<Rightarrow> bool" for lib where
  start: "listener_start lib a p g = (r, g') \<Longrightarrow> gl_step lib (g, h) (g', h)"
| accepted: "listener_accept lib closing t g = (Inr (Some k), g') \<Longrightarrow>
    gl_step lib (g, h) (g', h @ [gw_connection_id k])"
| not_accepted: "listener_accept lib closing t g = (r, g') \<Longrightarrow> (\<forall>k. r \<noteq> Inr (Some k)) \<Longrightarrow> gl_step lib (g, h) (g', h)"
| release: "gl_step lib (g, h) (listener_release i g, h)"
| close: "listener_close lib g = (r, g') \<Longrightarrow> gl_step lib (g, h) (g', h)"
| environment: "gl_step lib (g, h) (g\<lparr>gl_world := w\<rparr>, h)"

inductive gl_reach :: "'w sockets \<Rightarrow> 'w listener \<times> pystr list \<Rightarrow> 'w listener \<times> pystr list \<Rightarrow> bool" for lib where
  refl: "gl_reach lib x x"
| step: "gl_reach lib x y \<Longrightarrow> gl_step lib y z \<Longrightarrow> gl_reach lib x z"

text \<open>The book of connections; starting, closing and waiting do not touch it.\<close>

definition book :: "'w listener \<Rightarrow> int \<times> pystr set \<times> nat" where
  "book g = (gl_maximum_clients g, gl_active_connections g, gl_next_connection_number g)"

definition book_ok :: "int \<Rightarrow> int \<times> pystr set \<times> nat \<Rightarrow> pystr list \<Rightarrow> bool" where
  "book_ok n b h \<longleftrightarrow> (case b of (maximum, active, number) \<Rightarrow>
     maximum = n \<and> finite active \<and> int (card active) \<le> maximum \<and> active \<subseteq> set h \<and> 1 \<le> number \<and> h = map connection_id_of [1..<number])"

lemma book_okD:
  assumes "book_ok n (book g) h"
  shows "gl_maximum_clients g = n" "finite (gl_active_connections g)"
    "int (card (gl_active_connections g)) \<le> n" "gl_active_connections g \<subseteq> set h"
    "1 \<le> gl_next_connection_number g" "h = map connection_id_of [1..<gl_next_connection_number g]"
  using assms unfolding book_ok_def book_def prod.case by blast+

lemma book_simps [simp]:
  "book (snd (gl_io m g)) = book g" "book (g\<lparr>gl_listener := x\<rparr>) = book g" "book (g\<lparr>gl_bound_port := p\<rparr>) = book g"
  "book (g\<lparr>gl_world := w\<rparr>) = book g" "book (g\<lparr>gl_rejected_clients := n\<rparr>) = book g"
  by (simp_all add: book_def gl_io_def split: prod.splits)

lemma book_gl_io: "gl_io m g = (r, g') \<Longrightarrow> book g' = book g"
  by (auto simp: book_def gl_io_def split: prod.splits)

lemma book_bind:
  "book (snd (m g)) = b \<Longrightarrow> (\<And>a g'. book g' = b \<Longrightarrow> book (snd (f a g')) = b) \<Longrightarrow> book (snd (io_bind m f g)) = b"
  by (auto simp: io_bind_def split: prod.splits sum.splits)

lemma book_or_close: "(\<And>g. book (snd (c g)) = book g) \<Longrightarrow> book (snd (m g)) = b \<Longrightarrow> book (snd (or_close c e m g)) = b"
  by (auto simp: or_close_def io_bind_def io_raise_def split: prod.splits sum.splits) (metis snd_conv)+

lemma listener_start_book: "book (snd (listener_start lib a p g)) = book g"
  by (auto simp: listener_start_def open_listener_def io_lift_apply io_raise_apply intro!: book_bind book_or_close)

lemma listener_close_book: "book (snd (listener_close lib g)) = book g"
  by (simp add: listener_close_def split: option.splits)

text \<open>A client is admitted exactly when there is room, under an identifier never used before.\<close>

lemma connection_id_inj: "connection_id_of m = connection_id_of n \<Longrightarrow> m = n"
  unfolding connection_id_of_def same_append_eq by (metis foldl_dec_digits)

lemma admit_book:
  assumes "book_ok n (book g) h" "admit lib sock peer g = (r, g')"
  shows "case r of
      Inr (Some k) \<Rightarrow> book_ok n (book g') (h @ [gw_connection_id k]) \<and> gw_connection_id k \<notin> set h
    | _ \<Rightarrow> book g' = book g"
proof (cases "gl_maximum_clients g \<le> int (card (gl_active_connections g))")
  case True
  then show ?thesis using assms(2)
    by (auto simp: admit_def io_bind_def io_return_def split: prod.splits sum.splits dest!: book_gl_io)
next
  case False
  let ?k = "gl_next_connection_number g"
  note m = book_okD(1) [OF assms(1)] and fin = book_okD(2) [OF assms(1)] and sub = book_okD(4) [OF assms(1)]
    and k = book_okD(5) [OF assms(1)] and h = book_okD(6) [OF assms(1)]
  have fresh: "connection_id_of ?k \<notin> set h" using connection_id_inj unfolding h by fastforce
  then have "card (insert (connection_id_of ?k) (gl_active_connections g)) = Suc (card (gl_active_connections g))"
    using fin sub by (intro card_insert_disjoint) auto
  then have "book_ok n (gl_maximum_clients g, insert (connection_id_of ?k) (gl_active_connections g), ?k + 1)
      (h @ [connection_id_of ?k])"
    using False fin sub k h m by (auto simp: book_ok_def)
  then show ?thesis using False assms(2) fresh
    by (auto simp: admit_def Let_def book_def)
qed

lemma listener_accept_book:
  assumes "book_ok n (book g) h" "listener_accept lib closing t g = (r, g')"
  shows "case r of
      Inr (Some k) \<Rightarrow> book_ok n (book g') (h @ [gw_connection_id k]) \<and> gw_connection_id k \<notin> set h
    | _ \<Rightarrow> book g' = book g"
proof (cases "gl_listener g")
  case (Some sock)
  obtain x g1 where g1: "gl_io (so_settimeout lib sock t) g = (x, g1)" by force
  obtain y g2 where g2: "gl_io (so_accept lib sock) g1 = (y, g2)" by force
  let ?g3 = "if closing then snd (listener_close lib g2) else g2"
  have b: "book g1 = book g" "book ?g3 = book g"
    using book_gl_io [OF g1] book_gl_io [OF g2] listener_close_book [of lib g2] by auto
  show ?thesis
  proof (cases "\<exists>u stream address port. x = Inr u \<and> y = Inr (stream, address, port)")
    case True
    then obtain stream address port where "admit lib stream (address @ 58 # show_int port) ?g3 = (r, g')"
      using assms(2) Some g1 g2 by (auto simp: listener_accept_def io_bind_def Let_def)
    then show ?thesis using admit_book assms(1) unfolding b(2) [symmetric] by blast
  next
    case False
    then have "\<nexists>k. r = Inr (Some k)" "book g' = book g"
      using assms(2) Some g1 g2 b
      by (auto simp: listener_accept_def io_bind_def Let_def split: sum.splits if_splits)
    then show ?thesis by (auto split: sum.splits option.splits)
  qed
qed (use assms(2) in \<open>auto simp: listener_accept_def\<close>)

lemma gl_step_book: "gl_step lib x y \<Longrightarrow> book_ok n (book (fst x)) (snd x) \<Longrightarrow> book_ok n (book (fst y)) (snd y)"
proof (induction rule: gl_step.induct)
  case (start a p g r g' h)
  then show ?case using listener_start_book [of lib a p g] by simp
next
  case (accepted closing t g k g' h)
  then show ?case using listener_accept_book by fastforce
next
  case (not_accepted closing t g r g' h)
  then show ?case using listener_accept_book [of n g h lib closing t r g'] by (auto split: sum.splits option.splits)
next
  case (release g h i)
  then show ?case
    using card_mono [of "gl_active_connections g" "gl_active_connections g - {i}"]
    by (auto simp: listener_release_def book_def book_ok_def)
next
  case (close g r g' h)
  then show ?case using listener_close_book [of lib g] by simp
qed simp

lemma gl_reach_book: "gl_reach lib x y \<Longrightarrow> book_ok n (book (fst x)) (snd x) \<Longrightarrow> book_ok n (book (fst y)) (snd y)"
  by (induction rule: gl_reach.induct) (auto dest: gl_step_book)

text \<open>
  C16. At most \<open>maximum_clients\<close> connections are active at any time, whatever the order of starts, accepts,
  releases and closes and however the sockets behave; every active connection was handed out by this
  listener, and no identifier is handed out twice.
\<close>

theorem gateway_capacity:
  assumes "GatewayListener_init n w = Inr g0" "gl_reach lib (g0, []) (g, issued)"
  shows "finite (gl_active_connections g) \<and> int (card (gl_active_connections g)) \<le> n \<and>
    gl_active_connections g \<subseteq> set issued \<and> distinct issued"
proof -
  have "book_ok n (book g0) []"
    using assms(1) by (auto simp: GatewayListener_init_def book_def book_ok_def split: if_splits)
  then have b: "book_ok n (book g) issued" using gl_reach_book [OF assms(2)] by simp
  have "distinct (map connection_id_of [1..<k])" for k
    using connection_id_inj by (auto simp: distinct_map inj_on_def)
  then show ?thesis using book_okD [OF b] by auto
qed

text \<open>A system that delivers a client at every accept.\<close>

definition sample_sockets :: "(bytes \<times> pystr \<times> int) list sockets" where
  "sample_sockets =
     \<lparr>so_create = (\<lambda>_. io_return 3), so_setsockopt = (\<lambda>_. io_return ()), so_bind = (\<lambda>_ _ _. io_return ()),
      so_listen = (\<lambda>_ _. io_return ()), so_getsockname = (\<lambda>_. io_return 54321),
      so_accept = (\<lambda>_. io_return (7, lit ''10.0.0.2'', 5000)), so_settimeout = (\<lambda>_ _. io_return ()),
      so_recv = (\<lambda>_ _. io_raise TimeoutError), so_sendall = (\<lambda>_ _. io_return ()),
      so_sendto = (\<lambda>_ data t p w. (Inr (int (length data)), w @ [(data, t, p)])),
      so_shutdown = (\<lambda>_. io_return ()), so_close = (\<lambda>_. io_return ()), so_monotonic = (\<lambda>w. (0, w))\<rparr>"

definition sample_listener :: "(bytes \<times> pystr \<times> int) list listener" where
  "sample_listener = \<lparr>gl_maximum_clients = 1, gl_listener = None, gl_active_connections = {},
     gl_next_connection_number = 1, gl_bound_port = 0, gl_rejected_clients = 0, gl_world = []\<rparr>"

theorem gateway_capacity_witness:
  "int (card (gl_active_connections (snd (listener_accept sample_sockets False 0
     (snd (listener_start sample_sockets (lit ''10.0.0.1'') 54321 sample_listener)))))) \<le> 1"
proof -
  let ?g1 = "snd (listener_start sample_sockets (lit ''10.0.0.1'') 54321 sample_listener)"
  let ?g2 = "snd (listener_accept sample_sockets False 0 ?g1)"
  have "gl_reach sample_sockets (sample_listener, []) (?g1, [])"
    by (rule gl_reach.step [OF gl_reach.refl gl_step.start [OF surjective_pairing]])
  moreover have "\<exists>h. gl_step sample_sockets (?g1, []) (?g2, h)"
    by (metis gl_step.accepted gl_step.not_accepted surjective_pairing)
  ultimately obtain h where "gl_reach sample_sockets (sample_listener, []) (?g2, h)"
    using gl_reach.step by blast
  moreover have "GatewayListener_init 1 [] = Inr sample_listener"
    by (simp add: GatewayListener_init_def sample_listener_def)
  ultimately show ?thesis by (auto dest: gateway_capacity)
qed

section \<open>Waking the gateways\<close>

lemma set_unique [simp]: "set (unique xs) = set xs"
  by (simp add: unique_def)

lemma distinct_unique [simp]: "distinct (unique xs)"
  by (simp add: unique_def)

lemma unique_map_inj: "inj f \<Longrightarrow> unique (map f xs) = map f (unique xs)"
proof -
  assume f: "inj f"
  have "remdups (map f ys) = map f (remdups ys)" for ys
    by (induction ys) (auto dest: injD [OF f])
  then show ?thesis by (simp add: unique_def rev_map)
qed

text \<open>
  The documented behaviour of datagram sockets: \<^verbatim>\<open>sendto\<close> sends one datagram and returns its length, or raises an
  \<^verbatim>\<open>OSError\<close>; the other calls send nothing.
\<close>

definition datagrams_ok :: "'w sockets \<times> ('w \<Rightarrow> (bytes \<times> pystr \<times> int) list) \<Rightarrow> bool" where
  "datagrams_ok ll \<longleftrightarrow> (case ll of (lib, sent) \<Rightarrow>
     (\<forall>sock data t p w. case so_sendto lib sock data t p w of
        (Inl e, w') \<Rightarrow> is_os_error e
      | (Inr n, w') \<Rightarrow> n \<le> int (length data) \<and> sent w' = sent w @ [(take (nat n) data, t, p)]) \<and>
     (\<forall>b w. sent (snd (so_create lib b w)) = sent w) \<and>
     (\<forall>sock w. sent (snd (so_setsockopt lib sock w)) = sent w \<and> sent (snd (so_close lib sock w)) = sent w))"

lemma wake_targets_log:
  assumes "datagrams_ok (lib, sent)"
  shows "wake_targets lib sock p ts w = (Inr (), w') \<Longrightarrow> sent w' = sent w @ map (\<lambda>t. (WAKE_PAYLOAD, t, p)) ts"
proof (induction ts arbitrary: w)
  case (Cons t ts)
  obtain x w1 where s: "so_sendto lib sock WAKE_PAYLOAD t p w = (x, w1)" by force
  then have x: "x = Inr (int (length WAKE_PAYLOAD))" and rest: "wake_targets lib sock p ts w1 = (Inr (), w')"
    using Cons.prems by (auto simp: io_bind_def io_raise_def split: sum.splits if_splits)
  have "sent w1 = sent w @ [(WAKE_PAYLOAD, t, p)]"
    using assms [unfolded datagrams_ok_def prod.case, THEN conjunct1, THEN spec [of _ sock], THEN spec [of _ WAKE_PAYLOAD],
        THEN spec [of _ t], THEN spec [of _ p], THEN spec [of _ w]] by (simp add: s x)
  then show ?case using Cons.IH [OF rest] by simp
qed (simp add: io_return_def)

lemma send_once_log:
  assumes "datagrams_ok (lib, sent)" "send_once lib k w = (Inr (), w')"
  shows "sent w' = sent w @ map (\<lambda>t. (WAKE_PAYLOAD, t, wk_udp_port k)) (wk_targets k)"
proof -
  note quiet = assms(1) [unfolded datagrams_ok_def prod.case, THEN conjunct2]
  obtain sock w1 where w1: "so_create lib False w = (Inr sock, w1)"
    using assms(2) by (auto simp: send_once_def io_bind_def split: prod.splits sum.splits)
  obtain x w2 where w2: "so_setsockopt lib sock w1 = (x, w2)" by force
  obtain w3 where w3: "wake_targets lib sock (wk_udp_port k) (wk_targets k) w2 = (Inr (), w3)"
      and w': "snd (so_close lib sock w3) = w'"
    using assms(2) w1 w2
    by (auto simp: send_once_def io_bind_def io_finally_def as_transport_error_def split: prod.splits sum.splits if_splits)
  have "sent w1 = sent w" "sent w2 = sent w1" "sent w' = sent w3"
    using quiet w1 w2 w' by (metis snd_conv)+
  then show ?thesis using wake_targets_log [OF assms(1) w3] by simp
qed

text \<open>
  C35. A wake round that raises nothing has sent the wake datagram to the broadcast address of the
  interface's network and then to every unicast target once, in the order given, duplicates left out, all
  on the configured port, and nothing else.
\<close>

theorem wake_reaches_targets:
  assumes "UdpWakeService_init local_ipv4 netmask port unicast interval = Inr k"
    and "datagrams_ok (lib, sent)" "send_once lib k w = (Inr (), w')"
  shows "\<exists>interface targets. interface_of local_ipv4 netmask = Inr interface \<and> parse_targets unicast = Inr targets \<and>
    sent w' = sent w @ map (\<lambda>a. (WAKE_PAYLOAD, ipv4_text a, port)) (broadcast_address interface # unique targets) \<and>
    distinct (unique targets) \<and> set (unique targets) = set targets"
proof -
  obtain i ts where k: "interface_of local_ipv4 netmask = Inr i" "parse_targets unicast = Inr ts"
      "wk_targets k = ipv4_text (broadcast_address i) # unique (map ipv4_text ts)" "wk_udp_port k = port"
    using assms(1) by (auto simp: UdpWakeService_init_def rbind_Inr_iff split: if_splits)
  have "unique (map ipv4_text ts) = map ipv4_text (unique ts)"
    by (rule unique_map_inj) (simp add: inj_def ipv4_text_inj)
  then show ?thesis using send_once_log [OF assms(2,3)] k by simp
qed

lemma interface_of_text:
  "47 \<notin> set m \<Longrightarrow> prefix_length m = Inr n \<Longrightarrow> interface_of (ipv4_text a) m = Inr \<lparr>if_ip = a, if_prefix = n\<rparr>"
  by (simp add: interface_of_def IPv4Interface_def split_on_append split_on_no_sep ipv4_text_no_slash ipv4_round_trip)

lemma sample_interface: "interface_of (ipv4_text 0x0A000001) [56] = Inr \<lparr>if_ip = 0x0A000001, if_prefix = 8\<rparr>"
  by (rule interface_of_text) (simp_all add: prefix_length_def)

lemma sample_wake:
  "\<exists>k. UdpWakeService_init (ipv4_text 0x0A000001) [56] 12345 [ipv4_text 0x0A000002] 2 = Inr k"
  by (simp add: UdpWakeService_init_def sample_interface ipv4_round_trip is_loopback_def)

lemma sample_datagrams: "datagrams_ok (sample_sockets, id)"
  by (simp add: datagrams_ok_def sample_sockets_def io_return_def)

theorem wake_reaches_targets_witness:
  "\<exists>k. UdpWakeService_init (ipv4_text 0x0A000001) [56] 12345 [ipv4_text 0x0A000002] 2 = Inr k \<and>
     snd (send_once sample_sockets k []) \<noteq> []"
proof -
  obtain k where k: "UdpWakeService_init (ipv4_text 0x0A000001) [56] 12345 [ipv4_text 0x0A000002] 2 = Inr k"
    using sample_wake by blast
  have "wake_targets sample_sockets n p ts w = (Inr (), w @ map (\<lambda>t. (WAKE_PAYLOAD, t, p)) ts)" for n p ts w
    by (induction ts arbitrary: w) (simp_all add: io_return_def io_bind_def sample_sockets_def)
  then have "send_once sample_sockets k [] = (Inr (), snd (send_once sample_sockets k []))"
    by (simp add: send_once_def io_return_def io_bind_def io_finally_def as_transport_error_def)
      (simp add: sample_sockets_def io_return_def io_finally_def as_transport_error_def)
  from wake_reaches_targets [OF k sample_datagrams this] show ?thesis using k by auto
qed

section \<open>A valid configuration starts\<close>

lemma split_acc_length: "length (split_acc sep acc s) = Suc (length (filter ((=) sep) s))"
  by (induction sep acc s rule: split_acc.induct) auto

lemma interface_address:
  assumes "interface_of a m = Inr i"
  shows "IPv4Address a = Inr (if_ip i)"
proof -
  have len: "length (split_on 47 (a @ [47] @ m)) = Suc (Suc (length (filter ((=) 47) a) + length (filter ((=) 47) m)))"
    by (simp add: split_on_def split_acc_length)
  then have "length (split_on 47 (a @ [47] @ m)) = 2"
    using assms by (auto simp: interface_of_def IPv4Interface_def split: list.splits)
  then have "filter ((=) 47) a = []" using len by simp
  then have "47 \<notin> set a" by (auto simp: filter_empty_conv)
  then have "split_on 47 (a @ [47] @ m) = a # split_on 47 m" by (simp add: split_on_append)
  then show ?thesis using assms
    by (auto simp: interface_of_def IPv4Interface_def rbind_Inr_iff split: list.splits)
qed

text \<open>What a piece of code can raise.\<close>

definition raises_only :: "(exn \<Rightarrow> bool) \<Rightarrow> ('s, 'a) io \<Rightarrow> bool" where
  "raises_only P m \<longleftrightarrow> (\<forall>s e s'. m s = (Inl e, s') \<longrightarrow> P e)"

definition system_error :: "exn \<Rightarrow> bool" where
  "system_error e \<longleftrightarrow> is_os_error e \<or> (\<exists>m. e = TransportError m)"

lemma raises_only_weaken: "raises_only is_os_error m \<Longrightarrow> raises_only system_error m"
  by (auto simp: raises_only_def system_error_def)

lemma raises_only_bind:
  "raises_only P m \<Longrightarrow> (\<And>a. raises_only P (f a)) \<Longrightarrow> raises_only P (io_bind m f)"
  by (fastforce simp: raises_only_def io_bind_def split: prod.splits sum.splits)

lemma raises_only_gl_io: "raises_only P m \<Longrightarrow> raises_only P (gl_io m)"
  by (auto simp: raises_only_def gl_io_def split: prod.splits)

lemma raises_only_or_close:
  "raises_only is_os_error c \<Longrightarrow> raises_only is_os_error m \<Longrightarrow> raises_only system_error (or_close c message m)"
  by (fastforce simp: raises_only_def or_close_def io_bind_def io_raise_def system_error_def split: prod.splits sum.splits if_splits)

text \<open>The documented behaviour of the calls that set up a listener: they raise nothing but \<^verbatim>\<open>OSError\<close>.\<close>

definition setup_ok :: "'w sockets \<Rightarrow> bool" where
  "setup_ok lib \<longleftrightarrow> (\<forall>b. raises_only is_os_error (so_create lib b)) \<and>
     (\<forall>s. raises_only is_os_error (so_setsockopt lib s) \<and> raises_only is_os_error (so_close lib s) \<and>
       raises_only is_os_error (so_getsockname lib s) \<and> (\<forall>a p. raises_only is_os_error (so_bind lib s a p)) \<and>
       (\<forall>n. raises_only is_os_error (so_listen lib s n)))"

lemma open_listener_raises: "setup_ok lib \<Longrightarrow> raises_only system_error (open_listener lib a p)"
proof -
  assume ok: "setup_ok lib"
  have sockname: "is_os_error x" if "so_getsockname lib s w = (Inl x, w')" for s w x w'
    using ok that unfolding setup_ok_def raises_only_def by blast
  have listen: "is_os_error x" if "so_listen lib s n w = (Inl x, w')" for s n w x w'
    using ok that unfolding setup_ok_def raises_only_def by blast
  have bind: "raises_only is_os_error (\<lambda>g. gl_io (so_listen lib s (gl_maximum_clients g)) g)" for s
    using listen by (auto simp: raises_only_def gl_io_def split: prod.splits)
  have port: "raises_only is_os_error (\<lambda>g. io_bind (gl_io (so_getsockname lib s)) (\<lambda>port g1. (Inr (), g1\<lparr>gl_bound_port := port\<rparr>))
      (g\<lparr>gl_listener := Some s\<rparr>))" for s
    using sockname by (auto simp: raises_only_def gl_io_def io_bind_def split: prod.splits sum.splits)
  show ?thesis
    unfolding open_listener_def using ok bind port
    by (intro raises_only_bind raises_only_or_close raises_only_weaken) (auto simp: setup_ok_def intro: raises_only_gl_io)
qed

text \<open>
  A checked configuration starts: the wake service is created from it without an exception, and the
  listener started on its address and port refuses neither of them; what can still go wrong is the
  operating system. (With an unchecked configuration both raise \<^verbatim>\<open>ValueError\<close>.)
\<close>

theorem checked_config_starts:
  assumes "WifiServerConfig_check c = Inr ()" "setup_ok lib" "gl_listener g = None"
  shows "(\<exists>k. create_wake_service c = Inr k) \<and>
    (case fst (listener_start lib (wc_local_ipv4 c) (wc_tcp_port c) g) of
       Inl e \<Rightarrow> is_os_error e \<or> (\<exists>m. e = TransportError m) | Inr _ \<Rightarrow> True)"
proof -
  obtain i ts where c: "interface_of (wc_local_ipv4 c) (wc_netmask c) = Inr i" "\<not> is_loopback (if_ip i)"
      "1 \<le> wc_tcp_port c" "wc_tcp_port c \<le> 65535" "1 \<le> wc_udp_port c" "wc_udp_port c \<le> 65535"
      "parse_targets (wc_unicast_targets c) = Inr ts"
    using assms(1) by (auto simp: WifiServerConfig_check_def rbind_Inr_iff split: if_splits)
  have "raises_only system_error (open_listener lib (wc_local_ipv4 c) (wc_tcp_port c))"
    using assms(2) by (rule open_listener_raises)
  then have "raises_only system_error (\<lambda>s. open_listener lib (wc_local_ipv4 c) (wc_tcp_port c) s)" by simp
  moreover have "listener_start lib (wc_local_ipv4 c) (wc_tcp_port c) g = open_listener lib (wc_local_ipv4 c) (wc_tcp_port c) g"
    using c(3,4) assms(3) interface_address [OF c(1)] by (simp add: listener_start_def io_bind_def io_lift_def)
  ultimately show ?thesis using c
    by (cases "open_listener lib (wc_local_ipv4 c) (wc_tcp_port c) g")
      (auto simp: create_wake_service_def UdpWakeService_init_def DEFAULT_WAKE_INTERVAL_SECONDS_def raises_only_def
        system_error_def split: sum.splits)
qed

definition sample_config :: wifi_config where
  "sample_config = \<lparr>wc_local_ipv4 = ipv4_text 0x0A000001, wc_netmask = [56],
     wc_expected_pc_ipv4 = ipv4_text 0x0A000001, wc_tcp_port = 54321, wc_udp_port = 12345, wc_unicast_targets = []\<rparr>"

theorem checked_config_starts_witness:
  "\<exists>k. create_wake_service sample_config = Inr k"
proof -
  have "WifiServerConfig_check sample_config = Inr ()"
    by (simp add: WifiServerConfig_check_def sample_config_def sample_interface ipv4_round_trip is_loopback_def)
  moreover have "setup_ok sample_sockets"
    by (simp add: setup_ok_def sample_sockets_def raises_only_def io_return_def)
  moreover have "gl_listener sample_listener = None" by (simp add: sample_listener_def)
  ultimately show ?thesis by (blast dest: checked_config_starts)
qed

end
