(* ===== verification/AppState.thy ===== *)
theory AppState
  imports Acquisition Sessions Gateway OtaPackage
begin

text \<open>
  \<^verbatim>\<open>presentation/app_controller.py\<close>, first part: the state of the application controller, its signals,
  what it finds outside, and the selection and display slots.

  A session of the source is an object that the slots mutate; here it is a record in the dictionary of
  sessions, and \<open>ms_token\<close> stands for its object identity. The session and its acquisition controller
  hold the same recorder object: it is kept once, in the controller, and \<open>ms_recording\<close> and
  \<open>ms_exporting\<close> say whether the attribute of the session is set; \<open>ms_unattached\<close> is an archive recorder the
  session holds before its controller does. A Qt timer is a flag, a signal is
  appended to a list. Every slot runs to its end in the GUI thread.
\<close>

section \<open>State\<close>

definition MAXIMUM_WIFI_SESSIONS :: int where "MAXIMUM_WIFI_SESSIONS = 16"
definition MAXIMUM_DISPLAY_POINTS :: int where "MAXIMUM_DISPLAY_POINTS = 5000"
definition EXPORT_FIRST_BYTE_TIMEOUT_S :: float64 where "EXPORT_FIRST_BYTE_TIMEOUT_S = 10"
definition EXPORT_AUTO_RETRIES :: nat where [const_simps]: "EXPORT_AUTO_RETRIES = 1"
definition OTA_RECONNECT_TIMEOUT_S :: float64 where "OTA_RECONNECT_TIMEOUT_S = 60"
definition IIS_SAMPLE_RATE_HZ :: float64 where "IIS_SAMPLE_RATE_HZ = 26667"

record 't managed_session =
  ms_token :: nat
  ms_node_id :: pystr
  ms_peer :: pystr
  ms_transport_kind :: transport_kind
  ms_transport :: 't
  ms_acquisition :: controller
  ms_stop_event :: bool
  ms_recording :: bool
  ms_exporting :: bool
  ms_unattached :: "recorder option"
  ms_archive_start_revision :: nat
  ms_archive_total_bytes :: nat
  ms_archive_path :: "pystr option"
  ms_archive_started_s :: float64
  ms_archive_target :: pystr
  ms_archive_retries :: nat
  ms_archive_cancel_requested :: bool
  ms_failure :: "pystr option"
  ms_ota_active :: bool
  ms_ota_awaiting_restart :: bool

record ota_context =
  oc_node_id :: pystr
  oc_kind :: transport_kind
  oc_device_uuid :: "nat option"
  oc_device_id :: pystr
  oc_version :: pystr
  oc_crc :: pystr

record ota_reconnect =
  or_kind :: transport_kind
  or_device_uuid :: "nat option"
  or_device_id :: pystr
  or_node_id :: pystr
  or_deadline_s :: float64

text \<open>
  A text the user sees: a literal of the source, with \<^verbatim>\<open>{}\<close> for what is formatted in, a composed text,
  or the text of an exception.
\<close>

datatype app_text = Literal string | Composed pystr | TextOf exn

datatype app_signal =
    ErrorRaised app_text
  | ConnectionChanged bool pystr
  | NodesChanged "node_summary list"
  | SelectedNodeChanged pystr
  | WifiServerChanged bool pystr
  | DisplayClearRequested
  | SnapshotReady ui_snapshot
  | HealthReady acquisition_health
  | CliResponse pystr
  | CliResponseFrom pystr pystr
  | ExportStarted pystr pystr nat
  | ExportFinished pystr pystr pystr
  | OtaProgress pystr nat nat pystr
  | OtaStaged pystr pystr pystr bool
  | OtaState pystr string app_text
  | OtaAvailability bool pystr

text \<open>A thread is there or not; an upload thread carries the node and the package it uploads.\<close>

record ('t, 'w) app =
  ap_session_index :: session_manager
  ap_sessions :: "(pystr \<times> 't managed_session) list"
  ap_selected_node_id :: "pystr option"
  ap_window_s :: float64
  ap_display_paused :: bool
  ap_is_stopping :: bool
  ap_recording_active :: bool
  ap_recording_batch_path :: "pystr option"
  ap_segment_counts :: "pystr \<rightharpoonup> nat"
  ap_export_counts :: "pystr \<rightharpoonup> nat"
  ap_gateway_listener :: "(nat \<times> 'w listener) option"
  ap_wake_service :: "wake_service option"
  ap_accept_thread :: "bool option"
  ap_wifi_server_label :: pystr
  ap_timer :: bool
  ap_status_timer :: bool
  ap_ota_reconnect :: "ota_reconnect option"
  ap_ota_reconnect_timer :: bool
  ap_ota_node_id :: "pystr option"
  ap_ota_worker :: "(pystr \<times> bytes) option"
  ap_ota_cancel_event :: "bool option"
  ap_ota_context :: "ota_context option"
  ap_saved_config :: "wifi_config option"
  ap_saved_aliases :: "(pystr \<times> pystr) list"
  ap_next_token :: nat
  ap_signals :: "app_signal list"

text \<open>
  What a slot finds outside: the libraries, the clocks, the file system (what opening a file and writing
  its metadata yield, and what the writes of a recorder's thread do before it is joined), and whether
  the threads end in time.
\<close>

record ('t, 'w) app_env =
  ae_np :: numpy
  ae_set_order :: "nat set \<Rightarrow> nat list"
  ae_now :: float64
  ae_utc :: pystr
  ae_stamp :: pystr
  ae_data_root :: pystr
  ae_opened :: "pystr \<Rightarrow> unit res"
  ae_writes :: "pystr option \<Rightarrow> nat option list"
  ae_metadata_written :: "pystr option \<Rightarrow> unit res"
  ae_thread_stops :: "pystr \<Rightarrow> bool"
  ae_accept_stops :: bool
  ae_sockets :: "'w sockets"
  ae_new_listener :: "'w listener"
  ae_transport :: "'t transport"
  ae_transport_open :: "pystr \<Rightarrow> 't \<Rightarrow> unit res \<times> 't"
  ae_transport_factory :: 't

type_synonym ('t, 'w, 'a) app_io = "(('t, 'w) app, 'a) io"

definition AppController_init :: "(pystr \<times> pystr) list \<Rightarrow> ('t, 'w) app res" where
  "AppController_init aliases =
     rbind (NodeSessionManager_init MAXIMUM_WIFI_SESSIONS aliases) (\<lambda>index. Inr
       \<lparr>ap_session_index = index, ap_sessions = [], ap_selected_node_id = None, ap_window_s = 10,
        ap_display_paused = False, ap_is_stopping = False, ap_recording_active = False,
        ap_recording_batch_path = None, ap_segment_counts = Map.empty, ap_export_counts = Map.empty,
        ap_gateway_listener = None, ap_wake_service = None, ap_accept_thread = None,
        ap_wifi_server_label = [], ap_timer = False, ap_status_timer = False, ap_ota_reconnect = None,
        ap_ota_reconnect_timer = False, ap_ota_node_id = None, ap_ota_worker = None,
        ap_ota_cancel_event = None, ap_ota_context = None, ap_saved_config = None, ap_saved_aliases = [],
        ap_next_token = 0, ap_signals = []\<rparr>)"

text \<open>\<^verbatim>\<open>_load_aliases\<close>: the settings are a list of keys and texts.\<close>

definition load_aliases :: "(pystr \<times> pystr) list \<Rightarrow> (pystr \<times> pystr) list" where
  "load_aliases settings = filter (\<lambda>(k, v). v \<noteq> []) (map (\<lambda>(k, v). (k, str_strip v)) settings)"

section \<open>Statements\<close>

definition io_update :: "('w \<Rightarrow> 'w) \<Rightarrow> ('w, unit) io" where
  "io_update f = (\<lambda>w. (Inr (), f w))"

definition io_get :: "('w \<Rightarrow> 'a) \<Rightarrow> ('w, 'a) io" where
  "io_get f = (\<lambda>w. (Inr (f w), w))"

fun io_seq :: "('w, unit) io list \<Rightarrow> ('w, unit) io" where
  "io_seq [] = io_return ()"
| "io_seq (m # ms) = io_bind m (\<lambda>_. io_seq ms)"

fun io_for :: "'b list \<Rightarrow> ('b \<Rightarrow> ('w, unit) io) \<Rightarrow> ('w, unit) io" where
  "io_for [] f = io_return ()"
| "io_for (x # xs) f = io_bind (f x) (\<lambda>_. io_for xs f)"

definition io_when :: "bool \<Rightarrow> ('w, unit) io \<Rightarrow> ('w, unit) io" where
  "io_when b m = (if b then m else io_return ())"

text \<open>\<^verbatim>\<open>try: m except (..) as error: h(error)\<close>.\<close>

definition io_catch :: "(exn \<Rightarrow> bool) \<Rightarrow> ('w, 'a) io \<Rightarrow> (exn \<Rightarrow> ('w, 'a) io) \<Rightarrow> ('w, 'a) io" where
  "io_catch caught m h = (\<lambda>w. case m w of
     (Inl e, w') \<Rightarrow> if caught e then h e w' else (Inl e, w') | (Inr x, w') \<Rightarrow> (Inr x, w'))"

text \<open>\<^verbatim>\<open>try: x = m except (..) as error: h(error); return\<close>, and what follows with \<^verbatim>\<open>x\<close>.\<close>

definition io_try ::
  "(exn \<Rightarrow> bool) \<Rightarrow> ('w, 'a) io \<Rightarrow> (exn \<Rightarrow> ('w, 'b) io) \<Rightarrow> ('a \<Rightarrow> ('w, 'b) io) \<Rightarrow> ('w, 'b) io" where
  "io_try caught m h f = (\<lambda>w. case m w of
     (Inl e, w') \<Rightarrow> if caught e then h e w' else (Inl e, w') | (Inr x, w') \<Rightarrow> f x w')"

text \<open>The exceptions named in the clauses: \<^verbatim>\<open>TransportError\<close> and the inventory's errors are \<^verbatim>\<open>RuntimeError\<close>s.\<close>

definition is_runtime_error :: "exn \<Rightarrow> bool" where
  "is_runtime_error e \<longleftrightarrow> (case e of
     RuntimeError _ \<Rightarrow> True | TransportError _ \<Rightarrow> True | SessionCapacityError _ \<Rightarrow> True
   | DuplicateDeviceError _ \<Rightarrow> True | DeviceIdentityError _ \<Rightarrow> True | OtaUploadError _ _ \<Rightarrow> True
   | OtaUploadCancelled \<Rightarrow> True | _ \<Rightarrow> False)"

definition is_value_error :: "exn \<Rightarrow> bool" where
  "is_value_error e \<longleftrightarrow> (case e of
     ValueError _ \<Rightarrow> True | UnicodeError \<Rightarrow> True | OtaCodecError _ \<Rightarrow> True | OtaPackageError _ \<Rightarrow> True
   | ControlStateParseError _ \<Rightarrow> True | _ \<Rightarrow> False)"

definition is_key_error :: "exn \<Rightarrow> bool" where
  "is_key_error e \<longleftrightarrow> (case e of KeyError _ \<Rightarrow> True | _ \<Rightarrow> False)"

definition is_common_error :: "exn \<Rightarrow> bool" where
  "is_common_error e \<longleftrightarrow> is_os_error e \<or> is_runtime_error e \<or> is_value_error e"

section \<open>Access\<close>

definition emit :: "app_signal \<Rightarrow> ('t, 'w, unit) app_io" where
  "emit s = io_update (\<lambda>a. a\<lparr>ap_signals := ap_signals a @ [s]\<rparr>)"

definition raise_error :: "string \<Rightarrow> ('t, 'w, unit) app_io" where
  "raise_error message = emit (ErrorRaised (Literal message))"

definition report_exn :: "exn \<Rightarrow> ('t, 'w, unit) app_io" where
  "report_exn e = emit (ErrorRaised (TextOf e))"

definition get_session :: "pystr \<Rightarrow> ('t, 'w) app \<Rightarrow> 't managed_session option" where
  "get_session k a = map_of (ap_sessions a) k"

definition session_keys :: "('t, 'w) app \<Rightarrow> pystr list" where
  "session_keys a = map fst (ap_sessions a)"

text \<open>
  Code that works on the session object of a node; the dictionary keeps its order. The callers name
  sessions of the dictionary only, so the exception stands for a case the source does not have.
\<close>

definition on_session :: "pystr \<Rightarrow> ('t managed_session, 'a) io \<Rightarrow> ('t, 'w, 'a) app_io" where
  "on_session k m a =
     (case get_session k a of
        None \<Rightarrow> (Inl (KeyError ''no session''), a)
      | Some s \<Rightarrow> (case m s of (r, s') \<Rightarrow> (r, a\<lparr>ap_sessions := AList.update k s' (ap_sessions a)\<rparr>)))"

definition update_session :: "pystr \<Rightarrow> ('t managed_session \<Rightarrow> 't managed_session) \<Rightarrow> ('t, 'w, unit) app_io" where
  "update_session k f = on_session k (io_update f)"

definition the_session :: "pystr \<Rightarrow> ('t, 'w, 't managed_session) app_io" where
  "the_session k = on_session k (io_get (\<lambda>s. s))"

text \<open>A method of the session's acquisition controller or of its transport.\<close>

definition on_acquisition :: "(controller, 'a) io \<Rightarrow> ('t managed_session, 'a) io" where
  "on_acquisition m s = (case m (ms_acquisition s) of (r, c) \<Rightarrow> (r, s\<lparr>ms_acquisition := c\<rparr>))"

definition on_transport :: "('t, 'a) io \<Rightarrow> ('t managed_session, 'a) io" where
  "on_transport m s = (case m (ms_transport s) of (r, t) \<Rightarrow> (r, s\<lparr>ms_transport := t\<rparr>))"

definition acquisition :: "pystr \<Rightarrow> (controller, 'a) io \<Rightarrow> ('t, 'w, 'a) app_io" where
  "acquisition k m = on_session k (on_acquisition m)"

definition acquisition_update :: "pystr \<Rightarrow> (controller \<Rightarrow> controller) \<Rightarrow> ('t, 'w, unit) app_io" where
  "acquisition_update k f = acquisition k (io_update f)"

text \<open>A call of the inventory.\<close>

definition on_index :: "(session_manager, 'a) io \<Rightarrow> ('t, 'w, 'a) app_io" where
  "on_index m a = (case m (ap_session_index a) of (r, i) \<Rightarrow> (r, a\<lparr>ap_session_index := i\<rparr>))"

definition summary_of :: "pystr \<Rightarrow> ('t, 'w, node_summary) app_io" where
  "summary_of k a = (session_summary k (ap_session_index a), a)"

text \<open>\<^verbatim>\<open>if session is None: error_raised.emit(f"unknown node: {node_id}"); return\<close>.\<close>

definition with_session :: "pystr \<Rightarrow> ('t managed_session \<Rightarrow> ('t, 'w, unit) app_io) \<Rightarrow> ('t, 'w, unit) app_io" where
  "with_session k f a =
     (case get_session k a of None \<Rightarrow> raise_error ''unknown node: {}'' a | Some s \<Rightarrow> f s a)"

definition selected_session :: "('t, 'w) app \<Rightarrow> 't managed_session option" where
  "selected_session a = (case ap_selected_node_id a of None \<Rightarrow> None | Some k \<Rightarrow> get_session k a)"

definition is_wifi_server_running :: "('t, 'w) app \<Rightarrow> bool" where
  "is_wifi_server_running a \<longleftrightarrow> ap_accept_thread a = Some True"

text \<open>\<^verbatim>\<open>session.store.snapshot(..)\<close>, and the firmware state in it.\<close>

definition session_snapshot ::
  "('t, 'w) app_env \<Rightarrow> float64 \<Rightarrow> int \<Rightarrow> 't managed_session \<Rightarrow> ui_snapshot res" where
  "session_snapshot e window points s =
     snapshot (ae_np e) (ae_set_order e) window points (ae_now e) (ac_store (ms_acquisition s))"

definition control_of :: "('t, 'w) app_env \<Rightarrow> 't managed_session \<Rightarrow> control_state option res" where
  "control_of e s = rbind (session_snapshot e 1 2 s) (\<lambda>u. Inr (us_firmware_control_state u))"

definition session_control :: "('t, 'w) app_env \<Rightarrow> pystr \<Rightarrow> ('t, 'w, control_state option) app_io" where
  "session_control e k = on_session k (\<lambda>s. (control_of e s, s))"

text \<open>The truth value of a field, a number in it, a text in it.\<close>

fun cs_true :: "cs_value \<Rightarrow> bool" where
  "cs_true VNone = False"
| "cs_true (VStr s) = (s \<noteq> [])"
| "cs_true (VInt n) = (n \<noteq> 0)"
| "cs_true (VBool b) = b"
| "cs_true (VUuid u) = True"

fun cs_nat :: "cs_value \<Rightarrow> nat" where
  "cs_nat (VInt n) = n"
| "cs_nat _ = 0"

fun cs_text :: "cs_value \<Rightarrow> pystr option" where
  "cs_text (VStr s) = Some s"
| "cs_text _ = None"

section \<open>Selection and display\<close>

definition UART_ONLY_TEXT :: pystr where
  "UART_ONLY_TEXT = lit ''OTA '' @ [0x4ec5, 0x652f, 0x6301] @ lit '' UART '' @ [0x6765, 0x6e90, 0x94fe, 0x8def, 0xff08] @ lit ''Wi-Fi '' @ [0x7f51, 0x5173, 0xff09]"

definition emit_ota_availability :: "('t, 'w, unit) app_io" where
  "emit_ota_availability a =
     (if ap_ota_node_id a \<noteq> None then emit (OtaAvailability False (lit ''OTA session in progress'')) a
      else case selected_session a of
        None \<Rightarrow> emit (OtaAvailability False (lit ''connect a Wi-Fi node to update firmware'')) a
      | Some s \<Rightarrow>
          if ms_transport_kind s \<noteq> WIFI then emit (OtaAvailability False UART_ONLY_TEXT) a
          else emit (OtaAvailability True []) a)"

definition emit_nodes :: "('t, 'w, unit) app_io" where
  "emit_nodes = io_seq [\<lambda>a. emit (NodesChanged (summaries (ap_session_index a))) a, emit_ota_availability]"

definition publish_selected_session :: "('t, 'w) app_env \<Rightarrow> ('t, 'w, unit) app_io" where
  "publish_selected_session e a =
     (case selected_session a of
        None \<Rightarrow> (Inr (), a)
      | Some s \<Rightarrow>
          io_seq
            [emit (HealthReady (health (ms_acquisition s))),
             io_when (\<not> ap_display_paused a)
               (io_bind (io_lift (session_snapshot e (ap_window_s a) MAXIMUM_DISPLAY_POINTS s))
                  (\<lambda>u. emit (SnapshotReady u)))] a)"

definition select_node :: "('t, 'w) app_env \<Rightarrow> pystr \<Rightarrow> ('t, 'w, unit) app_io" where
  "select_node e node_id = with_session node_id (\<lambda>_. io_seq
     [io_update (\<lambda>a. a\<lparr>ap_selected_node_id := Some node_id\<rparr>), emit (SelectedNodeChanged node_id),
      publish_selected_session e, emit_ota_availability])"

definition set_display_paused :: "bool \<Rightarrow> ('t, 'w, unit) app_io" where
  "set_display_paused paused = io_update (\<lambda>a. a\<lparr>ap_display_paused := paused\<rparr>)"

definition clear_display_samples :: "('t, 'w, unit) app_io" where
  "clear_display_samples a =
     (case ap_selected_node_id a of
        None \<Rightarrow> (Inr (), a)
      | Some k \<Rightarrow>
          io_when (get_session k a \<noteq> None)
            (acquisition_update k (\<lambda>c. c\<lparr>ac_store := SampleStore.clear_samples (ac_store c)\<rparr>)) a)"

definition set_window_seconds :: "float64 \<Rightarrow> ('t, 'w, unit) app_io" where
  "set_window_seconds window_s = io_when (0 < window_s) (io_update (\<lambda>a. a\<lparr>ap_window_s := window_s\<rparr>))"

definition set_node_alias :: "pystr \<Rightarrow> pystr \<Rightarrow> ('t, 'w, unit) app_io" where
  "set_node_alias node_id alias =
     io_try (\<lambda>x. is_key_error x \<or> is_value_error x) (on_index (set_alias node_id alias)) report_exn (\<lambda>n.
       io_seq
         [case ns_device_uuid n of
            None \<Rightarrow> io_return ()
          | Some u \<Rightarrow> io_update (\<lambda>a. a\<lparr>ap_saved_aliases :=
              AList.update (uuid_text u) (ns_alias n) (ap_saved_aliases a)\<rparr>),
          emit_nodes])"

end
