(* ===== verification/AppRecording.thy ===== *)
theory AppRecording
  imports AppState
begin

text \<open>
  \<^verbatim>\<open>presentation/app_controller.py\<close>, second part: the paths of recordings, the session recorders, and the
  archive exports with their completion, retry, watchdog and cancellation.
\<close>

section \<open>Paths\<close>

text \<open>A path is the text of its components joined with slashes.\<close>

definition path_join :: "pystr list \<Rightarrow> pystr" where
  "path_join ps = join_with 47 ps"

definition is_safe_char :: "nat \<Rightarrow> bool" where
  "is_safe_char c \<longleftrightarrow> 65 \<le> c \<and> c \<le> 90 \<or> 97 \<le> c \<and> c \<le> 122 \<or> 48 \<le> c \<and> c \<le> 57 \<or> c \<in> {45, 46, 95}"

text \<open>\<^verbatim>\<open>_SAFE_PATH_PATTERN.sub("-", s)\<close>; the flag tells that the run of replaced characters goes on.\<close>

fun sub_unsafe :: "bool \<Rightarrow> pystr \<Rightarrow> pystr" where
  "sub_unsafe in_run [] = []"
| "sub_unsafe in_run (c # cs) =
     (if is_safe_char c then c # sub_unsafe False cs
      else if in_run then sub_unsafe True cs else 45 # sub_unsafe True cs)"

definition safe_node_directory :: "node_summary \<Rightarrow> pystr" where
  "safe_node_directory n =
     (let alias = (if ns_alias n = [] then lit ''node'' else ns_alias n);
          uuid_suffix = (case ns_device_uuid n of
            Some u \<Rightarrow> take 8 (filter (\<lambda>c. c \<noteq> 45) (uuid_text u)) | None \<Rightarrow> lit ''pending'');
          stripped = strip_by (\<lambda>c. c \<in> {45, 46, 95}) (sub_unsafe False alias);
          safe_alias = (if stripped = [] then lit ''node'' else stripped)
      in safe_alias @ [45] @ uuid_suffix)"

text \<open>\<^verbatim>\<open>f"{n:03d}"\<close>.\<close>

definition pad3 :: "nat \<Rightarrow> pystr" where
  "pad3 n = (let ds = dec_digits n in replicate (3 - length ds) 48 @ ds)"

definition recording_path :: "node_summary \<Rightarrow> nat \<Rightarrow> ('t, 'w, pystr) app_io" where
  "recording_path n segment_number a =
     (case ap_recording_batch_path a of
        None \<Rightarrow> (Inl (RuntimeError ''recording batch path is not configured''), a)
      | Some batch \<Rightarrow>
          (Inr (path_join [batch, safe_node_directory n,
             lit ''segment-'' @ pad3 segment_number @ lit ''.sdf1'']), a))"

definition default_recording_batch_path :: "('t, 'w) app_env \<Rightarrow> pystr" where
  "default_recording_batch_path e = path_join [ae_data_root e, lit ''recordings'', ae_stamp e]"

definition export_path :: "('t, 'w) app_env \<Rightarrow> node_summary \<Rightarrow> nat \<Rightarrow> pystr" where
  "export_path e n export_number =
     path_join [ae_data_root e, lit ''exports'', ae_stamp e, safe_node_directory n,
       lit ''export-'' @ pad3 export_number @ lit ''.sdf1'']"

section \<open>Recorders\<close>

fun writer_runs :: "nat option list \<Rightarrow> recorder \<Rightarrow> recorder" where
  "writer_runs [] r = r"
| "writer_runs (io # ios) r = (case writer_step io r of None \<Rightarrow> r | Some r' \<Rightarrow> writer_runs ios r')"

text \<open>\<^verbatim>\<open>RawSessionRecorder.stop\<close> as a whole: the sentinel, the writer's last steps, the summary, the metadata.\<close>

definition recorder_stop :: "('t, 'w) app_env \<Rightarrow> (recorder, recording_summary) io" where
  "recorder_stop e =
     io_bind stop_begin (\<lambda>_.
     io_bind (io_update (\<lambda>r. writer_runs (ae_writes e (rc_path r)) r)) (\<lambda>_.
     io_bind (stop_finish (ae_utc e)) (\<lambda>summary.
     io_bind (io_lift (ae_metadata_written e (Some (rs_path summary)))) (\<lambda>_. io_return summary))))"

text \<open>\<^verbatim>\<open>update_metadata\<close> on the recorder a session holds.\<close>

definition update_recorder :: "metadata \<Rightarrow> (controller, unit) io" where
  "update_recorder vs c =
     (case ac_recorder c of
        None \<Rightarrow> (Inr (), c)
      | Some r \<Rightarrow> (case update_metadata vs r of (x, r') \<Rightarrow> (x, c\<lparr>ac_recorder := Some r'\<rparr>)))"

text \<open>The archive recorder of a session, and \<^verbatim>\<open>update_metadata\<close> on it.\<close>

definition archive_recorder :: "'t managed_session \<Rightarrow> recorder option" where
  "archive_recorder s =
     (if \<not> ms_exporting s then None
      else case ac_archive_recorder (ms_acquisition s) of Some r \<Rightarrow> Some r | None \<Rightarrow> ms_unattached s)"

definition put_archive_recorder :: "recorder \<Rightarrow> 't managed_session \<Rightarrow> 't managed_session" where
  "put_archive_recorder r s =
     (if ac_archive_recorder (ms_acquisition s) = None then s\<lparr>ms_unattached := Some r\<rparr>
      else s\<lparr>ms_acquisition := set_archive_recorder (Some r) (ms_acquisition s)\<rparr>)"

definition update_archive_recorder :: "metadata \<Rightarrow> ('t managed_session, unit) io" where
  "update_archive_recorder vs s =
     (case archive_recorder s of
        None \<Rightarrow> (Inr (), s)
      | Some r \<Rightarrow> (case update_metadata vs r of (x, r') \<Rightarrow> (x, put_archive_recorder r' s)))"

definition kind_value :: "transport_kind \<Rightarrow> pystr" where
  "kind_value k = (case k of CDC \<Rightarrow> lit ''cdc'' | WIFI \<Rightarrow> lit ''wifi'')"

section \<open>Session recordings\<close>

definition recording_metadata :: "'t managed_session \<Rightarrow> node_summary \<Rightarrow> nat \<Rightarrow> metadata" where
  "recording_metadata s n segment_number =
     [''format'' \<mapsto> MStr (lit ''SDF1''), ''transport'' \<mapsto> MStr (kind_value (ms_transport_kind s)),
      ''peer'' \<mapsto> MStr (ms_peer s),
      ''uuid'' \<mapsto> (case ns_device_uuid n of Some u \<Rightarrow> MStr (uuid_text u) | None \<Rightarrow> MNone),
      ''alias'' \<mapsto> MStr (ns_alias n), ''segment'' \<mapsto> MInt (int segment_number)]"

text \<open>\<^verbatim>\<open>recorder = RawSessionRecorder(); recorder.start(path, metadata)\<close>.\<close>

definition started_recorder :: "('t, 'w) app_env \<Rightarrow> pystr \<Rightarrow> metadata \<Rightarrow> recorder res" where
  "started_recorder e path meta =
     rbind (RawSessionRecorder_init (int DEFAULT_QUEUE_CAPACITY_BYTES)) (\<lambda>fresh.
       case recorder_start (ae_opened e path) (ae_utc e) path meta fresh of
         (Inl x, r) \<Rightarrow> Inl x | (Inr _, r) \<Rightarrow> Inr r)"

definition open_recording ::
  "('t, 'w) app_env \<Rightarrow> pystr \<Rightarrow> 't managed_session \<Rightarrow> node_summary \<Rightarrow> nat \<Rightarrow> ('t, 'w, unit) app_io" where
  "open_recording e k s n segment_number =
     io_bind (recording_path n segment_number) (\<lambda>output_path.
       case started_recorder e output_path (recording_metadata s n segment_number) of
         Inl x \<Rightarrow> if is_os_error x then report_exn x else io_raise x
       | Inr r \<Rightarrow> io_seq
           [update_session k (\<lambda>s. s\<lparr>ms_recording := True\<rparr>), acquisition k (set_recorder (Some r)),
            on_index (set_recording k True)])"

definition start_session_recording :: "('t, 'w) app_env \<Rightarrow> pystr \<Rightarrow> ('t, 'w, unit) app_io" where
  "start_session_recording e k =
     io_bind (the_session k) (\<lambda>s.
       if ms_recording s then io_return ()
       else io_bind (summary_of k) (\<lambda>n.
         io_bind (io_get ap_segment_counts) (\<lambda>counts.
         let identity = (case ns_device_uuid n of Some u \<Rightarrow> uuid_text u | None \<Rightarrow> k);
             segment_number = (case counts identity of None \<Rightarrow> 0 | Some i \<Rightarrow> i) + 1
         in io_bind (io_update (\<lambda>a. a\<lparr>ap_segment_counts := (ap_segment_counts a)(identity \<mapsto> segment_number)\<rparr>))
              (\<lambda>_. open_recording e k s n segment_number))))"

text \<open>The session's part of stopping: what the recorder was, detached.\<close>

definition detach_recorder :: "('t managed_session, recorder option) io" where
  "detach_recorder s =
     (if ms_recording s
      then case set_recorder None (ms_acquisition s) of
        (Inl x, c) \<Rightarrow> (Inl x, s\<lparr>ms_acquisition := c\<rparr>)
      | (Inr _, c) \<Rightarrow> (Inr (ac_recorder (ms_acquisition s)), s\<lparr>ms_acquisition := c, ms_recording := False\<rparr>)
      else (Inr None, s))"

definition detach_archive_recorder :: "('t managed_session, recorder option) io" where
  "detach_archive_recorder s =
     (if ms_exporting s
      then (Inr (archive_recorder s),
            s\<lparr>ms_acquisition := set_archive_recorder None (ms_acquisition s), ms_exporting := False,
              ms_unattached := None\<rparr>)
      else (Inr None, s))"

text \<open>\<^verbatim>\<open>try: .. recorder.stop() except RuntimeError as error: error_raised.emit(str(error))\<close>.\<close>

definition stop_reporting ::
  "(recorder, recording_summary) io \<Rightarrow> recorder \<Rightarrow> ('t, 'w, recording_summary option) app_io" where
  "stop_reporting m r a =
     (case fst (m r) of
        Inl x \<Rightarrow> if is_runtime_error x then (Inr None, snd (report_exn x a)) else (Inl x, a)
      | Inr summary \<Rightarrow> (Inr (Some summary), a))"

definition stop_session_recording :: "('t, 'w) app_env \<Rightarrow> pystr \<Rightarrow> ('t, 'w, unit) app_io" where
  "stop_session_recording e k =
     io_bind (on_session k detach_recorder) (\<lambda>recorder.
       case recorder of
         None \<Rightarrow> acquisition_update k cancel_deferred_recording
       | Some r \<Rightarrow>
           io_bind (stop_reporting (recorder_stop e) r) (\<lambda>_. on_index (set_recording k False)))"

definition set_session_recording :: "('t, 'w) app_env \<Rightarrow> bool \<Rightarrow> pystr option \<Rightarrow> ('t, 'w, unit) app_io" where
  "set_session_recording e enabled path a =
     (if enabled then
        (if ap_sessions a = [] then raise_error ''connect before starting a recording'' a
         else if ap_recording_active a then (Inr (), a)
         else if list_ex (\<lambda>(k, s). ms_ota_active s \<or> ms_ota_awaiting_restart s) (ap_sessions a)
         then raise_error ''OTA in progress; recording is blocked'' a
         else io_seq
           [io_update (\<lambda>a. a\<lparr>ap_recording_active := True, ap_recording_batch_path :=
              (case path of Some p \<Rightarrow> Some p | None \<Rightarrow> Some (default_recording_batch_path e))\<rparr>),
            io_for (session_keys a) (\<lambda>k. io_bind (summary_of k) (\<lambda>n.
              io_when (ns_device_uuid n \<noteq> None) (start_session_recording e k))),
            emit_nodes] a)
      else io_seq
        [io_update (\<lambda>a. a\<lparr>ap_recording_active := False\<rparr>),
         io_for (session_keys a) (stop_session_recording e),
         io_update (\<lambda>a. a\<lparr>ap_recording_batch_path := None\<rparr>), emit_nodes] a)"

section \<open>Archive exports\<close>

definition export_metadata :: "'t managed_session \<Rightarrow> node_summary \<Rightarrow> nat \<Rightarrow> metadata" where
  "export_metadata s n u =
     [''format'' \<mapsto> MStr (lit ''SDF1_ARCHIVE_EXPORT''),
      ''transport'' \<mapsto> MStr (kind_value (ms_transport_kind s)), ''peer'' \<mapsto> MStr (ms_peer s),
      ''uuid'' \<mapsto> MStr (uuid_text u), ''alias'' \<mapsto> MStr (ns_alias n), ''status'' \<mapsto> MStr (lit ''in_progress'')]"

definition revision_of :: "control_state option \<Rightarrow> nat" where
  "revision_of state = (case state of None \<Rightarrow> 0 | Some c \<Rightarrow> cs_nat (c ''export_revision''))"

definition phase_of :: "control_state option \<Rightarrow> pystr option" where
  "phase_of state = (case state of None \<Rightarrow> None | Some c \<Rightarrow> cs_text (c ''export_phase''))"

text \<open>\<^verbatim>\<open>session.acquisition.set_archive_recorder(recorder)\<close>: the recorder the session holds goes to its controller.\<close>

definition attach_archive_recorder :: "'t managed_session \<Rightarrow> 't managed_session" where
  "attach_archive_recorder s =
     (case ms_unattached s of
        None \<Rightarrow> s
      | Some r \<Rightarrow> s\<lparr>ms_unattached := None, ms_acquisition := set_archive_recorder (Some r) (ms_acquisition s)\<rparr>)"

definition start_archive_recording :: "('t, 'w) app_env \<Rightarrow> pystr \<Rightarrow> ('t, 'w, pystr) app_io" where
  "start_archive_recording e k =
     io_bind (the_session k) (\<lambda>s.
       if ms_exporting s then io_raise (RuntimeError ''an archive export is already active for this node'')
       else io_bind (summary_of k) (\<lambda>n.
         case ns_device_uuid n of
           None \<Rightarrow> io_raise (RuntimeError ''wait for node UUID before exporting an archive'')
         | Some u \<Rightarrow> io_bind (io_get ap_export_counts) (\<lambda>counts.
             let identity = uuid_text u;
                 export_number = (case counts identity of None \<Rightarrow> 0 | Some i \<Rightarrow> i) + 1;
                 path = export_path e n export_number
             in io_bind (io_update (\<lambda>a. a\<lparr>ap_export_counts := (ap_export_counts a)(identity \<mapsto> export_number)\<rparr>)) (\<lambda>_.
                case started_recorder e path (export_metadata s n u) of
                  Inl x \<Rightarrow> io_raise x
                | Inr r \<Rightarrow>
                    io_bind (update_session k (\<lambda>s. s\<lparr>ms_exporting := True, ms_unattached := Some r\<rparr>)) (\<lambda>_.
                    io_bind (session_control e k) (\<lambda>state.
                    io_bind (update_session k (\<lambda>s. attach_archive_recorder
                      (s\<lparr>ms_archive_start_revision := revision_of state, ms_archive_started_s := ae_now e\<rparr>))) (\<lambda>_.
                    io_return path)))))))"

definition export_target :: "'t managed_session \<Rightarrow> pystr" where
  "export_target s = (if ms_transport_kind s = CDC then lit ''CDC'' else lit ''UART'')"

definition start_export_for :: "('t, 'w) app_env \<Rightarrow> pystr \<Rightarrow> ('t, 'w, unit) app_io" where
  "start_export_for e k = with_session k (\<lambda>s.
     if ms_ota_active s \<or> ms_ota_awaiting_restart s then raise_error ''OTA in progress; export is blocked''
     else if ms_exporting s then raise_error ''an archive export is already active for this node''
     else io_bind (session_control e k) (\<lambda>state.
       case state of
         None \<Rightarrow> raise_error ''device SD is not ready; refresh status before exporting''
       | Some c \<Rightarrow>
           if \<not> cs_true (c ''sd_ready'')
           then raise_error ''device SD is not ready; refresh status before exporting''
           else if c ''acquisition_state'' \<notin> {VNone, VStr (lit ''IDLE'')}
           then raise_error ''stop acquisition before exporting; the firmware rejects export while {}''
           else io_try is_common_error (start_archive_recording e k) report_exn (\<lambda>path.
               let total_bytes = cs_nat (c ''sd_used'')
               in io_seq
                 [update_session k (\<lambda>s. s\<lparr>ms_archive_total_bytes := total_bytes, ms_archive_path := Some path,
                    ms_archive_target := export_target s, ms_archive_retries := 0,
                    ms_archive_cancel_requested := False\<rparr>),
                  acquisition k (enqueue_command (lit ''AT+EXPORT='' @ export_target s)),
                  emit (ExportStarted k path total_bytes)])))"

definition cancel_export_for :: "pystr \<Rightarrow> ('t, 'w, unit) app_io" where
  "cancel_export_for k = with_session k (\<lambda>s.
     if \<not> ms_exporting s then io_return ()
     else if ms_archive_cancel_requested s then io_return ()
     else io_seq
       [update_session k (\<lambda>s. s\<lparr>ms_archive_cancel_requested := True\<rparr>),
        acquisition k stop_acquisition, acquisition k request_status])"

definition clear_sd_for :: "('t, 'w) app_env \<Rightarrow> pystr \<Rightarrow> ('t, 'w, unit) app_io" where
  "clear_sd_for e k = with_session k (\<lambda>s.
     if ms_exporting s then raise_error ''cancel the active export before clearing device SD''
     else io_bind (session_control e k) (\<lambda>state.
       case state of
         None \<Rightarrow> raise_error ''refresh status before clearing device SD''
       | Some c \<Rightarrow>
           if c ''acquisition_state'' \<notin> {VStr (lit ''IDLE''), VStr (lit ''ERROR'')}
           then raise_error ''device SD can only be cleared while IDLE or ERROR; current state is {}''
           else io_catch (\<lambda>x. is_runtime_error x \<or> is_value_error x) (acquisition k request_clear_sd) report_exn))"

definition export_status ::
  "('t, 'w) app_env \<Rightarrow> pystr \<Rightarrow> ('t, 'w) app \<Rightarrow> (bool \<times> int \<times> nat \<times> pystr option) res" where
  "export_status e k a =
     (case get_session k a of
        None \<Rightarrow> Inr (False, 0, 0, None)
      | Some s \<Rightarrow> rbind (control_of e s) (\<lambda>state. Inr
          (if archive_recorder s \<noteq> None
           then (True, (case archive_recorder s of None \<Rightarrow> 0 | Some r \<Rightarrow> rc_bytes_written r),
                 ms_archive_total_bytes s, phase_of state)
           else (False, 0, ms_archive_total_bytes s, phase_of state))))"

definition active_export_node :: "('t, 'w) app \<Rightarrow> pystr option" where
  "active_export_node a = map_option fst (find (\<lambda>(k, s). ms_exporting s) (ap_sessions a))"

section \<open>The end of an export\<close>

definition retry_export_after_abort :: "('t, 'w) app_env \<Rightarrow> pystr \<Rightarrow> ('t, 'w, unit) app_io" where
  "retry_export_after_abort e k =
     io_bind (the_session k) (\<lambda>s.
       let target = (if ms_archive_target s \<noteq> [] then ms_archive_target s else export_target s)
       in io_try is_common_error (start_archive_recording e k) report_exn (\<lambda>path. io_seq
              [update_session k (\<lambda>s. s\<lparr>ms_archive_path := Some path, ms_archive_target := target\<rparr>),
               acquisition k (enqueue_command (lit ''AT+EXPORT='' @ target)),
               raise_error ''firmware aborted the export before the first frame; automatic retry {}/{} started'',
               emit (ExportStarted k path (ms_archive_total_bytes s))]))"

text \<open>The phase an export has ended in, if it has.\<close>

definition cancel_confirmed :: "'t managed_session \<Rightarrow> control_state option \<Rightarrow> bool" where
  "cancel_confirmed s state \<longleftrightarrow> ms_archive_cancel_requested s \<and>
     (case state of None \<Rightarrow> False | Some c \<Rightarrow>
        c ''acquisition_state'' = VStr (lit ''IDLE'') \<and> c ''export_target'' = VStr (lit ''NONE''))"

definition ended_phase :: "'t managed_session \<Rightarrow> control_state option \<Rightarrow> pystr option" where
  "ended_phase s state =
     (if cancel_confirmed s state then Some (lit ''ABORTED'')
      else case phase_of state of
        None \<Rightarrow> None
      | Some phase \<Rightarrow>
          if phase \<notin> {lit ''EMPTY'', lit ''COMPLETE'', lit ''ABORTED''} \<or>
             revision_of state \<le> ms_archive_start_revision s
          then None else Some phase)"

fun meta_of :: "cs_value \<Rightarrow> meta_value" where
  "meta_of (VInt n) = MInt (int n)"
| "meta_of (VStr s) = MStr s"
| "meta_of _ = MNone"

definition end_metadata :: "pystr \<Rightarrow> control_state option \<Rightarrow> metadata" where
  "end_metadata phase state =
     [''status'' \<mapsto> MStr (lower_ascii phase),
      ''export_chunks'' \<mapsto> (case state of None \<Rightarrow> MNone | Some c \<Rightarrow> meta_of (c ''export_chunks'')),
      ''export_frames'' \<mapsto> (case state of None \<Rightarrow> MNone | Some c \<Rightarrow> meta_of (c ''export_frames''))]"

text \<open>What follows the recorder's end: a retry, an error text, and the signal.\<close>

definition export_ended ::
  "('t, 'w) app_env \<Rightarrow> pystr \<Rightarrow> pystr \<Rightarrow> bool \<Rightarrow> recording_summary \<Rightarrow> ('t, 'w, unit) app_io" where
  "export_ended e k phase explicitly_cancelled summary =
     io_bind (on_session k (io_get ms_archive_retries)) (\<lambda>retries.
       if phase = lit ''ABORTED'' \<and> rs_bytes_written summary = 0 \<and> \<not> explicitly_cancelled \<and>
          retries < EXPORT_AUTO_RETRIES
       then io_seq [update_session k (\<lambda>s. s\<lparr>ms_archive_retries := ms_archive_retries s + 1\<rparr>),
                    retry_export_after_abort e k]
       else io_seq
         [if phase = lit ''ABORTED'' \<and> rs_bytes_written summary = 0 \<and> \<not> explicitly_cancelled
          then raise_error ''firmware aborted the export before transmitting any frame; retry after STOP and inspect the CONSOLE EXPORT_* lines''
          else if phase = lit ''EMPTY'' then raise_error ''device SD ring is empty; nothing to export''
          else io_return (),
          emit (ExportFinished k phase (rs_path summary))])"

definition finalize_completed_export :: "('t, 'w) app_env \<Rightarrow> pystr \<Rightarrow> ('t, 'w, unit) app_io" where
  "finalize_completed_export e k =
     io_bind (the_session k) (\<lambda>s.
       if \<not> ms_exporting s then io_return ()
       else io_bind (session_control e k) (\<lambda>state.
         case ended_phase s state of
           None \<Rightarrow> io_return ()
         | Some phase \<Rightarrow>
             io_bind (on_session k (update_archive_recorder (end_metadata phase state))) (\<lambda>_.
             io_bind (on_session k detach_archive_recorder) (\<lambda>recorder.
             io_bind (update_session k (\<lambda>s. s\<lparr>ms_archive_cancel_requested := False\<rparr>)) (\<lambda>_.
               case recorder of
                 None \<Rightarrow> io_return ()
               | Some r \<Rightarrow>
                   io_bind (stop_reporting (recorder_stop e) r) (\<lambda>ended.
                     case ended of
                       None \<Rightarrow> io_return ()
                     | Some summary \<Rightarrow> export_ended e k phase (cancel_confirmed s state) summary))))))"

definition watchdog_stalled_export :: "('t, 'w) app_env \<Rightarrow> pystr \<Rightarrow> ('t, 'w, unit) app_io" where
  "watchdog_stalled_export e k =
     io_bind (the_session k) (\<lambda>s.
       case archive_recorder s of
         None \<Rightarrow> io_return ()
       | Some rec \<Rightarrow>
           if rc_bytes_written rec \<noteq> 0 \<or> ms_archive_cancel_requested s then io_return ()
           else if fsub (ae_now e) (ms_archive_started_s s) < EXPORT_FIRST_BYTE_TIMEOUT_S then io_return ()
           else io_bind (session_control e k) (\<lambda>state.
             if phase_of state \<in> {Some (lit ''COMPLETE''), Some (lit ''EMPTY''), Some (lit ''ABORTED'')}
             then io_return ()
             else io_bind (on_session k detach_archive_recorder) (\<lambda>_.
                  io_bind (stop_reporting (io_bind (update_metadata [''status'' \<mapsto> MStr (lit ''stalled'')])
                             (\<lambda>_. recorder_stop e)) rec) (\<lambda>ended.
                    case ended of
                      None \<Rightarrow> io_return ()
                    | Some summary \<Rightarrow> io_seq
                        [raise_error ''export stalled: no archive bytes within 10 s (firmware phase {}); check CONSOLE for EXPORT_/ERROR lines'',
                         emit (ExportFinished k (lit ''STALLED'') (rs_path summary))]))))"

section \<open>The end of a session\<close>

text \<open>
  \<^verbatim>\<open>_finalize_session_recorders\<close> works on a session object that may have left the dictionary: a state of its own,
  the session and the signals emitted.
\<close>

definition stop_silently ::
  "(recorder, recording_summary) io \<Rightarrow> recorder option \<Rightarrow> ('t managed_session \<times> app_signal list, unit) io" where
  "stop_silently m recorder sg =
     (case recorder of
        None \<Rightarrow> (Inr (), sg)
      | Some r \<Rightarrow>
          (case fst (m r) of
             Inr _ \<Rightarrow> (Inr (), sg)
           | Inl x \<Rightarrow> if is_runtime_error x then (Inr (), fst sg, snd sg @ [ErrorRaised (TextOf x)]) else (Inl x, sg)))"

definition on_first :: "('s, 'a) io \<Rightarrow> ('s \<times> 'r, 'a) io" where
  "on_first m sr = (case sr of (s, x) \<Rightarrow> case m s of (r, s') \<Rightarrow> (r, s', x))"

definition finalize_session_recorders ::
  "('t, 'w) app_env \<Rightarrow> ('t managed_session \<times> app_signal list, unit) io" where
  "finalize_session_recorders e =
     io_bind (on_first detach_recorder) (\<lambda>recorder.
     io_bind (stop_silently (recorder_stop e) recorder) (\<lambda>_.
     io_bind (on_first detach_archive_recorder) (\<lambda>archive_recorder.
       stop_silently (io_bind (update_metadata [''status'' \<mapsto> MStr (lit ''aborted'')]) (\<lambda>_. recorder_stop e))
         archive_recorder)))"

definition update_disconnect_metadata :: "pystr \<Rightarrow> ('t managed_session, unit) io" where
  "update_disconnect_metadata reason s =
     io_seq
       [io_when (ms_recording s) (on_acquisition (update_recorder [''disconnect_reason'' \<mapsto> MStr reason])),
        io_when (ms_exporting s) (update_archive_recorder
          [''status'' \<mapsto> MStr (lit ''aborted''), ''disconnect_reason'' \<mapsto> MStr reason])] s"

end
