(* ===== verification/AppPaths.thy ===== *)
theory AppPaths
  imports AppRecording
begin

text \<open>
  The paths of recordings and exports: the directory of a node is one component made of harmless characters,
  whatever the alias or the peer text is, and the numbers keep the files of one directory apart.
\<close>

section \<open>Directories\<close>

lemma sub_unsafe_safe: "list_all is_safe_char (sub_unsafe r s)"
  by (induction r s rule: sub_unsafe.induct) (simp_all add: is_safe_char_def)

lemma set_strip: "set (strip_by Q s) \<subseteq> set s"
  unfolding strip_by_def by (auto dest!: set_dropWhileD [of _ Q])

lemma list_all_strip: "list_all P s \<Longrightarrow> list_all P (strip_by Q s)"
  using set_strip [of Q s] by (auto simp: list_all_iff)

lemma hex_char_safe: "d < 16 \<Longrightarrow> is_safe_char (hex_char 97 d)"
  by (auto simp: hex_char_def is_safe_char_def)

lemma hex_fixed_safe: "list_all is_safe_char (hex_fixed 97 k n)"
  by (induction k arbitrary: n) (simp_all add: hex_char_safe)

lemma slice_safe: "list_all P s \<Longrightarrow> list_all P (slice s a b)"
  by (auto simp: slice_def list_all_iff dest: in_set_takeD in_set_dropD)

lemma uuid_text_safe: "list_all is_safe_char (uuid_text u)"
  using slice_safe [OF hex_fixed_safe] by (simp add: uuid_text_def Let_def is_safe_char_def)

lemma safe_node_directory_safe:
  "list_all is_safe_char (safe_node_directory n)" "45 \<in> set (safe_node_directory n)"
proof -
  have "list_all is_safe_char (take 8 (filter Q (uuid_text u)))" for Q u
    using uuid_text_safe [of u] by (auto simp: list_all_iff dest: in_set_takeD)
  moreover have "list_all is_safe_char (lit ''node'')" "list_all is_safe_char (lit ''pending'')"
    by (simp_all add: lit_def is_safe_char_def)
  moreover have "list_all is_safe_char (strip_by Q (sub_unsafe r s))" for Q r s
    by (rule list_all_strip [OF sub_unsafe_safe])
  moreover have "is_safe_char 45" by (simp add: is_safe_char_def)
  ultimately show "list_all is_safe_char (safe_node_directory n)"
    by (simp add: safe_node_directory_def Let_def split: option.split)
  show "45 \<in> set (safe_node_directory n)" by (simp add: safe_node_directory_def Let_def)
qed

section \<open>Files\<close>

lemma pad3_safe: "list_all is_safe_char (pad3 n)"
  using dec_digits_range [of _ n] by (fastforce simp: pad3_def Let_def list_all_iff is_safe_char_def)

lemma foldl_zeros: "foldl (\<lambda>a c. 10 * a + (c - 48)) (0 :: nat) (replicate k 48 @ s) = foldl (\<lambda>a c. 10 * a + (c - 48)) 0 s"
  by (induction k) simp_all

lemma pad3_inj: "pad3 m = pad3 n \<Longrightarrow> m = n"
  unfolding pad3_def Let_def by (metis foldl_zeros foldl_dec_digits)

text \<open>Characters that every file system takes in a name: visible ASCII without separators, quotes and wildcards.\<close>

definition portable_char :: "nat \<Rightarrow> bool" where
  "portable_char c \<longleftrightarrow> 32 < c \<and> c < 127 \<and> c \<notin> {34, 42, 47, 58, 60, 62, 63, 92, 124}"

lemma safe_portable: "list_all is_safe_char s \<Longrightarrow> list_all portable_char s"
  by (erule list.pred_mono_strong) (auto simp: is_safe_char_def portable_char_def)

definition segment_file :: "nat \<Rightarrow> pystr" where
  "segment_file i = lit ''segment-'' @ pad3 i @ lit ''.sdf1''"

definition export_file :: "nat \<Rightarrow> pystr" where
  "export_file i = lit ''export-'' @ pad3 i @ lit ''.sdf1''"

lemma segment_file_safe: "list_all is_safe_char (segment_file i)" "list_all is_safe_char (export_file i)"
  using pad3_safe by (simp_all add: segment_file_def export_file_def lit_def is_safe_char_def)

lemma segment_file_inj: "segment_file i = segment_file j \<longleftrightarrow> i = j" "export_file i = export_file j \<longleftrightarrow> i = j"
  using pad3_inj by (auto simp: segment_file_def export_file_def)

text \<open>
  C30. Whatever alias a user gives or a peer is called, a recording lies in the directory of its batch and an
  export in that of its time stamp, under one directory for the node and one file name: both consist of visible
  ASCII characters without separators, quotes and wildcards, and the directory is not a dot path. Different
  numbers give different files.
\<close>

theorem recording_paths_confined:
  "\<exists>dir. list_all portable_char dir \<and> dir \<notin> {[], lit ''.'', lit ''..''} \<and>
     list_all portable_char (segment_file i) \<and> list_all portable_char (export_file i) \<and>
     (segment_file i = segment_file j) = (i = j) \<and> (export_file i = export_file j) = (i = j) \<and>
     export_path e n i = path_join [ae_data_root e, lit ''exports'', ae_stamp e, dir, export_file i] \<and>
     fst (recording_path n i a) = (case ap_recording_batch_path a of
        None \<Rightarrow> Inl (RuntimeError ''recording batch path is not configured'')
      | Some batch \<Rightarrow> Inr (path_join [batch, dir, segment_file i]))"
proof (intro exI [of _ "safe_node_directory n"] conjI)
  show "safe_node_directory n \<notin> {[], lit ''.'', lit ''..''}"
    using safe_node_directory_safe(2) [of n] by (auto simp: lit_def)
  show "export_path e n i = path_join [ae_data_root e, lit ''exports'', ae_stamp e, safe_node_directory n, export_file i]"
    by (simp add: export_path_def export_file_def)
  show "fst (recording_path n i a) = (case ap_recording_batch_path a of
        None \<Rightarrow> Inl (RuntimeError ''recording batch path is not configured'')
      | Some batch \<Rightarrow> Inr (path_join [batch, safe_node_directory n, segment_file i]))"
    by (simp add: recording_path_def segment_file_def split: option.split)
qed (intro safe_portable safe_node_directory_safe segment_file_safe segment_file_inj)+

end
