(* ===== verification/AppSessions.thy ===== *)
theory AppSessions
  imports AppRecording
begin

text \<open>
  \<^verbatim>\<open>presentation/app_controller.py\<close>, third part: the workers' loops, the Wi-Fi server, the life of a session
  from its connection to its end, the commands to a node, and the periodic slots.
\<close>

section \<open>Workers\<close>

fun exn_text :: "exn \<Rightarrow> pystr" where
  "exn_text (ValueError m) = lit m"
| "exn_text (KeyError m) = lit m"
| "exn_text (RuntimeError m) = lit m"
| "exn_text (OSError m) = lit m"
| "exn_text TimeoutError = lit ''timed out''"
| "exn_text (TypeError m) = lit m"
| "exn_text (TransportError m) = lit m"
| "exn_text (OtaCodecError m) = lit m"
| "exn_text (OtaPackageError m) = lit m"
| "exn_text (OtaUploadError m c) = lit m"
| "exn_text (ControlStateParseError m) = lit m"
| "exn_text (SessionCapacityError m) = lit m"
| "exn_text (DuplicateDeviceError m) = lit m"
| "exn_text (DeviceIdentityError m) = lit m"
| "exn_text UnicodeError = lit ''codec cannot convert''"
| "exn_text OtaUploadCancelled = []"

datatype worker_signal = WorkerStarted | WorkerFailed pystr | WorkerStopped

text \<open>\<^verbatim>\<open>AcquisitionWorker.run\<close>: every exception of the loop becomes a signal; \<open>None\<close>: still running.\<close>

definition AcquisitionWorker_run ::
  "numpy \<Rightarrow> 't transport \<Rightarrow> (bool \<times> float64) list \<Rightarrow> controller \<times> 't \<Rightarrow>
     (worker_signal list \<times> controller \<times> 't) option" where
  "AcquisitionWorker_run np tp turns ct =
     map_option (\<lambda>(r, ct').
       (WorkerStarted # (case r of Inl x \<Rightarrow> [WorkerFailed (exn_text x)] | Inr _ \<Rightarrow> []) @ [WorkerStopped], ct'))
       (run np tp None turns ct)"

datatype 'w accept_signal = ClientAccepted "'w gateway_client" | AcceptFailed pystr | AcceptStopped

text \<open>
  \<^verbatim>\<open>GatewayAcceptWorker.run\<close>. A turn tells what the stop event reads before the wait, whether the listener
  is closed during it, and what the event reads after it.
\<close>

fun GatewayAcceptWorker_run ::
  "'w sockets \<Rightarrow> (bool \<times> bool \<times> bool) list \<Rightarrow> 'w listener \<Rightarrow>
     ('w accept_signal list \<times> unit res \<times> 'w listener) option" where
  "GatewayAcceptWorker_run lib [] g = None"
| "GatewayAcceptWorker_run lib ((stop, closing, stop_after) # turns) g =
     (if stop then Some ([AcceptStopped], Inr (), g)
      else case listener_accept lib closing (fl (2 / 10)) g of
        (Inr client, g') \<Rightarrow>
          map_option (\<lambda>(sigs, rg). (map ClientAccepted (opt_list client) @ sigs, rg))
            (GatewayAcceptWorker_run lib turns g')
      | (Inl x, g') \<Rightarrow>
          if is_os_error x \<or> is_runtime_error x
          then Some ((if stop_after then [] else [AcceptFailed (exn_text x)]) @ [AcceptStopped], Inr (), g')
          else Some ([AcceptStopped], Inl x, g'))"

section \<open>The Wi-Fi server\<close>

text \<open>\<^verbatim>\<open>listener.start(..)\<close>, the wake service and its start: what the \<^verbatim>\<open>try\<close> block yields.\<close>

definition started_server ::
  "('t, 'w) app_env \<Rightarrow> wifi_config \<Rightarrow> wake_service res \<times> 'w listener" where
  "started_server e config =
     io_bind (listener_start (ae_sockets e) (wc_local_ipv4 config) (wc_tcp_port config)) (\<lambda>_.
     io_bind (io_lift (create_wake_service config)) (\<lambda>service.
     io_return (wake_start False service))) (ae_new_listener e)"

definition server_label :: "wifi_config \<Rightarrow> pystr" where
  "server_label config = lit ''LISTENING '' @ wc_local_ipv4 config @ [58] @ show_int (wc_tcp_port config)"

definition save_wifi_config :: "wifi_config \<Rightarrow> ('t, 'w, unit) app_io" where
  "save_wifi_config config = io_update (\<lambda>a. a\<lparr>ap_saved_config := Some config\<rparr>)"

definition start_wifi_server :: "('t, 'w) app_env \<Rightarrow> wifi_config \<Rightarrow> ('t, 'w, unit) app_io" where
  "start_wifi_server e config a =
     (if ap_sessions a \<noteq> [] \<or> is_wifi_server_running a
      then raise_error ''disconnect current sessions before starting Wi-Fi'' a
      else case started_server e config of
        (Inl x, g) \<Rightarrow>
          if is_common_error x
          then io_bind (io_lift (fst (listener_close (ae_sockets e) g))) (\<lambda>_. report_exn x) a
          else (Inl x, a)
      | (Inr service, g) \<Rightarrow> io_seq
          [save_wifi_config config,
           io_update (\<lambda>a. a\<lparr>ap_gateway_listener := Some (ap_next_token a, g), ap_wake_service := Some service,
             ap_accept_thread := Some True, ap_wifi_server_label := server_label config,
             ap_next_token := ap_next_token a + 1\<rparr>),
           emit (WifiServerChanged True (server_label config))] a)"

definition stop_wifi_resources :: "('t, 'w) app_env \<Rightarrow> ('t, 'w, unit) app_io" where
  "stop_wifi_resources e a = io_seq
     [io_update (\<lambda>a. a\<lparr>ap_gateway_listener := None, ap_wake_service := None, ap_accept_thread := None,
        ap_wifi_server_label := []\<rparr>),
      (case ap_gateway_listener a of
         None \<Rightarrow> io_return ()
       | Some (i, g) \<Rightarrow> io_lift (fst (listener_close (ae_sockets e) g))),
      io_when (ap_accept_thread a \<noteq> None \<and> \<not> ae_accept_stops e)
        (raise_error ''gateway listener did not stop within three seconds'')] a"

definition release_gateway_client :: "pystr \<Rightarrow> ('t, 'w, unit) app_io" where
  "release_gateway_client connection_id = io_update (\<lambda>a. a\<lparr>ap_gateway_listener :=
     map_option (\<lambda>(i, g). (i, listener_release connection_id g)) (ap_gateway_listener a)\<rparr>)"

section \<open>A new session\<close>

definition new_acquisition :: "bool \<Rightarrow> controller res" where
  "new_acquisition recording_active =
     rbind (RealtimeSampleStore_init DEFAULT_RETENTION_SECONDS) (\<lambda>store.
       let c = AcquisitionController_init store None;
           c' = (if recording_active then defer_recording_until_identity c else c)
       in case io_seq [request_uuid, request_status, request_livestream] c' of
            (Inl x, _) \<Rightarrow> Inl x | (Inr _, c'') \<Rightarrow> Inr c'')"

definition ManagedSession :: "nat \<Rightarrow> pystr \<Rightarrow> pystr \<Rightarrow> transport_kind \<Rightarrow> 't \<Rightarrow> controller \<Rightarrow> 't managed_session" where
  "ManagedSession token node_id peer kind t c =
     \<lparr>ms_token = token, ms_node_id = node_id, ms_peer = peer, ms_transport_kind = kind, ms_transport = t,
      ms_acquisition = c, ms_stop_event = False, ms_recording = False, ms_exporting = False, ms_unattached = None,
      ms_archive_start_revision = 0, ms_archive_total_bytes = 0, ms_archive_path = None,
      ms_archive_started_s = 0, ms_archive_target = [], ms_archive_retries = 0,
      ms_archive_cancel_requested = False, ms_failure = None, ms_ota_active = False,
      ms_ota_awaiting_restart = False\<rparr>"

definition insert_session :: "pystr \<Rightarrow> pystr \<Rightarrow> transport_kind \<Rightarrow> 't \<Rightarrow> controller \<Rightarrow> ('t, 'w, unit) app_io" where
  "insert_session node_id peer kind t c = io_update (\<lambda>a. a\<lparr>ap_sessions :=
     AList.update node_id (ManagedSession (ap_next_token a) node_id peer kind t c) (ap_sessions a),
     ap_next_token := ap_next_token a + 1\<rparr>)"

definition open_session ::
  "('t, 'w) app_env \<Rightarrow> pystr \<Rightarrow> pystr \<Rightarrow> transport_kind \<Rightarrow> 't \<Rightarrow> ('t, 'w, unit) app_io" where
  "open_session e node_id peer kind t =
     io_bind (on_index (add_session node_id kind peer)) (\<lambda>_.
     io_bind (io_get ap_recording_active) (\<lambda>recording_active.
     io_bind (io_lift (new_acquisition recording_active)) (\<lambda>c. io_seq
       [insert_session node_id peer kind t c,
        (\<lambda>a. io_when (ap_selected_node_id a = None) (select_node e node_id) a),
        io_update (\<lambda>a. a\<lparr>ap_timer := True, ap_status_timer := True\<rparr>),
        emit (ConnectionChanged True peer), emit_nodes])))"

text \<open>\<^verbatim>\<open>transport.close()\<close> on a transport that belongs to no session.\<close>

definition close_transport :: "('t, 'w) app_env \<Rightarrow> 't \<Rightarrow> ('t, 'w, unit) app_io" where
  "close_transport e t = io_lift (fst (tp_close (ae_transport e) t))"

definition cdc_node_id :: "pystr \<Rightarrow> pystr" where
  "cdc_node_id device_id = lit ''cdc:'' @ device_id"

definition connect_device :: "('t, 'w) app_env \<Rightarrow> pystr \<Rightarrow> ('t, 'w, unit) app_io" where
  "connect_device e device_id a =
     (if is_wifi_server_running a then raise_error ''stop the Wi-Fi listener before opening CDC'' a
      else if ap_sessions a \<noteq> [] then raise_error ''disconnect current sessions before opening CDC'' a
      else case ae_transport_open e device_id (ae_transport_factory e) of (opened, t) \<Rightarrow>
        io_catch is_common_error
          (io_bind (io_lift opened) (\<lambda>_. open_session e (cdc_node_id device_id) device_id CDC t))
          (\<lambda>x. io_seq [close_transport e t, report_exn x, emit (ConnectionChanged False device_id)]) a)"

definition accept_gateway_client :: "('t, 'w) app_env \<Rightarrow> pystr \<Rightarrow> pystr \<Rightarrow> 't \<Rightarrow> ('t, 'w, unit) app_io" where
  "accept_gateway_client e connection_id peer t a =
     (if list_ex (\<lambda>(k, s). ms_transport_kind s = CDC) (ap_sessions a)
      then io_seq [close_transport e t, release_gateway_client connection_id,
                   raise_error ''disconnect CDC before accepting Wi-Fi gateways''] a
      else io_catch (\<lambda>x. is_runtime_error x \<or> is_value_error x)
        (open_session e connection_id peer WIFI t)
        (\<lambda>x. io_seq [close_transport e t, release_gateway_client connection_id, report_exn x]) a)"

text \<open>The client of a listener that is not the current one is released at that listener.\<close>

definition accept_gateway_envelope ::
  "('t, 'w) app_env \<Rightarrow> nat \<Rightarrow> pystr \<Rightarrow> pystr \<Rightarrow> 't \<Rightarrow> ('t, 'w, unit) app_io" where
  "accept_gateway_envelope e source connection_id peer t a =
     (if map_option fst (ap_gateway_listener a) \<noteq> Some source then close_transport e t a
      else accept_gateway_client e connection_id peer t a)"

section \<open>The end of sessions\<close>

definition teardown_ota_worker :: "('t, 'w, unit) app_io" where
  "teardown_ota_worker = io_update (\<lambda>a. a\<lparr>ap_ota_worker := None, ap_ota_cancel_event := None\<rparr>)"

definition clear_ota_context :: "('t, 'w, unit) app_io" where
  "clear_ota_context = io_update (\<lambda>a. a\<lparr>ap_ota_context := None, ap_ota_node_id := None\<rparr>)"

definition finalize_in_place :: "('t, 'w) app_env \<Rightarrow> pystr \<Rightarrow> ('t, 'w, unit) app_io" where
  "finalize_in_place e k =
     io_bind (on_session k (\<lambda>s. case finalize_session_recorders e (s, []) of (r, s', sigs) \<Rightarrow> (Inr (r, sigs), s')))
       (\<lambda>(r, sigs). io_bind (io_for sigs emit) (\<lambda>_. io_lift r))"

definition close_session :: "('t, 'w) app_env \<Rightarrow> pystr \<Rightarrow> ('t, 'w, unit) app_io" where
  "close_session e k = on_session k (io_seq
     [update_disconnect_metadata (lit ''user_disconnect''), io_update (\<lambda>s. s\<lparr>ms_stop_event := True\<rparr>),
      on_transport (tp_close (ae_transport e))])"

definition join_session :: "('t, 'w) app_env \<Rightarrow> pystr \<Rightarrow> ('t, 'w, unit) app_io" where
  "join_session e k = io_seq
     [io_when (\<not> ae_thread_stops e k) (raise_error ''acquisition thread for {} did not stop within three seconds''),
      finalize_in_place e k, on_index (\<lambda>m. (Inr (), remove_node k m))]"

definition disconnect_device :: "('t, 'w) app_env \<Rightarrow> ('t, 'w, unit) app_io" where
  "disconnect_device e = io_seq
     [io_update (\<lambda>a. a\<lparr>ap_is_stopping := True\<rparr>), stop_wifi_resources e,
      io_update (\<lambda>a. a\<lparr>ap_timer := False, ap_status_timer := False, ap_ota_reconnect_timer := False,
        ap_ota_reconnect := None, ap_ota_cancel_event := map_option (\<lambda>_. True) (ap_ota_cancel_event a)\<rparr>),
      (\<lambda>a. io_for (session_keys a) (close_session e) a), (\<lambda>a. io_for (session_keys a) (join_session e) a),
      teardown_ota_worker, clear_ota_context,
      io_update (\<lambda>a. a\<lparr>ap_sessions := [], ap_selected_node_id := None, ap_recording_active := False,
        ap_recording_batch_path := None, ap_is_stopping := False\<rparr>),
      emit_nodes, emit (ConnectionChanged False []), emit DisplayClearRequested]"

definition stop_wifi_server :: "('t, 'w) app_env \<Rightarrow> ('t, 'w, unit) app_io" where
  "stop_wifi_server e = io_seq
     [stop_wifi_resources e, (\<lambda>a. io_when (ap_sessions a \<noteq> []) (disconnect_device e) a),
      emit (WifiServerChanged False (lit ''DISCONNECTED''))]"

definition on_worker_failed :: "pystr \<Rightarrow> pystr \<Rightarrow> ('t, 'w, unit) app_io" where
  "on_worker_failed k message a =
     (let ota_inflight = (case ap_ota_context a of None \<Rightarrow> False | Some c \<Rightarrow> oc_node_id c = k);
          awaiting_restart = (case get_session k a of None \<Rightarrow> False | Some s \<Rightarrow> ms_ota_awaiting_restart s)
      in io_seq
        [io_when (get_session k a \<noteq> None) (on_session k (io_seq
           [io_update (\<lambda>s. s\<lparr>ms_failure := Some message\<rparr>), update_disconnect_metadata message])),
         io_when (\<not> ap_is_stopping a \<and> \<not> ota_inflight \<and> \<not> awaiting_restart)
           (emit (ErrorRaised (Composed message)))] a)"

definition after_last_session :: "('t, 'w, unit) app_io" where
  "after_last_session a = io_seq
     [io_update (\<lambda>a. a\<lparr>ap_timer := False, ap_status_timer := False\<rparr>),
      emit (if is_wifi_server_running a then WifiServerChanged True (ap_wifi_server_label a)
            else ConnectionChanged False []),
      emit DisplayClearRequested] a"

text \<open>What happens once the session \<open>s\<close> is popped from the dictionary.\<close>

definition session_gone :: "('t, 'w) app_env \<Rightarrow> pystr \<Rightarrow> 't managed_session \<Rightarrow> ('t, 'w, unit) app_io" where
  "session_gone e k s =
     (case finalize_session_recorders e (s, []) of (r, s', sigs) \<Rightarrow>
        io_bind (io_for sigs emit) (\<lambda>_. io_bind (io_lift r) (\<lambda>_ a. io_seq
          [if ms_transport_kind s = WIFI
           then io_seq [release_gateway_client k, on_index (mark_reconnecting k (ms_failure s))]
           else on_index (mark_offline k (ms_failure s)),
           io_when (ap_selected_node_id a = Some k) (io_update (\<lambda>a. a\<lparr>ap_selected_node_id :=
             (case session_keys a of [] \<Rightarrow> None | k' # _ \<Rightarrow> Some k')\<rparr>)),
           emit_nodes,
           io_when (ap_selected_node_id a = Some k) (\<lambda>a. emit (SelectedNodeChanged
             (case ap_selected_node_id a of None \<Rightarrow> [] | Some k' \<Rightarrow> k')) a),
           (\<lambda>a. io_when (ap_sessions a = []) after_last_session a)] a)))"

definition on_thread_finished :: "('t, 'w) app_env \<Rightarrow> pystr \<Rightarrow> ('t, 'w, unit) app_io" where
  "on_thread_finished e k a =
     (if ap_is_stopping a then (Inr (), a)
      else case get_session k a of
        None \<Rightarrow> (Inr (), a)
      | Some s \<Rightarrow> session_gone e k s (a\<lparr>ap_sessions := AList.delete k (ap_sessions a)\<rparr>))"

text \<open>The queued callbacks of a worker reach the slots only while its session is the one in the dictionary.\<close>

definition for_live_session :: "nat \<Rightarrow> pystr \<Rightarrow> ('t, 'w, unit) app_io \<Rightarrow> ('t, 'w, unit) app_io" where
  "for_live_session token k m a =
     (case get_session k a of
        None \<Rightarrow> (Inr (), a) | Some s \<Rightarrow> if ms_token s = token then m a else (Inr (), a))"

definition remove_offline_node :: "pystr \<Rightarrow> ('t, 'w, unit) app_io" where
  "remove_offline_node k a =
     (if get_session k a \<noteq> None then raise_error ''cannot remove a connected device'' a
      else case session_summary k (ap_session_index a) of
        Inl x \<Rightarrow> if is_key_error x then raise_error ''unknown node: {}'' a else (Inl x, a)
      | Inr n \<Rightarrow>
          if ns_transport_kind n \<noteq> WIFI \<or> ns_connection_state n \<notin> {OFFLINE, RECONNECTING}
          then raise_error ''only disconnected Wi-Fi devices can be removed'' a
          else io_seq [on_index (\<lambda>m. (Inr (), remove_node k m)), emit_nodes] a)"

section \<open>Commands\<close>

text \<open>
  \<^verbatim>\<open>command.strip().upper().startswith("AT+EXPORT")\<close>: beside the ASCII letters, one character has an upper
  case that begins with a letter at a place where the prefix may end: U+1E97, a small t with diaeresis.
\<close>

definition is_export_command :: "pystr \<Rightarrow> bool" where
  "is_export_command command \<longleftrightarrow>
     take 9 (upper_target (str_strip command)) \<in> {lit ''AT+EXPORT'', lit ''AT+EXPOR'' @ [0x1e97]}"

definition send_command_to :: "('t, 'w) app_env \<Rightarrow> pystr \<Rightarrow> pystr \<Rightarrow> ('t, 'w, unit) app_io" where
  "send_command_to e k command = with_session k (\<lambda>_. io_catch is_common_error
     (io_seq
       [io_when (is_export_command command) (io_bind (start_archive_recording e k) (\<lambda>_. io_return ())),
        acquisition k (enqueue_command command)])
     report_exn)"

text \<open>A slot that acts on the selected node.\<close>

definition for_selected ::
  "('t, 'w, unit) app_io \<Rightarrow> (pystr \<Rightarrow> ('t, 'w, unit) app_io) \<Rightarrow> ('t, 'w, unit) app_io" where
  "for_selected otherwise f a = (case ap_selected_node_id a of None \<Rightarrow> otherwise a | Some k \<Rightarrow> f k a)"

definition send_command :: "('t, 'w) app_env \<Rightarrow> pystr \<Rightarrow> ('t, 'w, unit) app_io" where
  "send_command e command =
     for_selected (raise_error ''select a connected node before sending commands'')
       (\<lambda>k. send_command_to e k command)"

definition start_acquisition_for :: "pystr \<Rightarrow> ('t, 'w, unit) app_io" where
  "start_acquisition_for k = with_session k (\<lambda>s.
     if ms_ota_active s \<or> ms_ota_awaiting_restart s
     then raise_error ''OTA in progress; acquisition start is blocked''
     else acquisition k start_acquisition)"

definition start_selected_acquisition :: "('t, 'w, unit) app_io" where
  "start_selected_acquisition =
     for_selected (raise_error ''select a connected node before starting acquisition'') start_acquisition_for"

definition stop_acquisition_for :: "pystr \<Rightarrow> ('t, 'w, unit) app_io" where
  "stop_acquisition_for k = with_session k (\<lambda>_. acquisition k stop_acquisition)"

definition stop_selected_acquisition :: "('t, 'w, unit) app_io" where
  "stop_selected_acquisition =
     for_selected (raise_error ''select a connected node before stopping acquisition'') stop_acquisition_for"

definition set_watermark_for :: "pystr \<Rightarrow> int \<Rightarrow> ('t, 'w, unit) app_io" where
  "set_watermark_for k words = with_session k (\<lambda>_.
     io_catch is_value_error (acquisition k (Acquisition.set_watermark words)) report_exn)"

definition set_selected_watermark :: "int \<Rightarrow> ('t, 'w, unit) app_io" where
  "set_selected_watermark words = for_selected (io_return ()) (\<lambda>k. set_watermark_for k words)"

definition set_livestream_for :: "pystr \<Rightarrow> pystr \<Rightarrow> ('t, 'w, unit) app_io" where
  "set_livestream_for k target = with_session k (\<lambda>_.
     io_catch is_value_error (acquisition k (Acquisition.set_livestream target)) report_exn)"

definition set_selected_livestream :: "pystr \<Rightarrow> ('t, 'w, unit) app_io" where
  "set_selected_livestream target =
     for_selected (raise_error ''select a connected node before choosing a live target'')
       (\<lambda>k. set_livestream_for k target)"

definition request_selected_livestream :: "('t, 'w, unit) app_io" where
  "request_selected_livestream = for_selected (io_return ()) (\<lambda>k a.
     io_when (get_session k a \<noteq> None) (acquisition k Acquisition.request_livestream) a)"

definition request_status_all :: "('t, 'w, unit) app_io" where
  "request_status_all a = io_for (session_keys a) (\<lambda>k. acquisition k Acquisition.request_status) a"

definition is_running :: "(pystr \<Rightarrow> bool) \<Rightarrow> ('t, 'w) app \<Rightarrow> bool" where
  "is_running thread_running a = list_ex (\<lambda>(k, s). thread_running k) (ap_sessions a)"

section \<open>Storage records\<close>

record sd_record_info =
  si_node_id :: pystr
  si_alias :: pystr
  si_uuid_suffix :: pystr
  si_transport :: pystr
  si_sd_ready :: cs_value
  si_sd_format_required :: cs_value
  si_used_bytes :: cs_value
  si_capacity_bytes :: cs_value
  si_retained_frames :: cs_value
  si_retained_chunks :: cs_value
  si_overwritten_frames :: cs_value
  si_estimated_duration_s :: "float64 option"
  si_export_phase :: cs_value

definition sd_record :: "('t, 'w) app_env \<Rightarrow> session_manager \<Rightarrow> 't managed_session \<Rightarrow> sd_record_info res" where
  "sd_record e index s =
     rbind (session_summary (ms_node_id s) index) (\<lambda>n. rbind (control_of e s) (\<lambda>state.
       let get = (\<lambda>f. case state of None \<Rightarrow> VNone | Some c \<Rightarrow> c f)
       in Inr \<lparr>si_node_id = ms_node_id s, si_alias = ns_alias n,
            si_uuid_suffix = (case ns_device_uuid n of
              Some u \<Rightarrow> drop (length (uuid_text u) - 8) (uuid_text u) | None \<Rightarrow> lit ''PENDING''),
            si_transport = kind_value (ms_transport_kind s), si_sd_ready = get ''sd_ready'',
            si_sd_format_required = get ''sd_format_required'', si_used_bytes = get ''sd_used'',
            si_capacity_bytes = get ''sd_capacity'', si_retained_frames = get ''sd_retained_frames'',
            si_retained_chunks = get ''sd_retained_chunks'',
            si_overwritten_frames = get ''sd_overwritten_frames'',
            si_estimated_duration_s = (case get ''sd_retained_frames'' of
              VInt n \<Rightarrow> Some (fdiv (fl (of_nat n)) IIS_SAMPLE_RATE_HZ) | _ \<Rightarrow> None),
            si_export_phase = get ''export_phase''\<rparr>))"

fun res_list :: "'a res list \<Rightarrow> 'a list res" where
  "res_list [] = Inr []"
| "res_list (x # xs) = rbind x (\<lambda>v. rbind (res_list xs) (\<lambda>vs. Inr (v # vs)))"

definition sd_records :: "('t, 'w) app_env \<Rightarrow> ('t, 'w) app \<Rightarrow> sd_record_info list res" where
  "sd_records e a = res_list (map (\<lambda>(k, s). sd_record e (ap_session_index a) s) (ap_sessions a))"

section \<open>The periodic slots\<close>

fun consume_updates :: "('t, 'w) app_env \<Rightarrow> pystr \<Rightarrow> nat list \<Rightarrow> ('t, 'w, unit) app_io" where
  "consume_updates e k [] = io_return ()"
| "consume_updates e k (u # us) =
     io_try (\<lambda>x. case x of DuplicateDeviceError _ \<Rightarrow> True | _ \<Rightarrow> False) (on_index (bind_identity k u))
       (\<lambda>x. io_seq
         [on_session k (io_seq
            [io_update (\<lambda>s. s\<lparr>ms_failure := Some (exn_text x), ms_stop_event := True\<rparr>),
             on_transport (tp_close (ae_transport e))]),
          report_exn x])
       (\<lambda>_. io_bind (the_session k) (\<lambda>s. io_bind (io_get ap_recording_active) (\<lambda>recording_active. io_seq
         [io_when (recording_active \<and> \<not> ms_recording s) (start_session_recording e k),
          emit_nodes, consume_updates e k us])))"

definition consume_identity_updates :: "('t, 'w) app_env \<Rightarrow> pystr \<Rightarrow> ('t, 'w, unit) app_io" where
  "consume_identity_updates e k =
     io_bind (acquisition k (\<lambda>c. case drain_identity_updates c of (us, c') \<Rightarrow> (Inr us, c'))) (consume_updates e k)"

definition publish_responses :: "pystr \<Rightarrow> ('t, 'w, unit) app_io" where
  "publish_responses k =
     io_bind (acquisition k (\<lambda>c. case drain_cli_responses c of (rs, c') \<Rightarrow> (Inr rs, c'))) (\<lambda>responses. io_seq
       [io_for responses (\<lambda>r. emit (CliResponseFrom k r)),
        (\<lambda>a. io_when (ap_selected_node_id a = Some k) (io_for responses (\<lambda>r. emit (CliResponse r))) a)])"

definition publish_snapshots :: "('t, 'w) app_env \<Rightarrow> ('t, 'w, unit) app_io" where
  "publish_snapshots e = io_seq
     [\<lambda>a. io_for (session_keys a) (\<lambda>k. io_seq
        [consume_identity_updates e k, publish_responses k, finalize_completed_export e k,
         watchdog_stalled_export e k]) a,
      publish_selected_session e]"

definition request_status_idle :: "('t, 'w, unit) app_io" where
  "request_status_idle a = io_for (session_keys a) (\<lambda>k. io_bind (the_session k) (\<lambda>s.
     io_when (\<not> ms_exporting s \<and> \<not> ms_ota_active s) (acquisition k Acquisition.request_status))) a"

end
