(* ===== verification/AppOta.thy ===== *)
theory AppOta
  imports AppSessions OtaUploader OtaLink
begin

text \<open>
  \<^verbatim>\<open>presentation/app_controller.py\<close>, fourth part: firmware updates. The guards and the start of an upload,
  the signals of its worker, and the wait for the device to come back.
\<close>

section \<open>Texts\<close>

definition SOURCE_REJECTED_TEXT :: pystr where
  "SOURCE_REJECTED_TEXT = lit ''OTA '' @ [0x4ec5, 0x652f, 0x6301] @ lit '' UART '' @ [0x6765, 0x6e90, 0x94fe, 0x8def, 0xff08] @ lit ''Wi-Fi '' @ [0x7f51, 0x5173, 0xff09, 0xff1b] @ lit ''CDC '' @ [0x4f1a, 0x8bdd, 0x4f1a, 0x88ab, 0x56fa, 0x4ef6, 0x4ee5] @ lit '' ERROR:SOURCE '' @ [0x62d2, 0x7edd]"
definition STOPPING_TEXT :: pystr where
  "STOPPING_TEXT = [0x8bbe, 0x5907, 0x6b63, 0x5728, 0x91c7, 0x96c6, 0xff0c, 0x56fa, 0x4ef6, 0x5c06, 0x5148, 0x505c, 0x6b62, 0x91c7, 0x96c6, 0x518d, 0x8fdb, 0x5165] @ lit '' OTA''"
definition START_TEXT :: pystr where
  "START_TEXT = [0x5f00, 0x59cb, 0x4e0a, 0x4f20] @ lit '' ''"
definition WAIT_RESTART_TEXT :: pystr where
  "WAIT_RESTART_TEXT = [0x955c, 0x50cf, 0x5df2, 0x6682, 0x5b58, 0xff0c, 0x8bbe, 0x5907, 0x5c06, 0x81ea, 0x52a8, 0x590d, 0x4f4d, 0x5e76, 0x4ece] @ lit '' SD '' @ [0x5b89, 0x88c5, 0xff1b, 0x7b49, 0x5f85, 0x8bbe, 0x5907, 0x91cd, 0x542f, 0x2026]"
definition CANCELLED_TEXT :: pystr where
  "CANCELLED_TEXT = [0x5df2, 0x53d1, 0x9001] @ lit '' CANCEL'' @ [0xff0c] @ lit ''OTA '' @ [0x4f1a, 0x8bdd, 0x5df2, 0x53d6, 0x6d88]"
definition TIMEOUT_TEXT :: pystr where
  "TIMEOUT_TEXT = [0x8bbe, 0x5907, 0x590d, 0x4f4d, 0x540e, 0x672a, 0x5728, 0x9884, 0x671f, 0x65f6, 0x95f4, 0x5185, 0x91cd, 0x8fde]"
definition RECONNECTED_TEXT :: pystr where
  "RECONNECTED_TEXT = [0x8bbe, 0x5907, 0x5df2, 0x91cd, 0x8fde, 0xff0c] @ lit ''OTA '' @ [0x72b6, 0x6001] @ lit '' OFF'' @ [0xff0c, 0x5b9e, 0x65f6, 0x6d41, 0x6062, 0x590d]"

definition mismatch_text :: "pystr \<Rightarrow> pystr \<Rightarrow> pystr \<Rightarrow> pystr \<Rightarrow> pystr" where
  "mismatch_text staged_version staged_crc version crc =
     [0x8bbe, 0x5907, 0x56de, 0x8bfb, 0x7684] @ lit '' STAGED '' @ [0x4e0e, 0x672c, 0x5730, 0x5305, 0x4e0d, 0x4e00, 0x81f4, 0xff08, 0x8bbe, 0x5907] @ lit '' '' @ staged_version @ [47] @ staged_crc @
     lit '' vs '' @ [0x672c, 0x5730] @ lit '' '' @ version @ [47] @ crc @ [0xff09]"

definition failed_text :: "pystr option \<Rightarrow> pystr \<Rightarrow> pystr" where
  "failed_text code message =
     (case code of
        None \<Rightarrow> lit ''OTA '' @ [0x5931, 0x8d25, 0xff1a] @ message
      | Some c \<Rightarrow> lit ''OTA '' @ [0x5931, 0x8d25, 0xff1a] @ describe_nack (Some c) @ [0xff08] @ message @ [0xff09])"

section \<open>The upload worker\<close>

definition OTA_ACK_TIMEOUT_S :: float64 where "OTA_ACK_TIMEOUT_S = 2"
definition OTA_COMMIT_TIMEOUT_S :: float64 where "OTA_COMMIT_TIMEOUT_S = 30"

datatype ota_worker_signal = Staged staged_summary | Failed "pystr option" pystr | Cancelled

text \<open>
  \<^verbatim>\<open>OtaUploadWorker.run\<close> over a transport: the one signal that ends it. The retries are the uploader's default.
\<close>

definition OtaUploadWorker_run ::
  "int \<Rightarrow> 'w upload_transport \<Rightarrow> bytes \<Rightarrow> 'w \<Rightarrow> ota_worker_signal res \<times> 'w" where
  "OtaUploadWorker_run max_retries transport package w =
     (case OtaUploader_init max_retries OTA_ACK_TIMEOUT_S OTA_COMMIT_TIMEOUT_S of
        Inl x \<Rightarrow> (Inl x, w)
      | Inr uploader \<Rightarrow>
          (case upload uploader package transport TARGET_ID w of
             (Inr result, w') \<Rightarrow> (Inr (Staged result), w')
           | (Inl OtaUploadCancelled, w') \<Rightarrow> (Inr Cancelled, w')
           | (Inl (OtaUploadError m code), w') \<Rightarrow> (Inr (Failed code (lit m)), w')
           | (Inl x, w') \<Rightarrow> (Inr (Failed None (exn_text x)), w')))"

section \<open>Start\<close>

definition ota_active_node :: "('t, 'w) app \<Rightarrow> pystr option" where
  "ota_active_node a = ap_ota_node_id a"

definition ota_in_progress :: "pystr \<Rightarrow> ('t, 'w) app \<Rightarrow> bool" where
  "ota_in_progress k a \<longleftrightarrow>
     (case get_session k a of None \<Rightarrow> False | Some s \<Rightarrow> ms_ota_active s \<or> ms_ota_awaiting_restart s) \<or>
     ap_ota_node_id a = Some k"

text \<open>A package that is already built, or a file to load; the label names it.\<close>

definition chosen_package :: "ota_package + path_file \<Rightarrow> ota_package res" where
  "chosen_package package = (case package of Inl p \<Rightarrow> Inr p | Inr path \<Rightarrow> load_package path)"

definition package_label :: "ota_package + path_file \<Rightarrow> ota_package \<Rightarrow> pystr" where
  "package_label package p =
     (case package of Inr path \<Rightarrow> pf_name path | Inl _ \<Rightarrow> version_text p @ lit '' (auto-packaged)'')"

definition launch_ota :: "pystr \<Rightarrow> ota_package + path_file \<Rightarrow> ota_package \<Rightarrow> ('t, 'w, unit) app_io" where
  "launch_ota k package p =
     io_bind (summary_of k) (\<lambda>n. io_bind (the_session k) (\<lambda>s. io_seq
       [update_session k (\<lambda>s. s\<lparr>ms_ota_active := True\<rparr>),
        io_update (\<lambda>a. a\<lparr>ap_ota_node_id := Some k, ap_ota_cancel_event := Some False, ap_ota_context := Some
          \<lparr>oc_node_id = k, oc_kind = ms_transport_kind s, oc_device_uuid = ns_device_uuid n,
           oc_device_id = ms_peer s, oc_version = version_text p, oc_crc = crc_text p\<rparr>\<rparr>),
        acquisition_update k start_ota,
        io_update (\<lambda>a. a\<lparr>ap_ota_worker := Some (k, op_data p)\<rparr>),
        emit (OtaState k ''STARTED'' (Composed (START_TEXT @ package_label package p))),
        emit_ota_availability]))"

definition start_ota_for ::
  "('t, 'w) app_env \<Rightarrow> pystr \<Rightarrow> ota_package + path_file \<Rightarrow> ('t, 'w, unit) app_io" where
  "start_ota_for e k package = with_session k (\<lambda>s a.
     if ms_transport_kind s \<noteq> WIFI
     then io_seq [emit (OtaState k ''SOURCE_REJECTED'' (Composed SOURCE_REJECTED_TEXT)),
                  emit (ErrorRaised (Composed SOURCE_REJECTED_TEXT))] a
     else if ap_ota_node_id a \<noteq> None then raise_error ''an OTA session is already in progress'' a
     else if ms_exporting s then raise_error ''cancel the active export before starting OTA'' a
     else if ap_recording_active a then raise_error ''stop recording before starting OTA'' a
     else io_bind (session_control e k) (\<lambda>state.
       case state of
         None \<Rightarrow> raise_error ''refresh device status before starting OTA''
       | Some c \<Rightarrow>
           if \<not> cs_true (c ''sd_ready'') \<or> cs_true (c ''sd_format_required'')
           then raise_error ''device SD must be READY and not require format before OTA''
           else case chosen_package package of
             Inl x \<Rightarrow>
               if (case x of OtaPackageError _ \<Rightarrow> True | _ \<Rightarrow> is_os_error x)
               then io_seq [emit (OtaState k ''PACKAGE_REJECTED'' (TextOf x)), report_exn x]
               else io_raise x
           | Inr p \<Rightarrow> io_seq
               [io_when (c ''acquisition_state'' = VStr (lit ''ACQUIRE''))
                  (emit (OtaState k ''STOPPING_ACQUISITION'' (Composed STOPPING_TEXT))),
                launch_ota k package p]) a)"

definition cancel_ota_for :: "pystr \<Rightarrow> ('t, 'w, unit) app_io" where
  "cancel_ota_for k a =
     (if ap_ota_node_id a = Some k then (Inr (), a\<lparr>ap_ota_cancel_event := map_option (\<lambda>_. True) (ap_ota_cancel_event a)\<rparr>)
      else (Inr (), a))"

section \<open>The signals of the worker\<close>

definition on_ota_progress :: "pystr \<Rightarrow> nat \<Rightarrow> nat \<Rightarrow> pystr \<Rightarrow> ('t, 'w, unit) app_io" where
  "on_ota_progress k sent_bytes total_bytes phase = emit (OtaProgress k sent_bytes total_bytes phase)"

definition arm_ota_reconnect :: "('t, 'w) app_env \<Rightarrow> ('t, 'w, unit) app_io" where
  "arm_ota_reconnect e a =
     (case ap_ota_context a of
        None \<Rightarrow> (Inr (), a)
      | Some c \<Rightarrow> (Inr (), a\<lparr>ap_ota_reconnect := Some
          \<lparr>or_kind = oc_kind c, or_device_uuid = oc_device_uuid c, or_device_id = oc_device_id c,
           or_node_id = oc_node_id c, or_deadline_s = fadd (ae_now e) OTA_RECONNECT_TIMEOUT_S\<rparr>,
          ap_ota_reconnect_timer := True\<rparr>))"

text \<open>The versions and checksums compared: what the device staged, and what the context remembers.\<close>

definition staged_texts :: "staged_summary \<Rightarrow> pystr \<times> pystr" where
  "staged_texts r =
     (case ss_staged_version r of None \<Rightarrow> [] | Some v \<Rightarrow> v,
      case ss_staged_crc r of None \<Rightarrow> [] | Some c \<Rightarrow> format_crc c)"

definition expected_texts :: "('t, 'w) app \<Rightarrow> pystr \<times> pystr" where
  "expected_texts a = (case ap_ota_context a of None \<Rightarrow> ([], []) | Some c \<Rightarrow> (oc_version c, oc_crc c))"

definition on_ota_staged :: "('t, 'w) app_env \<Rightarrow> pystr \<Rightarrow> staged_summary \<Rightarrow> ('t, 'w, unit) app_io" where
  "on_ota_staged e k r a =
     (let (version, crc) = staged_texts r; (expected_version, expected_crc) = expected_texts a;
          matches = (version = expected_version \<and> crc = expected_crc)
      in io_seq
        [io_when (get_session k a \<noteq> None) (update_session k (\<lambda>s. s\<lparr>ms_ota_active := False,
           ms_ota_awaiting_restart := True, ms_acquisition := end_ota (ms_acquisition s)\<rparr>)),
         emit (OtaStaged k version crc matches),
         io_when (\<not> matches) (emit (ErrorRaised (Composed (mismatch_text version crc expected_version expected_crc)))),
         emit (OtaState k ''WAIT_RESTART'' (Composed WAIT_RESTART_TEXT)),
         teardown_ota_worker, arm_ota_reconnect e, emit_ota_availability] a)"

text \<open>A session whose upload has ended without an image.\<close>

definition release_ota_session :: "pystr \<Rightarrow> ('t, 'w, unit) app_io" where
  "release_ota_session k a =
     io_when (get_session k a \<noteq> None) (update_session k (\<lambda>s. s\<lparr>ms_ota_active := False,
       ms_acquisition := end_ota (ms_acquisition s)\<rparr>)) a"

definition on_ota_failed :: "pystr \<Rightarrow> pystr option \<Rightarrow> pystr \<Rightarrow> ('t, 'w, unit) app_io" where
  "on_ota_failed k code message =
     (let code' = (case code of Some c \<Rightarrow> if c = [] then None else Some c | None \<Rightarrow> None);
          detail = (case code' of None \<Rightarrow> message | Some c \<Rightarrow> describe_nack (Some c))
      in io_seq
        [release_ota_session k, teardown_ota_worker, clear_ota_context,
         emit (OtaState k ''FAILED'' (Composed detail)),
         emit (ErrorRaised (Composed (failed_text code' message))), emit_ota_availability])"

definition on_ota_cancelled :: "pystr \<Rightarrow> ('t, 'w, unit) app_io" where
  "on_ota_cancelled k = io_seq
     [release_ota_session k, teardown_ota_worker, clear_ota_context,
      emit (OtaState k ''CANCELLED'' (Composed CANCELLED_TEXT)), emit_ota_availability]"

definition on_ota_signal :: "('t, 'w) app_env \<Rightarrow> pystr \<Rightarrow> ota_worker_signal \<Rightarrow> ('t, 'w, unit) app_io" where
  "on_ota_signal e k sig =
     (case sig of Staged r \<Rightarrow> on_ota_staged e k r | Failed code m \<Rightarrow> on_ota_failed k code m
      | Cancelled \<Rightarrow> on_ota_cancelled k)"

section \<open>The wait for the device\<close>

definition finish_ota_reconnect :: "string \<Rightarrow> pystr \<Rightarrow> ('t, 'w, unit) app_io" where
  "finish_ota_reconnect status detail a =
     (let node_id = (case ap_ota_reconnect a of
            Some i \<Rightarrow> or_node_id i
          | None \<Rightarrow> (case ap_ota_node_id a of Some k \<Rightarrow> k | None \<Rightarrow> []))
      in io_seq
        [io_update (\<lambda>a. a\<lparr>ap_ota_reconnect_timer := False, ap_ota_reconnect := None\<rparr>), clear_ota_context,
         emit (OtaState node_id status (Composed detail)),
         io_when (status \<noteq> ''RECONNECTED'') (emit (ErrorRaised (Composed detail))),
         emit_ota_availability] a)"

definition attempt_ota_cdc_reopen :: "('t, 'w) app_env \<Rightarrow> pystr \<Rightarrow> ('t, 'w, unit) app_io" where
  "attempt_ota_cdc_reopen e device_id a =
     (if device_id = [] \<or> ap_sessions a \<noteq> [] \<or> is_wifi_server_running a then (Inr (), a)
      else case ae_transport_open e device_id (ae_transport_factory e) of
        (Inl x, t) \<Rightarrow> if is_common_error x then close_transport e t a else (Inl x, a)
      | (Inr _, t) \<Rightarrow> open_session e (cdc_node_id device_id) device_id CDC t a)"

text \<open>The loop over the sessions; it ends at the first device found with its OTA off.\<close>

fun poll_sessions :: "('t, 'w) app_env \<Rightarrow> nat option \<Rightarrow> pystr list \<Rightarrow> ('t, 'w, unit) app_io" where
  "poll_sessions e expected_uuid [] = io_return ()"
| "poll_sessions e expected_uuid (k # ks) =
     io_bind (summary_of k) (\<lambda>n.
       if ns_connection_state n \<notin> {CONNECTED, STREAMING} then poll_sessions e expected_uuid ks
       else if expected_uuid \<noteq> None \<and> ns_device_uuid n \<noteq> expected_uuid then poll_sessions e expected_uuid ks
       else io_bind (acquisition k Acquisition.request_status) (\<lambda>_.
            io_bind (session_control e k) (\<lambda>state.
              case state of
                None \<Rightarrow> poll_sessions e expected_uuid ks
              | Some c \<Rightarrow>
                  if c ''ota_state'' \<in> {VNone, VStr (lit ''OFF'')}
                  then finish_ota_reconnect ''RECONNECTED'' RECONNECTED_TEXT
                  else poll_sessions e expected_uuid ks)))"

definition poll_ota_reconnect :: "('t, 'w) app_env \<Rightarrow> ('t, 'w, unit) app_io" where
  "poll_ota_reconnect e a =
     (case ap_ota_reconnect a of
        None \<Rightarrow> (Inr (), a\<lparr>ap_ota_reconnect_timer := False\<rparr>)
      | Some info \<Rightarrow>
          if or_deadline_s info < ae_now e then finish_ota_reconnect ''RECONNECT_TIMEOUT'' TIMEOUT_TEXT a
          else io_seq
            [io_when (or_kind info = CDC \<and> ap_sessions a = []) (attempt_ota_cdc_reopen e (or_device_id info)),
             (\<lambda>a. poll_sessions e (or_device_uuid info) (session_keys a) a)] a)"

end
