(* ===== verification/Connection.thy ===== *)
theory Connection
  imports Acquisition
begin

text \<open>
  What every step of a connection's threads keeps, whatever the device sends: an attached recorder stays
  attached and active, the firmware state keeps its types, and identities are 128-bit integers. The
  application relies on it for the recorders it has handed to a connection.
\<close>

definition live :: "recorder option \<Rightarrow> bool" where
  "live x \<longleftrightarrow> (case x of None \<Rightarrow> True | Some r \<Rightarrow> rc_is_active r)"

definition conn_ok :: "controller \<Rightarrow> bool" where
  "conn_ok c \<longleftrightarrow> live (ac_recorder c) \<and> live (ac_archive_recorder c) \<and>
     control_state_ok (ac_control_state c) \<and> list_all (\<lambda>u. u < 2 ^ 128) (ac_identity_updates c)"

definition conn_step :: "controller \<Rightarrow> controller \<Rightarrow> bool" where
  "conn_step c c' \<longleftrightarrow> (conn_ok c \<longrightarrow> conn_ok c') \<and> (ac_recorder c' = None \<longleftrightarrow> ac_recorder c = None) \<and>
     (ac_archive_recorder c' = None \<longleftrightarrow> ac_archive_recorder c = None)"

lemma live_simps [simp]: "live None" "live (Some r) \<longleftrightarrow> rc_is_active r"
  by (simp_all add: live_def)

lemma conn_step_refl [simp, intro]: "conn_step c c"
  by (simp add: conn_step_def)

lemma conn_step_trans: "conn_step c c1 \<Longrightarrow> conn_step c1 c2 \<Longrightarrow> conn_step c c2"
  by (auto simp: conn_step_def)

lemma conn_step_ok: "conn_step c c' \<Longrightarrow> conn_ok c \<Longrightarrow> conn_ok c'"
  by (simp add: conn_step_def)

text \<open>A change of fields the conditions do not mention.\<close>

definition same_core :: "controller \<Rightarrow> controller \<Rightarrow> bool" where
  "same_core c c' \<longleftrightarrow> ac_recorder c' = ac_recorder c \<and> ac_archive_recorder c' = ac_archive_recorder c \<and>
     ac_control_state c' = ac_control_state c \<and> ac_identity_updates c' = ac_identity_updates c"

lemma same_core_step: "same_core c c' \<Longrightarrow> conn_step c c'"
  by (simp add: same_core_def conn_step_def conn_ok_def)

lemma enqueue_conn: "enqueue_command s c = (r, c') \<Longrightarrow> conn_step c c'"
  by (rule same_core_step) (auto simp: enqueue_command_def same_core_def Let_def split: if_splits)

section \<open>Recorders\<close>

lemma submit_active: "submit b r = (x, r') \<Longrightarrow> rc_is_active r' = rc_is_active r"
  by (auto simp: submit_def submit_reserve_def queue_put_def split: if_splits)

lemma submit_ok: "rc_is_active r \<Longrightarrow> \<exists>b r'. submit c r = (Inr b, r') \<and> rc_is_active r'"
  by (auto simp: submit_def submit_reserve_def queue_put_def)

lemma update_metadata_active: "update_metadata vs r = (x, r') \<Longrightarrow> rc_is_active r' = rc_is_active r"
  by (auto simp: update_metadata_def split: if_splits)

lemma update_metadata_ok: "rc_is_active r \<Longrightarrow> \<exists>r'. update_metadata vs r = (Inr (), r') \<and> rc_is_active r'"
  by (simp add: update_metadata_def)

lemma writer_step_active: "writer_step io r = Some r' \<Longrightarrow> rc_is_active r' = rc_is_active r"
  by (auto simp: writer_step_def write_error_def split: writer.splits list.splits option.splits)

lemma submit_deferred_ok:
  "rc_is_active r \<Longrightarrow> \<exists>r' err'. submit_deferred fs r err = (Inr (), r', err') \<and> rc_is_active r'"
proof (induction fs arbitrary: r)
  case (Cons f fs)
  obtain b r1 where s: "submit f r = (Inr b, r1)" "rc_is_active r1" using submit_ok [OF Cons.prems] by blast
  show ?case using Cons.IH [OF s(2)] s by (cases b) auto
qed simp

lemma set_recorder_ok:
  assumes "rc_is_active r"
  shows "\<exists>c' r'. set_recorder (Some r) c = (Inr (), c') \<and> ac_recorder c' = Some r' \<and> rc_is_active r' \<and>
    ac_archive_recorder c' = ac_archive_recorder c \<and> ac_control_state c' = ac_control_state c \<and>
    ac_identity_updates c' = ac_identity_updates c"
  using submit_deferred_ok [OF assms, of "ac_deferred_frames c" "ac_last_error c"]
  by (auto simp: set_recorder_def clear_deferred_def)

section \<open>Frames\<close>

lemma observe_identity_conn: "observe_identity u c = (r, c') \<Longrightarrow> u < 2 ^ 128 \<Longrightarrow> conn_step c c'"
  by (auto simp: observe_identity_def conn_step_def conn_ok_def split: option.splits if_splits)

lemma handle_archive_conn: "handle_archive f c = (r, c') \<Longrightarrow> conn_step c c'"
  by (auto simp: handle_archive_def conn_step_def conn_ok_def split: option.splits prod.splits sum.splits
      dest: submit_active)

lemma record_frame_conn: "record_frame f c = (r, c') \<Longrightarrow> conn_step c c'"
  by (auto simp: record_frame_def Let_def conn_step_def conn_ok_def
      split: option.splits prod.splits sum.splits if_splits dest: submit_active)

lemma control_state_uuid: "control_state_ok st \<Longrightarrow> st ''device_uuid'' = VUuid u \<Longrightarrow> u < 2 ^ 128"
  unfolding control_state_ok_def by (metis value_ok.simps(5))

lemma handle_cli_conn:
  assumes "handle_cli t c = (r, c')" and "conn_ok c"
  shows "conn_step c c'"
proof (cases "updated_from_cli (ac_control_state c) t")
  case (Inl e)
  then show ?thesis using assms(1)
    by (intro same_core_step) (auto simp: handle_cli_def same_core_def Let_def split: exn.splits)
next
  case (Inr st)
  let ?c1 = "c\<lparr>ac_control_state := st, ac_store := update_control_state st (ac_store c)\<rparr>"
  have st: "control_state_ok st"
    using updated_from_cli_ok [OF Inr] assms(2) by (simp add: conn_ok_def)
  then have s1: "conn_step c ?c1" by (simp add: conn_step_def conn_ok_def)
  have fin: "conn_step d (d\<lparr>ac_cli_responses := x\<rparr>)" for d x
    by (rule same_core_step) (simp add: same_core_def)
  show ?thesis
  proof (cases "\<exists>u. st ''device_uuid'' = VUuid u")
    case True
    then obtain u where u: "st ''device_uuid'' = VUuid u" by blast
    obtain x c2 where o: "observe_identity u ?c1 = (x, c2)" by force
    have "conn_step ?c1 c2" using observe_identity_conn [OF o] control_state_uuid [OF st u] by blast
    then have "conn_step c c2" using s1 conn_step_trans by blast
    then show ?thesis
      using assms(1) Inr u o fin conn_step_trans by (auto simp: handle_cli_def Let_def split: sum.splits)
  next
    case False
    then have "c' = ?c1\<lparr>ac_cli_responses := ac_cli_responses ?c1 @ [t]\<rparr>"
      using assms(1) Inr by (auto simp: handle_cli_def Let_def split: cs_value.splits)
    then show ?thesis using s1 fin conn_step_trans by metis
  qed
qed

lemma dispatch_conn: "dispatch_frame np now f c = (r, c') \<Longrightarrow> conn_ok c \<Longrightarrow> conn_step c c'"
  by (auto simp: dispatch_frame_def same_core_def split: message_type.splits option.splits
      intro: same_core_step handle_cli_conn)

text \<open>Sequencing: the second part may rely on the conditions the first one kept.\<close>

lemma io_bind_conn:
  assumes "io_bind m k c = (r, c')" and "conn_ok c" and "\<And>r c1. m c = (r, c1) \<Longrightarrow> conn_step c c1"
    and "\<And>a c1. conn_ok c1 \<Longrightarrow> k a c1 = (r, c') \<Longrightarrow> conn_step c1 c'"
  shows "conn_step c c'"
proof (cases "m c")
  case (Pair x c1)
  show ?thesis
  proof (cases x)
    case (Inl e)
    then show ?thesis using assms(1,3) Pair by (simp add: io_bind_def)
  next
    case (Inr a)
    then have "k a c1 = (r, c')" using assms(1) Pair by (simp add: io_bind_def)
    moreover have "conn_step c c1" using assms(3) Pair by blast
    ultimately show ?thesis using assms(2,4) conn_step_ok conn_step_trans by blast
  qed
qed

lemma handle_frame_conn:
  assumes "handle_frame np now f c = (r, c')" and "conn_ok c"
    and "\<And>u. fr_device_uuid f = Some u \<Longrightarrow> u < 2 ^ 128"
  shows "conn_step c c'"
proof (rule io_bind_conn [OF assms(1) [unfolded handle_frame_def] assms(2)])
  fix r c1
  assume "(case fr_device_uuid f of None \<Rightarrow> io_return () | Some u \<Rightarrow> observe_identity u) c = (r, c1)"
  then show "conn_step c c1"
    using assms(3) by (auto simp: io_return_def split: option.splits dest: observe_identity_conn)
next
  fix c1 assume c1: "conn_ok c1"
    and t: "(if archive_export f then handle_archive f
       else io_bind (record_frame f) (\<lambda>_. dispatch_frame np now f)) c1 = (r, c')"
  show "conn_step c1 c'"
  proof (cases "archive_export f")
    case True
    then show ?thesis using t handle_archive_conn by simp
  next
    case False
    then have "io_bind (record_frame f) (\<lambda>_. dispatch_frame np now f) c1 = (r, c')" using t by simp
    then show ?thesis by (rule io_bind_conn [OF _ c1]) (auto intro: record_frame_conn dispatch_conn)
  qed
qed

lemma handle_frames_conn:
  assumes "handle_frames np now fs c = (r, c')" and "conn_ok c"
    and "\<And>f u. f \<in> set fs \<Longrightarrow> fr_device_uuid f = Some u \<Longrightarrow> u < 2 ^ 128"
  shows "conn_step c c'"
  using assms
proof (induction fs arbitrary: c)
  case (Cons f fs)
  show ?case
  proof (rule io_bind_conn [OF Cons.prems(1) [unfolded handle_frames.simps] Cons.prems(2)])
    fix r c1 assume "handle_frame np now f c = (r, c1)"
    then show "conn_step c c1" by (rule handle_frame_conn) (use Cons.prems in auto)
  next
    fix a c1 assume "conn_ok c1" "handle_frames np now fs c1 = (r, c')"
    then show "conn_step c1 c'" using Cons.IH Cons.prems(3) by (metis list.set_intros(2))
  qed
qed (simp add: io_return_def)

section \<open>The worker\<close>

lemma parse_chunk_conn:
  assumes "parse_chunk np b c = (fs, c')"
  shows "same_core c c' \<and> (\<forall>f\<in>set fs. \<forall>u. fr_device_uuid f = Some u \<longrightarrow> u < 2 ^ 128)"
proof
  show "same_core c c'" using assms by (auto simp: parse_chunk_def same_core_def Let_def split: prod.splits if_splits)
  have "fs = [] \<or> (\<exists>p x. fs = fst (feed np p x))"
    using assms by (auto simp: parse_chunk_def Let_def split: prod.splits if_splits) (metis fst_conv)+
  then show "\<forall>f\<in>set fs. \<forall>u. fr_device_uuid f = Some u \<longrightarrow> u < 2 ^ 128"
    using feed_uuid by (metis empty_iff list.set(1) prod.collapse)
qed

lemma ingest_conn:
  assumes "ingest_chunk np now b c = (r, c')" and "conn_ok c"
  shows "conn_step c c'"
proof -
  let ?c0 = "c\<lparr>ac_bytes_received := ac_bytes_received c + length b\<rparr>"
  obtain fs c1 where p: "parse_chunk np b ?c0 = (fs, c1)" by force
  let ?c2 = "c1\<lparr>ac_frames_received := ac_frames_received c1 + length fs\<rparr>"
  obtain x c3 where h: "handle_frames np now fs ?c2 = (x, c3)" by force
  have s2: "conn_step c ?c2"
    using parse_chunk_conn [OF p] by (intro same_core_step) (auto simp: same_core_def)
  then have "conn_step ?c2 c3"
    using handle_frames_conn [OF h] parse_chunk_conn [OF p] conn_step_ok assms(2) by blast
  then have s3: "conn_step c c3" using s2 conn_step_trans by blast
  have "same_core c3 c'"
    using assms(1) p h by (auto simp: ingest_chunk_def Let_def same_core_def split: sum.splits)
  then show ?thesis using s3 same_core_step conn_step_trans by blast
qed

lemma run_turn_conn:
  assumes "run_turn np tp now (c, t) = (r, c', t')" and "conn_ok c"
  shows "conn_step c c'"
proof -
  have s1: "same_core c c1" if "send_pending_commands tp (c, t) = (x, c1, t1)" for x c t c1 t1
    using that by (auto simp: send_pending_commands_def same_core_def split: prod.splits)
  have s2: "same_core c c1" if "send_pending_ota_frames tp (c, t) = (x, c1, t1)" for x c t c1 t1
    using that by (auto simp: send_pending_ota_frames_def same_core_def split: prod.splits)
  have s3: "c1 = c" if "read_chunk tp (c, t) = (x, c1, t1)" for x c t c1 t1
    using that by (auto simp: read_chunk_def split: prod.splits)
  show ?thesis
    using assms(1)
    by (auto simp: run_turn_def io_bind_def on_controller_def io_return_def split: prod.splits sum.splits if_splits
        dest!: s1 s2 s3 same_core_step)
      (use assms(2) conn_step_trans conn_step_ok ingest_conn in metis)+
qed

end
