(* ===== verification/AppLogic.thy ===== *)
theory AppLogic
  imports AppOta Connection
begin

text \<open>
  Triples for the code of \<^verbatim>\<open>presentation/app_controller.py\<close>: from a state with the precondition the code returns
  in a state with the postcondition, or raises an exception that is allowed in the state it leaves. The rules
  follow the statements of \<open>AppState\<close>; \<open>keeps\<close> is the case of an invariant.
\<close>

definition result_ok :: "(exn \<Rightarrow> 'w \<Rightarrow> bool) \<Rightarrow> ('a \<Rightarrow> 'w \<Rightarrow> bool) \<Rightarrow> 'a res \<times> 'w \<Rightarrow> bool" where
  "result_ok E Q rw \<longleftrightarrow> (case rw of (Inl x, w) \<Rightarrow> E x w | (Inr v, w) \<Rightarrow> Q v w)"

definition triple ::
  "(exn \<Rightarrow> 'w \<Rightarrow> bool) \<Rightarrow> ('w \<Rightarrow> bool) \<Rightarrow> ('w, 'a) io \<Rightarrow> ('a \<Rightarrow> 'w \<Rightarrow> bool) \<Rightarrow> bool" where
  "triple E P m Q \<longleftrightarrow> (\<forall>w. P w \<longrightarrow> result_ok E Q (m w))"

definition keeps :: "(exn \<Rightarrow> 'w \<Rightarrow> bool) \<Rightarrow> ('w \<Rightarrow> bool) \<Rightarrow> ('w, 'a) io \<Rightarrow> bool" where
  "keeps E P m \<longleftrightarrow> triple E P m (\<lambda>_. P)"

named_theorems keeps_rules

lemma result_ok_simps [simp]: "result_ok E Q (Inl x, w) = E x w" "result_ok E Q (Inr v, w) = Q v w"
  by (simp_all add: result_ok_def)

lemma result_ok_cases: "result_ok E Q rw \<longleftrightarrow>
    (\<forall>x w. rw = (Inl x, w) \<longrightarrow> E x w) \<and> (\<forall>v w. rw = (Inr v, w) \<longrightarrow> Q v w)"
  by (cases rw; cases "fst rw") auto

lemma tripleI: "(\<And>w. P w \<Longrightarrow> result_ok E Q (m w)) \<Longrightarrow> triple E P m Q"
  by (simp add: triple_def)

lemma tripleD: "triple E P m Q \<Longrightarrow> P w \<Longrightarrow> result_ok E Q (m w)"
  by (simp add: triple_def)

lemma keepsI: "(\<And>w. P w \<Longrightarrow> result_ok E (\<lambda>_. P) (m w)) \<Longrightarrow> keeps E P m"
  by (simp add: keeps_def triple_def)

lemma keepsD: "keeps E P m \<Longrightarrow> P w \<Longrightarrow> result_ok E (\<lambda>_. P) (m w)"
  by (simp add: keeps_def triple_def)

lemma keeps_triple: "keeps E P m \<Longrightarrow> triple E P m (\<lambda>_. P)"
  by (simp add: keeps_def)

lemma triple_conseq:
  assumes "triple E P m Q" and "\<And>w. P' w \<Longrightarrow> P w" and "\<And>v w. Q v w \<Longrightarrow> Q' v w"
    and "\<And>x w. E x w \<Longrightarrow> E' x w"
  shows "triple E' P' m Q'"
proof (rule tripleI)
  fix w assume "P' w"
  then have "result_ok E Q (m w)" by (rule tripleD [OF assms(1) assms(2)])
  then show "result_ok E' Q' (m w)" unfolding result_ok_cases using assms(3,4) by blast
qed

lemma triple_bind:
  assumes "triple E P m R" and "\<And>v. triple E (R v) (f v) Q"
  shows "triple E P (io_bind m f) Q"
proof (rule tripleI)
  fix w assume "P w"
  then have ok: "result_ok E R (m w)" by (rule tripleD [OF assms(1)])
  obtain r w' where m: "m w = (r, w')" by force
  show "result_ok E Q (io_bind m f w)"
  proof (cases r)
    case (Inl x)
    then show ?thesis using ok by (simp add: io_bind_def m)
  next
    case (Inr v)
    then have "R v w'" using ok by (simp add: m)
    then have "result_ok E Q (f v w')" by (rule tripleD [OF assms(2)])
    then show ?thesis by (simp add: io_bind_def m Inr)
  qed
qed

lemma keeps_bind [keeps_rules]:
  assumes "keeps E P m" and "\<And>v. keeps E P (f v)"
  shows "keeps E P (io_bind m f)"
  using assms unfolding keeps_def by (rule triple_bind)

lemma keeps_return [keeps_rules]: "keeps E P (io_return v)"
  by (rule keepsI) (simp add: io_return_def)

text \<open>The first part of a sequence may end in a stronger condition.\<close>

lemma triple_seq:
  "triple E P m (\<lambda>_. R) \<Longrightarrow> triple E R (io_seq ms) Q \<Longrightarrow> triple E P (io_seq (m # ms)) Q"
  by (simp add: triple_bind)

lemma triple_seq_end: "triple E P m (\<lambda>_. Q ()) \<Longrightarrow> triple E P (io_seq [m]) Q"
  by (auto simp: triple_def io_bind_def io_return_def result_ok_def split: prod.splits sum.splits)

lemma keeps_seq [keeps_rules]:
  "keeps E P (io_seq [])" "keeps E P m \<Longrightarrow> keeps E P (io_seq ms) \<Longrightarrow> keeps E P (io_seq (m # ms))"
  by (simp_all add: keeps_return keeps_bind)

lemma keeps_for [keeps_rules]: "(\<And>x. x \<in> set xs \<Longrightarrow> keeps E P (f x)) \<Longrightarrow> keeps E P (io_for xs f)"
  by (induction xs) (simp_all add: keeps_return keeps_bind)

lemma keeps_raise [keeps_rules]: "(\<And>w. P w \<Longrightarrow> E x w) \<Longrightarrow> keeps E P (io_raise x)"
  by (rule keepsI) (simp add: io_raise_def)

lemma keeps_lift [keeps_rules]: "(\<And>x w. r = Inl x \<Longrightarrow> P w \<Longrightarrow> E x w) \<Longrightarrow> keeps E P (io_lift r)"
  by (rule keepsI) (cases r, auto simp: io_lift_def)

lemma keeps_get [keeps_rules]: "keeps E P (io_get f)"
  by (rule keepsI) (simp add: io_get_def)

lemma keeps_update [keeps_rules]: "(\<And>w. P w \<Longrightarrow> P (f w)) \<Longrightarrow> keeps E P (io_update f)"
  by (rule keepsI) (simp add: io_update_def)

lemma triple_update: "(\<And>w. P w \<Longrightarrow> Q () (f w)) \<Longrightarrow> triple E P (io_update f) Q"
  by (rule tripleI) (simp add: io_update_def)

lemma keeps_when [keeps_rules]: "(b \<Longrightarrow> keeps E P m) \<Longrightarrow> keeps E P (io_when b m)"
  by (auto simp: io_when_def intro: keeps_return)

lemma keeps_if [keeps_rules]: "(b \<Longrightarrow> keeps E P m) \<Longrightarrow> (\<not> b \<Longrightarrow> keeps E P n) \<Longrightarrow> keeps E P (if b then m else n)"
  by simp

lemma keeps_option [keeps_rules]:
  "(x = None \<Longrightarrow> keeps E P m) \<Longrightarrow> (\<And>v. x = Some v \<Longrightarrow> keeps E P (f v)) \<Longrightarrow>
     keeps E P (case x of None \<Rightarrow> m | Some v \<Rightarrow> f v)"
  by (cases x) auto

lemma keeps_result [keeps_rules]:
  "(\<And>x. r = Inl x \<Longrightarrow> keeps E P (f x)) \<Longrightarrow> (\<And>v. r = Inr v \<Longrightarrow> keeps E P (g v)) \<Longrightarrow>
     keeps E P (case r of Inl x \<Rightarrow> f x | Inr v \<Rightarrow> g v)"
  by (cases r) auto

lemma triple_if: "(b \<Longrightarrow> triple E P m Q) \<Longrightarrow> (\<not> b \<Longrightarrow> triple E P n Q) \<Longrightarrow> triple E P (if b then m else n) Q"
  by simp

lemma triple_return: "(\<And>w. P w \<Longrightarrow> Q v w) \<Longrightarrow> triple E P (io_return v) Q"
  by (simp add: triple_def io_return_def)

declare io_seq.simps [simp del] io_for.simps [simp del]

text \<open>Code that looks at the state it runs in.\<close>

lemma keeps_state: "(\<And>w. P w \<Longrightarrow> keeps E P (f w)) \<Longrightarrow> keeps E P (\<lambda>w. f w w)"
  by (simp add: keeps_def triple_def)

lemma triple_state: "(\<And>w. P w \<Longrightarrow> triple E (\<lambda>w'. w' = w) (f w) Q) \<Longrightarrow> triple E P (\<lambda>w. f w w) Q"
  by (simp add: triple_def)

text \<open>Exceptions that are caught must leave the invariant.\<close>

lemma triple_try:
  assumes "triple (\<lambda>x w. if caught x then R w else E x w) P m S" and "\<And>x. caught x \<Longrightarrow> triple E R (h x) Q"
    and "\<And>v. triple E (S v) (f v) Q"
  shows "triple E P (io_try caught m h f) Q"
proof (rule tripleI)
  fix w assume "P w"
  then have ok: "result_ok (\<lambda>x w. if caught x then R w else E x w) S (m w)" by (rule tripleD [OF assms(1)])
  obtain r w' where m: "m w = (r, w')" by force
  show "result_ok E Q (io_try caught m h f w)"
  proof (cases r)
    case (Inl x)
    show ?thesis
    proof (cases "caught x")
      case True
      then have "R w'" using ok by (simp add: m Inl)
      then have "result_ok E Q (h x w')" by (rule tripleD [OF assms(2) [OF True]])
      then show ?thesis by (simp add: io_try_def m Inl True)
    next
      case False
      then show ?thesis using ok by (simp add: io_try_def m Inl)
    qed
  next
    case (Inr v)
    then have "S v w'" using ok by (simp add: m)
    then have "result_ok E Q (f v w')" by (rule tripleD [OF assms(3)])
    then show ?thesis by (simp add: io_try_def m Inr)
  qed
qed

lemma keeps_try [keeps_rules]:
  "keeps (\<lambda>x w. if caught x then P w else E x w) P m \<Longrightarrow> (\<And>x. caught x \<Longrightarrow> keeps E P (h x)) \<Longrightarrow>
     (\<And>v. keeps E P (f v)) \<Longrightarrow> keeps E P (io_try caught m h f)"
  unfolding keeps_def by (rule triple_try)

text \<open>Without a continuation the result is passed on.\<close>

lemma io_catch_try: "io_catch caught m h = io_try caught m h io_return"
  by (simp add: io_catch_def io_try_def io_return_def [abs_def] fun_eq_iff split: prod.splits sum.splits)

lemma triple_catch:
  assumes "triple (\<lambda>x w. if caught x then R w else E x w) P m Q" and "\<And>x. caught x \<Longrightarrow> triple E R (h x) Q"
  shows "triple E P (io_catch caught m h) Q"
  unfolding io_catch_try by (rule triple_try [OF assms]) (auto simp: triple_def io_return_def)

lemma keeps_catch [keeps_rules]:
  "keeps (\<lambda>x w. if caught x then P w else E x w) P m \<Longrightarrow> (\<And>x. caught x \<Longrightarrow> keeps E P (h x)) \<Longrightarrow>
     keeps E P (io_catch caught m h)"
  unfolding keeps_def by (rule triple_catch)

lemma keeps_weaken: "keeps E P m \<Longrightarrow> (\<And>x w. E x w \<Longrightarrow> E' x w) \<Longrightarrow> keeps E' P m"
  unfolding keeps_def by (rule triple_conseq)

end
