(* ===== verification/AppInvariant.thy ===== *)
theory AppInvariant
  imports AppLogic
begin

text \<open>
  The invariant of the application controller, and the lemmas that its statements keep it: the sessions are
  the connected nodes of the inventory, with the same kind, peer and recording mark; recorders are attached
  and active exactly where the session says so; an OTA owner is unique; the selection, the timers and the
  recording state fit the sessions.
\<close>

section \<open>The invariant\<close>

text \<open>What a session object satisfies by itself.\<close>

definition local_ok :: "'t managed_session \<Rightarrow> bool" where
  "local_ok s \<longleftrightarrow> conn_ok (ms_acquisition s) \<and> live (ms_unattached s) \<and>
     (ms_recording s \<longleftrightarrow> ac_recorder (ms_acquisition s) \<noteq> None) \<and>
     (ms_exporting s \<longleftrightarrow> ac_archive_recorder (ms_acquisition s) \<noteq> None \<or> ms_unattached s \<noteq> None) \<and>
     ms_archive_target s \<in> {[], lit ''CDC'', lit ''UART''}"

definition session_ok :: "('t, 'w) app \<Rightarrow> pystr \<Rightarrow> 't managed_session \<Rightarrow> bool" where
  "session_ok a k s \<longleftrightarrow> ms_node_id s = k \<and> ms_token s < ap_next_token a \<and> local_ok s \<and>
     (ms_ota_active s \<longrightarrow> ms_transport_kind s = WIFI \<and> \<not> ap_recording_active a \<and>
        map_option fst (ap_ota_worker a) = Some k)"

text \<open>The node of a session in the inventory.\<close>

definition node_shows :: "'t managed_session \<Rightarrow> node_summary \<Rightarrow> bool" where
  "node_shows s n \<longleftrightarrow> ns_connection_state n = CONNECTED \<and> ns_transport_kind n = ms_transport_kind s \<and>
     ns_peer n = ms_peer s \<and> ns_is_recording n = ms_recording s"

definition shown :: "session_manager \<Rightarrow> pystr \<Rightarrow> 't managed_session \<Rightarrow> bool" where
  "shown m k s \<longleftrightarrow> (\<exists>n. map_of (sm_nodes m) k = Some n \<and> node_shows s n)"

definition online :: "session_manager \<Rightarrow> pystr \<Rightarrow> bool" where
  "online m k \<longleftrightarrow> (\<exists>n. map_of (sm_nodes m) k = Some n \<and> ns_connection_state n = CONNECTED)"

text \<open>The part on updates: who owns the upload, and what is remembered for the time after it.\<close>

definition ota_ok :: "('t, 'w) app \<Rightarrow> bool" where
  "ota_ok a \<longleftrightarrow> (\<forall>c. ap_ota_context a = Some c \<longrightarrow> oc_kind c = WIFI) \<and>
     (\<forall>i. ap_ota_reconnect a = Some i \<longrightarrow> or_kind i = WIFI) \<and>
     ap_ota_node_id a = map_option oc_node_id (ap_ota_context a) \<and>
     (\<forall>k p. ap_ota_worker a = Some (k, p) \<longrightarrow> ap_ota_node_id a = Some k) \<and>
     (ap_ota_reconnect a \<noteq> None \<longrightarrow> ap_ota_worker a = None \<and> ap_ota_context a \<noteq> None)"

text \<open>The nodes in \<open>G\<close> are excepted from the correspondence: a slot is about to restore it.\<close>

definition core :: "pystr set \<Rightarrow> ('t, 'w) app \<Rightarrow> bool" where
  "core G a \<longleftrightarrow> sm_inv (ap_session_index a) \<and> sm_maximum_sessions (ap_session_index a) = 16 \<and>
     distinct (session_keys a) \<and>
     (\<forall>k s. get_session k a = Some s \<longrightarrow> session_ok a k s \<and> (k \<notin> G \<longrightarrow> shown (ap_session_index a) k s) \<and>
        (ms_transport_kind s = CDC \<longrightarrow> session_keys a = [k])) \<and>
     (\<forall>k. online (ap_session_index a) k \<and> k \<notin> G \<longrightarrow> get_session k a \<noteq> None) \<and>
     0 < ap_window_s a \<and> ota_ok a \<and> (ap_recording_active a \<longrightarrow> ap_recording_batch_path a \<noteq> None)"

definition flags_ok :: "('t, 'w) app \<Rightarrow> bool" where
  "flags_ok a \<longleftrightarrow> ap_recording_active a \<or> list_all (\<lambda>(k, s). \<not> ms_recording s) (ap_sessions a)"

text \<open>What the statements inside a slot leave as it is.\<close>

record outline =
  ol_keys :: "pystr list"
  ol_selected :: "pystr option"
  ol_stopping :: bool
  ol_timers :: "bool \<times> bool"
  ol_recording :: bool
  ol_worker :: "(pystr \<times> bytes) option"
  ol_context :: "ota_context option"
  ol_reconnect :: "ota_reconnect option"

definition outline_of :: "('t, 'w) app \<Rightarrow> outline" where
  "outline_of a = \<lparr>ol_keys = session_keys a, ol_selected = ap_selected_node_id a, ol_stopping = ap_is_stopping a,
     ol_timers = (ap_timer a, ap_status_timer a), ol_recording = ap_recording_active a,
     ol_worker = ap_ota_worker a, ol_context = ap_ota_context a, ol_reconnect = ap_ota_reconnect a\<rparr>"

definition ginv :: "bool \<Rightarrow> pystr set \<Rightarrow> outline \<Rightarrow> ('t, 'w) app \<Rightarrow> bool" where
  "ginv F G o' a \<longleftrightarrow> core G a \<and> (F \<longrightarrow> flags_ok a) \<and> outline_of a = o'"

definition outline_ok :: "outline \<Rightarrow> bool" where
  "outline_ok o' \<longleftrightarrow> \<not> ol_stopping o' \<and> ol_timers o' = (ol_keys o' \<noteq> [], ol_keys o' \<noteq> []) \<and>
     (case ol_selected o' of None \<Rightarrow> ol_keys o' = [] | Some k \<Rightarrow> k \<in> set (ol_keys o'))"

definition app_inv :: "('t, 'w) app \<Rightarrow> bool" where
  "app_inv a \<longleftrightarrow> core {} a \<and> flags_ok a \<and> outline_ok (outline_of a)"

lemma coreD:
  assumes "core G a"
  shows "sm_inv (ap_session_index a)" "sm_maximum_sessions (ap_session_index a) = 16" "distinct (session_keys a)"
    "0 < ap_window_s a" "ota_ok a" "ap_recording_active a \<Longrightarrow> ap_recording_batch_path a \<noteq> None"
    "get_session k a = Some s \<Longrightarrow> session_ok a k s"
    "get_session k a = Some s \<Longrightarrow> k \<notin> G \<Longrightarrow> shown (ap_session_index a) k s"
    "get_session k a = Some s \<Longrightarrow> ms_transport_kind s = CDC \<Longrightarrow> session_keys a = [k]"
    "online (ap_session_index a) k \<Longrightarrow> k \<notin> G \<Longrightarrow> get_session k a \<noteq> None"
  using assms unfolding core_def by blast+

lemma ota_ok_simps [simp]:
  "ota_ok (a\<lparr>ap_recording_active := b\<rparr>) = ota_ok a" "ota_ok (a\<lparr>ap_recording_batch_path := p\<rparr>) = ota_ok a"
  "ota_ok (a\<lparr>ap_selected_node_id := k\<rparr>) = ota_ok a" "ota_ok (a\<lparr>ap_is_stopping := b\<rparr>) = ota_ok a"
  "ota_ok (a\<lparr>ap_timer := b\<rparr>) = ota_ok a" "ota_ok (a\<lparr>ap_status_timer := b\<rparr>) = ota_ok a"
  "ota_ok (a\<lparr>ap_sessions := xs\<rparr>) = ota_ok a" "ota_ok (a\<lparr>ap_session_index := m\<rparr>) = ota_ok a"
  "ota_ok (a\<lparr>ap_next_token := i\<rparr>) = ota_ok a" "ota_ok (a\<lparr>ap_window_s := w\<rparr>) = ota_ok a"
  "ota_ok (a\<lparr>ap_ota_reconnect_timer := b\<rparr>) = ota_ok a" "ota_ok (a\<lparr>ap_ota_cancel_event := c\<rparr>) = ota_ok a"
  by (simp_all add: ota_ok_def)

lemma core_change:
  assumes "core G a" and same: "ap_session_index b = ap_session_index a" "ap_sessions b = ap_sessions a"
    and new: "0 < ap_window_s b" "ota_ok b" "ap_recording_active b \<Longrightarrow> ap_recording_batch_path b \<noteq> None"
      "\<And>k s. get_session k a = Some s \<Longrightarrow> session_ok a k s \<Longrightarrow> session_ok b k s"
  shows "core G b"
proof -
  have g: "get_session k b = get_session k a" "session_keys b = session_keys a" for k
    using same by (simp_all add: get_session_def session_keys_def)
  show ?thesis using assms(1) new unfolding core_def g same(1) by blast
qed

section \<open>Sessions\<close>

lemma get_session_keys: "get_session k a \<noteq> None \<longleftrightarrow> k \<in> set (session_keys a)"
  by (simp add: get_session_def session_keys_def map_of_eq_None_iff)

definition session_step :: "'t managed_session \<Rightarrow> 't managed_session \<Rightarrow> bool" where
  "session_step s s' \<longleftrightarrow> ms_node_id s' = ms_node_id s \<and> ms_token s' = ms_token s \<and> ms_peer s' = ms_peer s \<and>
     ms_transport_kind s' = ms_transport_kind s \<and> ms_recording s' = ms_recording s \<and>
     (ms_ota_active s' \<longrightarrow> ms_ota_active s) \<and> (local_ok s \<longrightarrow> local_ok s')"

definition put_session :: "pystr \<Rightarrow> 't managed_session \<Rightarrow> ('t, 'w) app \<Rightarrow> ('t, 'w) app" where
  "put_session k s a = a\<lparr>ap_sessions := AList.update k s (ap_sessions a)\<rparr>"

lemma get_put_session: "get_session k' (put_session k s a) = (if k' = k then Some s else get_session k' a)"
  by (simp add: get_session_def put_session_def update_conv')

lemma keys_put_session: "k \<in> set (session_keys a) \<Longrightarrow> session_keys (put_session k s a) = session_keys a"
  by (simp add: session_keys_def put_session_def update_keys)

lemma put_session_simps [simp]:
  "ap_session_index (put_session k s a) = ap_session_index a" "ap_next_token (put_session k s a) = ap_next_token a"
  "ap_recording_active (put_session k s a) = ap_recording_active a" "ap_ota_worker (put_session k s a) = ap_ota_worker a"
  "ap_window_s (put_session k s a) = ap_window_s a" "ota_ok (put_session k s a) = ota_ok a"
  "ap_recording_batch_path (put_session k s a) = ap_recording_batch_path a"
  "ap_selected_node_id (put_session k s a) = ap_selected_node_id a" "ap_is_stopping (put_session k s a) = ap_is_stopping a"
  "ap_timer (put_session k s a) = ap_timer a" "ap_status_timer (put_session k s a) = ap_status_timer a"
  "ap_ota_context (put_session k s a) = ap_ota_context a" "ap_ota_reconnect (put_session k s a) = ap_ota_reconnect a"
  by (simp_all add: put_session_def ota_ok_def)

lemma outline_put_session: "k \<in> set (session_keys a) \<Longrightarrow> outline_of (put_session k s a) = outline_of a"
  by (simp add: outline_of_def keys_put_session)

lemma flags_put_session:
  assumes "flags_ok a" and "get_session k a = Some s" and "ms_recording s' = ms_recording s"
  shows "flags_ok (put_session k s' a)"
proof -
  have "ap_recording_active a \<or> \<not> ms_recording s'"
    using assms map_of_SomeD [of "ap_sessions a" k s] by (fastforce simp: flags_ok_def get_session_def list_all_iff)
  moreover have "set (AList.update k s' xs) \<subseteq> insert (k, s') (set xs)" for xs
    by (induction xs) auto
  ultimately show ?thesis using assms(1)
    by (auto simp: flags_ok_def put_session_def list_all_iff) blast
qed

lemma core_put_session:
  assumes "core G a" and "get_session k a = Some s" and "session_step s s'"
  shows "core G (put_session k s' a)"
proof -
  have k: "session_keys (put_session k s' a) = session_keys a"
    using keys_put_session get_session_keys assms(2) by (metis option.distinct(1))
  have "session_ok (put_session k s' a) k s'" "shown (ap_session_index a) k s \<Longrightarrow> shown (ap_session_index a) k s'"
    using assms by (auto simp: core_def session_ok_def session_step_def shown_def node_shows_def)
  moreover have "session_ok (put_session k s' a) k'' t = session_ok a k'' t" for k'' t
    by (simp add: session_ok_def)
  ultimately show ?thesis
    using assms by (auto simp: core_def k get_put_session session_step_def)
qed

lemma inv_put_session:
  assumes "ginv F G o' a" and "get_session k a = Some s" and "session_step s s'"
  shows "ginv F G o' (put_session k s' a)"
proof -
  have "k \<in> set (session_keys a)" using assms(2) get_session_keys by (metis option.distinct(1))
  moreover have "ms_recording s' = ms_recording s" using assms(3) by (simp add: session_step_def)
  ultimately show ?thesis
    using assms core_put_session flags_put_session outline_put_session by (metis ginv_def)
qed

lemma inv_local: "ginv F G o' a \<Longrightarrow> get_session k a = Some s \<Longrightarrow> local_ok s"
  by (simp add: ginv_def core_def session_ok_def)

lemma inv_get: "ginv F G o' a \<Longrightarrow> k \<in> set (ol_keys o') \<Longrightarrow> \<exists>s. get_session k a = Some s"
  using get_session_keys by (fastforce simp: ginv_def outline_of_def)

section \<open>Statements\<close>

lemma keeps_on_session:
  fixes E :: "exn \<Rightarrow> ('t, 'w) app \<Rightarrow> bool"
  assumes k: "k \<in> set (ol_keys o')"
    and step: "\<And>s r s'. local_ok s \<Longrightarrow> m s = (r, s') \<Longrightarrow> session_step s s'"
    and err: "\<And>s x s' w. local_ok s \<Longrightarrow> m s = (Inl x, s') \<Longrightarrow> ginv F G o' w \<Longrightarrow> E x w"
  shows "keeps E (ginv F G o') (on_session k m)"
proof (rule keepsI)
  fix a :: "('t, 'w) app" assume i: "ginv F G o' a"
  obtain s where s: "get_session k a = Some s" using inv_get [OF i k] by blast
  obtain r s' where m: "m s = (r, s')" by force
  have "ginv F G o' (put_session k s' a)" using inv_put_session [OF i s] step [OF inv_local [OF i s] m] by blast
  then show "result_ok E (\<lambda>_. ginv F G o') (on_session k m a)"
    using err [OF inv_local [OF i s]] m by (cases r) (auto simp: on_session_def s put_session_def)
qed

lemma keeps_the_session [keeps_rules]: "k \<in> set (ol_keys o') \<Longrightarrow> keeps E (ginv F G o') (the_session k)"
  unfolding the_session_def by (rule keeps_on_session) (auto simp: io_get_def session_step_def)

lemma keeps_update_session:
  "k \<in> set (ol_keys o') \<Longrightarrow> (\<And>s. local_ok s \<Longrightarrow> session_step s (f s)) \<Longrightarrow>
     keeps E (ginv F G o') (update_session k f)"
  unfolding update_session_def by (rule keeps_on_session) (auto simp: io_update_def)

text \<open>A method of the controller that keeps what \<open>conn_step\<close> says.\<close>

lemma acquisition_session_step:
  "local_ok s \<Longrightarrow> conn_step (ms_acquisition s) c \<Longrightarrow> session_step s (s\<lparr>ms_acquisition := c\<rparr>)"
  by (auto simp: session_step_def local_ok_def conn_step_def)

lemma keeps_acquisition:
  fixes E :: "exn \<Rightarrow> ('t, 'w) app \<Rightarrow> bool"
  assumes "k \<in> set (ol_keys o')" and "\<And>c r c'. conn_ok c \<Longrightarrow> m c = (r, c') \<Longrightarrow> conn_step c c'"
    and "\<And>c x c' w. conn_ok c \<Longrightarrow> m c = (Inl x, c') \<Longrightarrow> ginv F G o' w \<Longrightarrow> E x w"
  shows "keeps E (ginv F G o') (acquisition k m)"
  unfolding acquisition_def
proof (rule keeps_on_session [OF assms(1)])
  fix s :: "'t managed_session" and r s' assume l: "local_ok s" and m: "on_acquisition m s = (r, s')"
  obtain c' where c': "m (ms_acquisition s) = (r, c')" "s' = s\<lparr>ms_acquisition := c'\<rparr>"
    using m by (auto simp: on_acquisition_def split: prod.splits)
  have "conn_ok (ms_acquisition s)" using l by (simp add: local_ok_def)
  then show "session_step s s'" using acquisition_session_step [OF l] assms(2) c' by metis
next
  fix s :: "'t managed_session" and x s' and w :: "('t, 'w) app" assume l: "local_ok s" and m: "on_acquisition m s = (Inl x, s')" and "ginv F G o' w"
  then show "E x w" using assms(3) by (auto simp: on_acquisition_def local_ok_def split: prod.splits)
qed

lemma keeps_acquisition_update:
  "k \<in> set (ol_keys o') \<Longrightarrow> (\<And>c. same_core c (f c)) \<Longrightarrow> keeps E (ginv F G o') (acquisition_update k f)"
  unfolding acquisition_update_def
  by (rule keeps_acquisition) (auto simp: io_update_def intro: same_core_step)

text \<open>Changes of fields the invariant does not mention.\<close>

definition same_state :: "('t, 'w) app \<Rightarrow> ('t, 'w) app \<Rightarrow> bool" where
  "same_state a b \<longleftrightarrow> ap_session_index b = ap_session_index a \<and> ap_sessions b = ap_sessions a \<and>
     ap_selected_node_id b = ap_selected_node_id a \<and> ap_window_s b = ap_window_s a \<and>
     ap_is_stopping b = ap_is_stopping a \<and> ap_recording_active b = ap_recording_active a \<and>
     ap_recording_batch_path b = ap_recording_batch_path a \<and> ap_timer b = ap_timer a \<and>
     ap_status_timer b = ap_status_timer a \<and> ap_ota_reconnect b = ap_ota_reconnect a \<and>
     ap_ota_node_id b = ap_ota_node_id a \<and> ap_ota_worker b = ap_ota_worker a \<and>
     ap_ota_context b = ap_ota_context a \<and> ap_next_token a \<le> ap_next_token b"

lemma same_state_inv:
  assumes "same_state a b" and "ginv F G o' a"
  shows "ginv F G o' b"
proof -
  have g: "get_session k b = get_session k a" "session_keys b = session_keys a" for k
    using assms(1) by (simp_all add: same_state_def get_session_def session_keys_def)
  have s: "session_ok a k s \<Longrightarrow> session_ok b k s" for k s
    using assms(1) by (auto simp: same_state_def session_ok_def)
  have "ota_ok b = ota_ok a" "flags_ok b = flags_ok a" "outline_of b = outline_of a"
    using assms(1) by (simp_all add: same_state_def ota_ok_def flags_ok_def outline_of_def session_keys_def)
  then show ?thesis using assms g s by (simp add: ginv_def core_def same_state_def)
qed

lemma keeps_same_update [keeps_rules]:
  "(\<And>a. same_state a (f a)) \<Longrightarrow> keeps E (ginv F G o') (io_update f)"
  by (rule keeps_update) (rule same_state_inv)

lemma keeps_emit [keeps_rules]: "keeps E (ginv F G o') (emit s)"
  unfolding emit_def by (rule keeps_same_update) (simp add: same_state_def)

lemma keeps_raise_error [keeps_rules]: "keeps E (ginv F G o') (raise_error m)"
  unfolding raise_error_def by (rule keeps_emit)

lemma keeps_report_exn [keeps_rules]: "keeps E (ginv F G o') (report_exn x)"
  unfolding report_exn_def by (rule keeps_emit)

lemma keeps_emit_ota_availability [keeps_rules]: "keeps E (ginv F G o') emit_ota_availability"
  by (rule keepsI) (simp add: emit_ota_availability_def keepsD [OF keeps_emit] split: option.splits)

lemma keeps_emit_nodes [keeps_rules]: "keeps E (ginv F G o') emit_nodes"
  unfolding emit_nodes_def
  by (intro keeps_seq keeps_emit_ota_availability keeps_state [OF keeps_emit])

section \<open>What a slot may raise\<close>

text \<open>
  The environment behaves: closing succeeds, sockets, serial ports and files fail with the exceptions they are
  documented to raise, and the metadata of a recording can be written. The store refuses a snapshot with one
  exception only.
\<close>

definition NO_ARRAY :: exn where
  "NO_ARRAY = ValueError ''need at least one array to concatenate''"

definition env_ok :: "('t, 'w) app_env \<Rightarrow> bool" where
  "env_ok e \<longleftrightarrow> (\<forall>t. fst (tp_close (ae_transport e) t) = Inr ()) \<and>
     (\<forall>g. fst (listener_close (ae_sockets e) g) = Inr ()) \<and> (\<forall>p. ae_metadata_written e p = Inr ()) \<and>
     (\<forall>p x. ae_opened e p = Inl x \<longrightarrow> is_os_error x) \<and>
     (\<forall>d t x. fst (ae_transport_open e d t) = Inl x \<longrightarrow> is_common_error x) \<and> setup_ok (ae_sockets e)"

definition allowed :: "('t, 'w) app_env \<Rightarrow> exn \<Rightarrow> ('t, 'w) app \<Rightarrow> bool" where
  "allowed e x a \<longleftrightarrow> \<not> env_ok e \<or> x = NO_ARRAY"

definition tolerant :: "('t, 'w) app_env \<Rightarrow> (exn \<Rightarrow> ('t, 'w) app \<Rightarrow> bool) \<Rightarrow> (('t, 'w) app \<Rightarrow> bool) \<Rightarrow> bool" where
  "tolerant e E P \<longleftrightarrow> (\<forall>x a. P a \<longrightarrow> allowed e x a \<longrightarrow> E x a)"

lemma tolerantD: "tolerant e E P \<Longrightarrow> P a \<Longrightarrow> \<not> env_ok e \<or> x = NO_ARRAY \<Longrightarrow> E x a"
  by (simp add: tolerant_def allowed_def)

lemma tolerant_allowed [simp, intro]: "tolerant e (allowed e) P"
  by (simp add: tolerant_def)

lemma tolerant_catch [simp, intro]: "tolerant e E P \<Longrightarrow> tolerant e (\<lambda>x w. if caught x then P w else E x w) P"
  by (simp add: tolerant_def)

lemma snapshot_error:
  assumes "snapshot np it w p now s = Inl x" and "0 < w" and "2 \<le> p"
  shows "x = NO_ARRAY"
  using assms by (auto simp: snapshot_def window_arrays_def rbind_Inl_iff Let_def NO_ARRAY_def const_simps split: if_splits)

lemma control_error: "control_of e s = Inl x \<Longrightarrow> x = NO_ARRAY"
  unfolding control_of_def session_snapshot_def rbind_Inl_iff
  using snapshot_error [of "ae_np e" "ae_set_order e" 1 2] by auto

lemma keeps_session_control [keeps_rules]:
  assumes "k \<in> set (ol_keys o')" and T: "tolerant e E (ginv F G o')"
  shows "keeps E (ginv F G o') (session_control e k)"
  unfolding session_control_def
  by (rule keeps_on_session [OF assms(1)])
    (auto simp: session_step_def dest!: control_error intro: tolerantD [OF T])

lemma keeps_publish_selected [keeps_rules]:
  fixes E :: "exn \<Rightarrow> ('t, 'w) app \<Rightarrow> bool"
  assumes T: "tolerant e E (ginv F G o')"
  shows "keeps E (ginv F G o') (publish_selected_session e)"
proof (rule keepsI)
  fix a :: "('t, 'w) app" assume i: "ginv F G o' a"
  show "result_ok E (\<lambda>_. ginv F G o') (publish_selected_session e a)"
  proof (cases "selected_session a")
    case None
    then show ?thesis using i by (simp add: publish_selected_session_def)
  next
    case (Some s)
    have w: "0 < ap_window_s a" using i by (simp add: ginv_def core_def)
    have err: "E x b" if "session_snapshot e (ap_window_s a) MAXIMUM_DISPLAY_POINTS s = Inl x" "ginv F G o' b" for x b
      using snapshot_error [OF that(1) [unfolded session_snapshot_def] w] tolerantD [OF T that(2)]
      by (simp add: MAXIMUM_DISPLAY_POINTS_def)
    have "keeps E (ginv F G o') (io_seq
        [emit (HealthReady (health (ms_acquisition s))),
         io_when (\<not> ap_display_paused a)
           (io_bind (io_lift (session_snapshot e (ap_window_s a) MAXIMUM_DISPLAY_POINTS s)) (\<lambda>u. emit (SnapshotReady u)))])"
      by (auto intro!: keeps_rules err)
    then show ?thesis using keepsD i Some by (simp add: publish_selected_session_def)
  qed
qed

lemma keeps_with_session:
  fixes E :: "exn \<Rightarrow> ('t, 'w) app \<Rightarrow> bool"
  assumes "\<And>s (a :: ('t, 'w) app). ginv F G o' a \<Longrightarrow> get_session k a = Some s \<Longrightarrow> k \<in> set (ol_keys o') \<Longrightarrow> keeps E (ginv F G o') (f s)"
  shows "keeps E (ginv F G o') (with_session k f)"
proof (rule keepsI)
  fix a :: "('t, 'w) app" assume i: "ginv F G o' a"
  show "result_ok E (\<lambda>_. ginv F G o') (with_session k f a)"
  proof (cases "get_session k a")
    case None
    then show ?thesis using keepsD [OF keeps_raise_error i] by (simp add: with_session_def)
  next
    case (Some s)
    then have "k \<in> set (ol_keys o')"
      using get_session_keys i by (metis ginv_def option.distinct(1) outline.select_convs(1) outline_of_def)
    then show ?thesis using keepsD [OF assms [OF i Some]] i Some by (simp add: with_session_def)
  qed
qed

section \<open>Commands\<close>

definition printable :: "nat \<Rightarrow> bool" where
  "printable c \<longleftrightarrow> 33 \<le> c \<and> c < 127"

lemma strip_printable: "list_all printable s \<Longrightarrow> str_strip s = s"
proof -
  assume s: "list_all printable s"
  have n: "\<not> is_space c" if "printable c" for c using that by (auto simp: printable_def is_space_def)
  have "dropWhile is_space s = s" using s n by (cases s) auto
  moreover have "dropWhile is_space (rev s) = rev s"
  proof (cases "rev s")
    case (Cons c cs)
    then have "c \<in> set s" by (metis list.set_intros(1) set_rev)
    then show ?thesis using Cons s n by (auto simp: list_all_iff)
  qed simp
  ultimately show ?thesis by (simp add: str_strip_def strip_by_def)
qed

lemma enqueue_printable:
  assumes "list_all printable s" "s \<noteq> []" "length s \<le> 94"
  shows "\<exists>c'. enqueue_command s c = (Inr (), c')"
proof -
  have "list_all (\<lambda>x. x < 128) s" using assms(1) by (auto simp: list_all_iff printable_def)
  moreover have "0 \<notin> set (ascii_encode s)"
  proof
    assume "0 \<in> set (ascii_encode s)"
    then obtain x where "x \<in> set s" "(of_nat x :: byte) = 0" by (auto simp: ascii_encode_def)
    then show False using assms(1) by (auto simp: list_all_iff printable_def word_of_nat_eq_0_iff dest!: dvd_imp_le)
  qed
  moreover have "length (ascii_encode s) = length s" by (simp add: ascii_encode_def)
  ultimately show ?thesis using assms
    by (auto simp: enqueue_command_def strip_printable Let_def const_simps ascii_encode_def)
qed

lemma keeps_enqueue:
  assumes "k \<in> set (ol_keys o')" and "\<And>x c c' w. enqueue_command t c = (Inl x, c') \<Longrightarrow> ginv F G o' w \<Longrightarrow> E x w"
  shows "keeps E (ginv F G o') (acquisition k (enqueue_command t))"
  by (rule keeps_acquisition [OF assms(1)]) (use enqueue_conn assms(2) in blast)+

lemma keeps_command:
  assumes "k \<in> set (ol_keys o')" and "list_all printable t" "t \<noteq> []" "length t \<le> 94"
  shows "keeps E (ginv F G o') (acquisition k (enqueue_command t))"
  by (rule keeps_enqueue [OF assms(1)]) (use enqueue_printable [OF assms(2-4)] in \<open>metis Pair_inject sum.distinct(1)\<close>)

lemma keeps_commands [keeps_rules]:
  assumes "k \<in> set (ol_keys o')"
  shows "keeps E (ginv F G o') (acquisition k Acquisition.start_acquisition)"
    "keeps E (ginv F G o') (acquisition k Acquisition.stop_acquisition)"
    "keeps E (ginv F G o') (acquisition k Acquisition.request_status)"
    "keeps E (ginv F G o') (acquisition k Acquisition.request_livestream)"
    "keeps E (ginv F G o') (acquisition k request_clear_sd)"
  unfolding Acquisition.start_acquisition_def Acquisition.stop_acquisition_def Acquisition.request_status_def
    Acquisition.request_livestream_def request_clear_sd_def
  by (rule keeps_command [OF assms]; simp add: lit_def printable_def)+

lemma keeps_export_command:
  assumes "k \<in> set (ol_keys o')" and "t \<in> {lit ''CDC'', lit ''UART''}"
  shows "keeps E (ginv F G o') (acquisition k (enqueue_command (lit ''AT+EXPORT='' @ t)))"
  by (rule keeps_command [OF assms(1)]) (use assms(2) in \<open>auto simp: lit_def printable_def\<close>)

lemma enqueue_error: "enqueue_command t c = (Inl x, c') \<Longrightarrow> is_value_error x"
  by (auto simp: enqueue_command_def is_value_error_def Let_def split: if_splits)

lemma keeps_start_acquisition_for: "keeps E (ginv F G o') (start_acquisition_for k)"
  unfolding start_acquisition_for_def
  by (rule keeps_with_session) (auto intro: keeps_rules)

lemma keeps_stop_acquisition_for: "keeps E (ginv F G o') (stop_acquisition_for k)"
  unfolding stop_acquisition_for_def
  by (rule keeps_with_session) (auto intro: keeps_rules)

lemma keeps_set_watermark_for: "keeps E (ginv F G o') (set_watermark_for k words)"
  unfolding set_watermark_for_def
proof (rule keeps_with_session, rule keeps_catch)
  assume k: "k \<in> set (ol_keys o')"
  show "keeps (\<lambda>x w. if is_value_error x then ginv F G o' w else E x w) (ginv F G o')
      (acquisition k (Acquisition.set_watermark words))"
    by (rule keeps_acquisition [OF k])
      (auto simp: Acquisition.set_watermark_def is_value_error_def split: if_splits
        dest: enqueue_conn enqueue_error [unfolded is_value_error_def])
qed (rule keeps_rules)

lemma keeps_set_livestream_for: "keeps E (ginv F G o') (set_livestream_for k target)"
  unfolding set_livestream_for_def
proof (rule keeps_with_session, rule keeps_catch)
  assume k: "k \<in> set (ol_keys o')"
  show "keeps (\<lambda>x w. if is_value_error x then ginv F G o' w else E x w) (ginv F G o')
      (acquisition k (Acquisition.set_livestream target))"
    by (rule keeps_acquisition [OF k])
      (auto simp: Acquisition.set_livestream_def is_value_error_def split: if_splits
        dest: enqueue_conn enqueue_error [unfolded is_value_error_def])
qed (rule keeps_rules)

lemma keeps_for_selected:
  "keeps E (ginv F G o') m \<Longrightarrow> (\<And>k. keeps E (ginv F G o') (f k)) \<Longrightarrow> keeps E (ginv F G o') (for_selected m f)"
  by (rule keepsI) (auto simp: for_selected_def dest: keepsD split: option.splits)

lemma keys_of_inv: "ginv F G o' a \<Longrightarrow> session_keys a = ol_keys o'"
  by (auto simp: ginv_def outline_of_def)

text \<open>A loop over the sessions.\<close>

lemma keeps_for_sessions:
  fixes E :: "exn \<Rightarrow> ('t, 'w) app \<Rightarrow> bool"
  assumes "\<And>k. k \<in> set (ol_keys o') \<Longrightarrow> keeps E (ginv F G o') (f k)"
  shows "keeps E (ginv F G o') (\<lambda>a. io_for (session_keys a) f a)"
proof (rule keeps_state [where f = "\<lambda>a. io_for (session_keys a) f"])
  fix a :: "('t, 'w) app" assume "ginv F G o' a"
  then show "keeps E (ginv F G o') (io_for (session_keys a) f)"
    using assms by (simp add: keys_of_inv keeps_for)
qed

lemma keeps_request_status_all: "keeps E (ginv F G o') request_status_all"
  unfolding request_status_all_def [abs_def] by (rule keeps_for_sessions) (rule keeps_rules)

lemma keeps_request_status_idle: "keeps E (ginv F G o') request_status_idle"
  unfolding request_status_idle_def [abs_def] by (rule keeps_for_sessions) (auto intro!: keeps_rules)

lemma keeps_request_selected_livestream:
  fixes E :: "exn \<Rightarrow> ('t, 'w) app \<Rightarrow> bool"
  shows "keeps E (ginv F G o') request_selected_livestream"
  unfolding request_selected_livestream_def
proof (rule keeps_for_selected, rule keeps_return, rule keeps_state [where
    f = "\<lambda>a. io_when (get_session k a \<noteq> None) (acquisition k Acquisition.request_livestream)" for k])
  fix k and a :: "('t, 'w) app" assume i: "ginv F G o' a"
  show "keeps E (ginv F G o') (io_when (get_session k a \<noteq> None) (acquisition k Acquisition.request_livestream))"
    using get_session_keys [of k a] keys_of_inv [OF i] by (intro keeps_when keeps_commands) simp
qed

end
