(* ===== verification/AppRecordingInv.thy ===== *)
theory AppRecordingInv
  imports AppInvariant
begin

text \<open>
  The recordings and exports of \<open>AppRecording\<close> keep the invariant of the application controller: every recorder a
  session holds is active, the inventory marks exactly the sessions that record, and what escapes is a failed
  close, a failed write of metadata, or the store's refusal.
\<close>

section \<open>Recorders\<close>

lemma started_recorder_active: "started_recorder e p m = Inr r \<Longrightarrow> rc_is_active r"
  by (auto simp: started_recorder_def rbind_Inr_iff RawSessionRecorder_init_def recorder_start_def Let_def const_simps
      split: if_splits sum.splits prod.splits)

lemma started_recorder_error: "started_recorder e p m = Inl x \<Longrightarrow> ae_opened e p = Inl x"
  by (auto simp: started_recorder_def rbind_Inl_iff RawSessionRecorder_init_def recorder_start_def Let_def const_simps
      split: if_splits sum.splits prod.splits)

lemma recorder_stop_error:
  assumes "fst (recorder_stop e r) = Inl x" and "\<not> is_runtime_error x"
  shows "\<not> env_ok e"
  using assms
  by (auto simp: recorder_stop_def io_bind_def io_update_def io_lift_def io_return_def stop_begin_def stop_finish_def
      is_runtime_error_def env_ok_def split: sum.splits prod.splits if_splits)

lemma update_stop_error:
  assumes "fst (io_bind (update_metadata vs) (\<lambda>_. recorder_stop e) r) = Inl x" and "\<not> is_runtime_error x"
  shows "\<not> env_ok e"
proof -
  obtain y r1 where u: "update_metadata vs r = (y, r1)" by force
  show ?thesis
  proof (cases y)
    case (Inl z)
    then show ?thesis using assms u
      by (auto simp: io_bind_def update_metadata_def is_runtime_error_def split: if_splits)
  next
    case (Inr v)
    then have "fst (recorder_stop e r1) = Inl x" using assms(1) u by (simp add: io_bind_def)
    then show ?thesis using recorder_stop_error assms(2) by blast
  qed
qed

definition stops_ok :: "('t, 'w) app_env \<Rightarrow> (recorder, recording_summary) io \<Rightarrow> bool" where
  "stops_ok e m \<longleftrightarrow> (\<forall>r x. fst (m r) = Inl x \<longrightarrow> \<not> is_runtime_error x \<longrightarrow> \<not> env_ok e)"

lemma stops_ok_stop [simp]: "stops_ok e (recorder_stop e)" "stops_ok e (io_bind (update_metadata vs) (\<lambda>_. recorder_stop e))"
  unfolding stops_ok_def using recorder_stop_error update_stop_error by blast+

lemma stop_reporting_state: "stop_reporting m r a = (v, a') \<Longrightarrow> same_state a a'"
  by (auto simp: stop_reporting_def report_exn_def emit_def io_update_def same_state_def split: sum.splits if_splits)

lemma keeps_stop_reporting [keeps_rules]:
  fixes E :: "exn \<Rightarrow> ('t, 'w) app \<Rightarrow> bool"
  assumes "stops_ok e m" and T: "tolerant e E (ginv F G o')"
  shows "keeps E (ginv F G o') (stop_reporting m r)"
proof (rule keepsI)
  fix a :: "('t, 'w) app" assume i: "ginv F G o' a"
  obtain v a' where s: "stop_reporting m r a = (v, a')" by force
  have i': "ginv F G o' a'" using same_state_inv [OF stop_reporting_state [OF s] i] .
  show "result_ok E (\<lambda>_. ginv F G o') (stop_reporting m r a)"
  proof (cases v)
    case (Inl x)
    then have "\<not> env_ok e" using s assms(1) by (auto simp: stop_reporting_def stops_ok_def split: sum.splits if_splits)
    then show ?thesis using s Inl tolerantD [OF T i'] by simp
  qed (use s i' in simp)
qed

section \<open>Archive recorders\<close>

lemma archive_recorder_active: "local_ok s \<Longrightarrow> archive_recorder s = Some r \<Longrightarrow> rc_is_active r"
  by (auto simp: local_ok_def archive_recorder_def conn_ok_def split: if_splits option.splits)

lemma put_archive_step:
  assumes "archive_recorder s \<noteq> None" and "rc_is_active r"
  shows "session_step s (put_archive_recorder r s)"
  using assms by (auto simp: put_archive_recorder_def session_step_def local_ok_def conn_ok_def set_archive_recorder_def
      archive_recorder_def split: if_splits)

lemma update_archive_result:
  assumes "local_ok s" and "update_archive_recorder vs s = (r, s')"
  shows "r = Inr () \<and> session_step s s'"
proof (cases "archive_recorder s")
  case None
  then show ?thesis using assms(2) by (simp add: update_archive_recorder_def session_step_def)
next
  case (Some q)
  obtain q' where "update_metadata vs q = (Inr (), q')" "rc_is_active q'"
    using update_metadata_ok archive_recorder_active [OF assms(1) Some] by blast
  then show ?thesis using assms(2) Some put_archive_step [of s q'] by (simp add: update_archive_recorder_def)
qed

lemma keeps_update_archive [keeps_rules]:
  "k \<in> set (ol_keys o') \<Longrightarrow> keeps E (ginv F G o') (on_session k (update_archive_recorder vs))"
  by (rule keeps_on_session) (auto dest: update_archive_result)

lemma detach_archive_step: "detach_archive_recorder s = (r, s') \<Longrightarrow> session_step s s'"
  by (auto simp: detach_archive_recorder_def session_step_def local_ok_def conn_ok_def set_archive_recorder_def
      split: if_splits)

lemma keeps_detach_archive [keeps_rules]:
  "k \<in> set (ol_keys o') \<Longrightarrow> keeps E (ginv F G o') (on_session k detach_archive_recorder)"
  by (rule keeps_on_session [OF _ detach_archive_step]) (auto simp: detach_archive_recorder_def split: if_splits)

lemma keeps_summary_of [keeps_rules]:
  fixes E :: "exn \<Rightarrow> ('t, 'w) app \<Rightarrow> bool"
  assumes "k \<in> set (ol_keys o')" and "k \<notin> G"
  shows "keeps E (ginv F G o') (summary_of k)"
proof (rule keepsI)
  fix a :: "('t, 'w) app" assume i: "ginv F G o' a"
  obtain s where s: "get_session k a = Some s" using inv_get [OF i assms(1)] by blast
  then have "shown (ap_session_index a) k s" using i assms(2) by (simp add: ginv_def core_def)
  then obtain n where "map_of (sm_nodes (ap_session_index a)) k = Some n" by (auto simp: shown_def)
  then show "result_ok E (\<lambda>_. ginv F G o') (summary_of k a)"
    using i by (simp add: summary_of_def session_summary_def require_node_def)
qed

section \<open>Exports\<close>

text \<open>What may escape from code that starts an archive recording.\<close>

definition escapes :: "('t, 'w) app_env \<Rightarrow> (exn \<Rightarrow> ('t, 'w) app \<Rightarrow> bool) \<Rightarrow> (('t, 'w) app \<Rightarrow> bool) \<Rightarrow> bool" where
  "escapes e E P \<longleftrightarrow> (\<forall>x a. P a \<longrightarrow> is_common_error x \<or> \<not> env_ok e \<longrightarrow> E x a)"

lemma escapesD: "escapes e E P \<Longrightarrow> P a \<Longrightarrow> is_common_error x \<or> \<not> env_ok e \<Longrightarrow> E x a"
  unfolding escapes_def by blast

lemma no_array_common: "is_common_error NO_ARRAY"
  by (simp add: NO_ARRAY_def is_common_error_def is_value_error_def)

lemma escapes_tolerant: "escapes e E P \<Longrightarrow> tolerant e E P"
  using no_array_common by (auto simp: escapes_def tolerant_def allowed_def)

lemma escapes_catch:
  "tolerant e E P \<Longrightarrow> escapes e (\<lambda>x w. if is_common_error x then P w else E x w) P"
  by (auto simp: escapes_def tolerant_def allowed_def)

lemma opened_common:
  assumes "started_recorder e p m = Inl x"
  shows "is_common_error x \<or> \<not> env_ok e"
  using started_recorder_error [OF assms] by (auto simp: env_ok_def is_common_error_def)

lemma keeps_start_archive_recording:
  assumes k: "k \<in> set (ol_keys o')" "k \<notin> G" and X: "escapes e E (ginv F G o')"
  shows "keeps E (ginv F G o') (start_archive_recording e k)"
proof -
  have T: "tolerant e E (ginv F G o')" using X by (rule escapes_tolerant)
  have rt: "is_common_error (RuntimeError m)" for m
    by (simp add: is_common_error_def is_runtime_error_def)
  show ?thesis
    unfolding start_archive_recording_def Let_def
    by (intro keeps_bind keeps_if keeps_option keeps_result keeps_raise keeps_return keeps_the_session keeps_get
          keeps_summary_of keeps_same_update keeps_update_session keeps_session_control k T)
      (auto simp: same_state_def session_step_def local_ok_def conn_ok_def set_archive_recorder_def
          attach_archive_recorder_def split: option.splits
        dest!: opened_common started_recorder_active intro: escapesD [OF X] rt)
qed

text \<open>The slot as seen from inside its \<^verbatim>\<open>try\<close>.\<close>

lemma keeps_guarded_start:
  assumes "k \<in> set (ol_keys o')" "k \<notin> G" and T: "tolerant e E (ginv F G o')"
  shows "keeps (\<lambda>x w. if is_common_error x then ginv F G o' w else E x w) (ginv F G o') (start_archive_recording e k)"
  by (rule keeps_start_archive_recording [OF assms(1,2) escapes_catch [OF T]])

lemma export_target_cases: "export_target s \<in> {lit ''CDC'', lit ''UART''}"
  by (simp add: export_target_def)

lemma session_step_archive:
  "t \<in> {lit ''CDC'', lit ''UART''} \<Longrightarrow> session_step s (s\<lparr>ms_archive_path := p, ms_archive_target := t\<rparr>)"
  "t \<in> {lit ''CDC'', lit ''UART''} \<Longrightarrow> session_step s (s\<lparr>ms_archive_total_bytes := n, ms_archive_path := p,
     ms_archive_target := t, ms_archive_retries := i, ms_archive_cancel_requested := b\<rparr>)"
  "session_step s (s\<lparr>ms_archive_cancel_requested := b\<rparr>)"
  "session_step s (s\<lparr>ms_archive_retries := i\<rparr>)"
  by (auto simp: session_step_def local_ok_def)

lemma keeps_start_export_for:
  assumes T: "tolerant e E (ginv F {} o')"
  shows "keeps E (ginv F {} o') (start_export_for e k)"
  unfolding start_export_for_def Let_def
  by (rule keeps_with_session)
    (intro keeps_if keeps_bind keeps_option keeps_raise_error keeps_session_control keeps_try keeps_guarded_start
      keeps_report_exn keeps_seq
      keeps_update_session keeps_export_command keeps_emit session_step_archive export_target_cases T; simp)

lemma keeps_cancel_export_for: "keeps E (ginv F G o') (cancel_export_for k)"
  unfolding cancel_export_for_def
  by (rule keeps_with_session)
    (auto intro!: keeps_if keeps_return keeps_seq keeps_commands keeps_update_session session_step_archive)

lemma keeps_clear_sd_for:
  assumes T: "tolerant e E (ginv F {} o')"
  shows "keeps E (ginv F {} o') (clear_sd_for e k)"
  unfolding clear_sd_for_def
  by (rule keeps_with_session)
    (intro keeps_if keeps_bind keeps_option keeps_raise_error keeps_session_control keeps_catch keeps_report_exn
      keeps_commands T; simp)

lemma keeps_retry:
  fixes E :: "exn \<Rightarrow> ('t, 'w) app \<Rightarrow> bool"
  assumes "k \<in> set (ol_keys o')" and T: "tolerant e E (ginv F {} o')"
  shows "keeps E (ginv F {} o') (retry_export_after_abort e k)"
proof -
  let ?body = "\<lambda>s :: 't managed_session. let target = (if ms_archive_target s \<noteq> [] then ms_archive_target s else export_target s)
       in io_try is_common_error (start_archive_recording e k :: ('t, 'w, pystr) app_io) report_exn (\<lambda>path. io_seq
              [update_session k (\<lambda>s. s\<lparr>ms_archive_path := Some path, ms_archive_target := target\<rparr>),
               acquisition k (enqueue_command (lit ''AT+EXPORT='' @ target)),
               raise_error ''firmware aborted the export before the first frame; automatic retry {}/{} started'',
               emit (ExportStarted k path (ms_archive_total_bytes s))])"
  have body: "keeps E (ginv F {} o') (?body s)" if "local_ok s" for s :: "'t managed_session"
  proof -
    define t where "t = (if ms_archive_target s \<noteq> [] then ms_archive_target s else export_target s)"
    have "t \<in> {lit ''CDC'', lit ''UART''}" using that export_target_cases [of s] by (auto simp: t_def local_ok_def)
    then show ?thesis unfolding t_def [symmetric] Let_def
      by (intro keeps_try keeps_guarded_start keeps_report_exn keeps_seq)
        (auto intro!: keeps_update_session keeps_export_command keeps_raise_error keeps_emit session_step_archive T assms(1))
  qed
  show ?thesis
    unfolding retry_export_after_abort_def keeps_def
  proof (rule triple_bind [where R = "\<lambda>s a. ginv F {} o' a \<and> local_ok s"])
    show "triple E (ginv F {} o') (the_session k) (\<lambda>s a. ginv F {} o' a \<and> local_ok s)"
    proof (rule tripleI)
      fix a :: "('t, 'w) app" assume i: "ginv F {} o' a"
      obtain s where "get_session k a = Some s" using inv_get [OF i assms(1)] by blast
      then show "result_ok E (\<lambda>s a. ginv F {} o' a \<and> local_ok s) (the_session k a)"
        using i inv_local [OF i] inv_put_session [OF i _, of k s s]
        by (auto simp: the_session_def on_session_def io_get_def session_step_def put_session_def)
    qed
    show "triple E (\<lambda>a. ginv F {} o' a \<and> local_ok s) (?body s) (\<lambda>_. ginv F {} o')" for s
      using body [of s] by (auto simp: keeps_def triple_def)
  qed
qed

lemma keeps_export_ended:
  assumes "k \<in> set (ol_keys o')" and T: "tolerant e E (ginv F {} o')"
  shows "keeps E (ginv F {} o') (export_ended e k phase cancelled summary)"
proof -
  have g: "keeps E (ginv F {} o') (on_session k (io_get ms_archive_retries))"
    by (rule keeps_on_session [OF assms(1)]) (auto simp: io_get_def session_step_def)
  show ?thesis
    unfolding export_ended_def
    by (intro keeps_bind g keeps_if keeps_seq)
      (auto intro!: keeps_update_session keeps_retry keeps_raise_error keeps_emit keeps_return session_step_archive assms)
qed

lemma keeps_finalize_completed_export:
  assumes "k \<in> set (ol_keys o')" and T: "tolerant e E (ginv F {} o')"
  shows "keeps E (ginv F {} o') (finalize_completed_export e k)"
  unfolding finalize_completed_export_def
  by (intro keeps_bind keeps_the_session keeps_if keeps_return keeps_session_control keeps_option keeps_update_archive
      keeps_detach_archive keeps_update_session keeps_stop_reporting [where e = e] keeps_export_ended session_step_archive stops_ok_stop assms)

lemma keeps_watchdog:
  assumes "k \<in> set (ol_keys o')" and T: "tolerant e E (ginv F {} o')"
  shows "keeps E (ginv F {} o') (watchdog_stalled_export e k)"
  unfolding watchdog_stalled_export_def
  by (intro keeps_bind keeps_the_session keeps_if keeps_return keeps_session_control keeps_option keeps_seq
      keeps_detach_archive keeps_stop_reporting [where e = e] stops_ok_stop assms)
    (auto intro!: keeps_raise_error keeps_emit)

section \<open>Session recordings\<close>

text \<open>A session and its node changed together.\<close>

lemma ginv_put_both:
  fixes a :: "('t, 'w) app"
  assumes i: "ginv F G o' a" and s: "get_session k a = Some s"
    and same: "ms_node_id s' = ms_node_id s" "ms_token s' = ms_token s" "ms_transport_kind s' = ms_transport_kind s"
      "ms_ota_active s' \<Longrightarrow> ms_ota_active s" and l: "local_ok s'"
    and m: "sm_inv m" "sm_maximum_sessions m = 16" "map_of (sm_nodes m) k = Some n" "node_shows s' n"
      "\<And>k'. k' \<noteq> k \<Longrightarrow> map_of (sm_nodes m) k' = map_of (sm_nodes (ap_session_index a)) k'"
    and f: "F \<Longrightarrow> ol_recording o' \<or> \<not> ms_recording s'"
  shows "ginv F G o' (put_session k s' a\<lparr>ap_session_index := m\<rparr>)"
proof -
  let ?b = "put_session k s' a\<lparr>ap_session_index := m\<rparr>"
  have k: "k \<in> set (session_keys a)" using s get_session_keys by (metis option.distinct(1))
  have keys: "session_keys ?b = session_keys a"
    using keys_put_session [OF k, of s'] by (simp add: session_keys_def)
  have get: "get_session k' ?b = (if k' = k then Some s' else get_session k' a)" for k'
    using get_put_session [of k' k s' a] by (simp add: get_session_def)
  have ok: "session_ok ?b k'' t = session_ok a k'' t" for k'' t by (simp add: session_ok_def)
  have core: "core G a" using i by (simp add: ginv_def)
  have "session_ok a k s'" using core s same l by (auto simp: core_def session_ok_def)
  moreover have "shown m k s'" using m(3,4) by (auto simp: shown_def)
  moreover have "shown m k' t = shown (ap_session_index a) k' t" "online m k' = online (ap_session_index a) k'"
    if "k' \<noteq> k" for k' and t :: "'t managed_session" using m(5) that by (simp_all add: shown_def online_def)
  moreover have "ota_ok ?b = ota_ok a" by (simp add: ota_ok_def put_session_def)
  ultimately have "core G ?b"
    using core m(1,2) s same(3) by (auto simp: core_def keys get ok split: if_splits)
  moreover have "outline_of ?b = outline_of a" by (simp add: outline_of_def keys)
  moreover have "flags_ok ?b" if F
  proof (cases "ol_recording o'")
    case True
    then show ?thesis using i by (auto simp: flags_ok_def ginv_def outline_of_def)
  next
    case False
    then have "list_all (\<lambda>(k, s). \<not> ms_recording s) (ap_sessions a)" "\<not> ms_recording s'"
      using i f that by (auto simp: flags_ok_def ginv_def outline_of_def)
    moreover have "set (AList.update k s' xs) \<subseteq> insert (k, s') (set xs)" for xs by (induction xs) auto
    ultimately show ?thesis by (auto simp: flags_ok_def put_session_def list_all_iff)
  qed
  ultimately show ?thesis using i by (simp add: ginv_def)
qed

lemma node_of_session:
  assumes "ginv F G o' a" and "get_session k a = Some s" and "k \<notin> G"
  obtains n where "map_of (sm_nodes (ap_session_index a)) k = Some n" "node_shows s n"
  using assms unfolding ginv_def core_def shown_def by blast

lemma set_recording_result:
  assumes "map_of (sm_nodes m) k = Some n" and "sm_inv m"
  obtains m' where "set_recording k b m = (Inr (), m')" "sm_inv m'"
    "sm_maximum_sessions m' = sm_maximum_sessions m" "map_of (sm_nodes m') k = Some (n\<lparr>ns_is_recording := b\<rparr>)"
    "\<And>k'. k' \<noteq> k \<Longrightarrow> map_of (sm_nodes m') k' = map_of (sm_nodes m) k'"
proof -
  let ?m' = "put_node k (n\<lparr>ns_is_recording := b\<rparr>) m"
  have "set_recording k b m = (Inr (), ?m')" using assms(1) by (simp add: set_recording_def require_node_def)
  moreover have "sm_inv ?m'" using set_recording_inv calculation assms(2) by blast
  ultimately show ?thesis by (rule that) (simp_all add: map_of_put_node)
qed

lemma run_on_session:
  "get_session k a = Some s \<Longrightarrow> m s = (r, s') \<Longrightarrow> on_session k m a = (r, put_session k s' a)"
  by (simp add: on_session_def put_session_def)

lemma put_put_session [simp]: "put_session k t (put_session k s a) = put_session k t a"
  by (simp add: put_session_def)

text \<open>Attaching a started recorder: the three statements at the end of \<open>start_session_recording\<close>.\<close>

lemma attach_recorder:
  assumes i: "ginv F {} o' a" and rec: "ol_recording o'" and s: "get_session k a = Some s" "\<not> ms_recording s"
    and r: "rc_is_active r"
  shows "result_ok E (\<lambda>_. ginv F {} o') (io_seq
    [update_session k (\<lambda>s. s\<lparr>ms_recording := True\<rparr>), acquisition k (set_recorder (Some r)),
     on_index (set_recording k True)] a)"
proof -
  obtain c' r' where c: "set_recorder (Some r) (ms_acquisition s) = (Inr (), c')" "ac_recorder c' = Some r'"
      "rc_is_active r'" "ac_archive_recorder c' = ac_archive_recorder (ms_acquisition s)"
      "ac_control_state c' = ac_control_state (ms_acquisition s)"
      "ac_identity_updates c' = ac_identity_updates (ms_acquisition s)"
    using set_recorder_ok [OF r] by blast
  obtain n where n: "map_of (sm_nodes (ap_session_index a)) k = Some n" "node_shows s n"
    using node_of_session [OF i s(1)] by blast
  have inv: "sm_inv (ap_session_index a)" "sm_maximum_sessions (ap_session_index a) = 16"
    using i by (simp_all add: ginv_def core_def)
  obtain m where m: "set_recording k True (ap_session_index a) = (Inr (), m)" "sm_inv m"
      "sm_maximum_sessions m = 16" "map_of (sm_nodes m) k = Some (n\<lparr>ns_is_recording := True\<rparr>)"
      "\<And>k'. k' \<noteq> k \<Longrightarrow> map_of (sm_nodes m) k' = map_of (sm_nodes (ap_session_index a)) k'"
    using set_recording_result [OF n(1) inv(1), of True] inv(2) by metis
  let ?s1 = "s\<lparr>ms_recording := True\<rparr>"
  let ?s2 = "?s1\<lparr>ms_acquisition := c'\<rparr>"
  have u: "update_session k (\<lambda>s. s\<lparr>ms_recording := True\<rparr>) a = (Inr (), put_session k ?s1 a)"
    unfolding update_session_def by (rule run_on_session [OF s(1)]) (simp add: io_update_def)
  have q: "acquisition k (set_recorder (Some r)) (put_session k ?s1 a) = (Inr (), put_session k ?s2 a)"
    using run_on_session [of k "put_session k ?s1 a" ?s1 "on_acquisition (set_recorder (Some r))" "Inr ()" ?s2] c(1)
    by (simp add: acquisition_def get_put_session on_acquisition_def)
  have x: "on_index (set_recording k True) (put_session k ?s2 a) = (Inr (), put_session k ?s2 a\<lparr>ap_session_index := m\<rparr>)"
    by (simp add: on_index_def m(1))
  have "local_ok ?s2" using inv_local [OF i s(1)] c by (simp add: local_ok_def conn_ok_def)
  then have "ginv F {} o' (put_session k ?s2 a\<lparr>ap_session_index := m\<rparr>)"
    using ginv_put_both [OF i s(1), of ?s2 m] m(2-5) n(2) rec by (simp add: node_shows_def)
  then show ?thesis by (simp add: io_seq.simps io_bind_def u q x io_return_def)
qed

text \<open>The state of an invariant in which \<open>s\<close> is the session of a node.\<close>

definition sees :: "bool \<Rightarrow> outline \<Rightarrow> pystr \<Rightarrow> 't managed_session \<Rightarrow> ('t, 'w) app \<Rightarrow> bool" where
  "sees F o' k s a \<longleftrightarrow> ginv F {} o' a \<and> get_session k a = Some s"

lemma sees_same_state: "same_state a b \<Longrightarrow> sees F o' k s a \<Longrightarrow> sees F o' k s b"
  using same_state_inv [of a b F "{}" o'] by (auto simp: sees_def same_state_def get_session_def)

lemma put_session_same: "get_session k a = Some s \<Longrightarrow> put_session k s a = a"
  using AList.update_triv [of "ap_sessions a" k s] by (simp add: get_session_def put_session_def)

lemma triple_the_session:
  fixes E :: "exn \<Rightarrow> ('t, 'w) app \<Rightarrow> bool"
  assumes k: "k \<in> set (ol_keys o')" and f: "\<And>s. triple E (sees F o' k s) (f s) Q"
  shows "triple E (ginv F {} o') (io_bind (the_session k) f) Q"
proof (rule triple_bind [where R = "sees F o' k"])
  show "triple E (ginv F {} o') (the_session k) (sees F o' k)"
  proof (rule tripleI)
    fix a :: "('t, 'w) app" assume i: "ginv F {} o' a"
    obtain s where s: "get_session k a = Some s" using inv_get [OF i k] by blast
    show "result_ok E (sees F o' k) (the_session k a)"
      using run_on_session [OF s, of "io_get (\<lambda>s. s)" "Inr s" s] put_session_same [OF s] i s
      by (simp add: the_session_def io_get_def sees_def)
  qed
qed (rule f)

lemma keeps_sees:
  fixes E :: "exn \<Rightarrow> ('t, 'w) app \<Rightarrow> bool"
  shows "k \<in> set (ol_keys o') \<Longrightarrow> keeps E (sees F o' k s) (summary_of k)"
  "keeps E (sees F o' k s) (io_get g)"
  "(\<And>a. same_state a (h a)) \<Longrightarrow> keeps E (sees F o' k s) (io_update h)"
proof -
  assume k: "k \<in> set (ol_keys o')"
  show "keeps E (sees F o' k s) (summary_of k)"
  proof (rule keepsI)
    fix a :: "('t, 'w) app" assume a: "sees F o' k s a"
    then obtain n where "map_of (sm_nodes (ap_session_index a)) k = Some n"
      using node_of_session [of F "{}" o' a k s] by (auto simp: sees_def)
    then show "result_ok E (\<lambda>_. sees F o' k s) (summary_of k a)"
      using a by (simp add: summary_of_def session_summary_def require_node_def)
  qed
qed (auto intro: keeps_get keeps_update sees_same_state)

lemma triple_open_recording:
  fixes E :: "exn \<Rightarrow> ('t, 'w) app \<Rightarrow> bool"
  assumes rec: "ol_recording o'" and T: "tolerant e E (ginv F {} o')" and s: "\<not> ms_recording s"
  shows "triple E (sees F o' k s) (open_recording e k s n j) (\<lambda>_. ginv F {} o')"
  unfolding open_recording_def
proof (rule triple_bind [where R = "\<lambda>_. sees F o' k s"])
  show "triple E (sees F o' k s) (recording_path n j) (\<lambda>_. sees F o' k s)"
  proof (rule tripleI)
    fix a :: "('t, 'w) app" assume q: "sees F o' k s a"
    then have "ap_recording_active a" using rec by (auto simp: sees_def ginv_def outline_of_def)
    then obtain b where "ap_recording_batch_path a = Some b" using q by (auto simp: sees_def ginv_def core_def)
    then show "result_ok E (\<lambda>_. sees F o' k s) (recording_path n j a)" using q by (simp add: recording_path_def)
  qed
next
  fix p
  show "triple E (sees F o' k s) (case started_recorder e p (recording_metadata s n j) of
         Inl x \<Rightarrow> if is_os_error x then report_exn x else io_raise x
       | Inr r \<Rightarrow> io_seq
           [update_session k (\<lambda>s. s\<lparr>ms_recording := True\<rparr>), acquisition k (set_recorder (Some r)),
            on_index (set_recording k True)]) (\<lambda>_. ginv F {} o')"
  proof (cases "started_recorder e p (recording_metadata s n j)")
    case (Inl x)
    have "E x a" if "\<not> is_os_error x" "ginv F {} o' a" for a :: "('t, 'w) app"
    proof -
      have "\<not> env_ok e" using started_recorder_error [OF Inl] that(1) by (auto simp: env_ok_def)
      then show ?thesis using tolerantD [OF T that(2)] by blast
    qed
    then show ?thesis using keepsD [OF keeps_report_exn]
      by (auto simp: Inl triple_def io_raise_def sees_def)
  next
    case (Inr r)
    then show ?thesis using attach_recorder [OF _ rec _ s started_recorder_active [OF Inr]]
      by (auto simp: triple_def sees_def)
  qed
qed

lemma keeps_start_session_recording:
  assumes k: "k \<in> set (ol_keys o')" and rec: "ol_recording o'" and T: "tolerant e E (ginv F {} o')"
  shows "keeps E (ginv F {} o') (start_session_recording e k)"
  unfolding keeps_def start_session_recording_def Let_def
  by (intro triple_the_session [OF k] triple_if triple_return triple_bind [OF keeps_triple [OF keeps_sees(1) [OF k]]]
      triple_bind [OF keeps_triple [OF keeps_sees(2)]] triple_bind [OF keeps_triple [OF keeps_sees(3)]]
      triple_open_recording rec T)
    (simp_all add: same_state_def sees_def)

text \<open>Stopping leaves the session without a recorder, and the other sessions as they are.\<close>

definition idle :: "pystr \<Rightarrow> ('t, 'w) app \<Rightarrow> bool" where
  "idle k a \<longleftrightarrow> (\<forall>s. get_session k a = Some s \<longrightarrow> \<not> ms_recording s)"

definition only_stopped :: "pystr \<Rightarrow> ('t, 'w) app \<Rightarrow> ('t, 'w) app \<Rightarrow> bool" where
  "only_stopped k a b \<longleftrightarrow> idle k b \<and> (\<forall>k'. k' \<noteq> k \<longrightarrow> get_session k' b = get_session k' a)"

lemma stop_idle_session:
  assumes "sees F o' k s a" and "\<not> ms_recording s"
  shows "\<exists>b. stop_session_recording e k a = (Inr (), b) \<and> ginv F {} o' b \<and> only_stopped k a b"
proof -
  let ?s = "s\<lparr>ms_acquisition := cancel_deferred_recording (ms_acquisition s)\<rparr>"
  have s: "get_session k a = Some s" and i: "ginv F {} o' a" using assms(1) by (simp_all add: sees_def)
  have "conn_step (ms_acquisition s) (cancel_deferred_recording (ms_acquisition s))"
    by (rule same_core_step) (simp add: same_core_def cancel_deferred_recording_def clear_deferred_def)
  then have "ginv F {} o' (put_session k ?s a)"
    using inv_put_session [OF i s] acquisition_session_step [OF inv_local [OF i s]] by blast
  moreover have "stop_session_recording e k a = (Inr (), put_session k ?s a)"
    using assms(2) s put_session_same [OF s]
    by (simp add: stop_session_recording_def io_bind_def on_session_def detach_recorder_def acquisition_update_def
        acquisition_def on_acquisition_def io_update_def put_session_def)
  ultimately show ?thesis using assms(2) by (auto simp: only_stopped_def idle_def get_put_session)
qed

lemma stop_active_session:
  assumes q: "sees F o' k s a" and rec: "ms_recording s"
    and st: "stop_session_recording e k a = (v, b)"
  shows "(\<forall>x. v = Inl x \<longrightarrow> \<not> env_ok e) \<and> (v = Inr () \<longrightarrow> ginv F {} o' b \<and> only_stopped k a b)"
proof -
  let ?s = "s\<lparr>ms_acquisition := clear_deferred (ms_acquisition s\<lparr>ac_recorder := None\<rparr>), ms_recording := False\<rparr>"
  let ?a1 = "put_session k ?s a"
  have s: "get_session k a = Some s" and i: "ginv F {} o' a" using q by (simp_all add: sees_def)
  have l: "local_ok s" using inv_local [OF i s] .
  then obtain r where r: "ac_recorder (ms_acquisition s) = Some r" using rec by (auto simp: local_ok_def)
  have d: "on_session k detach_recorder a = (Inr (Some r), ?a1)"
    by (rule run_on_session [OF s]) (simp add: detach_recorder_def rec set_recorder_def r)
  obtain w a2 where w: "stop_reporting (recorder_stop e) r ?a1 = (w, a2)" by force
  have same: "same_state ?a1 a2" using stop_reporting_state [OF w] .
  show ?thesis
  proof (cases w)
    case (Inl x)
    then have "\<not> env_ok e" using w stops_ok_stop(1) [of e]
      by (auto simp: stop_reporting_def stops_ok_def split: sum.splits if_splits)
    then show ?thesis using st d w Inl by (auto simp: stop_session_recording_def io_bind_def)
  next
    case (Inr y)
    obtain n where n: "map_of (sm_nodes (ap_session_index a)) k = Some n" "node_shows s n"
      using node_of_session [OF i s] by blast
    have inv: "sm_inv (ap_session_index a)" "sm_maximum_sessions (ap_session_index a) = 16"
      using i by (simp_all add: ginv_def core_def)
    obtain m where m: "set_recording k False (ap_session_index a) = (Inr (), m)" "sm_inv m"
        "sm_maximum_sessions m = 16" "map_of (sm_nodes m) k = Some (n\<lparr>ns_is_recording := False\<rparr>)"
        "\<And>k'. k' \<noteq> k \<Longrightarrow> map_of (sm_nodes m) k' = map_of (sm_nodes (ap_session_index a)) k'"
      using set_recording_result [OF n(1) inv(1), of False] inv(2) by metis
    have "local_ok ?s" using l rec by (simp add: local_ok_def conn_ok_def clear_deferred_def)
    then have "ginv F {} o' (?a1\<lparr>ap_session_index := m\<rparr>)"
      using ginv_put_both [OF i s, of ?s m] m(2-5) n(2) by (simp add: node_shows_def)
    moreover have "ap_session_index a2 = ap_session_index a" using same by (simp add: same_state_def)
    then have b: "v = Inr ()" "b = a2\<lparr>ap_session_index := m\<rparr>"
      using st d w Inr m(1) by (simp_all add: stop_session_recording_def io_bind_def on_index_def)
    moreover have "same_state (?a1\<lparr>ap_session_index := m\<rparr>) b" using same b(2) by (simp add: same_state_def)
    moreover have "get_session k' b = get_session k' ?a1" for k'
      using same b(2) by (simp add: same_state_def get_session_def)
    ultimately show ?thesis
      using same_state_inv by (auto simp: only_stopped_def idle_def get_put_session)
  qed
qed

lemma triple_stop_session_recording:
  fixes E :: "exn \<Rightarrow> ('t, 'w) app \<Rightarrow> bool"
  assumes k: "k \<in> set (ol_keys o')" and T: "\<And>x a. \<not> env_ok e \<Longrightarrow> E x a"
  shows "triple E (\<lambda>a. ginv F {} o' a \<and> (\<forall>j\<in>D. idle j a)) (stop_session_recording e k)
    (\<lambda>_ a. ginv F {} o' a \<and> (\<forall>j\<in>insert k D. idle j a))"
proof (rule tripleI, elim conjE)
  fix a :: "('t, 'w) app" assume i: "ginv F {} o' a" and D: "\<forall>j\<in>D. idle j a"
  obtain s where "get_session k a = Some s" using inv_get [OF i k] by blast
  then have q: "sees F o' k s a" using i by (simp add: sees_def)
  obtain v b where st: "stop_session_recording e k a = (v, b)" by force
  have o: "only_stopped k a b \<Longrightarrow> \<forall>j\<in>insert k D. idle j b" using D by (auto simp: only_stopped_def idle_def)
  show "result_ok E (\<lambda>_ a. ginv F {} o' a \<and> (\<forall>j\<in>insert k D. idle j a)) (stop_session_recording e k a)"
  proof (cases "ms_recording s")
    case False
    then show ?thesis using stop_idle_session [OF q False, of e] o st by auto
  next
    case True
    then show ?thesis using stop_active_session [OF q True st] o st T by (cases v) auto
  qed
qed

lemma triple_stop_all:
  assumes T: "\<And>x a. \<not> env_ok e \<Longrightarrow> E x a"
  shows "set ks \<subseteq> set (ol_keys o') \<Longrightarrow> triple E (\<lambda>a. ginv F {} o' a \<and> (\<forall>j\<in>D. idle j a))
    (io_for ks (stop_session_recording e)) (\<lambda>_ a. ginv F {} o' a \<and> (\<forall>j\<in>D \<union> set ks. idle j a))"
proof (induction ks arbitrary: D)
  case Nil
  then show ?case by (simp add: io_for.simps triple_return)
next
  case (Cons k ks)
  have "triple E (\<lambda>a. ginv F {} o' a \<and> (\<forall>j\<in>D. idle j a)) (stop_session_recording e k)
      (\<lambda>_ a. ginv F {} o' a \<and> (\<forall>j\<in>insert k D. idle j a))"
    by (rule triple_stop_session_recording) (use Cons.prems T in auto)
  then show ?case
    using triple_bind [OF _ Cons.IH [of "insert k D"]] Cons.prems by (simp add: io_for.simps insert_commute)
qed

section \<open>The recording slot\<close>

lemma core_recording_off:
  assumes "core {} a"
  shows "core {} (a\<lparr>ap_recording_active := False\<rparr>)"
  by (rule core_change [OF assms]) (use coreD [OF assms] in \<open>simp_all add: session_ok_def\<close>)

lemma core_recording_on:
  assumes "core {} a" and "\<not> list_ex (\<lambda>(k, s). ms_ota_active s \<or> ms_ota_awaiting_restart s) (ap_sessions a)"
  shows "core {} (a\<lparr>ap_recording_active := True, ap_recording_batch_path := Some p\<rparr>)"
proof -
  have "\<not> ms_ota_active s" if "get_session k a = Some s" for k s
    using assms(2) map_of_SomeD [of "ap_sessions a" k s] that by (fastforce simp: list_ex_iff get_session_def)
  then show ?thesis
    by (intro core_change [OF assms(1)]) (use coreD [OF assms(1)] in \<open>simp_all add: session_ok_def\<close>)
qed

lemma flags_of_idle:
  assumes "core {} a" and "\<forall>k\<in>set (session_keys a). idle k a"
  shows "flags_ok a"
proof -
  have "\<not> ms_recording s" if "(k, s) \<in> set (ap_sessions a)" for k s
  proof -
    have "get_session k a = Some s"
      using coreD(3) [OF assms(1)] that by (simp add: get_session_def session_keys_def)
    moreover have "k \<in> set (session_keys a)" using that by (force simp: session_keys_def)
    ultimately show ?thesis using assms(2) by (auto simp: idle_def)
  qed
  then show ?thesis by (auto simp: flags_ok_def list_all_iff)
qed

lemma app_inv_ginv: "app_inv a \<longleftrightarrow> ginv True {} (outline_of a) a \<and> outline_ok (outline_of a)"
  by (simp add: app_inv_def ginv_def)

lemma app_invI: "ginv True {} o' a \<Longrightarrow> outline_ok o' \<Longrightarrow> app_inv a"
  by (auto simp: app_inv_def ginv_def)

lemma stop_recording_inv:
  assumes "app_inv a"
  shows "result_ok (allowed e) (\<lambda>_. app_inv) (set_session_recording e False path a)"
proof -
  let ?o = "outline_of a\<lparr>ol_recording := False\<rparr>"
  let ?I = "\<lambda>F a. ginv F {} ?o a"
  have ok: "outline_ok ?o" using assms by (simp add: app_inv_def outline_ok_def split: option.splits)
  have "triple (allowed e) (\<lambda>b. b = a) (set_session_recording e False path) (\<lambda>_. ?I True)"
  proof -
    have off: "triple (allowed e) (\<lambda>b. b = a) (io_update (\<lambda>a. a\<lparr>ap_recording_active := False\<rparr>))
        (\<lambda>_ b. ?I False b \<and> (\<forall>j\<in>{}. idle j b))"
      using core_recording_off [of a] assms
      by (intro triple_update) (auto simp: ginv_def app_inv_def outline_of_def session_keys_def)
    have all: "triple (allowed e) (\<lambda>b. ?I False b \<and> (\<forall>j\<in>{}. idle j b)) (io_for (session_keys a) (stop_session_recording e))
        (\<lambda>_ b. ?I False b \<and> (\<forall>j\<in>{} \<union> set (session_keys a). idle j b))"
      by (rule triple_stop_all) (auto simp: allowed_def outline_of_def)
    have batch: "triple (allowed e) (\<lambda>b. ?I False b \<and> (\<forall>j\<in>{} \<union> set (session_keys a). idle j b))
        (io_update (\<lambda>a. a\<lparr>ap_recording_batch_path := None\<rparr>)) (\<lambda>_. ?I True)"
    proof (rule triple_update)
      fix b assume b: "?I False b \<and> (\<forall>j\<in>{} \<union> set (session_keys a). idle j b)"
      then have "session_keys b = session_keys a" using keys_of_inv [of False "{}" ?o b] by (auto simp: outline_of_def)
      then have f: "flags_ok b" using b flags_of_idle [of b] by (simp add: ginv_def)
      have "\<not> ap_recording_active b" using b by (auto simp: ginv_def outline_of_def)
      then show "?I True (b\<lparr>ap_recording_batch_path := None\<rparr>)"
        using b f core_change [of "{}" b "b\<lparr>ap_recording_batch_path := None\<rparr>"] coreD [of "{}" b]
        by (simp add: ginv_def session_ok_def session_keys_def flags_ok_def outline_of_def)
    qed
    have "triple (allowed e) (\<lambda>b. b = a) (io_seq
        [io_update (\<lambda>a. a\<lparr>ap_recording_active := False\<rparr>), io_for (session_keys a) (stop_session_recording e),
         io_update (\<lambda>a. a\<lparr>ap_recording_batch_path := None\<rparr>), emit_nodes]) (\<lambda>_. ?I True)"
      by (rule triple_seq [OF off triple_seq [OF all triple_seq [OF batch triple_seq_end]]])
        (rule keeps_triple [OF keeps_emit_nodes])
    then show ?thesis by (simp add: triple_def set_session_recording_def)
  qed
  then show ?thesis
    using ok app_invI by (auto simp: triple_def result_ok_cases)
qed

lemma start_recording_inv:
  assumes inv: "app_inv a"
  shows "result_ok (allowed e) (\<lambda>_. app_inv) (set_session_recording e True path a)"
proof (cases "ap_sessions a = [] \<or> ap_recording_active a \<or>
    list_ex (\<lambda>(k, s). ms_ota_active s \<or> ms_ota_awaiting_restart s) (ap_sessions a)")
  case True
  have i: "ginv True {} (outline_of a) a" "outline_ok (outline_of a)" using inv unfolding app_inv_ginv by blast+
  have "result_ok (allowed e) (\<lambda>_. app_inv) (raise_error m a)" for m
    using keepsD [OF keeps_raise_error i(1), of "allowed e" m] app_invI [OF _ i(2)]
    unfolding result_ok_cases by blast
  then show ?thesis using True inv by (auto simp: set_session_recording_def)
next
  case False
  define p where "p = (case path of Some p \<Rightarrow> p | None \<Rightarrow> default_recording_batch_path e)"
  let ?o = "outline_of a\<lparr>ol_recording := True\<rparr>"
  let ?loop = "\<lambda>k. io_bind (summary_of k) (\<lambda>n. io_when (ns_device_uuid n \<noteq> None) (start_session_recording e k))"
  have ok: "outline_ok ?o" using inv by (simp add: app_inv_def outline_ok_def split: option.splits)
  have on: "triple (allowed e) (\<lambda>b. b = a) (io_update (\<lambda>a. a\<lparr>ap_recording_active := True, ap_recording_batch_path := Some p\<rparr>))
      (\<lambda>_. ginv True {} ?o)"
    using core_recording_on [of a p] inv False
    by (intro triple_update) (auto simp: ginv_def app_inv_def outline_of_def session_keys_def flags_ok_def)
  have "keeps (allowed e) (ginv True {} ?o) (io_seq [io_for (session_keys a) ?loop, emit_nodes])"
    by (intro keeps_seq keeps_emit_nodes keeps_for keeps_bind keeps_summary_of keeps_when keeps_start_session_recording)
      (auto simp: outline_of_def)
  then have "triple (allowed e) (\<lambda>b. b = a) (io_seq
      [io_update (\<lambda>a. a\<lparr>ap_recording_active := True, ap_recording_batch_path := Some p\<rparr>),
       io_for (session_keys a) ?loop, emit_nodes]) (\<lambda>_. ginv True {} ?o)"
    by (intro triple_seq [OF on] keeps_triple)
  moreover have "set_session_recording e True path a = io_seq
      [io_update (\<lambda>a. a\<lparr>ap_recording_active := True, ap_recording_batch_path := Some p\<rparr>),
       io_for (session_keys a) ?loop, emit_nodes] a"
    using False by (cases path) (simp_all add: set_session_recording_def p_def)
  ultimately show ?thesis
    using ok app_invI by (auto simp: triple_def result_ok_cases)
qed

end
