(* ===== verification/AppSessionsInv.thy ===== *)
theory AppSessionsInv
  imports AppRecordingInv
begin

text \<open>
  The remaining slots of \<open>AppSessions\<close> and \<open>AppOta\<close> keep the invariant of the application controller: the slots
  that change the inventory, the opening and the end of sessions, the Wi-Fi server, and the firmware update.
\<close>

section \<open>Slots that keep the outline\<close>

lemma inv_outline:
  fixes m :: "('t, 'w, 'a) app_io" and E :: "exn \<Rightarrow> ('t, 'w) app \<Rightarrow> bool"
  assumes "\<And>o'. outline_ok o' \<Longrightarrow> keeps E (ginv True {} o') m"
  shows "keeps E app_inv m"
proof (rule keepsI)
  fix a :: "('t, 'w) app" assume "app_inv a"
  then have i: "ginv True {} (outline_of a) a" "outline_ok (outline_of a)" unfolding app_inv_ginv by blast+
  show "result_ok E (\<lambda>_. app_inv) (m a)"
    using keepsD [OF assms [OF i(2)] i(1)] app_invI [OF _ i(2)] unfolding result_ok_cases by blast
qed

text \<open>A call of the inventory that keeps the connected nodes, but for their names and identities.\<close>

definition index_step :: "session_manager \<Rightarrow> session_manager \<Rightarrow> bool" where
  "index_step m m' \<longleftrightarrow> sm_inv m' \<and> sm_maximum_sessions m' = sm_maximum_sessions m \<and>
     (\<forall>k. online m' k \<longrightarrow> online m k) \<and>
     (\<forall>k n. map_of (sm_nodes m) k = Some n \<longrightarrow> ns_connection_state n = CONNECTED \<longrightarrow>
       (\<exists>n'. map_of (sm_nodes m') k = Some n' \<and> ns_connection_state n' = CONNECTED \<and>
          ns_transport_kind n' = ns_transport_kind n \<and> ns_peer n' = ns_peer n \<and>
          ns_is_recording n' = ns_is_recording n))"

lemma index_step_shown: "index_step m m' \<Longrightarrow> shown m k s \<Longrightarrow> shown m' k s"
  unfolding index_step_def shown_def node_shows_def by metis

lemma index_step_inv:
  fixes a :: "('t, 'w) app"
  assumes i: "ginv F G o' a" and m: "index_step (ap_session_index a) m"
  shows "ginv F G o' (a\<lparr>ap_session_index := m\<rparr>)"
proof -
  let ?b = "a\<lparr>ap_session_index := m\<rparr>"
  have g: "get_session k ?b = get_session k a" "session_keys ?b = session_keys a" "session_ok ?b = session_ok a" for k
    by (simp_all add: get_session_def session_keys_def session_ok_def fun_eq_iff)
  have c: "core G a" using i by (simp add: ginv_def)
  have "core G ?b"
    unfolding core_def g using coreD [OF c] m index_step_shown [OF m]
    by (simp add: index_step_def) blast
  moreover have "flags_ok ?b = flags_ok a" "outline_of ?b = outline_of a"
    by (simp_all add: flags_ok_def outline_of_def session_keys_def)
  ultimately show ?thesis using i by (simp add: ginv_def)
qed

lemma keeps_on_index:
  fixes E :: "exn \<Rightarrow> ('t, 'w) app \<Rightarrow> bool"
  assumes "\<And>m r m'. sm_inv m \<Longrightarrow> f m = (r, m') \<Longrightarrow> index_step m m'"
    and "\<And>a x m' w. ginv F G o' a \<Longrightarrow> f (ap_session_index (a :: ('t, 'w) app)) = (Inl x, m') \<Longrightarrow> ginv F G o' w \<Longrightarrow> E x w"
  shows "keeps E (ginv F G o') (on_index f)"
proof (rule keepsI)
  fix a :: "('t, 'w) app" assume i: "ginv F G o' a"
  obtain r m where f: "f (ap_session_index a) = (r, m)" by force
  have "sm_inv (ap_session_index a)" using i by (simp add: ginv_def core_def)
  then have "ginv F G o' (a\<lparr>ap_session_index := m\<rparr>)" using index_step_inv [OF i] assms(1) f by blast
  then show "result_ok E (\<lambda>_. ginv F G o') (on_index f a)"
    using assms(2) [OF i] f by (cases r) (simp_all add: on_index_def)
qed

lemma online_connected: "online m k \<longleftrightarrow> (\<exists>n. map_of (sm_nodes m) k = Some n \<and> ns_connection_state n = CONNECTED)"
  by (simp add: online_def)

lemma index_step_refl: "sm_inv m \<Longrightarrow> index_step m m"
  by (simp add: index_step_def)

lemma map_of_filter_distinct:
  assumes "distinct (map fst xs)"
  shows "map_of (filter P xs) k = Some v \<longleftrightarrow> map_of xs k = Some v \<and> P (k, v)"
  unfolding map_of_eq_Some_iff [OF assms] map_of_eq_Some_iff [OF distinct_map_filter [OF assms]] by auto

lemma bind_index_step:
  assumes inv: "sm_inv m" and b: "bind_identity k u m = (r, m')" and u: "u < 2 ^ 128"
  shows "index_step m m'"
proof (cases "m' = m")
  case True
  then show ?thesis using index_step_refl inv by simp
next
  case False
  obtain c where old: "map_of (sm_nodes m) k = Some c"
    using b False by (auto simp: bind_identity_def require_node_def split: option.splits)
  define n where "n = c\<lparr>ns_device_uuid := Some u, ns_alias := alias_of m u\<rparr>"
  define keep where "keep = filter (\<lambda>kn. \<not> same_device k u kn) (sm_nodes m)"
  have free: "\<not> list_ex (\<lambda>kn. same_device k u kn \<and> ns_connection_state (snd kn) = CONNECTED) (sm_nodes m)"
    and m': "m' = put_node k n (m\<lparr>sm_nodes := keep\<rparr>)"
    using b False old by (auto simp: bind_identity_def require_node_def n_def keep_def Let_def split: if_splits)
  have "distinct (map fst (sm_nodes m))" using inv by (simp add: sm_inv_def)
  note km = map_of_filter_distinct [OF this, of "\<lambda>kn. \<not> same_device k u kn", folded keep_def]
  have kept: "map_of keep k' = Some n'" if "map_of (sm_nodes m) k' = Some n'" "ns_connection_state n' = CONNECTED" for k' n'
    using that free map_of_SomeD [OF that(1)] by (auto simp: km list_ex_iff)
  have new: "map_of (sm_nodes m') k' = (if k' = k then Some n else map_of keep k')" for k'
    by (simp add: m' map_of_put_node)
  have "online m k'" if "online m' k'" for k'
    using that old by (auto simp: online_def new n_def km split: if_splits)
  moreover have "\<exists>n1. map_of (sm_nodes m') k' = Some n1 \<and> ns_connection_state n1 = CONNECTED \<and>
      ns_transport_kind n1 = ns_transport_kind n' \<and> ns_peer n1 = ns_peer n' \<and> ns_is_recording n1 = ns_is_recording n'"
    if "map_of (sm_nodes m) k' = Some n'" "ns_connection_state n' = CONNECTED" for k' n'
    using kept [OF that] that old by (auto simp: new n_def)
  ultimately show ?thesis using bind_identity_inv [OF b inv u] by (simp add: index_step_def m')
qed

lemma alias_index_step:
  assumes inv: "sm_inv m" and b: "set_alias k t m = (r, m')"
  shows "index_step m m'"
proof (cases "m' = m")
  case True
  then show ?thesis using index_step_refl inv by simp
next
  case False
  obtain c where old: "map_of (sm_nodes m) k = Some c"
    using b False by (auto simp: set_alias_def require_node_def Let_def split: option.splits if_splits)
  have new: "map_of (sm_nodes m') k' = (if k' = k then Some (c\<lparr>ns_alias := str_strip t\<rparr>) else map_of (sm_nodes m) k')"
    "sm_maximum_sessions m' = sm_maximum_sessions m" for k'
    using b False old by (auto simp: set_alias_def require_node_def Let_def map_of_put_node split: option.splits if_splits)
  show ?thesis using set_alias_inv [OF b inv] old by (simp add: index_step_def online_def new)
qed

lemma remove_index_step: "sm_inv m \<Longrightarrow> \<not> online m k \<Longrightarrow> index_step m (remove_node k m)"
  using remove_node_inv [of m k]
  by (auto simp: index_step_def online_def remove_node_def delete_conv' split: if_splits)

section \<open>Naming and removing nodes\<close>

lemma alias_error: "set_alias k t m = (Inl x, m') \<Longrightarrow> is_key_error x \<or> is_value_error x"
  by (auto simp: set_alias_def require_node_def is_key_error_def is_value_error_def Let_def
      split: option.splits if_splits)

lemma keeps_set_node_alias: "keeps E (ginv F G o') (set_node_alias k t)"
  unfolding set_node_alias_def
  by (intro keeps_try keeps_on_index keeps_report_exn keeps_seq keeps_option keeps_return keeps_emit_nodes
      keeps_same_update alias_index_step)
    (auto simp: same_state_def dest: alias_error)

lemma keeps_remove_offline_node:
  fixes E :: "exn \<Rightarrow> ('t, 'w) app \<Rightarrow> bool"
  shows "keeps E (ginv F {} o') (remove_offline_node k)"
proof (rule keepsI)
  fix a :: "('t, 'w) app" assume i: "ginv F {} o' a"
  have err: "result_ok E (\<lambda>_. ginv F {} o') (raise_error m a)" for m by (rule keepsD [OF keeps_raise_error i])
  show "result_ok E (\<lambda>_. ginv F {} o') (remove_offline_node k a)"
  proof (cases "session_summary k (ap_session_index a)")
    case (Inl x)
    then show ?thesis using err
      by (auto simp: remove_offline_node_def session_summary_def require_node_def is_key_error_def split: option.splits)
  next
    case (Inr n)
    show ?thesis
    proof (cases "get_session k a \<noteq> None \<or> ns_transport_kind n \<noteq> WIFI \<or> ns_connection_state n \<notin> {OFFLINE, RECONNECTING}")
      case True
      then show ?thesis using err Inr by (auto simp: remove_offline_node_def)
    next
      case False
      let ?b = "a\<lparr>ap_session_index := remove_node k (ap_session_index a)\<rparr>"
      have "\<not> online (ap_session_index a) k"
        using Inr False by (auto simp: online_def session_summary_def require_node_def split: option.splits)
      moreover have "sm_inv (ap_session_index a)" using i by (simp add: ginv_def core_def)
      ultimately have "ginv F {} o' ?b" using index_step_inv [OF i] remove_index_step by blast
      then have "result_ok E (\<lambda>_. ginv F {} o') (io_seq [emit_nodes] ?b)"
        by (intro keepsD [OF keeps_seq(2) [OF keeps_emit_nodes keeps_seq(1)]])
      moreover have "remove_offline_node k a = io_seq [emit_nodes] ?b"
        using False Inr by (simp add: remove_offline_node_def io_seq.simps io_bind_def on_index_def)
      ultimately show ?thesis by simp
    qed
  qed
qed

section \<open>The periodic slot\<close>

lemma keeps_close_of_session [keeps_rules]:
  fixes E :: "exn \<Rightarrow> ('t, 'w) app \<Rightarrow> bool"
  assumes "k \<in> set (ol_keys o')" and T: "tolerant e E (ginv F G o')" and f: "\<And>s. local_ok s \<Longrightarrow> session_step s (f s)"
  shows "keeps E (ginv F G o') (on_session k (io_seq [io_update f, on_transport (tp_close (ae_transport e))]))"
proof (rule keeps_on_session [OF assms(1)])
  fix s s' :: "'t managed_session" and r
  assume l: "local_ok s" and m: "io_seq [io_update f, on_transport (tp_close (ae_transport e))] s = (r, s')"
  have t: "session_step t (t\<lparr>ms_transport := x\<rparr>)" for t :: "'t managed_session" and x
    by (simp add: session_step_def local_ok_def)
  show "session_step s s'"
    using m f [OF l] t [of "f s"]
    by (auto simp: io_seq.simps io_bind_def io_update_def on_transport_def io_return_def session_step_def
        split: prod.splits sum.splits)
next
  fix s s' :: "'t managed_session" and x and w :: "('t, 'w) app"
  assume m: "io_seq [io_update f, on_transport (tp_close (ae_transport e))] s = (Inl x, s')" and w: "ginv F G o' w"
  then have "fst (tp_close (ae_transport e) (ms_transport (f s))) = Inl x"
    by (auto simp: io_seq.simps io_bind_def io_update_def on_transport_def io_return_def
        split: prod.splits sum.splits)
  then have "\<not> env_ok e" unfolding env_ok_def by (metis sum.distinct(1))
  then show "E x w" using tolerantD [OF T w] by blast
qed

lemma keeps_get_recording:
  fixes E :: "exn \<Rightarrow> ('t, 'w) app \<Rightarrow> bool"
  assumes "keeps E (ginv F G o') (f (ol_recording o'))"
  shows "keeps E (ginv F G o') (io_bind (io_get ap_recording_active) f)"
proof (rule keepsI)
  fix a :: "('t, 'w) app" assume i: "ginv F G o' a"
  then have "ap_recording_active a = ol_recording o'" by (auto simp: ginv_def outline_of_def)
  then show "result_ok E (\<lambda>_. ginv F G o') (io_bind (io_get ap_recording_active) f a)"
    using keepsD [OF assms i] by (simp add: io_bind_def io_get_def)
qed

text \<open>Binding an identity: the node of a session exists, so the one exception is that the device is online elsewhere.\<close>

definition is_duplicate :: "exn \<Rightarrow> bool" where
  "is_duplicate x \<longleftrightarrow> (case x of DuplicateDeviceError _ \<Rightarrow> True | _ \<Rightarrow> False)"

lemma keeps_bind_identity:
  fixes E :: "exn \<Rightarrow> ('t, 'w) app \<Rightarrow> bool"
  assumes k: "k \<in> set (ol_keys o')" "k \<notin> G" and u: "u < 2 ^ 128"
    and err: "\<And>x a. is_duplicate x \<Longrightarrow> ginv F G o' a \<Longrightarrow> E x a"
  shows "keeps E (ginv F G o') (on_index (bind_identity k u))"
proof (rule keeps_on_index)
  fix a w :: "('t, 'w) app" and x m'
  assume i: "ginv F G o' a" and b: "bind_identity k u (ap_session_index a) = (Inl x, m')" and w: "ginv F G o' w"
  obtain s where s: "get_session k a = Some s" using inv_get [OF i k(1)] by blast
  obtain n where "map_of (sm_nodes (ap_session_index a)) k = Some n" using node_of_session [OF i s k(2)] by blast
  then have "is_duplicate x" using b
    by (auto simp: bind_identity_def require_node_def is_duplicate_def Let_def split: if_splits)
  then show "E x w" using err w by blast
qed (use bind_index_step u in blast)

lemma session_step_failure:
  "session_step s (s\<lparr>ms_failure := f, ms_stop_event := b\<rparr>)" "session_step s (s\<lparr>ms_failure := f\<rparr>)"
  "session_step s (s\<lparr>ms_stop_event := b\<rparr>)"
  by (simp_all add: session_step_def local_ok_def)

lemma keeps_consume_updates:
  fixes E :: "exn \<Rightarrow> ('t, 'w) app \<Rightarrow> bool"
  assumes k: "k \<in> set (ol_keys o')" and T: "tolerant e E (ginv F {} o')"
  shows "list_all (\<lambda>u. u < 2 ^ 128) us \<Longrightarrow> keeps E (ginv F {} o') (consume_updates e k us)"
proof (induction us)
  case Nil
  then show ?case by (simp add: keeps_return)
next
  case (Cons u us)
  have start: "keeps E (ginv F {} o') (io_when (ol_recording o' \<and> \<not> ms_recording s) (start_session_recording e k))" for s :: "'t managed_session"
    by (rule keeps_when) (use keeps_start_session_recording [OF k _ T] in blast)
  have d: "(\<lambda>x. case x of DuplicateDeviceError _ \<Rightarrow> True | _ \<Rightarrow> False) = is_duplicate"
    by (simp add: is_duplicate_def fun_eq_iff)
  show ?case
    unfolding consume_updates.simps d
    using Cons.prems Cons.IH
    by (intro keeps_try keeps_bind_identity k keeps_seq keeps_close_of_session T session_step_failure keeps_report_exn keeps_emit_nodes
        keeps_bind [OF keeps_the_session [OF k]] keeps_get_recording start) simp_all
qed

text \<open>What the drained lists hold.\<close>

lemma keeps_drain:
  fixes E :: "exn \<Rightarrow> ('t, 'w) app \<Rightarrow> bool"
  assumes k: "k \<in> set (ol_keys o')" and d: "\<And>c. conn_ok c \<Longrightarrow> conn_step c (snd (g c)) \<and> R (fst (g c))"
    and f: "\<And>v. R v \<Longrightarrow> keeps E (ginv F G o') (f v)"
  shows "keeps E (ginv F G o') (io_bind (acquisition k (\<lambda>c. case g c of (v, c') \<Rightarrow> (Inr v, c'))) f)"
proof (rule keepsI)
  fix a :: "('t, 'w) app" assume i: "ginv F G o' a"
  obtain s where s: "get_session k a = Some s" using inv_get [OF i k] by blast
  obtain v c' where g: "g (ms_acquisition s) = (v, c')" by force
  let ?b = "put_session k (s\<lparr>ms_acquisition := c'\<rparr>) a"
  have "conn_ok (ms_acquisition s)" using inv_local [OF i s] by (simp add: local_ok_def)
  then have st: "conn_step (ms_acquisition s) c'" "R v" using d [of "ms_acquisition s"] g by simp_all
  have "ginv F G o' ?b" by (rule inv_put_session [OF i s acquisition_session_step [OF inv_local [OF i s] st(1)]])
  then have "result_ok E (\<lambda>_. ginv F G o') (f v ?b)" by (rule keepsD [OF f [OF st(2)]])
  moreover have "acquisition k (\<lambda>c. case g c of (v, c') \<Rightarrow> (Inr v, c')) a = (Inr v, ?b)"
    unfolding acquisition_def by (rule run_on_session [OF s]) (simp add: on_acquisition_def g)
  ultimately show "result_ok E (\<lambda>_. ginv F G o') (io_bind (acquisition k (\<lambda>c. case g c of (v, c') \<Rightarrow> (Inr v, c'))) f a)"
    by (simp add: io_bind_def)
qed

lemma keeps_consume_identity_updates:
  fixes E :: "exn \<Rightarrow> ('t, 'w) app \<Rightarrow> bool"
  assumes k: "k \<in> set (ol_keys o')" and T: "tolerant e E (ginv F {} o')"
  shows "keeps E (ginv F {} o') (consume_identity_updates e k)"
  unfolding consume_identity_updates_def
  by (rule keeps_drain [OF k, where R = "list_all (\<lambda>u. u < 2 ^ 128)"])
    (auto simp: drain_identity_updates_def conn_step_def conn_ok_def intro: keeps_consume_updates [OF k T])

lemma keeps_publish_responses:
  fixes E :: "exn \<Rightarrow> ('t, 'w) app \<Rightarrow> bool"
  assumes k: "k \<in> set (ol_keys o')"
  shows "keeps E (ginv F G o') (publish_responses k)"
  unfolding publish_responses_def
proof (rule keeps_drain [OF k, where R = "\<lambda>_. True"])
  fix c show "conn_step c (snd (drain_cli_responses c)) \<and> True"
    by (simp add: drain_cli_responses_def conn_step_def conn_ok_def)
next
  fix rs
  have "keeps E (ginv F G o') (\<lambda>a. io_when (ap_selected_node_id a = Some k) (io_for rs (\<lambda>r. emit (CliResponse r))) a)"
    by (rule keeps_state [where f = "\<lambda>a. io_when (ap_selected_node_id a = Some k) (io_for rs (\<lambda>r. emit (CliResponse r)))"])
      (intro keeps_when keeps_for keeps_emit)
  then show "keeps E (ginv F G o') (io_seq [io_for rs (\<lambda>r. emit (CliResponseFrom k r)),
      (\<lambda>a. io_when (ap_selected_node_id a = Some k) (io_for rs (\<lambda>r. emit (CliResponse r))) a)])"
    by (intro keeps_seq keeps_for keeps_emit)
qed

lemma keeps_publish_snapshots:
  fixes E :: "exn \<Rightarrow> ('t, 'w) app \<Rightarrow> bool"
  assumes T: "tolerant e E (ginv F {} o')"
  shows "keeps E (ginv F {} o') (publish_snapshots e)"
  unfolding publish_snapshots_def
  by (intro keeps_seq keeps_publish_selected T keeps_for_sessions keeps_consume_identity_updates
      keeps_publish_responses keeps_finalize_completed_export keeps_watchdog)

section \<open>Commands and small slots\<close>

lemma keeps_send_command_to:
  assumes T: "tolerant e E (ginv F {} o')"
  shows "keeps E (ginv F {} o') (send_command_to e k t)"
  unfolding send_command_to_def
proof (rule keeps_with_session, rule keeps_catch)
  assume k: "k \<in> set (ol_keys o')"
  have "is_common_error x" if "enqueue_command t c = (Inl x, c')" for x c c'
    using enqueue_error [OF that] by (simp add: is_common_error_def)
  then show "keeps (\<lambda>x w. if is_common_error x then ginv F {} o' w else E x w) (ginv F {} o')
      (io_seq [io_when (is_export_command t) (io_bind (start_archive_recording e k) (\<lambda>_. io_return ())),
        acquisition k (enqueue_command t)])"
    by (intro keeps_seq keeps_when keeps_bind keeps_return keeps_guarded_start keeps_enqueue k T) auto
qed (rule keeps_report_exn)

lemma keeps_clear_display_samples:
  fixes E :: "exn \<Rightarrow> ('t, 'w) app \<Rightarrow> bool"
  shows "keeps E (ginv F G o') clear_display_samples"
proof (rule keepsI)
  fix a :: "('t, 'w) app" assume i: "ginv F G o' a"
  show "result_ok E (\<lambda>_. ginv F G o') (clear_display_samples a)"
  proof (cases "\<exists>k s. ap_selected_node_id a = Some k \<and> get_session k a = Some s")
    case False
    then show ?thesis using i by (auto simp: clear_display_samples_def io_when_def io_return_def split: option.splits)
  next
    case True
    then obtain k s where k: "ap_selected_node_id a = Some k" "get_session k a = Some s" by blast
    have "k \<in> set (ol_keys o')" using get_session_keys [of k a] keys_of_inv [OF i] k(2) by simp
    then have "keeps E (ginv F G o') (acquisition_update k (\<lambda>c. c\<lparr>ac_store := SampleStore.clear_samples (ac_store c)\<rparr>))"
      by (rule keeps_acquisition_update) (simp add: same_core_def)
    then show ?thesis using keepsD i k by (auto simp: clear_display_samples_def io_when_def)
  qed
qed

lemma keeps_set_window_seconds: "keeps E (ginv F G o') (set_window_seconds t)"
  unfolding set_window_seconds_def
proof (rule keeps_when, rule keeps_update)
  fix a assume t: "0 < t" and i: "ginv F G o' a"
  have c: "core G a" using i by (simp add: ginv_def)
  have "core G (a\<lparr>ap_window_s := t\<rparr>)"
    by (rule core_change [OF c]) (use coreD [OF c] t in \<open>simp_all add: session_ok_def\<close>)
  then show "ginv F G o' (a\<lparr>ap_window_s := t\<rparr>)"
    using i by (simp add: ginv_def flags_ok_def outline_of_def session_keys_def)
qed

text \<open>Selecting a node of the dictionary.\<close>

lemma triple_select:
  fixes E :: "exn \<Rightarrow> ('t, 'w) app \<Rightarrow> bool"
  assumes T: "tolerant e E (ginv F G (o'\<lparr>ol_selected := Some k\<rparr>))"
  shows "triple E (ginv F G o') (io_seq
     [io_update (\<lambda>a. a\<lparr>ap_selected_node_id := Some k\<rparr>), emit (SelectedNodeChanged k),
      publish_selected_session e, emit_ota_availability]) (\<lambda>_. ginv F G (o'\<lparr>ol_selected := Some k\<rparr>))"
proof (rule triple_seq)
  show "triple E (ginv F G o') (io_update (\<lambda>a. a\<lparr>ap_selected_node_id := Some k\<rparr>))
      (\<lambda>_. ginv F G (o'\<lparr>ol_selected := Some k\<rparr>))"
  proof (rule triple_update)
    fix a :: "('t, 'w) app" assume i: "ginv F G o' a"
    then have c: "core G a" by (simp add: ginv_def)
    have "core G (a\<lparr>ap_selected_node_id := Some k\<rparr>)"
      by (rule core_change [OF c]) (use coreD [OF c] in \<open>simp_all add: session_ok_def\<close>)
    then show "ginv F G (o'\<lparr>ol_selected := Some k\<rparr>) (a\<lparr>ap_selected_node_id := Some k\<rparr>)"
      using i by (auto simp: ginv_def flags_ok_def outline_of_def session_keys_def)
  qed
qed (intro keeps_triple keeps_seq keeps_emit keeps_publish_selected keeps_emit_ota_availability T)

lemma select_node_inv:
  fixes e :: "('t, 'w) app_env"
  shows "keeps (allowed e) app_inv (select_node e k)"
proof (rule keepsI)
  fix a :: "('t, 'w) app" assume inv: "app_inv a"
  then have i: "ginv True {} (outline_of a) a" "outline_ok (outline_of a)" unfolding app_inv_ginv by blast+
  show "result_ok (allowed e) (\<lambda>_. app_inv) (select_node e k a)"
  proof (cases "get_session k a")
    case None
    then show ?thesis
      using keepsD [OF inv_outline [OF keeps_raise_error] inv] by (simp add: select_node_def with_session_def)
  next
    case (Some s)
    then have "k \<in> set (session_keys a)" using get_session_keys [of k a] by simp
    then have "outline_ok (outline_of a\<lparr>ol_selected := Some k\<rparr>)"
      using i(2) by (auto simp: outline_ok_def outline_of_def)
    then show ?thesis
      using tripleD [OF triple_select [OF tolerant_allowed] i(1), of e k] app_invI Some
      unfolding result_ok_cases by (auto simp: select_node_def with_session_def)
  qed
qed

end
