(* ===== verification/AppLifeInv.thy ===== *)
theory AppLifeInv
  imports AppSessionsInv
begin

text \<open>
  The life of the Wi-Fi server and of the sessions keeps the invariant: what starting and stopping the server
  changes, the session that a connection opens, and what is left when sessions end, by themselves or together.
\<close>

section \<open>The Wi-Fi server\<close>

lemma address_error: "IPv4Address s = Inl x \<Longrightarrow> is_value_error x"
  by (auto simp: IPv4Address_def is_value_error_def split: if_splits option.splits)

lemma prefix_error: "prefix_length s = Inl x \<Longrightarrow> is_value_error x"
  by (auto simp: prefix_length_def rbind_Inl_iff is_value_error_def split: if_splits option.splits
      dest!: address_error [unfolded is_value_error_def])

lemma targets_error: "parse_targets ts = Inl x \<Longrightarrow> is_value_error x"
  by (induction ts) (auto simp: rbind_Inl_iff dest: address_error)

lemma interface_error: "interface_of a n = Inl x \<Longrightarrow> is_value_error x"
  by (auto simp: interface_of_def IPv4Interface_def rbind_Inl_iff is_value_error_def split: list.splits
      dest!: address_error [unfolded is_value_error_def] prefix_error [unfolded is_value_error_def])

lemma wake_error: "create_wake_service c = Inl x \<Longrightarrow> is_value_error x"
  by (auto simp: create_wake_service_def UdpWakeService_init_def rbind_Inl_iff split: if_splits
      dest!: interface_error targets_error) (simp_all add: is_value_error_def)

lemma wake_common: "create_wake_service c = Inl x \<Longrightarrow> is_common_error x"
  using wake_error by (simp add: is_common_error_def)

lemma listener_error:
  assumes "setup_ok lib" and "listener_start lib a p g = (Inl x, g')"
  shows "is_common_error x"
proof -
  have "system_error x" if "open_listener lib a p g = (Inl x, g')"
    using open_listener_raises [OF assms(1), of a p] that unfolding raises_only_def by blast
  then show ?thesis
    using assms(2) address_error [of a x]
    by (auto simp: listener_start_def io_bind_def io_lift_def io_raise_def is_common_error_def is_runtime_error_def
        is_value_error_def system_error_def split: if_splits sum.splits)
qed

lemma started_server_error:
  assumes "started_server e c = (Inl x, g)"
  shows "is_common_error x \<or> \<not> env_ok e"
proof (cases "env_ok e")
  case True
  then have "setup_ok (ae_sockets e)" by (simp add: env_ok_def)
  then show ?thesis
    using assms
    by (auto simp: started_server_def io_bind_def io_lift_def io_return_def
        split: prod.splits sum.splits dest: listener_error wake_common)
qed simp

lemma keeps_close_listener:
  fixes E :: "exn \<Rightarrow> ('t, 'w) app \<Rightarrow> bool"
  assumes T: "tolerant e E P"
  shows "keeps E P (io_lift (fst (listener_close (ae_sockets e) g)))"
proof (rule keeps_lift)
  fix x and a :: "('t, 'w) app" assume "fst (listener_close (ae_sockets e) g) = Inl x" and a: "P a"
  then have "\<not> env_ok e" unfolding env_ok_def by (metis sum.distinct(1))
  then show "E x a" using tolerantD [OF T a] by blast
qed

lemma keeps_close_transport:
  fixes E :: "exn \<Rightarrow> ('t, 'w) app \<Rightarrow> bool"
  assumes T: "tolerant e E P"
  shows "keeps E P (close_transport e t)"
  unfolding close_transport_def
proof (rule keeps_lift)
  fix x and a :: "('t, 'w) app" assume "fst (tp_close (ae_transport e) t) = Inl x" and a: "P a"
  then have "\<not> env_ok e" unfolding env_ok_def by (metis sum.distinct(1))
  then show "E x a" using tolerantD [OF T a] by blast
qed

lemma keeps_release: "keeps E (ginv F G o') (release_gateway_client i)"
  unfolding release_gateway_client_def by (rule keeps_same_update) (simp add: same_state_def)

lemma keeps_start_wifi_server:
  fixes E :: "exn \<Rightarrow> ('t, 'w) app \<Rightarrow> bool"
  assumes T: "tolerant e E (ginv F G o')"
  shows "keeps E (ginv F G o') (start_wifi_server e c)"
proof (rule keepsI)
  fix a :: "('t, 'w) app" assume i: "ginv F G o' a"
  have set: "keeps E (ginv F G o') (io_seq
      [save_wifi_config c,
       io_update (\<lambda>a. a\<lparr>ap_gateway_listener := Some (ap_next_token a, g), ap_wake_service := Some service,
         ap_accept_thread := Some True, ap_wifi_server_label := server_label c, ap_next_token := ap_next_token a + 1\<rparr>),
       emit (WifiServerChanged True (server_label c))])" for g service
    unfolding save_wifi_config_def
    by (intro keeps_seq keeps_same_update keeps_emit) (simp_all add: same_state_def)
  have bad: "E x a" if "started_server e c = (Inl x, g)" "\<not> is_common_error x" for x g
    using started_server_error [OF that(1)] that(2) tolerantD [OF T i] by blast
  have err: "keeps E (ginv F G o') (io_bind (io_lift (fst (listener_close (ae_sockets e) g))) (\<lambda>_. report_exn x))" for x g
    by (intro keeps_bind keeps_close_listener keeps_report_exn T)
  obtain r g where s: "started_server e c = (r, g)" by force
  show "result_ok E (\<lambda>_. ginv F G o') (start_wifi_server e c a)"
    using keepsD [OF keeps_raise_error i] keepsD [OF set i] keepsD [OF err i] bad s
    by (cases r) (simp_all add: start_wifi_server_def)
qed

lemma keeps_stop_wifi_resources:
  fixes E :: "exn \<Rightarrow> ('t, 'w) app \<Rightarrow> bool"
  assumes T: "tolerant e E (ginv F G o')"
  shows "keeps E (ginv F G o') (stop_wifi_resources e)"
  unfolding stop_wifi_resources_def [abs_def]
proof (rule keeps_state [where f = "\<lambda>a. io_seq
     [io_update (\<lambda>a. a\<lparr>ap_gateway_listener := None, ap_wake_service := None, ap_accept_thread := None,
        ap_wifi_server_label := []\<rparr>),
      (case ap_gateway_listener a of
         None \<Rightarrow> io_return ()
       | Some (i, g) \<Rightarrow> io_lift (fst (listener_close (ae_sockets e) g))),
      io_when (ap_accept_thread a \<noteq> None \<and> \<not> ae_accept_stops e)
        (raise_error ''gateway listener did not stop within three seconds'')]"])
  fix a :: "('t, 'w) app"
  have "keeps E (ginv F G o') (case ap_gateway_listener a of None \<Rightarrow> io_return ()
       | Some (i, g) \<Rightarrow> io_lift (fst (listener_close (ae_sockets e) g)))"
    by (auto split: option.splits intro: keeps_return keeps_close_listener [OF T])
  then show "keeps E (ginv F G o') (io_seq
     [io_update (\<lambda>a. a\<lparr>ap_gateway_listener := None, ap_wake_service := None, ap_accept_thread := None,
        ap_wifi_server_label := []\<rparr>),
      (case ap_gateway_listener a of
         None \<Rightarrow> io_return ()
       | Some (i, g) \<Rightarrow> io_lift (fst (listener_close (ae_sockets e) g))),
      io_when (ap_accept_thread a \<noteq> None \<and> \<not> ae_accept_stops e)
        (raise_error ''gateway listener did not stop within three seconds'')])"
    by (intro keeps_seq keeps_same_update keeps_when keeps_raise_error) (simp add: same_state_def)
qed

section \<open>A new session\<close>

text \<open>Statements that succeed and change nothing the invariant mentions.\<close>

definition quiet :: "('t, 'w, unit) app_io \<Rightarrow> ('t, 'w) app \<Rightarrow> bool" where
  "quiet m a \<longleftrightarrow> (\<exists>b. m a = (Inr (), b) \<and> same_state a b)"

lemma same_state_trans: "same_state a b \<Longrightarrow> same_state b c \<Longrightarrow> same_state a c"
  by (simp add: same_state_def)

lemma quiet_emit [simp]: "quiet (emit x) a"
  by (simp add: quiet_def emit_def io_update_def same_state_def)

lemma quiet_seq_Nil [simp]: "quiet (io_seq []) a"
  by (simp add: quiet_def io_seq.simps io_return_def same_state_def)

lemma quiet_seq: "quiet m a \<Longrightarrow> (\<And>b. same_state a b \<Longrightarrow> quiet (io_seq ms) b) \<Longrightarrow> quiet (io_seq (m # ms)) a"
  unfolding quiet_def by (fastforce simp: io_seq.simps io_bind_def intro: same_state_trans)

lemma quiet_availability [simp]: "quiet emit_ota_availability a"
  using quiet_emit by (auto simp: quiet_def emit_ota_availability_def split: option.splits)

lemma quiet_emit_nodes [simp]: "quiet emit_nodes a"
  unfolding emit_nodes_def
  by (intro quiet_seq quiet_availability quiet_seq_Nil) (simp add: quiet_def emit_def io_update_def same_state_def)

text \<open>The selected session has no samples yet, so publishing it succeeds.\<close>

definition unsampled :: "('t, 'w) app \<Rightarrow> bool" where
  "unsampled a \<longleftrightarrow> 0 < ap_window_s a \<and>
     (\<exists>s. selected_session a = Some s \<and> ss_chunks (ac_store (ms_acquisition s)) = [])"

lemma unsampled_same: "same_state a b \<Longrightarrow> unsampled a = unsampled b"
  by (cases "ap_selected_node_id a") (simp_all add: unsampled_def same_state_def selected_session_def get_session_def)

lemma quiet_publish:
  fixes a :: "('t, 'w) app"
  assumes "unsampled a"
  shows "quiet (publish_selected_session e) a"
proof -
  obtain s where s: "selected_session a = Some s" "ss_chunks (ac_store (ms_acquisition s)) = []" "0 < ap_window_s a"
    using assms by (auto simp: unsampled_def)
  obtain u where "session_snapshot e (ap_window_s a) MAXIMUM_DISPLAY_POINTS s = Inr u"
    using s by (simp add: session_snapshot_def snapshot_def window_arrays_def MAXIMUM_DISPLAY_POINTS_def const_simps)
  then have "quiet (io_when p (io_bind (io_lift (session_snapshot e (ap_window_s a) MAXIMUM_DISPLAY_POINTS s))
      (\<lambda>u. emit (SnapshotReady u)))) b" for p and b :: "('t, 'w) app"
    by (simp add: quiet_def io_when_def io_bind_def io_lift_def io_return_def emit_def io_update_def same_state_def)
  then have "quiet (io_seq [emit (HealthReady (health (ms_acquisition s))),
      io_when (\<not> ap_display_paused a) (io_bind (io_lift (session_snapshot e (ap_window_s a) MAXIMUM_DISPLAY_POINTS s))
        (\<lambda>u. emit (SnapshotReady u)))]) a"
    by (intro quiet_seq quiet_emit quiet_seq_Nil)
  then show ?thesis using s(1) by (simp add: publish_selected_session_def quiet_def)
qed

lemma select_unsampled:
  assumes "get_session k a = Some s" and "ss_chunks (ac_store (ms_acquisition s)) = []" and "0 < ap_window_s a"
  shows "\<exists>b. select_node e k a = (Inr (), b) \<and> same_state (a\<lparr>ap_selected_node_id := Some k\<rparr>) b"
proof -
  let ?b = "a\<lparr>ap_selected_node_id := Some k\<rparr>"
  have "unsampled ?b" using assms by (simp add: unsampled_def selected_session_def get_session_def)
  then have "quiet (io_seq [emit (SelectedNodeChanged k), publish_selected_session e, emit_ota_availability]) ?b"
    by (intro quiet_seq quiet_publish quiet_emit quiet_availability) (auto dest: unsampled_same)
  then show ?thesis
    using assms(1) by (simp add: select_node_def with_session_def io_seq.simps io_bind_def io_update_def quiet_def)
qed

lemma command_result:
  assumes "list_all printable t" "t \<noteq> []" "length t \<le> 94"
  shows "\<exists>c'. enqueue_command t c = (Inr (), c') \<and> same_core c c' \<and> ac_store c' = ac_store c"
proof -
  obtain c' where c: "enqueue_command t c = (Inr (), c')" using enqueue_printable [OF assms] by blast
  moreover have "same_core c c' \<and> ac_store c' = ac_store c"
    using c by (auto simp: enqueue_command_def same_core_def Let_def split: if_splits)
  ultimately show ?thesis by blast
qed

lemma same_core_trans: "same_core a b \<Longrightarrow> same_core b c \<Longrightarrow> same_core a c"
  by (simp add: same_core_def)

definition fresh_acquisition :: "controller \<Rightarrow> bool" where
  "fresh_acquisition c \<longleftrightarrow> conn_ok c \<and> ac_recorder c = None \<and> ac_archive_recorder c = None \<and> ss_chunks (ac_store c) = []"

lemma fresh_same: "fresh_acquisition c \<Longrightarrow> same_core c c' \<Longrightarrow> ac_store c' = ac_store c \<Longrightarrow> fresh_acquisition c'"
  by (simp add: fresh_acquisition_def same_core_def conn_ok_def)

lemma fresh_commands:
  assumes "fresh_acquisition c"
  shows "\<exists>c'. io_seq [request_uuid, Acquisition.request_status, Acquisition.request_livestream] c = (Inr (), c') \<and> fresh_acquisition c'"
proof -
  have one: "\<exists>c'. enqueue_command t c = (Inr (), c') \<and> fresh_acquisition c'"
    if "fresh_acquisition c" "list_all printable t" "t \<noteq> []" "length t \<le> 94" for t c
    using command_result [OF that(2-4), of c] fresh_same [OF that(1)] by blast
  obtain c1 where c1: "request_uuid c = (Inr (), c1)" "fresh_acquisition c1"
    using one [OF assms, of "lit ''AT+UUID?''"] by (auto simp: request_uuid_def lit_def printable_def)
  obtain c2 where c2: "Acquisition.request_status c1 = (Inr (), c2)" "fresh_acquisition c2"
    using one [OF c1(2), of "lit ''AT+STATE?''"] by (auto simp: Acquisition.request_status_def lit_def printable_def)
  obtain c3 where c3: "Acquisition.request_livestream c2 = (Inr (), c3)" "fresh_acquisition c3"
    using one [OF c2(2), of "lit ''AT+LIVESTREAM?''"] by (auto simp: Acquisition.request_livestream_def lit_def printable_def)
  show ?thesis using c1(1) c2(1) c3 by (simp add: io_seq.simps io_bind_def io_return_def)
qed

lemma new_acquisition_result: "\<exists>c. new_acquisition b = Inr c \<and> fresh_acquisition c"
proof -
  obtain store where st: "RealtimeSampleStore_init DEFAULT_RETENTION_SECONDS = Inr store" "ss_chunks store = []"
    by (simp add: RealtimeSampleStore_init_def DEFAULT_RETENTION_SECONDS_def)
  define c where "c = (if b then defer_recording_until_identity (AcquisitionController_init store None)
      else AcquisitionController_init store None)"
  have "control_state_ok FirmwareControlState" by (rule initial_state_ok)
  then have "fresh_acquisition c"
    using st(2) by (simp add: c_def fresh_acquisition_def conn_ok_def AcquisitionController_init_def
        defer_recording_until_identity_def)
  then obtain c' where "io_seq [request_uuid, Acquisition.request_status, Acquisition.request_livestream] c = (Inr (), c')"
      "fresh_acquisition c'" using fresh_commands by blast
  then show ?thesis using st(1) by (simp add: new_acquisition_def c_def [symmetric])
qed

text \<open>What \<open>add_session\<close> does when it accepts a node.\<close>

lemma add_session_result:
  assumes "add_session k kind peer m = (r, m')" and inv: "sm_inv m"
  shows "(\<exists>x. r = Inl x \<and> m' = m \<and> is_common_error x \<and> (is_runtime_error x \<or> is_value_error x)) \<or>
    (\<exists>n. r = Inr n \<and> map_of (sm_nodes m) k = None \<and> sm_inv m' \<and> sm_maximum_sessions m' = sm_maximum_sessions m \<and>
       map_of (sm_nodes m') = (map_of (sm_nodes m))(k \<mapsto> n) \<and> ns_connection_state n = CONNECTED \<and>
       ns_transport_kind n = kind \<and> ns_peer n = peer \<and> \<not> ns_is_recording n)"
  using assms(1) add_session_inv [OF assms]
  by (auto simp: add_session_def Let_def is_common_error_def is_runtime_error_def is_value_error_def map_of_put_node
      split: if_splits)

definition new_session_ok :: "('t, 'w) app \<Rightarrow> pystr \<Rightarrow> transport_kind \<Rightarrow> bool" where
  "new_session_ok a k kind \<longleftrightarrow> (kind = CDC \<longrightarrow> ap_sessions a = []) \<and>
     list_all (\<lambda>(k, s). ms_transport_kind s \<noteq> CDC) (ap_sessions a)"

text \<open>The state after the session is inserted.\<close>

definition with_new :: "pystr \<Rightarrow> 't managed_session \<Rightarrow> session_manager \<Rightarrow> ('t, 'w) app \<Rightarrow> ('t, 'w) app" where
  "with_new k s m a = a\<lparr>ap_session_index := m, ap_sessions := AList.update k s (ap_sessions a),
     ap_next_token := ap_next_token a + 1\<rparr>"

lemma get_with_new: "get_session k' (with_new k s m a) = (if k' = k then Some s else get_session k' a)"
  by (simp add: get_session_def with_new_def update_conv')

lemma keys_with_new: "get_session k a = None \<Longrightarrow> session_keys (with_new k s m a) = session_keys a @ [k]"
  using get_session_keys [of k a] by (simp add: session_keys_def with_new_def update_keys)

lemma core_with_new:
  fixes a :: "('t, 'w) app"
  assumes c: "core {} a" and new: "new_session_ok a k kind" and none: "get_session k a = None"
    and m: "sm_inv m" "sm_maximum_sessions m = 16" "map_of (sm_nodes m) = (map_of (sm_nodes (ap_session_index a)))(k \<mapsto> n)"
    and s: "ms_node_id s = k" "ms_token s = ap_next_token a" "ms_transport_kind s = kind" "\<not> ms_ota_active s" "local_ok s"
      "node_shows s n"
  shows "core {} (with_new k s m a)"
proof -
  let ?b = "with_new k s m a"
  have ok: "session_ok a j t \<Longrightarrow> session_ok ?b j t" for j t by (auto simp: session_ok_def with_new_def)
  have k: "k \<notin> set (session_keys a)" using none get_session_keys [of k a] by simp
  have fields: "ap_session_index ?b = m" "ap_window_s ?b = ap_window_s a" "ota_ok ?b = ota_ok a"
    "ap_recording_active ?b = ap_recording_active a" "ap_recording_batch_path ?b = ap_recording_batch_path a"
    by (simp_all add: with_new_def ota_ok_def)
  have mine: "session_ok ?b k s" using s by (simp add: session_ok_def with_new_def)
  have cdc: "ms_transport_kind t \<noteq> CDC" if "get_session j a = Some t" for j t
    using new map_of_SomeD [of "ap_sessions a" j t] that by (fastforce simp: new_session_ok_def list_all_iff get_session_def)
  have first: "session_keys a = []" if "kind = CDC" using new that by (simp add: new_session_ok_def session_keys_def)
  have sh: "shown m j t = (if j = k then node_shows t n else shown (ap_session_index a) j t)" for j and t :: "'t managed_session"
    by (simp add: shown_def m(3))
  have on: "online m j \<Longrightarrow> j = k \<or> online (ap_session_index a) j" for j by (auto simp: online_def m(3) split: if_splits)
  have "session_ok ?b j t \<and> shown m j t \<and> (ms_transport_kind t = CDC \<longrightarrow> session_keys ?b = [j])"
    if t: "get_session j ?b = Some t" for j t
  proof (cases "j = k")
    case True
    then have "t = s" using t by (simp add: get_with_new)
    then show ?thesis using True mine s(3,6) first by (auto simp: sh keys_with_new [OF none])
  next
    case False
    then have "get_session j a = Some t" using t by (simp add: get_with_new)
    then show ?thesis using False ok cdc coreD(7,8) [OF c] by (auto simp: sh)
  qed
  moreover have "get_session j ?b \<noteq> None" if "online m j" for j
    using on [OF that] coreD(10) [OF c] by (auto simp: get_with_new)
  moreover have "distinct (session_keys ?b)" using coreD(3) [OF c] k by (simp add: keys_with_new [OF none])
  ultimately show ?thesis unfolding core_def fields using m(1,2) coreD(4-6) [OF c] by blast
qed

lemma app_inv_with_new:
  assumes inv: "app_inv a" and new: "new_session_ok a k kind" and none: "get_session k a = None"
    and m: "sm_inv m" "sm_maximum_sessions m = 16" "map_of (sm_nodes m) = (map_of (sm_nodes (ap_session_index a)))(k \<mapsto> n)"
    and s: "ms_node_id s = k" "ms_token s = ap_next_token a" "ms_transport_kind s = kind" "\<not> ms_ota_active s" "local_ok s"
      "node_shows s n" "\<not> ms_recording s"
  shows "app_inv ((with_new k s m a)\<lparr>ap_selected_node_id := (case ap_selected_node_id a of None \<Rightarrow> Some k | Some j \<Rightarrow> Some j),
    ap_timer := True, ap_status_timer := True\<rparr>)"
proof -
  let ?b = "with_new k s m a"
  have c: "core {} ?b" using core_with_new [OF _ new none m s(1-6)] inv by (simp add: app_inv_def)
  have "core {} (?b\<lparr>ap_selected_node_id := x, ap_timer := True, ap_status_timer := True\<rparr>)" for x
    by (rule core_change [OF c]) (use coreD [OF c] in \<open>simp_all add: session_ok_def\<close>)
  moreover have "set (AList.update k s xs) \<subseteq> insert (k, s) (set xs)" for xs by (induction xs) auto
  then have "flags_ok ?b" using inv s(7) by (fastforce simp: app_inv_def flags_ok_def with_new_def list_all_iff)
  moreover have "session_keys ?b = session_keys a @ [k]" by (rule keys_with_new [OF none])
  ultimately show ?thesis
    using inv by (auto simp: app_inv_def outline_ok_def outline_of_def flags_ok_def session_keys_def with_new_def split: option.splits)
qed

lemma same_state_app_inv: "same_state a b \<Longrightarrow> app_inv a \<Longrightarrow> app_inv b"
  using same_state_inv [of a b True "{}" "outline_of a"] app_invI unfolding app_inv_ginv by blast

text \<open>The statements of \<open>open_session\<close> after the node is accepted.\<close>

lemma finish_open:
  fixes a :: "('t, 'w) app"
  assumes s: "get_session k a = Some s" "ss_chunks (ac_store (ms_acquisition s)) = []" "0 < ap_window_s a"
  shows "\<exists>b. io_seq
       [(\<lambda>a. io_when (ap_selected_node_id a = None) (select_node e k) a),
        io_update (\<lambda>a. a\<lparr>ap_timer := True, ap_status_timer := True\<rparr>),
        emit (ConnectionChanged True peer), emit_nodes] a = (Inr (), b) \<and>
    same_state (a\<lparr>ap_selected_node_id := (case ap_selected_node_id a of None \<Rightarrow> Some k | Some j \<Rightarrow> Some j),
      ap_timer := True, ap_status_timer := True\<rparr>) b"
proof -
  obtain b where b: "io_when (ap_selected_node_id a = None) (select_node e k) a = (Inr (), b)"
      "same_state (a\<lparr>ap_selected_node_id := (case ap_selected_node_id a of None \<Rightarrow> Some k | Some j \<Rightarrow> Some j)\<rparr>) b"
  proof (cases "ap_selected_node_id a")
    case None
    then show ?thesis using select_unsampled [OF s, of e] that by (auto simp: io_when_def)
  next
    case (Some j)
    then have "a\<lparr>ap_selected_node_id := Some j\<rparr> = a" by simp
    then show ?thesis using Some that [of a] by (simp add: io_when_def io_return_def same_state_def)
  qed
  let ?b = "b\<lparr>ap_timer := True, ap_status_timer := True\<rparr>"
  have "quiet (io_seq [emit (ConnectionChanged True peer), emit_nodes]) ?b"
    by (intro quiet_seq quiet_emit quiet_emit_nodes quiet_seq_Nil)
  then obtain d where d: "io_seq [emit (ConnectionChanged True peer), emit_nodes] ?b = (Inr (), d)" "same_state ?b d"
    by (auto simp: quiet_def)
  have "same_state (a\<lparr>ap_selected_node_id := (case ap_selected_node_id a of None \<Rightarrow> Some k | Some j \<Rightarrow> Some j),
      ap_timer := True, ap_status_timer := True\<rparr>) d"
    using b(2) d(2) by (simp add: same_state_def)
  then show ?thesis using b(1) d(1) by (simp add: io_seq.simps io_bind_def io_update_def)
qed

lemma open_session_result:
  fixes a :: "('t, 'w) app"
  assumes inv: "app_inv a" and new: "new_session_ok a k kind" and r: "open_session e k peer kind t a = (v, b)"
  shows "(\<exists>x. v = Inl x \<and> b = a \<and> (is_runtime_error x \<or> is_value_error x) \<and>
      fst (add_session k kind peer (ap_session_index a)) = Inl x) \<or>
    (v = Inr () \<and> app_inv b \<and> session_keys b = session_keys a @ [k])"
proof -
  have c: "core {} a" using inv by (simp add: app_inv_def)
  obtain q m where q: "add_session k kind peer (ap_session_index a) = (q, m)" by force
  show ?thesis
  proof (cases q)
    case (Inl x)
    then have "m = ap_session_index a" "is_runtime_error x \<or> is_value_error x"
      using add_session_result [OF q coreD(1) [OF c]] by auto
    then show ?thesis using r q Inl by (auto simp: open_session_def io_bind_def on_index_def)
  next
    case (Inr n)
    have m: "map_of (sm_nodes (ap_session_index a)) k = None" "sm_inv m" "sm_maximum_sessions m = 16"
      "map_of (sm_nodes m) = (map_of (sm_nodes (ap_session_index a)))(k \<mapsto> n)" "ns_connection_state n = CONNECTED"
      "ns_transport_kind n = kind" "ns_peer n = peer" "\<not> ns_is_recording n"
      using add_session_result [OF q coreD(1) [OF c]] Inr coreD(2) [OF c] by auto
    have none: "get_session k a = None"
      using coreD(8) [OF c, of k] m(1) by (cases "get_session k a") (auto simp: shown_def)
    obtain f where f: "new_acquisition (ap_recording_active a) = Inr f" "fresh_acquisition f"
      using new_acquisition_result by blast
    let ?s = "ManagedSession (ap_next_token a) k peer kind t f"
    let ?b = "with_new k ?s m a"
    have l: "local_ok ?s" using f(2) by (simp add: local_ok_def ManagedSession_def fresh_acquisition_def)
    have i: "app_inv (?b\<lparr>ap_selected_node_id := (case ap_selected_node_id a of None \<Rightarrow> Some k | Some j \<Rightarrow> Some j),
        ap_timer := True, ap_status_timer := True\<rparr>)"
      by (rule app_inv_with_new [OF inv new none m(2-4)]) (use m l in \<open>simp_all add: ManagedSession_def node_shows_def\<close>)
    have "ap_selected_node_id ?b = ap_selected_node_id a" by (simp add: with_new_def)
    moreover have "get_session k ?b = Some ?s" "ss_chunks (ac_store (ms_acquisition ?s)) = []" "0 < ap_window_s ?b"
      using f(2) coreD(4) [OF c] by (simp_all add: get_with_new ManagedSession_def fresh_acquisition_def, simp add: with_new_def)
    from finish_open [OF this, of e peer] obtain d where d: "io_seq
       [(\<lambda>a. io_when (ap_selected_node_id a = None) (select_node e k) a),
        io_update (\<lambda>a. a\<lparr>ap_timer := True, ap_status_timer := True\<rparr>),
        emit (ConnectionChanged True peer), emit_nodes] ?b = (Inr (), d)"
      "same_state (?b\<lparr>ap_selected_node_id := (case ap_selected_node_id ?b of None \<Rightarrow> Some k | Some j \<Rightarrow> Some j),
        ap_timer := True, ap_status_timer := True\<rparr>) d" by blast
    have "open_session e k peer kind t a = (Inr (), d)"
      using q Inr f(1) d(1)
      by (simp add: open_session_def io_bind_def on_index_def io_get_def io_lift_def insert_session_def io_update_def
          io_seq.simps(2) with_new_def)
    moreover have "app_inv d" using same_state_app_inv [OF d(2)] i calculation(1) by (simp add: with_new_def)
    moreover have "session_keys d = session_keys a @ [k]"
      using d(2) keys_with_new [OF none, of ?s m] by (simp add: same_state_def session_keys_def)
    ultimately show ?thesis using r by simp
  qed
qed

lemma app_inv_keeps_common:
  fixes e :: "('t, 'w) app_env"
  shows "keeps (allowed e) app_inv (raise_error m)" "keeps (allowed e) app_inv (report_exn x)"
    "keeps (allowed e) app_inv (emit s)" "keeps (allowed e) app_inv (close_transport e t)"
    "keeps (allowed e) app_inv (release_gateway_client i)"
  by (rule inv_outline keeps_close_transport, rule keeps_rules keeps_release tolerant_allowed)+

lemma connect_device_inv:
  fixes e :: "('t, 'w) app_env"
  shows "keeps (allowed e) app_inv (connect_device e d)"
proof (rule keepsI)
  fix a :: "('t, 'w) app" assume inv: "app_inv a"
  show "result_ok (allowed e) (\<lambda>_. app_inv) (connect_device e d a)"
  proof (cases "is_wifi_server_running a \<or> ap_sessions a \<noteq> []")
    case True
    then show ?thesis using keepsD [OF app_inv_keeps_common(1) inv, of e] by (auto simp: connect_device_def)
  next
    case False
    obtain opened t where o: "ae_transport_open e d (ae_transport_factory e) = (opened, t)" by force
    have "keeps (allowed e) app_inv (io_seq [close_transport e t, report_exn x, emit (ConnectionChanged False d)])" for x
      by (intro keeps_seq app_inv_keeps_common)
    note h = keepsD [OF this inv]
    show ?thesis
    proof (cases opened)
      case (Inl x)
      then have "is_common_error x \<or> \<not> env_ok e" using o unfolding env_ok_def by (metis fst_conv)
      then show ?thesis using False o h Inl
        by (auto simp: connect_device_def io_catch_def io_bind_def io_lift_def allowed_def)
    next
      case (Inr u)
      obtain v b where v: "open_session e (cdc_node_id d) d CDC t a = (v, b)" by force
      have "new_session_ok a (cdc_node_id d) CDC" using False by (simp add: new_session_ok_def)
      then show ?thesis using open_session_result [OF inv _ v] False o h Inr v
        by (auto simp: connect_device_def io_catch_def io_bind_def io_lift_def is_common_error_def)
    qed
  qed
qed

lemma accept_gateway_client_inv:
  fixes e :: "('t, 'w) app_env"
  shows "keeps (allowed e) app_inv (accept_gateway_client e i p t)"
proof (rule keepsI)
  fix a :: "('t, 'w) app" assume inv: "app_inv a"
  show "result_ok (allowed e) (\<lambda>_. app_inv) (accept_gateway_client e i p t a)"
  proof (cases "list_ex (\<lambda>(k, s). ms_transport_kind s = CDC) (ap_sessions a)")
    case True
    have "keeps (allowed e) app_inv (io_seq [close_transport e t, release_gateway_client i,
                   raise_error ''disconnect CDC before accepting Wi-Fi gateways''])"
      by (intro keeps_seq app_inv_keeps_common)
    from keepsD [OF this inv] show ?thesis using True by (simp add: accept_gateway_client_def)
  next
    case False
    then have "new_session_ok a i WIFI" by (auto simp: new_session_ok_def list_ex_iff list_all_iff)
    moreover obtain v b where v: "open_session e i p WIFI t a = (v, b)" by force
    moreover have "keeps (allowed e) app_inv (io_seq [close_transport e t, release_gateway_client i, report_exn x])" for x
      by (intro keeps_seq app_inv_keeps_common)
    note h = keepsD [OF this inv]
    ultimately show ?thesis using open_session_result [OF inv _ v] False h
      by (auto simp: accept_gateway_client_def io_catch_def)
  qed
qed

lemma accept_gateway_envelope_inv:
  fixes e :: "('t, 'w) app_env"
  shows "keeps (allowed e) app_inv (accept_gateway_envelope e j i p t)"
  by (rule keepsI) (simp add: accept_gateway_envelope_def keepsD [OF accept_gateway_client_inv]
      keepsD [OF app_inv_keeps_common(4)])

end
