(* ===== verification/AppEndInv.thy ===== *)
theory AppEndInv
  imports AppLifeInv
begin

text \<open>
  The end of sessions keeps the invariant: a session whose worker has ended, and the disconnection of all of
  them. While a slot ends a session its node in the inventory is excepted from the correspondence.
\<close>

section \<open>Recorders of an ending session\<close>

lemma io_seq_run: "m a = (Inr (), b) \<Longrightarrow> io_seq (m # ms) a = io_seq ms b"
  by (simp add: io_seq.simps io_bind_def)

lemma io_seq_update: "io_seq (io_update f # ms) a = io_seq ms (f a)"
  by (rule io_seq_run) (simp add: io_update_def)

lemma quiet_for:
  fixes f :: "'b \<Rightarrow> ('t, 'w, unit) app_io"
  assumes q: "\<And>y b. quiet (f y) b"
  shows "quiet (io_for ys f) a"
proof (induction ys arbitrary: a)
  case Nil
  then show ?case by (simp add: quiet_def io_for.simps io_return_def same_state_def)
next
  case (Cons y ys)
  obtain b where b: "f y a = (Inr (), b)" "same_state a b" using q by (auto simp: quiet_def)
  obtain d where "io_for ys f b = (Inr (), d)" "same_state b d" using Cons by (auto simp: quiet_def)
  then show ?case using b same_state_trans by (auto simp: quiet_def io_for.simps io_bind_def)
qed

definition loose_step :: "'t managed_session \<Rightarrow> 't managed_session \<Rightarrow> bool" where
  "loose_step s s' \<longleftrightarrow> ms_node_id s' = ms_node_id s \<and> ms_token s' = ms_token s \<and>
     ms_transport_kind s' = ms_transport_kind s \<and> (ms_ota_active s' \<longrightarrow> ms_ota_active s) \<and> (local_ok s \<longrightarrow> local_ok s')"

lemma loose_step_trans: "loose_step s t \<Longrightarrow> loose_step t u \<Longrightarrow> loose_step s u"
  by (simp add: loose_step_def)

lemma session_loose_step: "session_step s s' \<Longrightarrow> loose_step s s'"
  by (simp add: loose_step_def session_step_def)

lemma core_put_gone:
  assumes "core G a" and "get_session k a = Some s" and "k \<in> G" and "loose_step s s'"
  shows "core G (put_session k s' a)"
proof -
  have keys: "session_keys (put_session k s' a) = session_keys a"
    using keys_put_session [of k a s'] get_session_keys [of k a] assms(2) by simp
  have "session_ok (put_session k s' a) k s'"
    using coreD(7) [OF assms(1,2)] assms(4) by (auto simp: session_ok_def loose_step_def)
  moreover have "session_ok (put_session k s' a) k'' t = session_ok a k'' t" for k'' t
    by (simp add: session_ok_def)
  ultimately show ?thesis
    using assms unfolding core_def keys get_put_session by (auto simp: loose_step_def)
qed

lemma detach_recorder_result:
  assumes "detach_recorder s = (v, s')"
  shows "(\<exists>r. v = Inr r) \<and> loose_step s s'"
  using assms by (auto simp: detach_recorder_def set_recorder_def clear_deferred_def loose_step_def local_ok_def conn_ok_def
      split: if_splits)

lemma stop_silently_result:
  assumes "stops_ok e m" and "stop_silently m x (s, sigs) = (v, t)"
  shows "(\<exists>y. v = Inl y \<and> \<not> env_ok e) \<or> (v = Inr () \<and> fst t = s)"
  using assms by (auto simp: stop_silently_def stops_ok_def split: option.splits sum.splits if_splits)

lemma finalize_result:
  assumes f: "finalize_session_recorders e (s, sigs) = (v, s', sigs')"
  shows "(\<exists>x. v = Inl x \<and> \<not> env_ok e) \<or> (v = Inr () \<and> loose_step s s')"
proof -
  obtain r s1 where d: "detach_recorder s = (Inr r, s1)" "loose_step s s1" using detach_recorder_result by (metis surj_pair)
  obtain w t where w: "stop_silently (recorder_stop e) r (s1, sigs) = (w, t)" by (meson surj_pair)
  show ?thesis
  proof (cases w)
    case (Inl x)
    then have "\<not> env_ok e" using stop_silently_result [OF stops_ok_stop(1) w] by auto
    then show ?thesis using f d w Inl
      by (auto simp: finalize_session_recorders_def io_bind_def on_first_def)
  next
    case (Inr u)
    then obtain sigs1 where t: "t = (s1, sigs1)"
      using stop_silently_result [OF stops_ok_stop(1) w] by (cases t) auto
    obtain q s2 where a: "detach_archive_recorder s1 = (Inr q, s2)"
      by (cases "ms_exporting s1") (auto simp: detach_archive_recorder_def)
    have l: "loose_step s s2"
      using d(2) session_loose_step [OF detach_archive_step [OF a]] loose_step_trans by blast
    have "stop_silently (io_bind (update_metadata [''status'' \<mapsto> MStr (lit ''aborted'')]) (\<lambda>_. recorder_stop e)) q
        (s2, sigs1) = (v, s', sigs')"
      using f d(1) w Inr t a by (simp add: finalize_session_recorders_def io_bind_def on_first_def)
    then show ?thesis using stop_silently_result [OF stops_ok_stop(2)] l by fastforce
  qed
qed

lemma update_recorder_result:
  assumes "local_ok s" and "on_acquisition (update_recorder vs) s = (r, s')"
  shows "r = Inr () \<and> session_step s s'"
proof (cases "ac_recorder (ms_acquisition s)")
  case None
  then show ?thesis using assms by (simp add: on_acquisition_def update_recorder_def session_step_def)
next
  case (Some q)
  then have "rc_is_active q" using assms(1) by (simp add: local_ok_def conn_ok_def)
  then obtain q' where "update_metadata vs q = (Inr (), q')" "rc_is_active q'" using update_metadata_ok by blast
  then show ?thesis using assms Some
    by (auto simp: on_acquisition_def update_recorder_def session_step_def local_ok_def conn_ok_def)
qed

lemma session_step_trans: "session_step s t \<Longrightarrow> session_step t u \<Longrightarrow> session_step s u"
  by (simp add: session_step_def)

lemma session_step_local: "session_step s t \<Longrightarrow> local_ok s \<Longrightarrow> local_ok t"
  by (simp add: session_step_def)

lemma disconnect_metadata_result:
  assumes l: "local_ok s" and u: "update_disconnect_metadata why s = (r, s')"
  shows "r = Inr () \<and> session_step s s'"
proof -
  obtain x s1 where s1: "io_when (ms_recording s) (on_acquisition (update_recorder [''disconnect_reason'' \<mapsto> MStr why])) s = (x, s1)"
    by force
  have x: "x = Inr () \<and> session_step s s1"
    using s1 update_recorder_result [OF l] by (auto simp: io_when_def io_return_def session_step_def split: if_splits)
  obtain y s2 where s2: "io_when (ms_exporting s) (update_archive_recorder
      [''status'' \<mapsto> MStr (lit ''aborted''), ''disconnect_reason'' \<mapsto> MStr why]) s1 = (y, s2)" by force
  have "local_ok s1" using session_step_local x l by blast
  then have y: "y = Inr () \<and> session_step s1 s2"
    using s2 update_archive_result by (auto simp: io_when_def io_return_def session_step_def split: if_splits)
  have "(r, s') = (Inr (), s2)"
    using u x y s1 s2 by (simp add: update_disconnect_metadata_def io_seq.simps io_bind_def io_return_def)
  then show ?thesis using x y session_step_trans by blast
qed

section \<open>One session\<close>

lemma core_delete:
  fixes a :: "('t, 'w) app"
  assumes c: "core {} a" and s: "get_session k a = Some s"
  shows "core {k} (a\<lparr>ap_sessions := AList.delete k (ap_sessions a)\<rparr>)"
proof -
  let ?b = "a\<lparr>ap_sessions := AList.delete k (ap_sessions a)\<rparr>"
  have get: "get_session j ?b = (if j = k then None else get_session j a)" for j
    by (simp add: get_session_def delete_conv')
  have "removeAll k xs = filter (\<lambda>j. j \<noteq> k) xs" for xs by (induction xs) auto
  then have keys: "session_keys ?b = filter (\<lambda>j. j \<noteq> k) (session_keys a)"
    by (simp add: session_keys_def delete_keys)
  have ok: "session_ok ?b j t = session_ok a j t" for j t by (simp add: session_ok_def)
  have k: "k \<in> set (session_keys a)" using get_session_keys [of k a] s by simp
  have "session_ok a j t \<and> (j \<notin> {k} \<longrightarrow> shown (ap_session_index a) j t) \<and> (ms_transport_kind t = CDC \<longrightarrow> session_keys ?b = [j])"
    if "get_session j ?b = Some t" for j t
    using that coreD(7-9) [OF c] k by (auto simp: get split: if_splits) 
  moreover have "get_session j ?b \<noteq> None" if "online (ap_session_index a) j" "j \<notin> {k}" for j
    using that coreD(10) [OF c] by (simp add: get)
  ultimately show ?thesis
    unfolding core_def ok using coreD(1-6) [OF c] by (simp add: keys)
qed

text \<open>Marking the node of a session that has left the dictionary.\<close>

lemma mark_result:
  assumes "sm_inv m" and "map_of (sm_nodes m) k = Some n" and "st \<in> {RECONNECTING, OFFLINE}"
  obtains m' where "mark_unavailable st k why m = (Inr (), m')" "sm_inv m'"
    "sm_maximum_sessions m' = sm_maximum_sessions m"
    "\<And>j. online m' j \<longleftrightarrow> j \<noteq> k \<and> online m j"
    "\<And>j s. j \<noteq> k \<Longrightarrow> shown m' j (s :: 't managed_session) = shown m j s"
proof -
  let ?m' = "put_node k (n\<lparr>ns_connection_state := st, ns_is_recording := False, ns_alert := why\<rparr>) m"
  have r: "mark_unavailable st k why m = (Inr (), ?m')" using assms(2) by (simp add: mark_unavailable_def require_node_def)
  show ?thesis
    by (rule that [OF r mark_unavailable_inv [OF r assms(3,1)]])
      (use assms(3) in \<open>auto simp: online_def shown_def map_of_put_node\<close>)
qed

lemma ginv_marked:
  fixes a :: "('t, 'w) app"
  assumes i: "ginv F {k} o' a" and k: "k \<notin> set (ol_keys o')" and m: "sm_inv m" "sm_maximum_sessions m = 16"
    "\<And>j. online m j \<longleftrightarrow> j \<noteq> k \<and> online (ap_session_index a) j"
    "\<And>j s. j \<noteq> k \<Longrightarrow> shown m j (s :: 't managed_session) = shown (ap_session_index a) j s"
  shows "ginv F {} o' (a\<lparr>ap_session_index := m\<rparr>)"
proof -
  let ?b = "a\<lparr>ap_session_index := m\<rparr>"
  have c: "core {k} a" using i by (simp add: ginv_def)
  have g: "get_session j ?b = get_session j a" "session_keys ?b = session_keys a" "session_ok ?b = session_ok a" for j
    by (simp_all add: get_session_def session_keys_def session_ok_def fun_eq_iff)
  have none: "j \<noteq> k" if "get_session j a = Some s" for j s
    using that get_session_keys [of j a] k keys_of_inv [OF i] by auto
  have "session_ok a j s \<and> (j \<notin> {} \<longrightarrow> shown m j s) \<and> (ms_transport_kind s = CDC \<longrightarrow> session_keys a = [j])"
    if "get_session j a = Some s" for j s
    using that none [OF that] coreD(7-9) [OF c] m(4) by auto
  moreover have "get_session j a \<noteq> None" if "online m j" for j
    using that m(3) coreD(10) [OF c, of j] by simp
  ultimately have "core {} ?b" unfolding core_def g using coreD(1-6) [OF c] m(1,2) by simp
  then show ?thesis using i by (simp add: ginv_def flags_ok_def outline_of_def session_keys_def)
qed

lemma triple_mark:
  fixes a :: "('t, 'w) app"
  assumes i: "ginv F {k} o' a" and k: "k \<notin> set (ol_keys o')" and n: "map_of (sm_nodes (ap_session_index a)) k = Some n"
  shows "\<exists>b. (if w then io_seq [release_gateway_client k, on_index (mark_reconnecting k why)]
      else on_index (mark_offline k why)) a = (Inr (), b) \<and> ginv F {} o' b"
proof -
  have inv: "sm_inv (ap_session_index a)" "sm_maximum_sessions (ap_session_index a) = 16"
    using i by (simp_all add: ginv_def core_def)
  have mark: "\<exists>m. mark_unavailable st k why (ap_session_index b) = (Inr (), m) \<and> ginv F {} o' (b\<lparr>ap_session_index := m\<rparr>)"
    if b: "ginv F {k} o' b" "ap_session_index b = ap_session_index a" "st \<in> {RECONNECTING, OFFLINE}" for st and b :: "('t, 'w) app"
  proof -
    obtain m where m: "mark_unavailable st k why (ap_session_index a) = (Inr (), m)" "sm_inv m"
        "sm_maximum_sessions m = sm_maximum_sessions (ap_session_index a)"
        "\<And>j. online m j \<longleftrightarrow> j \<noteq> k \<and> online (ap_session_index a) j"
        "\<And>j s. j \<noteq> k \<Longrightarrow> shown m j (s :: 't managed_session) = shown (ap_session_index a) j s"
      using mark_result [OF inv(1) n b(3)] by blast
    have "ginv F {} o' (b\<lparr>ap_session_index := m\<rparr>)"
      by (rule ginv_marked [OF b(1) k m(2)]) (use m(3-5) inv(2) b(2) in simp_all)
    then show ?thesis using m(1) b(2) by auto
  qed
  show ?thesis
  proof (cases w)
    case True
    obtain b where b: "release_gateway_client k a = (Inr (), b)" "same_state a b"
      by (simp add: release_gateway_client_def io_update_def same_state_def)
    then obtain m where "mark_unavailable RECONNECTING k why (ap_session_index b) = (Inr (), m)"
        "ginv F {} o' (b\<lparr>ap_session_index := m\<rparr>)"
      using mark [OF same_state_inv [OF b(2) i]] b(2) by (auto simp: same_state_def)
    then show ?thesis using b(1) True
      by (simp add: io_seq.simps io_bind_def on_index_def mark_reconnecting_def io_return_def)
  next
    case False
    then show ?thesis using mark [OF i, of OFFLINE] by (auto simp: on_index_def mark_offline_def)
  qed
qed

text \<open>The target after a session is gone: the first of the remaining ones.\<close>

definition next_target :: "pystr \<Rightarrow> outline \<Rightarrow> outline" where
  "next_target k o' = (if ol_selected o' = Some k
     then o'\<lparr>ol_selected := (case ol_keys o' of [] \<Rightarrow> None | j # _ \<Rightarrow> Some j)\<rparr> else o')"

lemma next_target_ok:
  assumes "outline_ok o'" and "k \<in> set (ol_keys o')" and "ol_keys o1 = removeAll k (ol_keys o')"
    and "ol_selected o1 = ol_selected o'" "ol_stopping o1 = ol_stopping o'" "ol_timers o1 = ol_timers o'"
  shows "\<not> ol_stopping (next_target k o1) \<and> ol_timers (next_target k o1) = (True, True) \<and>
    (case ol_selected (next_target k o1) of None \<Rightarrow> ol_keys (next_target k o1) = []
     | Some j \<Rightarrow> j \<in> set (ol_keys (next_target k o1)))"
proof -
  have f: "\<not> ol_stopping o'" "ol_timers o' = (True, True)"
    using assms(1,2) by (auto simp: outline_ok_def)
  obtain i where i: "ol_selected o' = Some i" "i \<in> set (ol_keys o')"
    using assms(1,2) by (auto simp: outline_ok_def split: option.splits)
  show ?thesis
  proof (cases "i = k")
    case True
    then show ?thesis using f i(1) assms(4-6) by (simp add: next_target_def split: list.split)
  next
    case False
    then show ?thesis using f i assms(3-6) by (simp add: next_target_def)
  qed
qed

lemma ginv_select: "ginv F G o' a \<Longrightarrow> ginv F G (o'\<lparr>ol_selected := x\<rparr>) (a\<lparr>ap_selected_node_id := x\<rparr>)"
proof -
  assume i: "ginv F G o' a"
  then have c: "core G a" by (simp add: ginv_def)
  have "core G (a\<lparr>ap_selected_node_id := x\<rparr>)"
    by (rule core_change [OF c]) (use coreD [OF c] in \<open>simp_all add: session_ok_def\<close>)
  then show ?thesis using i by (auto simp: ginv_def flags_ok_def outline_of_def session_keys_def)
qed

lemma ginv_timers: "ginv F G o' a \<Longrightarrow> ginv F G (o'\<lparr>ol_timers := (x, y)\<rparr>) (a\<lparr>ap_timer := x, ap_status_timer := y\<rparr>)"
proof -
  assume i: "ginv F G o' a"
  then have c: "core G a" by (simp add: ginv_def)
  have "core G (a\<lparr>ap_timer := x, ap_status_timer := y\<rparr>)"
    by (rule core_change [OF c]) (use coreD [OF c] in \<open>simp_all add: session_ok_def\<close>)
  then show ?thesis using i by (auto simp: ginv_def flags_ok_def outline_of_def session_keys_def)
qed

lemma triple_retarget:
  fixes E :: "exn \<Rightarrow> ('t, 'w) app \<Rightarrow> bool"
  shows "triple E (ginv F G o') (io_when (ol_selected o' = Some k) (io_update (\<lambda>a. a\<lparr>ap_selected_node_id :=
             (case session_keys a of [] \<Rightarrow> None | j # _ \<Rightarrow> Some j)\<rparr>))) (\<lambda>_. ginv F G (next_target k o'))"
proof (rule tripleI)
  fix a :: "('t, 'w) app" assume i: "ginv F G o' a"
  then show "result_ok E (\<lambda>_. ginv F G (next_target k o')) (io_when (ol_selected o' = Some k)
      (io_update (\<lambda>a. a\<lparr>ap_selected_node_id := (case session_keys a of [] \<Rightarrow> None | j # _ \<Rightarrow> Some j)\<rparr>)) a)"
    using ginv_select [OF i] keys_of_inv [OF i] by (simp add: io_when_def io_update_def io_return_def next_target_def)
qed

lemma triple_after_last:
  fixes e :: "('t, 'w) app_env"
  assumes o': "\<not> ol_stopping o'" "ol_timers o' = (True, True)"
    "case ol_selected o' of None \<Rightarrow> ol_keys o' = [] | Some j \<Rightarrow> j \<in> set (ol_keys o')"
  shows "triple (allowed e) (ginv True {} o') (\<lambda>a. io_when (ap_sessions a = []) after_last_session a) (\<lambda>_. app_inv)"
proof (rule tripleI)
  fix a :: "('t, 'w) app" assume i: "ginv True {} o' a"
  have k: "session_keys a = ol_keys o'" using keys_of_inv [OF i] .
  show "result_ok (allowed e) (\<lambda>_. app_inv) (io_when (ap_sessions a = []) after_last_session a)"
  proof (cases "ap_sessions a = []")
    case False
    then have "outline_ok o'" using o' k by (auto simp: outline_ok_def session_keys_def)
    then show ?thesis using False app_invI [OF i] by (simp add: io_when_def io_return_def)
  next
    case True
    let ?b = "a\<lparr>ap_timer := False, ap_status_timer := False\<rparr>"
    have "ol_keys o' = []" using k True by (simp add: session_keys_def)
    then have "outline_ok (o'\<lparr>ol_timers := (False, False)\<rparr>)" using o' by (simp add: outline_ok_def split: option.splits)
    then have "app_inv ?b" using app_invI ginv_timers [OF i] by blast
    then have "result_ok (allowed e) (\<lambda>_. app_inv) (io_seq [emit x, emit DisplayClearRequested] ?b)" for x
      by (rule keepsD [rotated]) (intro keeps_seq app_inv_keeps_common)
    then show ?thesis using True
      by (simp add: io_when_def after_last_session_def io_seq_update)
  qed
qed

lemma session_gone_inv:
  fixes a :: "('t, 'w) app"
  assumes inv: "app_inv a" and s: "get_session k a = Some s"
  shows "result_ok (allowed e) (\<lambda>_. app_inv) (session_gone e k s (a\<lparr>ap_sessions := AList.delete k (ap_sessions a)\<rparr>))"
proof -
  let ?a1 = "a\<lparr>ap_sessions := AList.delete k (ap_sessions a)\<rparr>"
  let ?o = "outline_of ?a1"
  have c: "core {} a" using inv by (simp add: app_inv_def)
  obtain n where n: "map_of (sm_nodes (ap_session_index a)) k = Some n"
    using coreD(8) [OF c s] by (auto simp: shown_def)
  have "flags_ok ?a1" using inv by (auto simp: app_inv_def flags_ok_def list_all_iff AList.delete_eq)
  then have i1: "ginv True {k} ?o ?a1" using core_delete [OF c s] by (simp add: ginv_def)
  have keys: "ol_keys ?o = removeAll k (session_keys a)" by (simp add: outline_of_def session_keys_def delete_keys)
  obtain v s' sigs where f: "finalize_session_recorders e (s, []) = (v, s', sigs)" by (metis surj_pair)
  obtain a2 where a2: "io_for sigs emit ?a1 = (Inr (), a2)" "same_state ?a1 a2"
    using quiet_for [where f = emit and ys = sigs and a = ?a1, OF quiet_emit] by (auto simp: quiet_def)
  show ?thesis
  proof (cases v)
    case (Inl x)
    then have "\<not> env_ok e" using finalize_result [OF f] by auto
    then show ?thesis using f a2 Inl by (simp add: session_gone_def io_bind_def io_lift_def allowed_def)
  next
    case (Inr u)
    let ?sel = "ol_selected ?o = Some k"
    have i2: "ginv True {k} ?o a2" using same_state_inv [OF a2(2) i1] .
    define M :: "('t, 'w, unit) app_io" where "M = (if ms_transport_kind s = WIFI
           then io_seq [release_gateway_client k, on_index (mark_reconnecting k (ms_failure s))]
           else on_index (mark_offline k (ms_failure s)))"
    obtain a3 where a3: "M a2 = (Inr (), a3)" "ginv True {} ?o a3"
      unfolding M_def using triple_mark [OF i2, of n "ms_transport_kind s = WIFI" "ms_failure s"] n a2(2) keys
      by (auto simp: same_state_def)
    have o1: "outline_ok (outline_of a)" "k \<in> set (ol_keys (outline_of a))"
      using inv s get_session_keys [of k a] by (simp_all add: app_inv_def outline_of_def)
    have o3: "\<not> ol_stopping (next_target k ?o)" "ol_timers (next_target k ?o) = (True, True)"
      "case ol_selected (next_target k ?o) of None \<Rightarrow> ol_keys (next_target k ?o) = [] | Some j \<Rightarrow> j \<in> set (ol_keys (next_target k ?o))"
      using next_target_ok [OF o1, of ?o] keys by (simp_all add: outline_of_def)
    have "triple (allowed e) (ginv True {} ?o) (io_seq [io_when ?sel (io_update (\<lambda>a. a\<lparr>ap_selected_node_id :=
             (case session_keys a of [] \<Rightarrow> None | j # _ \<Rightarrow> Some j)\<rparr>)), emit_nodes,
           io_when ?sel (\<lambda>a. emit (SelectedNodeChanged
             (case ap_selected_node_id a of None \<Rightarrow> [] | Some j \<Rightarrow> j)) a),
           (\<lambda>a. io_when (ap_sessions a = []) after_last_session a)]) (\<lambda>_. app_inv)"
      by (intro triple_seq [OF triple_retarget] triple_seq [OF keeps_triple] triple_seq_end triple_after_last keeps_emit_nodes
          keeps_when keeps_state [where f = "\<lambda>a. emit (SelectedNodeChanged (case ap_selected_node_id a of None \<Rightarrow> [] | Some j \<Rightarrow> j))"]
          keeps_emit o3)
    from tripleD [OF this a3(2)] show ?thesis
      using f a2 Inr i2 io_seq_run [of M a2 a3, OF a3(1)]
      by (simp add: session_gone_def M_def [symmetric] io_bind_def io_lift_def ginv_def outline_of_def)
  qed
qed

lemma on_thread_finished_inv:
  fixes e :: "('t, 'w) app_env"
  shows "keeps (allowed e) app_inv (on_thread_finished e k)"
  by (rule keepsI) (auto simp: on_thread_finished_def intro: session_gone_inv split: option.splits)

lemma keeps_on_worker_failed:
  fixes E :: "exn \<Rightarrow> ('t, 'w) app \<Rightarrow> bool"
  shows "keeps E (ginv F G o') (on_worker_failed k why)"
  unfolding on_worker_failed_def [abs_def] Let_def
proof (rule keeps_state [where f = "\<lambda>a. io_seq
        [io_when (get_session k a \<noteq> None) (on_session k (io_seq
           [io_update (\<lambda>s. s\<lparr>ms_failure := Some why\<rparr>), update_disconnect_metadata why])),
         io_when (\<not> ap_is_stopping a \<and> \<not> (case ap_ota_context a of None \<Rightarrow> False | Some c \<Rightarrow> oc_node_id c = k) \<and>
             \<not> (case get_session k a of None \<Rightarrow> False | Some s \<Rightarrow> ms_ota_awaiting_restart s))
           (emit (ErrorRaised (Composed why)))]"], intro keeps_seq keeps_when keeps_emit)
  fix a :: "('t, 'w) app" assume i: "ginv F G o' a" and "get_session k a \<noteq> None"
  then have k: "k \<in> set (ol_keys o')" using get_session_keys [of k a] keys_of_inv [OF i] by simp
  have r: "r = Inr () \<and> session_step s s'"
    if l: "local_ok s" and m: "io_seq [io_update (\<lambda>s. s\<lparr>ms_failure := Some why\<rparr>), update_disconnect_metadata why] s = (r, s')"
    for s s' :: "'t managed_session" and r
  proof -
    let ?s = "s\<lparr>ms_failure := Some why\<rparr>"
    have f: "session_step s ?s" by (rule session_step_failure)
    obtain x s1 where x: "update_disconnect_metadata why ?s = (x, s1)" by force
    have "x = Inr () \<and> session_step ?s s1" using disconnect_metadata_result [OF session_step_local [OF f l] x] .
    then show ?thesis using m x session_step_trans [OF f]
      by (auto simp: io_seq.simps io_bind_def io_update_def io_return_def)
  qed
  show "keeps E (ginv F G o') (on_session k (io_seq
      [io_update (\<lambda>s. s\<lparr>ms_failure := Some why\<rparr>), update_disconnect_metadata why]))"
    by (rule keeps_on_session [OF k]) (use r in blast)+
qed

section \<open>All sessions\<close>

lemma keeps_close_session:
  fixes e :: "('t, 'w) app_env"
  assumes k: "k \<in> set (ol_keys o')"
  shows "keeps (allowed e) (ginv F G o') (close_session e k)"
  unfolding close_session_def
proof (rule keeps_on_session [OF k])
  let ?m = "io_seq [update_disconnect_metadata (lit ''user_disconnect''), io_update (\<lambda>s. s\<lparr>ms_stop_event := True\<rparr>),
      on_transport (tp_close (ae_transport e))]"
  have r: "session_step s s' \<and> (\<forall>x. r = Inl x \<longrightarrow> \<not> env_ok e)" if l: "local_ok s" and m: "?m s = (r, s')"
    for s s' :: "'t managed_session" and r
  proof -
    obtain x s1 where x: "update_disconnect_metadata (lit ''user_disconnect'') s = (x, s1)" by force
    have s1: "x = Inr ()" "session_step s s1" using disconnect_metadata_result [OF l x] by auto
    obtain y t where y: "tp_close (ae_transport e) (ms_transport s1) = (y, t)" by force
    have "\<not> env_ok e" if "y = Inl z" for z
      using that y unfolding env_ok_def by (metis fst_conv sum.distinct(1))
    moreover have "session_step s1 (s1\<lparr>ms_stop_event := True, ms_transport := t\<rparr>)"
      by (simp add: session_step_def local_ok_def)
    moreover have "(r, s') = (y, s1\<lparr>ms_stop_event := True, ms_transport := t\<rparr>)"
      using m x s1(1) y by (auto simp: io_seq.simps io_bind_def io_update_def on_transport_def io_return_def split: sum.splits)
    ultimately show ?thesis using session_step_trans [OF s1(2)] by blast
  qed
  fix s s' :: "'t managed_session" and v assume "local_ok s" "?m s = (v, s')"
  then show "session_step s s'" using r by blast
next
  fix s s' :: "'t managed_session" and x w
  assume l: "local_ok s" and m: "io_seq [update_disconnect_metadata (lit ''user_disconnect''), io_update (\<lambda>s. s\<lparr>ms_stop_event := True\<rparr>),
      on_transport (tp_close (ae_transport e))] s = (Inl x, s')"
  obtain z s1 where z: "update_disconnect_metadata (lit ''user_disconnect'') s = (z, s1)" by force
  have "z = Inr ()" using disconnect_metadata_result [OF l z] by auto
  then have "fst (tp_close (ae_transport e) (ms_transport s1)) = Inl x"
    using m z by (auto simp: io_seq.simps io_bind_def io_update_def on_transport_def io_return_def split: sum.splits prod.splits)
  then have "\<not> env_ok e" unfolding env_ok_def by (metis sum.distinct(1))
  then show "allowed e x w" by (simp add: allowed_def)
qed

text \<open>The nodes of the sessions already joined have left the inventory.\<close>

definition joined :: "outline \<Rightarrow> pystr set \<Rightarrow> ('t, 'w) app \<Rightarrow> bool" where
  "joined o' D a \<longleftrightarrow> ginv False D o' a \<and> (\<forall>j\<in>D. \<not> online (ap_session_index a) j)"

lemma core_mono: "core G a \<Longrightarrow> G \<subseteq> H \<Longrightarrow> core H a"
  unfolding core_def by blast

lemma triple_finalize_in_place:
  fixes e :: "('t, 'w) app_env"
  assumes k: "k \<in> set (ol_keys o')"
  shows "triple (allowed e) (joined o' D) (finalize_in_place e k)
    (\<lambda>_ a. ginv False (insert k D) o' a \<and> (\<forall>j\<in>D. \<not> online (ap_session_index a) j))"
proof (rule tripleI)
  fix a :: "('t, 'w) app" assume a: "joined o' D a"
  then have c: "core (insert k D) a" using core_mono [of D a "insert k D"] by (auto simp: joined_def ginv_def)
  obtain s where s: "get_session k a = Some s" using inv_get [of False D o' a k] a k by (auto simp: joined_def)
  obtain v s' sigs where f: "finalize_session_recorders e (s, []) = (v, s', sigs)" by (metis surj_pair)
  let ?b = "put_session k s' a"
  have run: "on_session k (\<lambda>s. case finalize_session_recorders e (s, []) of (r, s', sigs) \<Rightarrow> (Inr (r, sigs), s')) a =
      (Inr (v, sigs), ?b)"
    by (rule run_on_session [OF s]) (simp add: f)
  obtain b where b: "io_for sigs emit ?b = (Inr (), b)" "same_state ?b b"
    using quiet_for [where f = emit and ys = sigs and a = ?b, OF quiet_emit] by (auto simp: quiet_def)
  have res: "finalize_in_place e k a = (v, b)"
    using run b(1) by (simp add: finalize_in_place_def io_bind_def io_lift_def)
  show "result_ok (allowed e) (\<lambda>_ a. ginv False (insert k D) o' a \<and> (\<forall>j\<in>D. \<not> online (ap_session_index a) j)) (finalize_in_place e k a)"
  proof (cases v)
    case (Inl x)
    then show ?thesis using finalize_result [OF f] by (auto simp: res allowed_def)
  next
    case (Inr u)
    then have "loose_step s s'" using finalize_result [OF f] by auto
    then have "core (insert k D) ?b" using core_put_gone [OF c s] by blast
    moreover have "k \<in> set (session_keys a)" using s get_session_keys [of k a] by simp
    ultimately have "ginv False (insert k D) o' ?b"
      using a outline_put_session [of k a s'] by (simp add: ginv_def joined_def)
    then have "ginv False (insert k D) o' b" using same_state_inv b(2) by blast
    moreover have "ap_session_index b = ap_session_index a" using b(2) by (simp add: same_state_def)
    ultimately show ?thesis using a Inr by (simp add: res joined_def)
  qed
qed

lemma triple_remove:
  fixes e :: "('t, 'w) app_env"
  shows "triple (allowed e) (\<lambda>a. ginv False (insert k D) o' a \<and> (\<forall>j\<in>D. \<not> online (ap_session_index a) j))
    (on_index (\<lambda>m. (Inr (), remove_node k m))) (\<lambda>_. joined o' (insert k D))"
proof (rule tripleI, elim conjE)
  fix a :: "('t, 'w) app" assume i: "ginv False (insert k D) o' a" and D: "\<forall>j\<in>D. \<not> online (ap_session_index a) j"
  let ?m = "remove_node k (ap_session_index a)"
  let ?b = "a\<lparr>ap_session_index := ?m\<rparr>"
  have c: "core (insert k D) a" using i by (simp add: ginv_def)
  have g: "get_session j ?b = get_session j a" "session_keys ?b = session_keys a" "session_ok ?b = session_ok a" for j
    by (simp_all add: get_session_def session_keys_def session_ok_def fun_eq_iff)
  have m: "online ?m j \<longleftrightarrow> j \<noteq> k \<and> online (ap_session_index a) j" "j \<noteq> k \<Longrightarrow> shown ?m j s = shown (ap_session_index a) j s"
    for j and s :: "'t managed_session"
    by (auto simp: online_def shown_def remove_node_def delete_conv')
  have "sm_maximum_sessions ?m = 16" using coreD(2) [OF c] by (simp add: remove_node_def)
  then have "core (insert k D) ?b"
    using c remove_node_inv [of "ap_session_index a" k] m unfolding core_def g by simp
  then show "result_ok (allowed e) (\<lambda>_. joined o' (insert k D)) (on_index (\<lambda>m. (Inr (), remove_node k m)) a)"
    using i D m(1) by (simp add: joined_def ginv_def outline_of_def session_keys_def on_index_def)
qed

lemma triple_join_session:
  fixes e :: "('t, 'w) app_env"
  assumes k: "k \<in> set (ol_keys o')"
  shows "triple (allowed e) (joined o' D) (join_session e k) (\<lambda>_. joined o' (insert k D))"
proof -
  have same: "same_state a b \<Longrightarrow> joined o' D a \<Longrightarrow> joined o' D b" for a b :: "('t, 'w) app"
    using same_state_inv [of a b] by (simp add: joined_def same_state_def)
  have "joined o' D (snd (raise_error m a))" if "joined o' D a" for m and a :: "('t, 'w) app"
    by (rule same [OF _ that]) (simp add: raise_error_def emit_def io_update_def same_state_def)
  then have "triple (allowed e) (joined o' D) (io_when c (raise_error m)) (\<lambda>_. joined o' D)" for c m
    by (simp add: triple_def io_when_def io_return_def raise_error_def emit_def io_update_def)
  from triple_seq [OF this triple_seq [OF triple_finalize_in_place [OF k] triple_seq_end [OF triple_remove]]]
  show ?thesis by (simp add: join_session_def)
qed

lemma triple_join_all:
  fixes e :: "('t, 'w) app_env"
  shows "set ks \<subseteq> set (ol_keys o') \<Longrightarrow>
    triple (allowed e) (joined o' D) (io_for ks (join_session e)) (\<lambda>_. joined o' (D \<union> set ks))"
proof (induction ks arbitrary: D)
  case Nil
  then show ?case by (simp add: io_for.simps triple_return)
next
  case (Cons k ks)
  then have "triple (allowed e) (joined o' D) (join_session e k) (\<lambda>_. joined o' (insert k D))"
    by (intro triple_join_session) simp
  then show ?case using triple_bind [OF _ Cons.IH [of "insert k D"]] Cons.prems by (simp add: io_for.simps)
qed

section \<open>The disconnection\<close>

text \<open>The state in which \<open>disconnect_device\<close> leaves the sessions and the update.\<close>

definition cleared :: "('t, 'w) app \<Rightarrow> ('t, 'w) app" where
  "cleared a = a\<lparr>ap_ota_worker := None, ap_ota_cancel_event := None, ap_ota_context := None, ap_ota_node_id := None,
     ap_sessions := [], ap_selected_node_id := None, ap_recording_active := False, ap_recording_batch_path := None,
     ap_is_stopping := False\<rparr>"

lemma cleared_inv:
  assumes j: "joined o' (set (ol_keys o')) a" and o': "ol_timers o' = (False, False)" "ol_reconnect o' = None"
  shows "app_inv (cleared a)"
proof -
  have i: "ginv False (set (ol_keys o')) o' a" using j by (simp add: joined_def)
  then have c: "core (set (ol_keys o')) a" by (simp add: ginv_def)
  have off: "\<not> online (ap_session_index a) k" for k
  proof
    assume k: "online (ap_session_index a) k"
    then have "k \<notin> set (ol_keys o')" using j by (auto simp: joined_def)
    then have "get_session k a \<noteq> None" using coreD(10) [OF c k] by blast
    then show False using get_session_keys [of k a] keys_of_inv [OF i] \<open>k \<notin> set (ol_keys o')\<close> by simp
  qed
  have "ap_ota_reconnect a = None" "\<not> ap_timer a" "\<not> ap_status_timer a"
    using i o' by (auto simp: ginv_def outline_of_def)
  then show ?thesis
    using off coreD(1,2,4) [OF c]
    by (simp add: app_inv_def core_def cleared_def get_session_def session_keys_def ota_ok_def flags_ok_def
        outline_ok_def outline_of_def)
qed

lemma stopping_inv:
  fixes a :: "('t, 'w) app"
  shows "ginv F G o' a \<Longrightarrow> ginv False G (o'\<lparr>ol_stopping := True\<rparr>) (a\<lparr>ap_is_stopping := True\<rparr>)"
proof -
  assume i: "ginv F G o' a"
  then have c: "core G a" by (simp add: ginv_def)
  have "core G (a\<lparr>ap_is_stopping := True\<rparr>)"
    by (rule core_change [OF c]) (use coreD [OF c] in \<open>simp_all add: session_ok_def\<close>)
  then show ?thesis using i by (auto simp: ginv_def outline_of_def session_keys_def)
qed

lemma no_timers_inv:
  fixes a :: "('t, 'w) app"
  assumes i: "ginv F G o' a"
  shows "ginv F G (o'\<lparr>ol_timers := (False, False), ol_reconnect := None\<rparr>)
    (a\<lparr>ap_timer := False, ap_status_timer := False, ap_ota_reconnect_timer := False, ap_ota_reconnect := None,
       ap_ota_cancel_event := x\<rparr>)"
proof -
  have c: "core G a" using i by (simp add: ginv_def)
  have ota: "ota_ok (a\<lparr>ap_timer := False, ap_status_timer := False, ap_ota_reconnect_timer := False,
      ap_ota_reconnect := None, ap_ota_cancel_event := x\<rparr>)" 
    using coreD(5) [OF c] by (cases "ap_ota_context a") (auto simp: ota_ok_def)
  then have "core G (a\<lparr>ap_timer := False, ap_status_timer := False, ap_ota_reconnect_timer := False,
      ap_ota_reconnect := None, ap_ota_cancel_event := x\<rparr>)"
    by (intro core_change [OF c]) (use coreD [OF c] in \<open>simp_all add: session_ok_def ota del: ota_ok_simps\<close>)
  then show ?thesis using i by (auto simp: ginv_def flags_ok_def outline_of_def session_keys_def)
qed

lemma triple_join_sessions:
  fixes e :: "('t, 'w) app_env"
  shows "triple (allowed e) (ginv False {} o') (\<lambda>a. io_for (session_keys a) (join_session e) a)
    (\<lambda>_. joined o' (set (ol_keys o')))"
proof (rule tripleI)
  fix a :: "('t, 'w) app" assume i: "ginv False {} o' a"
  have "triple (allowed e) (joined o' {}) (io_for (ol_keys o') (join_session e)) (\<lambda>_. joined o' ({} \<union> set (ol_keys o')))"
    by (rule triple_join_all) simp
  moreover have "joined o' {} a" using i by (simp add: joined_def)
  ultimately show "result_ok (allowed e) (\<lambda>_. joined o' (set (ol_keys o'))) (io_for (session_keys a) (join_session e) a)"
    using tripleD keys_of_inv [OF i] by fastforce
qed

lemma triple_clear:
  fixes e :: "('t, 'w) app_env"
  assumes o': "ol_timers o' = (False, False)" "ol_reconnect o' = None"
  shows "triple (allowed e) (joined o' (set (ol_keys o')))
    (io_seq [teardown_ota_worker, clear_ota_context,
      io_update (\<lambda>a. a\<lparr>ap_sessions := [], ap_selected_node_id := None, ap_recording_active := False,
        ap_recording_batch_path := None, ap_is_stopping := False\<rparr>),
      emit_nodes, emit (ConnectionChanged False []), emit DisplayClearRequested]) (\<lambda>_. app_inv)"
proof (rule tripleI)
  fix a :: "('t, 'w) app" assume "joined o' (set (ol_keys o')) a"
  then have c: "app_inv (cleared a)" using cleared_inv o' by blast
  have k: "keeps (allowed e) app_inv (io_seq [emit_nodes, emit (ConnectionChanged False []), emit DisplayClearRequested])"
    by (rule inv_outline) (intro keeps_seq keeps_emit_nodes keeps_emit)
  have "result_ok (allowed e) (\<lambda>_. app_inv)
      (io_seq [emit_nodes, emit (ConnectionChanged False []), emit DisplayClearRequested] (cleared a))"
    by (rule keepsD [OF k c])
  moreover have "io_seq (teardown_ota_worker # clear_ota_context #
      io_update (\<lambda>a. a\<lparr>ap_sessions := [], ap_selected_node_id := None, ap_recording_active := False,
        ap_recording_batch_path := None, ap_is_stopping := False\<rparr>) # ms) a = io_seq ms (cleared a)" for ms
    unfolding teardown_ota_worker_def clear_ota_context_def io_seq_update cleared_def by simp
  ultimately show "result_ok (allowed e) (\<lambda>_. app_inv) (io_seq [teardown_ota_worker, clear_ota_context,
      io_update (\<lambda>a. a\<lparr>ap_sessions := [], ap_selected_node_id := None, ap_recording_active := False,
        ap_recording_batch_path := None, ap_is_stopping := False\<rparr>),
      emit_nodes, emit (ConnectionChanged False []), emit DisplayClearRequested] a)"
    by (simp only:)
qed

lemma disconnect_device_inv:
  fixes e :: "('t, 'w) app_env"
  shows "keeps (allowed e) app_inv (disconnect_device e)"
proof (rule keepsI)
  fix a :: "('t, 'w) app" assume inv: "app_inv a"
  then have i: "ginv True {} (outline_of a) a" unfolding app_inv_ginv by blast
  let ?o1 = "outline_of a\<lparr>ol_stopping := True\<rparr>"
  let ?o2 = "?o1\<lparr>ol_timers := (False, False), ol_reconnect := None\<rparr>"
  have up1: "triple (allowed e) (\<lambda>b. b = a) (io_update (\<lambda>a. a\<lparr>ap_is_stopping := True\<rparr>)) (\<lambda>_. ginv False {} ?o1)"
    using stopping_inv [OF i] by (intro triple_update) simp
  have wifi: "triple (allowed e) (ginv False {} ?o1) (stop_wifi_resources e) (\<lambda>_. ginv False {} ?o1)"
    by (intro keeps_triple keeps_stop_wifi_resources tolerant_allowed)
  have up2: "triple (allowed e) (ginv False {} ?o1) (io_update (\<lambda>a. a\<lparr>ap_timer := False, ap_status_timer := False,
      ap_ota_reconnect_timer := False, ap_ota_reconnect := None,
      ap_ota_cancel_event := map_option (\<lambda>_. True) (ap_ota_cancel_event a)\<rparr>)) (\<lambda>_. ginv False {} ?o2)"
    by (intro triple_update no_timers_inv)
  have close: "triple (allowed e) (ginv False {} ?o2) (\<lambda>a. io_for (session_keys a) (close_session e) a) (\<lambda>_. ginv False {} ?o2)"
    by (intro keeps_triple keeps_for_sessions keeps_close_session)
  have clear: "triple (allowed e) (joined ?o2 (set (ol_keys ?o2))) (io_seq [teardown_ota_worker, clear_ota_context,
      io_update (\<lambda>a. a\<lparr>ap_sessions := [], ap_selected_node_id := None, ap_recording_active := False,
        ap_recording_batch_path := None, ap_is_stopping := False\<rparr>),
      emit_nodes, emit (ConnectionChanged False []), emit DisplayClearRequested]) (\<lambda>_. app_inv)"
    by (rule triple_clear) simp_all
  have "triple (allowed e) (\<lambda>b. b = a) (disconnect_device e) (\<lambda>_. app_inv)"
    unfolding disconnect_device_def
    by (rule triple_seq [OF up1 triple_seq [OF wifi triple_seq [OF up2 triple_seq [OF close triple_seq [OF triple_join_sessions clear]]]]])
  then show "result_ok (allowed e) (\<lambda>_. app_inv) (disconnect_device e a)" by (simp add: triple_def)
qed

lemma stop_wifi_server_inv:
  fixes e :: "('t, 'w) app_env"
  shows "keeps (allowed e) app_inv (stop_wifi_server e)"
  unfolding stop_wifi_server_def
proof (intro keeps_seq)
  show "keeps (allowed e) app_inv (stop_wifi_resources e)"
    by (rule inv_outline) (intro keeps_stop_wifi_resources tolerant_allowed)
  show "keeps (allowed e) app_inv (\<lambda>a. io_when (ap_sessions a \<noteq> []) (disconnect_device e) a)"
    by (rule keeps_state [where f = "\<lambda>a. io_when (ap_sessions a \<noteq> []) (disconnect_device e)"])
      (intro keeps_when disconnect_device_inv)
qed (rule app_inv_keeps_common)

end
