(* ===== verification/AppOtaInv.thy ===== *)
theory AppOtaInv
  imports AppEndInv
begin

text \<open>
  Firmware updates keep the invariant: an upload starts for one idle Wi-Fi session while nothing records, its end
  releases the session before the owner is forgotten, and the wait for the device changes no session.
\<close>

section \<open>The owner of the update\<close>

definition no_upload :: "('t, 'w) app \<Rightarrow> bool" where
  "no_upload a \<longleftrightarrow> (\<forall>k s. get_session k a = Some s \<longrightarrow> \<not> ms_ota_active s)"

lemma idle_worker: "app_inv a \<Longrightarrow> ap_ota_worker a = None \<Longrightarrow> no_upload a"
  unfolding app_inv_def no_upload_def using coreD(7) [of "{}" a] by (fastforce simp: session_ok_def)

definition same_but_ota :: "('t, 'w) app \<Rightarrow> ('t, 'w) app \<Rightarrow> bool" where
  "same_but_ota a b \<longleftrightarrow> ap_session_index b = ap_session_index a \<and> ap_sessions b = ap_sessions a \<and>
     ap_selected_node_id b = ap_selected_node_id a \<and> ap_window_s b = ap_window_s a \<and>
     ap_is_stopping b = ap_is_stopping a \<and> ap_recording_active b = ap_recording_active a \<and>
     ap_recording_batch_path b = ap_recording_batch_path a \<and> ap_timer b = ap_timer a \<and>
     ap_status_timer b = ap_status_timer a \<and> ap_next_token b = ap_next_token a"

lemma ota_change_inv:
  assumes inv: "app_inv a" and none: "no_upload a" and same: "same_but_ota a b" and ok: "ota_ok b"
  shows "app_inv b"
proof -
  have c: "core {} a" using inv by (simp add: app_inv_def)
  have g: "get_session k b = get_session k a" "session_keys b = session_keys a" for k
    using same by (simp_all add: same_but_ota_def get_session_def session_keys_def)
  have "core {} b"
    by (rule core_change [OF c])
      (use same ok none coreD [OF c] in \<open>auto simp: same_but_ota_def session_ok_def no_upload_def\<close>)
  then show ?thesis using inv same g
    by (auto simp: app_inv_def flags_ok_def outline_ok_def outline_of_def same_but_ota_def split: option.splits)
qed

text \<open>Releasing the session of the upload.\<close>

lemma release_session:
  fixes a :: "('t, 'w) app"
  assumes inv: "app_inv a" and w: "ap_ota_worker a = Some (k, p)"
    and f: "\<And>s. session_step s (f s) \<and> \<not> ms_ota_active (f s)"
  shows "\<exists>b. io_when (get_session k a \<noteq> None) (update_session k f) a = (Inr (), b) \<and> app_inv b \<and> no_upload b \<and>
    ap_ota_worker b = ap_ota_worker a \<and> ap_ota_context b = ap_ota_context a \<and> ap_ota_node_id b = ap_ota_node_id a \<and>
    ap_ota_reconnect b = ap_ota_reconnect a"
proof -
  have i: "ginv True {} (outline_of a) a" "outline_ok (outline_of a)" using inv unfolding app_inv_ginv by blast+
  have c: "core {} a" using inv by (simp add: app_inv_def)
  have only: "j = k" if "get_session j a = Some s" "ms_ota_active s" for j s
    using coreD(7) [OF c that(1)] that(2) w by (simp add: session_ok_def)
  show ?thesis
  proof (cases "get_session k a")
    case None
    then have "no_upload a" using only by (fastforce simp: no_upload_def)
    then show ?thesis using None inv by (simp add: io_when_def io_return_def)
  next
    case (Some s)
    let ?b = "put_session k (f s) a"
    have "app_inv ?b" using inv_put_session [OF i(1) Some] f app_invI i(2) by blast
    moreover have "no_upload ?b" using only f by (auto simp: no_upload_def get_put_session)
    moreover have "update_session k f a = (Inr (), ?b)"
      unfolding update_session_def by (rule run_on_session [OF Some]) (simp add: io_update_def)
    moreover have "ap_ota_node_id ?b = ap_ota_node_id a" by (simp add: put_session_def)
    ultimately show ?thesis using Some by (simp add: io_when_def)
  qed
qed

lemma end_ota_step:
  "session_step s (s\<lparr>ms_ota_active := False, ms_acquisition := end_ota (ms_acquisition s)\<rparr>)"
  "session_step s (s\<lparr>ms_ota_active := False, ms_ota_awaiting_restart := True, ms_acquisition := end_ota (ms_acquisition s)\<rparr>)"
  by (auto simp: session_step_def local_ok_def end_ota_def conn_ok_def)

lemma ota_ok_worker:
  assumes "ota_ok a" and "ap_ota_worker a = Some (k, p)"
  shows "\<exists>c. ap_ota_context a = Some c \<and> oc_kind c = WIFI \<and> ap_ota_node_id a = Some (oc_node_id c)" "ap_ota_reconnect a = None"
  using assms by (cases "ap_ota_context a"; auto simp: ota_ok_def)+

lemma app_inv_ota: "app_inv a \<Longrightarrow> ota_ok a"
  by (simp add: app_inv_def core_def)

text \<open>An upload that failed or was cancelled.\<close>

lemma upload_ended_inv:
  fixes e :: "('t, 'w) app_env"
  assumes inv: "app_inv a" and w: "ap_ota_worker a = Some (k, p)" and rest: "keeps (allowed e) app_inv (io_seq ms)"
  shows "result_ok (allowed e) (\<lambda>_. app_inv) (io_seq (release_ota_session k # teardown_ota_worker # clear_ota_context # ms) a)"
proof -
  let ?f = "\<lambda>s :: 't managed_session. s\<lparr>ms_ota_active := False, ms_acquisition := end_ota (ms_acquisition s)\<rparr>"
  have f: "session_step s (?f s) \<and> \<not> ms_ota_active (?f s)" for s using end_ota_step(1) [of s] by simp
  obtain b where b: "release_ota_session k a = (Inr (), b)" "app_inv b" "no_upload b" "ap_ota_reconnect b = None"
    unfolding release_ota_session_def using release_session [OF inv w f] ota_ok_worker(2) [OF app_inv_ota [OF inv] w] by auto
  let ?c = "b\<lparr>ap_ota_worker := None, ap_ota_cancel_event := None, ap_ota_context := None, ap_ota_node_id := None\<rparr>"
  have "app_inv ?c"
    by (rule ota_change_inv [OF b(2,3)]) (use b(4) in \<open>simp_all add: same_but_ota_def ota_ok_def\<close>)
  then have "result_ok (allowed e) (\<lambda>_. app_inv) (io_seq ms ?c)" by (rule keepsD [OF rest])
  then show ?thesis
    using io_seq_run [of "release_ota_session k" a b, OF b(1)]
    by (simp add: teardown_ota_worker_def clear_ota_context_def io_seq_update)
qed

lemma app_inv_keeps_availability: "keeps (allowed e) app_inv emit_ota_availability"
  by (rule inv_outline) (rule keeps_emit_ota_availability)

lemma on_ota_failed_inv:
  fixes e :: "('t, 'w) app_env"
  assumes "app_inv a" and "ap_ota_worker a = Some (k, p)"
  shows "result_ok (allowed e) (\<lambda>_. app_inv) (on_ota_failed k code m a)"
  unfolding on_ota_failed_def Let_def
  by (rule upload_ended_inv [OF assms]) (intro keeps_seq app_inv_keeps_common app_inv_keeps_availability)

lemma on_ota_cancelled_inv:
  fixes e :: "('t, 'w) app_env"
  assumes "app_inv a" and "ap_ota_worker a = Some (k, p)"
  shows "result_ok (allowed e) (\<lambda>_. app_inv) (on_ota_cancelled k a)"
  unfolding on_ota_cancelled_def
  by (rule upload_ended_inv [OF assms]) (intro keeps_seq app_inv_keeps_common app_inv_keeps_availability)

text \<open>An upload whose image is staged: the session waits for the restart, and the reconnection is armed.\<close>

lemma seq_after_quiet:
  assumes "quiet m a" and "\<And>b. same_state a b \<Longrightarrow> result_ok E Q (io_seq ms b)"
  shows "result_ok E Q (io_seq (m # ms) a)"
  using assms by (auto simp: quiet_def io_seq_run)

lemma seq_one: "result_ok E (\<lambda>_. Q) (m a) \<Longrightarrow> result_ok E (\<lambda>_. Q) (io_seq [m] a)"
  by (auto simp: io_seq.simps io_bind_def io_return_def result_ok_def split: prod.splits sum.splits)

lemma quiet_when: "(\<And>b. quiet m b) \<Longrightarrow> quiet (io_when c m) a"
  by (simp add: quiet_def io_when_def io_return_def same_state_def)

lemma on_ota_staged_inv:
  fixes e :: "('t, 'w) app_env"
  assumes inv: "app_inv a" and w: "ap_ota_worker a = Some (k, p)"
  shows "result_ok (allowed e) (\<lambda>_. app_inv) (on_ota_staged e k r a)"
proof -
  let ?f = "\<lambda>s :: 't managed_session. s\<lparr>ms_ota_active := False, ms_ota_awaiting_restart := True,
    ms_acquisition := end_ota (ms_acquisition s)\<rparr>"
  have f: "session_step s (?f s) \<and> \<not> ms_ota_active (?f s)" for s using end_ota_step(2) [of s] by simp
  obtain b where b: "io_when (get_session k a \<noteq> None) (update_session k ?f) a = (Inr (), b)" "app_inv b" "no_upload b"
      "ap_ota_context b = ap_ota_context a"
    using release_session [OF inv w f] by blast
  obtain c where c: "ap_ota_context a = Some c" "oc_kind c = WIFI"
    using ota_ok_worker(1) [OF app_inv_ota [OF inv] w] by blast
  have last: "result_ok (allowed e) (\<lambda>_. app_inv) (io_seq [teardown_ota_worker, arm_ota_reconnect e, emit_ota_availability] d)"
    if d: "same_state b d" for d
  proof -
    let ?g = "snd (arm_ota_reconnect e (d\<lparr>ap_ota_worker := None, ap_ota_cancel_event := None\<rparr>))"
    have cd: "ap_ota_context d = Some c" using d b(4) c(1) by (simp add: same_state_def)
    have dinv: "app_inv d" "no_upload d"
      using same_state_app_inv [OF d b(2)] d b(3) by (simp_all add: no_upload_def same_state_def get_session_def)
    have "app_inv ?g"
      by (rule ota_change_inv [OF dinv])
        (use app_inv_ota [OF dinv(1)] c(2) cd in \<open>auto simp: arm_ota_reconnect_def same_but_ota_def ota_ok_def\<close>)
    then have "result_ok (allowed e) (\<lambda>_. app_inv) (io_seq [emit_ota_availability] ?g)"
      by (rule keepsD [rotated]) (intro keeps_seq app_inv_keeps_availability)
    moreover have "arm_ota_reconnect e (d\<lparr>ap_ota_worker := None, ap_ota_cancel_event := None\<rparr>) = (Inr (), ?g)"
      using cd by (simp add: arm_ota_reconnect_def)
    ultimately show ?thesis
      by (simp add: teardown_ota_worker_def io_seq_update io_seq_run)
  qed
  show ?thesis
    unfolding on_ota_staged_def Let_def case_prod_beta
      io_seq_run [of "io_when (get_session k a \<noteq> None) (update_session k ?f)" a b, OF b(1)]
    by (rule seq_after_quiet [OF quiet_emit], rule seq_after_quiet [OF quiet_when [OF quiet_emit]],
        rule seq_after_quiet [OF quiet_emit])
      (rule last, erule same_state_trans, erule same_state_trans, assumption)
qed

section \<open>Starting an upload\<close>

definition with_upload :: "pystr \<Rightarrow> 't managed_session \<Rightarrow> ota_context \<Rightarrow> bytes \<Rightarrow> ('t, 'w) app \<Rightarrow> ('t, 'w) app" where
  "with_upload k s c p a = (put_session k (s\<lparr>ms_ota_active := True, ms_acquisition := start_ota (ms_acquisition s)\<rparr>) a)
     \<lparr>ap_ota_node_id := Some k, ap_ota_cancel_event := Some False, ap_ota_context := Some c, ap_ota_worker := Some (k, p)\<rparr>"

lemma no_owner: "ota_ok a \<Longrightarrow> ap_ota_node_id a = None \<Longrightarrow> ap_ota_worker a = None \<and> ap_ota_reconnect a = None"
  by (cases "ap_ota_worker a"; cases "ap_ota_context a"; cases "ap_ota_reconnect a") (auto simp: ota_ok_def)

lemma with_upload_inv:
  fixes a :: "('t, 'w) app"
  assumes inv: "app_inv a" and s: "get_session k a = Some s" "ms_transport_kind s = WIFI" and free: "ap_ota_node_id a = None"
    and rec: "\<not> ap_recording_active a" and c: "oc_node_id c = k" "oc_kind c = WIFI"
  shows "app_inv (with_upload k s c p a)"
proof -
  let ?s = "s\<lparr>ms_ota_active := True, ms_acquisition := start_ota (ms_acquisition s)\<rparr>"
  let ?b = "with_upload k s c p a"
  have co: "core {} a" using inv by (simp add: app_inv_def)
  have none: "ap_ota_worker a = None" "ap_ota_reconnect a = None" using no_owner [OF coreD(5) [OF co] free] by auto
  then have idle: "no_upload a" using idle_worker inv by blast
  have get: "get_session j ?b = (if j = k then Some ?s else get_session j a)" for j
    using get_put_session [of j k ?s a] by (simp add: with_upload_def get_session_def)
  have k: "k \<in> set (session_keys a)" using s(1) get_session_keys [of k a] by simp
  have keys: "session_keys ?b = session_keys a"
    using keys_put_session [OF k, of ?s] by (simp add: with_upload_def session_keys_def)
  have local: "local_ok ?s"
    using coreD(7) [OF co s(1)] by (simp add: session_ok_def local_ok_def start_ota_def conn_ok_def)
  have fields: "ap_session_index ?b = ap_session_index a" "ap_window_s ?b = ap_window_s a" "ota_ok ?b"
    "ap_recording_active ?b = ap_recording_active a" "ap_recording_batch_path ?b = ap_recording_batch_path a"
    "ap_next_token ?b = ap_next_token a" "ap_ota_worker ?b = Some (k, p)"
    using c none by (simp_all add: with_upload_def ota_ok_def)
  have old: "session_ok ?b j t" if "get_session j a = Some t" for j t
    using coreD(7) [OF co that] idle that rec by (simp add: session_ok_def fields no_upload_def)
  have new: "session_ok ?b k ?s" using coreD(7) [OF co s(1)] s(2) rec local by (simp add: session_ok_def fields)
  have "shown (ap_session_index a) k ?s" using coreD(8) [OF co s(1)] by (auto simp: shown_def node_shows_def)
  then have "core {} ?b"
    using coreD [OF co] old new s fields(3) unfolding core_def get keys fields by auto
  moreover have "flags_ok ?b"
  proof -
    have "flags_ok (put_session k ?s a)" using flags_put_session [OF _ s(1), of ?s] inv by (simp add: app_inv_def)
    then show ?thesis by (simp add: flags_ok_def with_upload_def)
  qed
  moreover have "outline_ok (outline_of ?b)"
    using inv keys by (auto simp: app_inv_def outline_ok_def outline_of_def with_upload_def split: option.splits)
  ultimately show ?thesis by (simp add: app_inv_def)
qed

text \<open>The statements of \<open>launch_ota\<close>, up to the signals.\<close>

lemma launch_ota_inv:
  fixes e :: "('t, 'w) app_env"
  assumes inv: "app_inv a" and s: "get_session k a = Some s" "ms_transport_kind s = WIFI" and free: "ap_ota_node_id a = None"
    and rec: "\<not> ap_recording_active a"
  shows "result_ok (allowed e) (\<lambda>_. app_inv) (launch_ota k package p a)"
proof -
  have c: "core {} a" using inv by (simp add: app_inv_def)
  obtain n where n: "map_of (sm_nodes (ap_session_index a)) k = Some n"
    using coreD(8) [OF c s(1)] by (auto simp: shown_def)
  let ?c = "\<lparr>oc_node_id = k, oc_kind = ms_transport_kind s, oc_device_uuid = ns_device_uuid n,
           oc_device_id = ms_peer s, oc_version = version_text p, oc_crc = crc_text p\<rparr>"
  let ?s1 = "s\<lparr>ms_ota_active := True\<rparr>"
  let ?u = "\<lambda>a :: ('t, 'w) app. a\<lparr>ap_ota_node_id := Some k, ap_ota_cancel_event := Some False, ap_ota_context := Some ?c\<rparr>"
  let ?a1 = "put_session k ?s1 a"
  let ?b = "with_upload k s ?c (op_data p) a"
  let ?rest = "[emit (OtaState k ''STARTED'' (Composed (START_TEXT @ package_label package p))), emit_ota_availability]"
  have one: "update_session k (\<lambda>s. s\<lparr>ms_ota_active := True\<rparr>) a = (Inr (), ?a1)"
    unfolding update_session_def by (rule run_on_session [OF s(1)]) (simp add: io_update_def)
  have g: "get_session k (?u ?a1) = Some ?s1"
    using get_put_session [of k k ?s1 a] by (simp add: get_session_def)
  have two: "acquisition_update k start_ota (?u ?a1) = (Inr (), put_session k (?s1\<lparr>ms_acquisition := start_ota (ms_acquisition s)\<rparr>) (?u ?a1))"
    unfolding acquisition_update_def acquisition_def
    by (rule run_on_session [OF g]) (simp add: on_acquisition_def io_update_def)
  have three: "(put_session k (?s1\<lparr>ms_acquisition := start_ota (ms_acquisition s)\<rparr>) (?u ?a1))\<lparr>ap_ota_worker := Some (k, op_data p)\<rparr> = ?b"
    by (cases a) (simp add: with_upload_def put_session_def)
  have "launch_ota k package p a = io_seq ?rest ?b"
    unfolding three [symmetric]
    using n s(1) put_session_same [OF s(1)] run_on_session [OF s(1), of "io_get (\<lambda>s. s)" "Inr s" s]
      io_seq_run [of "update_session k (\<lambda>s. s\<lparr>ms_ota_active := True\<rparr>)" a ?a1, OF one]
      io_seq_run [of "acquisition_update k start_ota" "?u ?a1", OF two]
    by (simp add: launch_ota_def io_bind_def summary_of_def session_summary_def require_node_def the_session_def
        io_get_def io_seq_update put_session_def)
  moreover have "app_inv ?b" by (rule with_upload_inv [OF inv s free rec]) (simp_all add: s(2))
  then have "result_ok (allowed e) (\<lambda>_. app_inv) (io_seq ?rest ?b)"
    by (rule keepsD [rotated]) (intro keeps_seq app_inv_keeps_common app_inv_keeps_availability)
  ultimately show ?thesis by simp
qed

lemma session_control_run:
  assumes "get_session k a = Some s"
  shows "session_control e k a = (control_of e s, a)"
  using assms run_on_session [OF assms, of "\<lambda>s. (control_of e s, s)" "control_of e s" s] put_session_same [OF assms]
  by (simp add: session_control_def)

text \<open>What loading a package raises: its own error, or what reading the file raised.\<close>

lemma load_package_error: "load_package path = Inl x \<Longrightarrow> (\<exists>m. x = OtaPackageError m) \<or> pf_read path = Inl x"
  by (auto simp: load_package_def validate_package_def parse_manifest_def Let_def rbind_Inl_iff
      split: if_splits sum.splits exn.splits)

definition readable :: "ota_package + path_file \<Rightarrow> bool" where
  "readable package \<longleftrightarrow> (case package of Inl _ \<Rightarrow> True
     | Inr path \<Rightarrow> (case pf_read path of Inl x \<Rightarrow> is_os_error x | Inr _ \<Rightarrow> True))"

lemma chosen_package_error:
  assumes "readable package" and "chosen_package package = Inl x"
  shows "case x of OtaPackageError _ \<Rightarrow> True | _ \<Rightarrow> is_os_error x"
  using assms load_package_error
  by (auto simp: readable_def chosen_package_def split: sum.splits) (fastforce split: exn.splits)+

lemma start_ota_inv:
  fixes e :: "('t, 'w) app_env"
  assumes r: "readable package"
  shows "keeps (allowed e) app_inv (start_ota_for e k package)"
proof (rule keepsI)
  fix a :: "('t, 'w) app" assume inv: "app_inv a"
  let ?E = "allowed e"
  note err = keepsD [OF app_inv_keeps_common(1) inv]
  have "keeps ?E app_inv (io_seq [emit x, emit y])" for x y
    by (intro keeps_seq app_inv_keeps_common)
  note two = keepsD [OF this inv]
  show "result_ok ?E (\<lambda>_. app_inv) (start_ota_for e k package a)"
  proof (cases "get_session k a")
    case None
    then show ?thesis using err by (simp add: start_ota_for_def with_session_def)
  next
    case (Some s)
    show ?thesis
    proof (cases "ms_transport_kind s = WIFI \<and> ap_ota_node_id a = None \<and> \<not> ms_exporting s \<and> \<not> ap_recording_active a")
      case False
      then show ?thesis using Some err two by (auto simp: start_ota_for_def with_session_def)
    next
      case True
      have launch: "result_ok ?E (\<lambda>_. app_inv) (io_seq [io_when b (emit x), launch_ota k package p] a)" for b x p
      proof (rule seq_after_quiet [OF quiet_when [OF quiet_emit]])
        fix d assume d: "same_state a d"
        have "app_inv d" by (rule same_state_app_inv [OF d inv])
        moreover have "get_session k d = Some s" "ap_ota_node_id d = None" "\<not> ap_recording_active d"
          using d True Some by (simp_all add: same_state_def get_session_def)
        ultimately show "result_ok ?E (\<lambda>_. app_inv) (io_seq [launch_ota k package p] d)"
          using launch_ota_inv True by (intro seq_one) blast
      qed
      have res: "result_ok ?E (\<lambda>_. app_inv) ((case chosen_package package of
             Inl x \<Rightarrow>
               if (case x of OtaPackageError _ \<Rightarrow> True | _ \<Rightarrow> is_os_error x)
               then io_seq [emit (OtaState k ''PACKAGE_REJECTED'' (TextOf x)), report_exn x]
               else io_raise x
           | Inr p \<Rightarrow> io_seq [io_when b (emit y), launch_ota k package p]) a)" for b y
      proof (cases "chosen_package package")
        case (Inl x)
        then show ?thesis using two chosen_package_error [OF r Inl] by (simp add: report_exn_def)
      qed (use launch in simp)
      show ?thesis
      proof (cases "control_of e s")
        case (Inl x)
        then show ?thesis using True Some control_error [OF Inl]
          by (simp add: start_ota_for_def with_session_def io_bind_def session_control_run [OF Some] allowed_def)
      next
        case (Inr st)
        then have eq: "start_ota_for e k package a = (case st of
             None \<Rightarrow> raise_error ''refresh device status before starting OTA''
           | Some c \<Rightarrow>
               if \<not> cs_true (c ''sd_ready'') \<or> cs_true (c ''sd_format_required'')
               then raise_error ''device SD must be READY and not require format before OTA''
               else case chosen_package package of
                 Inl x \<Rightarrow>
                   if (case x of OtaPackageError _ \<Rightarrow> True | _ \<Rightarrow> is_os_error x)
                   then io_seq [emit (OtaState k ''PACKAGE_REJECTED'' (TextOf x)), report_exn x]
                   else io_raise x
               | Inr p \<Rightarrow> io_seq
                   [io_when (c ''acquisition_state'' = VStr (lit ''ACQUIRE''))
                      (emit (OtaState k ''STOPPING_ACQUISITION'' (Composed STOPPING_TEXT))),
                    launch_ota k package p]) a"
          using True Some
          by (cases st) (simp_all add: start_ota_for_def with_session_def io_bind_def session_control_run [OF Some])
        show ?thesis unfolding eq using err res by (cases st) simp_all
      qed
    qed
  qed
qed

section \<open>The wait for the device\<close>

lemma finish_ota_reconnect_inv:
  fixes e :: "('t, 'w) app_env"
  assumes inv: "app_inv a" and r: "ap_ota_reconnect a \<noteq> None"
  shows "result_ok (allowed e) (\<lambda>_. app_inv) (finish_ota_reconnect status detail a)"
proof -
  let ?b = "a\<lparr>ap_ota_reconnect_timer := False, ap_ota_reconnect := None, ap_ota_context := None, ap_ota_node_id := None\<rparr>"
  have w: "ap_ota_worker a = None" using app_inv_ota [OF inv] r by (auto simp: ota_ok_def)
  have b: "app_inv ?b"
    by (rule ota_change_inv [OF inv idle_worker [OF inv w]]) (simp_all add: same_but_ota_def ota_ok_def w)
  have "keeps (allowed e) app_inv (io_seq [emit x, io_when c (emit y), emit_ota_availability])" for x c y
    by (intro keeps_seq keeps_when app_inv_keeps_common app_inv_keeps_availability)
  from keepsD [OF this b] show ?thesis
    by (simp add: finish_ota_reconnect_def Let_def clear_ota_context_def io_seq_update)
qed

lemma triple_poll_sessions:
  fixes e :: "('t, 'w) app_env"
  assumes ok: "outline_ok o'" and r: "ol_reconnect o' \<noteq> None"
  shows "set ks \<subseteq> set (ol_keys o') \<Longrightarrow>
    triple (allowed e) (ginv True {} o') (poll_sessions e u ks) (\<lambda>_. app_inv)"
proof (induction ks)
  case Nil
  then show ?case using app_invI ok by (auto simp: triple_def io_return_def)
next
  case (Cons k ks)
  have k: "k \<in> set (ol_keys o')" using Cons.prems by simp
  have IH: "triple (allowed e) (ginv True {} o') (poll_sessions e u ks) (\<lambda>_. app_inv)" using Cons by simp
  have fin: "triple (allowed e) (ginv True {} o') (finish_ota_reconnect st d) (\<lambda>_. app_inv)" for st d
  proof (rule tripleI)
    fix a :: "('t, 'w) app" assume i: "ginv True {} o' a"
    have "ap_ota_reconnect a \<noteq> None" using i r by (auto simp: ginv_def outline_of_def)
    then show "result_ok (allowed e) (\<lambda>_. app_inv) (finish_ota_reconnect st d a)"
      using finish_ota_reconnect_inv [OF app_invI [OF i ok]] by blast
  qed
  have state: "triple (allowed e) (ginv True {} o') (case st of
        None \<Rightarrow> poll_sessions e u ks
      | Some c \<Rightarrow>
          if c ''ota_state'' \<in> {VNone, VStr (lit ''OFF'')}
          then finish_ota_reconnect ''RECONNECTED'' RECONNECTED_TEXT
          else poll_sessions e u ks) (\<lambda>_. app_inv)" for st
    using IH fin by (cases st) simp_all
  show ?case
    unfolding poll_sessions.simps
    by (intro triple_bind [OF keeps_triple [OF keeps_summary_of [OF k]]] triple_if IH
        triple_bind [OF keeps_triple [OF keeps_commands(3) [OF k]]]
        triple_bind [OF keeps_triple [OF keeps_session_control [OF k tolerant_allowed]]] state) simp
qed

lemma poll_ota_reconnect_inv:
  fixes e :: "('t, 'w) app_env"
  shows "keeps (allowed e) app_inv (poll_ota_reconnect e)"
proof (rule keepsI)
  fix a :: "('t, 'w) app" assume inv: "app_inv a"
  then have i: "ginv True {} (outline_of a) a" "outline_ok (outline_of a)" unfolding app_inv_ginv by blast+
  show "result_ok (allowed e) (\<lambda>_. app_inv) (poll_ota_reconnect e a)"
  proof (cases "ap_ota_reconnect a")
    case None
    have "same_state a (a\<lparr>ap_ota_reconnect_timer := False\<rparr>)" by (simp add: same_state_def)
    then have "app_inv (a\<lparr>ap_ota_reconnect_timer := False\<rparr>)" using same_state_app_inv inv by blast
    then show ?thesis using None by (simp add: poll_ota_reconnect_def)
  next
    case (Some info)
    then have "or_kind info = WIFI" using app_inv_ota [OF inv] by (auto simp: ota_ok_def)
    then have "poll_ota_reconnect e a = (if or_deadline_s info < ae_now e
        then finish_ota_reconnect ''RECONNECT_TIMEOUT'' TIMEOUT_TEXT a
        else io_seq [\<lambda>a. poll_sessions e (or_device_uuid info) (session_keys a) a] a)"
      using Some by (simp add: poll_ota_reconnect_def io_seq.simps io_bind_def io_when_def io_return_def)
    moreover have "triple (allowed e) (ginv True {} (outline_of a)) (poll_sessions e u (session_keys a)) (\<lambda>_. app_inv)" for u
      by (rule triple_poll_sessions [OF i(2)]) (simp_all add: outline_of_def Some)
    from tripleD [OF this i(1)]
    have "result_ok (allowed e) (\<lambda>_. app_inv) (io_seq [\<lambda>a. poll_sessions e u (session_keys a) a] a)" for u
      by (rule seq_one)
    ultimately show ?thesis using finish_ota_reconnect_inv [OF inv] Some by simp
  qed
qed

lemma cancel_ota_inv:
  fixes e :: "('t, 'w) app_env"
  shows "keeps (allowed e) app_inv (cancel_ota_for k)"
proof (rule keepsI)
  fix a :: "('t, 'w) app" assume "app_inv a"
  then show "result_ok (allowed e) (\<lambda>_. app_inv) (cancel_ota_for k a)"
    using same_state_app_inv [of a "a\<lparr>ap_ota_cancel_event := map_option (\<lambda>_. True) (ap_ota_cancel_event a)\<rparr>"]
    by (simp add: cancel_ota_for_def same_state_def)
qed

end
