(* ===== verification/AppSystem.thy ===== *)
theory AppSystem
  imports AppOtaInv
begin

text \<open>
  The application as a whole: the slots of \<^verbatim>\<open>AppController\<close> as one datatype with one interpreter, and the steps of
  a run, which interleave the slots of the GUI thread with the turns of the connections' workers, the writer
  threads of the recorders, the upload thread and the accept thread. In every reachable state the sessions, the
  inventory, the recorders and the update fit together, and no slot raises while the environment behaves.
\<close>

section \<open>Slots\<close>

datatype 't slot =
    SelectNode pystr | SetDisplayPaused bool | ClearDisplaySamples | SetWindowSeconds float64
  | SetNodeAlias pystr pystr | RemoveOfflineNode pystr
  | StartWifiServer wifi_config | StopWifiServer | AcceptClient nat pystr pystr 't | AcceptFailure pystr
  | ConnectDevice pystr | DisconnectDevice
  | SendCommand pystr | SendCommandTo pystr pystr
  | StartSelected | StartFor pystr | StopSelected | StopFor pystr
  | SetSelectedWatermark int | SetWatermarkFor pystr int
  | SetSelectedLivestream pystr | SetLivestreamFor pystr pystr | RequestSelectedLivestream | RequestStatusAll
  | SetRecording bool "pystr option"
  | StartExport pystr | CancelExport pystr | ClearSd pystr
  | StartOta pystr "ota_package + path_file" | CancelOta pystr | OtaProgressed pystr nat nat pystr | OtaEnded ota_worker_signal
  | WorkerFailure nat pystr pystr | ThreadFinished nat pystr
  | PublishTimer | StatusTimer | OtaTimer

text \<open>
  The end of an upload is delivered while its worker is the current one; the callbacks of a connection's worker
  while its session is the one in the dictionary.
\<close>

definition on_ota_ended :: "('t, 'w) app_env \<Rightarrow> ota_worker_signal \<Rightarrow> ('t, 'w, unit) app_io" where
  "on_ota_ended e sig a =
     (case ap_ota_worker a of None \<Rightarrow> (Inr (), a) | Some (k, package) \<Rightarrow> on_ota_signal e k sig a)"

fun run_slot :: "('t, 'w) app_env \<Rightarrow> 't slot \<Rightarrow> ('t, 'w, unit) app_io" where
  "run_slot e (SelectNode k) = select_node e k"
| "run_slot e (SetDisplayPaused b) = set_display_paused b"
| "run_slot e ClearDisplaySamples = clear_display_samples"
| "run_slot e (SetWindowSeconds s) = set_window_seconds s"
| "run_slot e (SetNodeAlias k t) = set_node_alias k t"
| "run_slot e (RemoveOfflineNode k) = remove_offline_node k"
| "run_slot e (StartWifiServer c) = start_wifi_server e c"
| "run_slot e StopWifiServer = stop_wifi_server e"
| "run_slot e (AcceptClient source i peer t) = accept_gateway_envelope e source i peer t"
| "run_slot e (AcceptFailure m) = emit (ErrorRaised (Composed m))"
| "run_slot e (ConnectDevice d) = connect_device e d"
| "run_slot e DisconnectDevice = disconnect_device e"
| "run_slot e (SendCommand t) = send_command e t"
| "run_slot e (SendCommandTo k t) = send_command_to e k t"
| "run_slot e StartSelected = start_selected_acquisition"
| "run_slot e (StartFor k) = start_acquisition_for k"
| "run_slot e StopSelected = stop_selected_acquisition"
| "run_slot e (StopFor k) = stop_acquisition_for k"
| "run_slot e (SetSelectedWatermark n) = set_selected_watermark n"
| "run_slot e (SetWatermarkFor k n) = set_watermark_for k n"
| "run_slot e (SetSelectedLivestream t) = set_selected_livestream t"
| "run_slot e (SetLivestreamFor k t) = set_livestream_for k t"
| "run_slot e RequestSelectedLivestream = request_selected_livestream"
| "run_slot e RequestStatusAll = request_status_all"
| "run_slot e (SetRecording b p) = set_session_recording e b p"
| "run_slot e (StartExport k) = start_export_for e k"
| "run_slot e (CancelExport k) = cancel_export_for k"
| "run_slot e (ClearSd k) = clear_sd_for e k"
| "run_slot e (StartOta k p) = start_ota_for e k p"
| "run_slot e (CancelOta k) = cancel_ota_for k"
| "run_slot e (OtaProgressed k sent_bytes total_bytes phase) =
     on_ota_progress k sent_bytes total_bytes phase"
| "run_slot e (OtaEnded sig) = on_ota_ended e sig"
| "run_slot e (WorkerFailure token k m) = for_live_session token k (on_worker_failed k m)"
| "run_slot e (ThreadFinished token k) = for_live_session token k (on_thread_finished e k)"
| "run_slot e PublishTimer = publish_snapshots e"
| "run_slot e StatusTimer = request_status_idle"
| "run_slot e OtaTimer = poll_ota_reconnect e"

text \<open>A package file that cannot be read fails with an \<^verbatim>\<open>OSError\<close>.\<close>

definition slot_ok :: "'t slot \<Rightarrow> bool" where
  "slot_ok s \<longleftrightarrow> (case s of StartOta k package \<Rightarrow> readable package | _ \<Rightarrow> True)"

section \<open>Steps\<close>

text \<open>
  A step of the worker of a session is a turn of its loop; a recorder's writer works on the recorder the session
  holds; an exception that leaves a slot ends the program, so only slots that return are steps.
\<close>

inductive app_step :: "('t, 'w) app \<Rightarrow> ('t, 'w) app \<Rightarrow> bool" where
  slot: "slot_ok s \<Longrightarrow> run_slot e s a = (Inr (), b) \<Longrightarrow> app_step a b"
| turn: "get_session k a = Some s \<Longrightarrow> run_turn np tp now (ms_acquisition s, ms_transport s) = (r, c, t) \<Longrightarrow>
    app_step a (put_session k (s\<lparr>ms_acquisition := c, ms_transport := t\<rparr>) a)"
| live_writer: "get_session k a = Some s \<Longrightarrow> ac_recorder (ms_acquisition s) = Some r \<Longrightarrow> writer_step io r = Some r' \<Longrightarrow>
    app_step a (put_session k (s\<lparr>ms_acquisition := (ms_acquisition s)\<lparr>ac_recorder := Some r'\<rparr>\<rparr>) a)"
| archive_writer: "get_session k a = Some s \<Longrightarrow> archive_recorder s = Some r \<Longrightarrow> writer_step io r = Some r' \<Longrightarrow>
    app_step a (put_session k (put_archive_recorder r' s) a)"
| upload_send: "get_session k a = Some s \<Longrightarrow>
    app_step a (put_session k (s\<lparr>ms_acquisition := send_ota_frame data (ms_acquisition s)\<rparr>) a)"
| upload_reply: "get_session k a = Some s \<Longrightarrow>
    app_step a (put_session k (s\<lparr>ms_acquisition := snd (next_ota_reply (ms_acquisition s))\<rparr>) a)"
| accepting: "ap_gateway_listener a = Some (i, g) \<Longrightarrow> listener_accept lib closing t g = (r, g') \<Longrightarrow>
    app_step a (a\<lparr>ap_gateway_listener := Some (i, g')\<rparr>)"
| accept_ends: "app_step a (a\<lparr>ap_accept_thread := map_option (\<lambda>_. False) (ap_accept_thread a)\<rparr>)"

inductive app_reach :: "('t, 'w) app \<Rightarrow> ('t, 'w) app \<Rightarrow> bool" where
  refl: "app_reach a a"
| step: "app_reach a b \<Longrightarrow> app_step b c \<Longrightarrow> app_reach a c"

section \<open>The invariant of the slots\<close>

lemma for_live_inv:
  fixes e :: "('t, 'w) app_env"
  assumes "keeps (allowed e) app_inv m"
  shows "keeps (allowed e) app_inv (for_live_session token k m)"
  by (rule keepsI) (auto simp: for_live_session_def intro: keepsD [OF assms] split: option.splits)

lemma on_ota_ended_inv:
  fixes e :: "('t, 'w) app_env"
  shows "keeps (allowed e) app_inv (on_ota_ended e sig)"
proof (rule keepsI)
  fix a :: "('t, 'w) app" assume inv: "app_inv a"
  show "result_ok (allowed e) (\<lambda>_. app_inv) (on_ota_ended e sig a)"
  proof (cases "ap_ota_worker a")
    case (Some kp)
    then obtain k p where "ap_ota_worker a = Some (k, p)" by (cases kp) simp
    then show ?thesis
      using on_ota_staged_inv [OF inv] on_ota_failed_inv [OF inv] on_ota_cancelled_inv [OF inv]
      by (simp add: on_ota_ended_def on_ota_signal_def split: ota_worker_signal.split)
  qed (use inv in \<open>simp add: on_ota_ended_def\<close>)
qed

lemma recording_slot_inv:
  fixes e :: "('t, 'w) app_env"
  shows "keeps (allowed e) app_inv (set_session_recording e b p)"
  using start_recording_inv stop_recording_inv by (cases b) (auto intro!: keepsI)

lemma selected_inv:
  fixes e :: "('t, 'w) app_env"
  assumes "\<And>k o'. keeps (allowed e) (ginv True {} o' :: ('t, 'w) app \<Rightarrow> bool) (f k)"
    and "\<And>o'. keeps (allowed e) (ginv True {} o' :: ('t, 'w) app \<Rightarrow> bool) m"
  shows "keeps (allowed e) app_inv (for_selected m f)"
  by (rule inv_outline) (rule keeps_for_selected [OF assms(2) assms(1)])

text \<open>One lemma per group of slots, so that each proof stays small.\<close>

lemma outline_slots_inv:
  fixes e :: "('t, 'w) app_env"
  shows "keeps (allowed e) app_inv (set_display_paused b)"
    "keeps (allowed e) app_inv clear_display_samples" "keeps (allowed e) app_inv (set_window_seconds x)"
    "keeps (allowed e) app_inv (set_node_alias k t)" "keeps (allowed e) app_inv (remove_offline_node k)"
    "keeps (allowed e) app_inv (start_wifi_server e c)" "keeps (allowed e) app_inv request_status_all"
    "keeps (allowed e) app_inv request_status_idle" "keeps (allowed e) app_inv (publish_snapshots e)"
    "keeps (allowed e) app_inv (on_worker_failed k t)" "keeps (allowed e) app_inv request_selected_livestream"
  unfolding set_display_paused_def
  by (intro inv_outline keeps_same_update keeps_clear_display_samples keeps_set_window_seconds
      keeps_set_node_alias keeps_remove_offline_node keeps_start_wifi_server keeps_request_status_all
      keeps_request_status_idle keeps_publish_snapshots keeps_on_worker_failed keeps_request_selected_livestream
      tolerant_allowed; simp add: same_state_def)+

lemma command_slots_inv:
  fixes e :: "('t, 'w) app_env"
  shows "keeps (allowed e) app_inv (send_command_to e k t)" "keeps (allowed e) app_inv (start_acquisition_for k)"
    "keeps (allowed e) app_inv (stop_acquisition_for k)" "keeps (allowed e) app_inv (set_watermark_for k n)"
    "keeps (allowed e) app_inv (set_livestream_for k t)" "keeps (allowed e) app_inv (start_export_for e k)"
    "keeps (allowed e) app_inv (cancel_export_for k)" "keeps (allowed e) app_inv (clear_sd_for e k)"
  by (intro inv_outline keeps_send_command_to keeps_start_acquisition_for keeps_stop_acquisition_for
      keeps_set_watermark_for keeps_set_livestream_for keeps_start_export_for keeps_cancel_export_for
      keeps_clear_sd_for tolerant_allowed)+

lemma selected_slots_inv:
  fixes e :: "('t, 'w) app_env"
  shows "keeps (allowed e) app_inv (send_command e t)" "keeps (allowed e) app_inv start_selected_acquisition"
    "keeps (allowed e) app_inv stop_selected_acquisition" "keeps (allowed e) app_inv (set_selected_watermark n)"
    "keeps (allowed e) app_inv (set_selected_livestream t)"
  unfolding send_command_def start_selected_acquisition_def stop_selected_acquisition_def
    set_selected_watermark_def set_selected_livestream_def
  by (intro selected_inv keeps_send_command_to keeps_start_acquisition_for keeps_stop_acquisition_for
      keeps_set_watermark_for keeps_set_livestream_for tolerant_allowed keeps_raise_error keeps_return)+

lemmas slots_inv = outline_slots_inv command_slots_inv selected_slots_inv select_node_inv recording_slot_inv
  stop_wifi_server_inv accept_gateway_envelope_inv app_inv_keeps_common(3) connect_device_inv disconnect_device_inv
  cancel_ota_inv on_ota_ended_inv poll_ota_reconnect_inv
  for_live_inv [OF outline_slots_inv(10)] for_live_inv [OF on_thread_finished_inv]

theorem run_slot_inv:
  fixes e :: "('t, 'w) app_env"
  assumes "slot_ok s"
  shows "keeps (allowed e) app_inv (run_slot e s)"
proof (cases s)
  case (StartOta k package)
  then show ?thesis using assms start_ota_inv by (simp add: slot_ok_def)
qed (simp_all add: slots_inv on_ota_progress_def)

section \<open>The invariant of the steps\<close>

lemma put_session_app_inv:
  assumes inv: "app_inv a" and s: "get_session k a = Some s" and st: "local_ok s \<Longrightarrow> session_step s s'"
  shows "app_inv (put_session k s' a)"
proof -
  have i: "ginv True {} (outline_of a) a" "outline_ok (outline_of a)" using inv unfolding app_inv_ginv by blast+
  show ?thesis by (rule app_invI [OF inv_put_session [OF i(1) s st [OF inv_local [OF i(1) s]]] i(2)])
qed

lemma turn_step:
  assumes "local_ok s" and "run_turn np tp now (ms_acquisition s, ms_transport s) = (r, c, t)"
  shows "session_step s (s\<lparr>ms_acquisition := c, ms_transport := t\<rparr>)"
proof -
  have "conn_ok (ms_acquisition s)" using assms(1) by (simp add: local_ok_def)
  then have "conn_step (ms_acquisition s) c" by (rule run_turn_conn [OF assms(2)])
  then have "session_step s (s\<lparr>ms_acquisition := c\<rparr>)" by (rule acquisition_session_step [OF assms(1)])
  moreover have "session_step (s\<lparr>ms_acquisition := c\<rparr>) (s\<lparr>ms_acquisition := c, ms_transport := t\<rparr>)"
    by (simp add: session_step_def local_ok_def)
  ultimately show ?thesis by (rule session_step_trans)
qed

lemma live_writer_step:
  assumes "local_ok s" and "ac_recorder (ms_acquisition s) = Some r" and "writer_step io r = Some r'"
  shows "session_step s (s\<lparr>ms_acquisition := (ms_acquisition s)\<lparr>ac_recorder := Some r'\<rparr>\<rparr>)"
proof -
  have "rc_is_active r'" using writer_step_active [OF assms(3)] assms(1,2) by (simp add: local_ok_def conn_ok_def)
  then have "conn_step (ms_acquisition s) ((ms_acquisition s)\<lparr>ac_recorder := Some r'\<rparr>)"
    using assms(2) by (simp add: conn_step_def conn_ok_def)
  then show ?thesis by (rule acquisition_session_step [OF assms(1)])
qed

lemma archive_writer_step:
  assumes "local_ok s" and "archive_recorder s = Some r" and "writer_step io r = Some r'"
  shows "session_step s (put_archive_recorder r' s)"
  by (rule put_archive_step) (use writer_step_active [OF assms(3)] archive_recorder_active [OF assms(1,2)] assms(2) in simp_all)

lemma upload_step:
  assumes "local_ok s" and "same_core (ms_acquisition s) c"
  shows "session_step s (s\<lparr>ms_acquisition := c\<rparr>)"
  using acquisition_session_step [OF assms(1)] same_core_step [OF assms(2)] by blast

lemma app_step_inv: "app_step a b \<Longrightarrow> app_inv a \<Longrightarrow> app_inv b"
proof (induction rule: app_step.induct)
  case (slot s e a b)
  then show ?case using keepsD [OF run_slot_inv [OF slot(1)] slot(3), of e] by simp
next
  case (turn k a s np tp now r c t)
  show ?case by (rule put_session_app_inv [OF turn(3,1)]) (rule turn_step [OF _ turn(2)])
next
  case (live_writer k a s r io r')
  show ?case by (rule put_session_app_inv [OF live_writer(4,1)]) (rule live_writer_step [OF _ live_writer(2,3)])
next
  case (archive_writer k a s r io r')
  show ?case by (rule put_session_app_inv [OF archive_writer(4,1)]) (rule archive_writer_step [OF _ archive_writer(2,3)])
next
  case (upload_send k a s data)
  have "same_core c (send_ota_frame data c)" for c by (simp add: same_core_def send_ota_frame_def)
  then show ?case by (intro put_session_app_inv [OF upload_send(2,1)] upload_step)
next
  case (upload_reply k a s)
  have "same_core c (snd (next_ota_reply c))" for c by (simp add: same_core_def next_ota_reply_def split: list.split)
  then show ?case by (intro put_session_app_inv [OF upload_reply(2,1)] upload_step)
next
  case (accepting a i g lib closing t r g')
  show ?case by (rule same_state_app_inv [OF _ accepting(3)]) (simp add: same_state_def)
next
  case (accept_ends a)
  show ?case by (rule same_state_app_inv [OF _ accept_ends]) (simp add: same_state_def)
qed

lemma init_app_inv: "AppController_init aliases = Inr a \<Longrightarrow> app_inv a"
  by (auto simp: AppController_init_def rbind_Inr_iff NodeSessionManager_init_def MAXIMUM_WIFI_SESSIONS_def
      app_inv_def core_def sm_inv_def active_count_def one_node_per_device_def session_keys_def get_session_def
      online_def ota_ok_def flags_ok_def outline_ok_def outline_of_def split: if_splits)

lemma app_reach_inv: "app_reach a b \<Longrightarrow> app_inv a \<Longrightarrow> app_inv b"
  by (induction rule: app_reach.induct) (auto intro: app_step_inv)

lemma init_reach_inv: "AppController_init aliases = Inr a0 \<Longrightarrow> app_reach a0 a \<Longrightarrow> app_inv a"
  using app_reach_inv init_app_inv by blast

text \<open>No more sessions than nodes the inventory allows.\<close>

lemma session_count:
  assumes "core {} a"
  shows "length (ap_sessions a) \<le> 16"
proof -
  let ?m = "ap_session_index a"
  let ?on = "filter (\<lambda>(k, n). ns_connection_state n = CONNECTED) (sm_nodes ?m)"
  have "set (session_keys a) \<subseteq> set (map fst ?on)"
  proof
    fix k assume "k \<in> set (session_keys a)"
    then obtain s where "get_session k a = Some s" using get_session_keys [of k a] by blast
    then have "shown ?m k s" using coreD(8) [OF assms] by blast
    then obtain n where "map_of (sm_nodes ?m) k = Some n" "ns_connection_state n = CONNECTED"
      by (auto simp: shown_def node_shows_def)
    then show "k \<in> set (map fst ?on)" using map_of_SomeD [of "sm_nodes ?m" k n] by force
  qed
  then have "card (set (session_keys a)) \<le> card (set (map fst ?on))" by (intro card_mono) auto
  also have "\<dots> \<le> length ?on" using card_length [of "map fst ?on"] by simp
  also have "\<dots> \<le> 16" using coreD(1,2) [OF assms] by (simp add: sm_inv_def active_count_def)
  finally have "card (set (session_keys a)) \<le> 16" .
  then show ?thesis using distinct_card [OF coreD(3) [OF assms]] by (simp add: session_keys_def)
qed

text \<open>What holds of the session \<open>s\<close> of the node \<open>k\<close>.\<close>

definition session_fits :: "('t, 'w) app \<Rightarrow> pystr \<Rightarrow> 't managed_session \<Rightarrow> bool" where
  "session_fits a k s \<longleftrightarrow>
     (case map_of (sm_nodes (ap_session_index a)) k of None \<Rightarrow> False
      | Some n \<Rightarrow> ns_transport_kind n = ms_transport_kind s \<and> ns_peer n = ms_peer s \<and> ns_is_recording n = ms_recording s) \<and>
     (case ac_recorder (ms_acquisition s) of None \<Rightarrow> \<not> ms_recording s
      | Some r \<Rightarrow> ms_recording s \<and> rc_is_active r \<and> ap_recording_active a) \<and>
     (ms_transport_kind s = CDC \<longrightarrow> session_keys a = [k]) \<and>
     (ms_ota_active s \<longrightarrow> ms_transport_kind s = WIFI \<and> ap_ota_node_id a = Some k \<and> \<not> ap_recording_active a)"

lemma ota_owner: "ota_ok a \<Longrightarrow> ap_ota_worker a = Some (k, p) \<Longrightarrow> ap_ota_node_id a = Some k"
  unfolding ota_ok_def by blast

lemma app_inv_fits:
  assumes inv: "app_inv a" and s: "(k, s) \<in> set (ap_sessions a)"
  shows "session_fits a k s"
proof -
  have c: "core {} a" using inv by (simp add: app_inv_def)
  have g: "get_session k a = Some s" using coreD(3) [OF c] s by (simp add: get_session_def session_keys_def)
  obtain n where n: "map_of (sm_nodes (ap_session_index a)) k = Some n" "node_shows s n"
    using coreD(8) [OF c g] by (auto simp: shown_def)
  have ok: "session_ok a k s" using coreD(7) [OF c g] .
  have "ms_recording s \<Longrightarrow> ap_recording_active a" using inv s by (auto simp: app_inv_def flags_ok_def list_all_iff)
  moreover have "ms_ota_active s \<Longrightarrow> ap_ota_node_id a = Some k"
    using ok coreD(5) [OF c] by (auto simp: session_ok_def dest: ota_owner)
  ultimately show ?thesis
    using n ok coreD(9) [OF c g]
    by (auto simp: session_fits_def node_shows_def session_ok_def local_ok_def conn_ok_def split: option.splits)
qed

section \<open>Properties\<close>

text \<open>
  C6. In every reachable state of the application the sessions are exactly the connected nodes of the inventory,
  at most sixteen; the periodic timers run exactly while there is a session, and then one of them is selected; and
  each session fits its node: a recorder is attached, active and marked in the inventory exactly while the session
  records, which only happens during a recording; a CDC session is alone; a session that uploads firmware is a
  Wi-Fi session, the only owner of the update, and nothing records then.
\<close>

theorem application_invariant:
  assumes "AppController_init aliases = Inr a0" and "app_reach a0 a"
  shows "distinct (session_keys a) \<and> set (session_keys a) = {k. online (ap_session_index a) k} \<and>
    length (ap_sessions a) \<le> 16 \<and> ap_timer a = (ap_sessions a \<noteq> []) \<and> ap_status_timer a = (ap_sessions a \<noteq> []) \<and>
    (ap_sessions a \<noteq> []) = (selected_session a \<noteq> None) \<and>
    list_all (\<lambda>(k, s). session_fits a k s) (ap_sessions a)"
proof -
  have inv: "app_inv a" by (rule init_reach_inv [OF assms])
  then have c: "core {} a" by (simp add: app_inv_def)
  have "k \<in> set (session_keys a) \<longleftrightarrow> online (ap_session_index a) k" for k
  proof
    assume "k \<in> set (session_keys a)"
    then obtain s where "get_session k a = Some s" using get_session_keys [of k a] by blast
    then show "online (ap_session_index a) k" using coreD(8) [OF c] by (fastforce simp: shown_def online_def node_shows_def)
  next
    assume "online (ap_session_index a) k"
    then show "k \<in> set (session_keys a)" using coreD(10) [OF c] get_session_keys [of k a] by blast
  qed
  moreover have "(ap_sessions a \<noteq> []) = (selected_session a \<noteq> None)"
    using inv get_session_keys [of _ a]
    by (auto simp: app_inv_def outline_ok_def outline_of_def selected_session_def session_keys_def split: option.splits)
  moreover have "list_all (\<lambda>(k, s). session_fits a k s) (ap_sessions a)"
    using app_inv_fits [OF inv] by (auto simp: list_all_iff)
  ultimately show ?thesis
    using inv session_count [OF c] coreD(3) [OF c]
    by (auto simp: app_inv_def outline_ok_def outline_of_def session_keys_def)
qed

definition sample_app_env :: "(bytes list, (bytes \<times> pystr \<times> int) list) app_env" where
  "sample_app_env =
     \<lparr>ae_np = np_ref, ae_set_order = sorted_list_of_set, ae_now = 0, ae_utc = [], ae_stamp = [], ae_data_root = [],
      ae_opened = (\<lambda>_. Inr ()), ae_writes = (\<lambda>_. []), ae_metadata_written = (\<lambda>_. Inr ()), ae_thread_stops = (\<lambda>_. True),
      ae_accept_stops = True, ae_sockets = sample_sockets, ae_new_listener = sample_listener,
      ae_transport = sample_transport, ae_transport_open = (\<lambda>d t. (Inr (), t)), ae_transport_factory = []\<rparr>"

lemma sample_env_ok: "env_ok sample_app_env"
  by (simp add: env_ok_def sample_app_env_def sample_transport_def sample_sockets_def listener_close_def gl_io_def
      setup_ok_def raises_only_def io_return_def split: option.split)

text \<open>A port that opens becomes the one session.\<close>

lemma sample_connect:
  assumes "AppController_init [] = Inr (a0 :: (bytes list, (bytes \<times> pystr \<times> int) list) app)"
  shows "\<exists>b. run_slot sample_app_env (ConnectDevice (lit ''COM3'')) a0 = (Inr (), b) \<and> session_keys b = [lit ''cdc:COM3'']"
proof -
  obtain v b where v: "open_session sample_app_env (lit ''cdc:COM3'') (lit ''COM3'') CDC [] a0 = (v, b)" by force
  have a0: "ap_sessions a0 = []" "ap_session_index a0 = \<lparr>sm_maximum_sessions = 16, sm_aliases = [], sm_nodes = []\<rparr>"
    "ap_accept_thread a0 = None"
    using assms by (auto simp: AppController_init_def NodeSessionManager_init_def MAXIMUM_WIFI_SESSIONS_def)
  have "new_session_ok a0 (lit ''cdc:COM3'') CDC" by (simp add: new_session_ok_def a0)
  then have "v = Inr () \<and> session_keys b = [lit ''cdc:COM3'']"
    using open_session_result [OF init_app_inv [OF assms] _ v]
    by (auto simp: a0 add_session_def active_count_def session_keys_def lit_def Let_def)
  then show ?thesis
    using v by (simp add: connect_device_def is_wifi_server_running_def a0 sample_app_env_def io_catch_def io_bind_def
        io_lift_def cdc_node_id_def lit_def)
qed

theorem application_invariant_witness:
  "\<exists>a :: (bytes list, (bytes \<times> pystr \<times> int) list) app. session_keys a = [lit ''cdc:COM3''] \<and> ap_timer a \<and>
     selected_session a \<noteq> None"
proof -
  obtain a0 :: "(bytes list, (bytes \<times> pystr \<times> int) list) app" where a0: "AppController_init [] = Inr a0"
    by (simp add: AppController_init_def NodeSessionManager_init_def MAXIMUM_WIFI_SESSIONS_def)
  obtain b where b: "run_slot sample_app_env (ConnectDevice (lit ''COM3'')) a0 = (Inr (), b)" "session_keys b = [lit ''cdc:COM3'']"
    using sample_connect [OF a0] by blast
  have "app_reach a0 b" by (rule app_reach.step [OF app_reach.refl app_step.slot [OF _ b(1)]]) (simp add: slot_ok_def)
  from application_invariant [OF a0 this] have "ap_timer b \<and> selected_session b \<noteq> None"
    using b(2) by (auto simp: session_keys_def)
  then show ?thesis using b(2) by blast
qed



end
