(* ===== verification/ConnectionView.thy ===== *)
theory ConnectionView
  imports AppSystem "HOL-Library.List_Lexorder" "HOL-Library.Product_Lexorder"
begin

text \<open>
  The connection widgets of \<^verbatim>\<open>presentation/connection_view.py\<close>: the panel that builds the configuration of the
  Wi-Fi server, and the sidebar that lists the nodes and asks for selection, renaming and removal. The list widget
  is its rows with the current row, and a slot runs where Qt emits the signal it is connected to: on a change of the
  current row, and on a change of a text. At the end the sidebar is put next to the application controller.
\<close>

section \<open>Network interfaces\<close>

record network_interface =
  ni_name :: pystr
  ni_ipv4 :: pystr
  ni_netmask :: pystr

definition interface_label :: "network_interface \<Rightarrow> pystr" where
  "interface_label i = ni_name i @ lit '' '' @ [0x2014] @ lit '' '' @ ni_ipv4 i @ lit ''/'' @ ni_netmask i"

text \<open>What Qt reports of an interface and of one of its addresses.\<close>

record address_entry =
  ae_is_ipv4 :: bool
  ae_is_loopback :: bool
  ae_is_link_local :: bool
  ae_ip :: pystr
  ae_netmask :: pystr

record qt_interface =
  qi_is_up :: bool
  qi_is_running :: bool
  qi_readable_name :: pystr
  qi_name :: pystr
  qi_entries :: "address_entry list"

definition discover_ipv4_interfaces :: "qt_interface list \<Rightarrow> network_interface list" where
  "discover_ipv4_interfaces all_interfaces =
     sort_key (\<lambda>i. (ni_name i, ni_ipv4 i))
       (concat (map (\<lambda>q.
          map (\<lambda>a. \<lparr>ni_name = (if qi_readable_name q = [] then qi_name q else qi_readable_name q), ni_ipv4 = ae_ip a,
                     ni_netmask = ae_netmask a\<rparr>)
            (filter (\<lambda>a. ae_is_ipv4 a \<and> \<not> ae_is_loopback a \<and> \<not> ae_is_link_local a \<and> ae_netmask a \<noteq> []) (qi_entries q)))
          (filter (\<lambda>q. qi_is_up q \<and> qi_is_running q) all_interfaces)))"

section \<open>The Wi-Fi panel\<close>

record wifi_panel =
  wp_interfaces :: "(pystr \<times> network_interface option) list"
  wp_current :: "nat option"
  wp_expected_ipv4 :: pystr
  wp_tcp_port :: int
  wp_udp_port :: int
  wp_wake_targets :: pystr

definition WifiConnectionPanel_init :: wifi_panel where
  "WifiConnectionPanel_init =
     \<lparr>wp_interfaces = [], wp_current = None, wp_expected_ipv4 = [], wp_tcp_port = DEFAULT_TCP_PORT,
      wp_udp_port = DEFAULT_UDP_PORT, wp_wake_targets = []\<rparr>"

definition current_interface :: "wifi_panel \<Rightarrow> network_interface option" where
  "current_interface p =
     (case wp_current p of
        Some r \<Rightarrow> if r < length (wp_interfaces p) then snd (wp_interfaces p ! r) else None
      | None \<Rightarrow> None)"

definition selected_ipv4 :: "wifi_panel \<Rightarrow> pystr" where
  "selected_ipv4 p = (case current_interface p of Some i \<Rightarrow> ni_ipv4 i | None \<Rightarrow> [])"

definition copy_selected_ipv4 :: "wifi_panel \<Rightarrow> wifi_panel" where
  "copy_selected_ipv4 p =
     (if str_strip (wp_expected_ipv4 p) = [] then p\<lparr>wp_expected_ipv4 := selected_ipv4 p\<rparr> else p)"

text \<open>\<^verbatim>\<open>currentIndexChanged\<close> calls \<^verbatim>\<open>_copy_selected_ipv4\<close>; the first entry added to an empty box becomes current.\<close>

definition set_current_interface :: "nat option \<Rightarrow> wifi_panel \<Rightarrow> wifi_panel" where
  "set_current_interface r p = (if wp_current p = r then p else copy_selected_ipv4 (p\<lparr>wp_current := r\<rparr>))"

definition add_interface :: "pystr \<times> network_interface option \<Rightarrow> wifi_panel \<Rightarrow> wifi_panel" where
  "add_interface item p =
     (let p = p\<lparr>wp_interfaces := wp_interfaces p @ [item]\<rparr>
      in if length (wp_interfaces p) = 1 then set_current_interface (Some 0) p else p)"

definition row_with_ipv4 :: "pystr \<Rightarrow> wifi_panel \<Rightarrow> nat option" where
  "row_with_ipv4 ip p =
     List.find (\<lambda>r. map_option ni_ipv4 (snd (wp_interfaces p ! r)) = Some ip) [0..<length (wp_interfaces p)]"

definition choose_ipv4 :: "pystr \<Rightarrow> wifi_panel \<Rightarrow> wifi_panel" where
  "choose_ipv4 ip p = (case row_with_ipv4 ip p of Some r \<Rightarrow> set_current_interface (Some r) p | None \<Rightarrow> p)"

definition set_network_interfaces :: "network_interface list \<Rightarrow> wifi_panel \<Rightarrow> wifi_panel" where
  "set_network_interfaces interfaces p =
     (let ip = selected_ipv4 p;
          p = set_current_interface None (p\<lparr>wp_interfaces := []\<rparr>);
          p = fold (\<lambda>i. add_interface (interface_label i, Some i)) interfaces p;
          p = (if interfaces = [] then add_interface (lit ''No active IPv4 interfaces'', None) p else p)
      in copy_selected_ipv4 (choose_ipv4 ip p))"

definition server_config :: "wifi_panel \<Rightarrow> wifi_config res" where
  "server_config p =
     (case current_interface p of
        None \<Rightarrow> Inl (ValueError ''select an active non-loopback IPv4 interface'')
      | Some i \<Rightarrow>
          let c = \<lparr>wc_local_ipv4 = ni_ipv4 i, wc_netmask = ni_netmask i,
                wc_expected_pc_ipv4 = str_strip (wp_expected_ipv4 p), wc_tcp_port = wp_tcp_port p,
                wc_udp_port = wp_udp_port p,
                wc_unicast_targets = filter (\<lambda>t. t \<noteq> []) (map str_strip (split_on 44 (wp_wake_targets p)))\<rparr>
          in rbind (WifiServerConfig_check c) (\<lambda>_. Inr c))"

text \<open>A spin box keeps its value within 1..65535.\<close>

definition clamp_port :: "int \<Rightarrow> int" where
  "clamp_port v = max 1 (min 65535 v)"

text \<open>The stored values are inputs, read with their defaults and types.\<close>

definition restore_settings :: "pystr \<Rightarrow> pystr \<Rightarrow> int \<Rightarrow> int \<Rightarrow> pystr list \<Rightarrow> wifi_panel \<Rightarrow> wifi_panel" where
  "restore_settings local_ipv4 expected tcp udp targets p =
     (choose_ipv4 local_ipv4 p)
       \<lparr>wp_expected_ipv4 := (if expected = [] then wp_expected_ipv4 (choose_ipv4 local_ipv4 p) else expected),
        wp_tcp_port := clamp_port tcp, wp_udp_port := clamp_port udp,
        wp_wake_targets := (case targets of [] \<Rightarrow> [] | t # ts \<Rightarrow> t @ concat (map (\<lambda>u. lit '', '' @ u) ts))\<rparr>"

section \<open>The sidebar\<close>

datatype sidebar_signal = NodeSelected pystr | AliasRequested pystr pystr | RemoveRequested pystr

record node_row =
  nr_text :: pystr
  nr_node_id :: pystr
  nr_alias :: pystr
  nr_uuid_suffix :: pystr
  nr_transport :: transport_kind
  nr_state :: connection_state
  nr_connected :: bool
  nr_selectable :: bool

record sidebar =
  sb_rows :: "node_row list"
  sb_current :: "nat option"
  sb_selected_node_id :: "pystr option"
  sb_dirty_aliases :: "(pystr \<times> pystr) list"
  sb_alias_edit :: pystr
  sb_save_enabled :: bool
  sb_target_label :: pystr
  sb_menu :: "pystr option"
  sb_signals :: "sidebar_signal list"

definition NodeSidebar_init :: sidebar where
  "NodeSidebar_init =
     \<lparr>sb_rows = [], sb_current = None, sb_selected_node_id = None, sb_dirty_aliases = [], sb_alias_edit = [],
      sb_save_enabled = False, sb_target_label = lit ''TARGET '' @ [0x2014], sb_menu = None, sb_signals = []\<rparr>"

definition ONLINE_STATES :: "connection_state list" where "ONLINE_STATES = [CONNECTED, STREAMING]"
definition REMOVABLE_STATES :: "connection_state list" where "REMOVABLE_STATES = [OFFLINE, RECONNECTING]"

fun state_text :: "connection_state \<Rightarrow> pystr" where
  "state_text DISCONNECTED = lit ''DISCONNECTED''"
| "state_text CONNECTING = lit ''CONNECTING''"
| "state_text CONNECTED = lit ''CONNECTED''"
| "state_text STREAMING = lit ''STREAMING''"
| "state_text RECONNECTING = lit ''RECONNECTING''"
| "state_text STOPPING = lit ''STOPPING''"
| "state_text OFFLINE = lit ''OFFLINE''"

definition uuid_suffix :: "node_summary \<Rightarrow> pystr" where
  "uuid_suffix n =
     (case ns_device_uuid n of
        Some u \<Rightarrow> drop (length (uuid_text u) - 8) (uuid_text u)
      | None \<Rightarrow> lit ''PENDING'')"

definition node_row_of :: "node_summary \<Rightarrow> node_row" where
  "node_row_of n =
     (let online = ns_connection_state n \<in> set ONLINE_STATES;
          alert = (case ns_alert n of Some t \<Rightarrow> t \<noteq> [] | None \<Rightarrow> False)
      in \<lparr>nr_text = ns_alias n @ [10] @ uuid_suffix n @ lit '' '' @ [0x00b7] @ lit '' '' @ ns_peer n @ [10] @ state_text (ns_connection_state n) @
            (if ns_is_recording n then lit '' '' @ [0x00b7] @ lit '' REC'' else []) @ (if alert then lit '' '' @ [0x00b7] @ lit '' !'' else []),
          nr_node_id = ns_node_id n, nr_alias = ns_alias n, nr_uuid_suffix = uuid_suffix n,
          nr_transport = ns_transport_kind n, nr_state = ns_connection_state n, nr_connected = online,
          nr_selectable = online\<rparr>)"

definition current_row :: "sidebar \<Rightarrow> node_row option" where
  "current_row b =
     (case sb_current b of Some r \<Rightarrow> if r < length (sb_rows b) then Some (sb_rows b ! r) else None | None \<Rightarrow> None)"

definition alias_text_changed :: "pystr \<Rightarrow> sidebar \<Rightarrow> sidebar" where
  "alias_text_changed t b =
     (case (sb_selected_node_id b, current_row b) of
        (Some k, Some i) \<Rightarrow>
          let b = b\<lparr>sb_dirty_aliases := (if t \<noteq> nr_alias i then AList.update k t (sb_dirty_aliases b)
                                      else AList.delete k (sb_dirty_aliases b))\<rparr>;
              normalized = length (str_strip t)
          in b\<lparr>sb_save_enabled := 1 \<le> normalized \<and> normalized \<le> 64\<rparr>
      | _ \<Rightarrow> b\<lparr>sb_save_enabled := False\<rparr>)"

text \<open>\<^verbatim>\<open>alias_edit.setText\<close>, and an edit by the operator.\<close>

definition set_alias_text :: "pystr \<Rightarrow> sidebar \<Rightarrow> sidebar" where
  "set_alias_text t b = (if t = sb_alias_edit b then b else alias_text_changed t (b\<lparr>sb_alias_edit := t\<rparr>))"

definition emit_sidebar :: "sidebar_signal \<Rightarrow> sidebar \<Rightarrow> sidebar" where
  "emit_sidebar s b = b\<lparr>sb_signals := sb_signals b @ [s]\<rparr>"

definition apply_current_target :: "bool \<Rightarrow> sidebar \<Rightarrow> sidebar" where
  "apply_current_target emits b =
     (case current_row b of
        Some i \<Rightarrow>
          if nr_connected i then
            let k = nr_node_id i;
                b = b\<lparr>sb_selected_node_id := Some k\<rparr>;
                b = set_alias_text (case map_of (sb_dirty_aliases b) k of None \<Rightarrow> nr_alias i | Some draft \<Rightarrow> draft) b;
                b = b\<lparr>sb_target_label := lit ''TARGET '' @ nr_alias i @ lit '' '' @ [0x00b7] @ lit '' '' @ nr_uuid_suffix i\<rparr>
            in if emits then emit_sidebar (NodeSelected k) b else b
          else (set_alias_text [] (b\<lparr>sb_selected_node_id := None\<rparr>))\<lparr>sb_target_label := lit ''TARGET '' @ [0x2014]\<rparr>
      | None \<Rightarrow> (set_alias_text [] (b\<lparr>sb_selected_node_id := None\<rparr>))\<lparr>sb_target_label := lit ''TARGET '' @ [0x2014]\<rparr>)"

definition row_for_node_id :: "pystr option \<Rightarrow> sidebar \<Rightarrow> nat option" where
  "row_for_node_id node_id b =
     (case node_id of
        None \<Rightarrow> None
      | Some k \<Rightarrow> if k = [] then None else List.find (\<lambda>r. nr_node_id (sb_rows b ! r) = k) [0..<length (sb_rows b)])"

text \<open>
  \<^verbatim>\<open>set_nodes\<close>: the row of the previous target if it is online (the last one, as the loop overwrites it), otherwise
  the first online row.
\<close>

definition set_nodes :: "node_summary list \<Rightarrow> sidebar \<Rightarrow> sidebar" where
  "set_nodes nodes b =
     (let previous_id = (case sb_selected_node_id b of
            Some k \<Rightarrow> Some k | None \<Rightarrow> map_option nr_node_id (current_row b));
          rows = map node_row_of nodes;
          online_rows = filter (\<lambda>r. nr_connected (rows ! r)) [0..<length rows];
          restore_rows = filter (\<lambda>r. Some (nr_node_id (rows ! r)) = previous_id) online_rows;
          first_online_row = (case online_rows of [] \<Rightarrow> None | r # _ \<Rightarrow> Some r)
      in apply_current_target False
        (b\<lparr>sb_rows := rows, sb_current := (if restore_rows \<noteq> [] then Some (last restore_rows) else first_online_row)\<rparr>))"

definition set_selected_node :: "pystr \<Rightarrow> sidebar \<Rightarrow> sidebar" where
  "set_selected_node node_id b =
     apply_current_target False
       (b\<lparr>sb_current := (case row_for_node_id (Some node_id) b of
            Some r \<Rightarrow> if nr_connected (sb_rows b ! r) then Some r else None | None \<Rightarrow> None)\<rparr>)"

text \<open>\<^verbatim>\<open>currentItemChanged\<close>: the operator made a row the current one.\<close>

definition pick_row :: "nat \<Rightarrow> sidebar \<Rightarrow> sidebar" where
  "pick_row r b =
     (let b = b\<lparr>sb_current := Some r\<rparr>
      in case current_row b of
           Some i \<Rightarrow>
             if \<not> nr_connected i
             then apply_current_target False (b\<lparr>sb_current := row_for_node_id (sb_selected_node_id b) b\<rparr>)
             else apply_current_target True b
         | None \<Rightarrow> apply_current_target True b)"

definition press_save_alias :: "sidebar \<Rightarrow> sidebar" where
  "press_save_alias b =
     (case current_row b of
        None \<Rightarrow> b
      | Some i \<Rightarrow>
          emit_sidebar (AliasRequested (nr_node_id i) (sb_alias_edit b))
            (b\<lparr>sb_dirty_aliases := AList.delete (nr_node_id i) (sb_dirty_aliases b)\<rparr>))"

text \<open>The menu of a row is the node its one action removes.\<close>

definition context_menu_for :: "node_row option \<Rightarrow> pystr option" where
  "context_menu_for item =
     (case item of
        None \<Rightarrow> None
      | Some i \<Rightarrow>
          if nr_transport i \<noteq> WIFI then None
          else if nr_state i \<notin> set REMOVABLE_STATES then None
          else Some (nr_node_id i))"

definition show_context_menu :: "nat option \<Rightarrow> sidebar \<Rightarrow> sidebar" where
  "show_context_menu r b =
     b\<lparr>sb_menu := context_menu_for (case r of None \<Rightarrow> None | Some r \<Rightarrow> if r < length (sb_rows b) then Some (sb_rows b ! r) else None)\<rparr>"

definition press_remove :: "sidebar \<Rightarrow> sidebar" where
  "press_remove b =
     (case sb_menu b of None \<Rightarrow> b | Some k \<Rightarrow> emit_sidebar (RemoveRequested k) (b\<lparr>sb_menu := None\<rparr>))"

section \<open>Steps and their invariant\<close>

inductive sidebar_step :: "sidebar \<Rightarrow> sidebar \<Rightarrow> bool" where
  refresh: "sidebar_step b (set_nodes nodes b)"
| follow: "sidebar_step b (set_selected_node k b)"
| pick: "r < length (sb_rows b) \<Longrightarrow> sb_current b \<noteq> Some r \<Longrightarrow> sidebar_step b (pick_row r b)"
| edit: "sidebar_step b (set_alias_text t b)"
| save: "sb_save_enabled b \<Longrightarrow> sidebar_step b (press_save_alias b)"
| open_menu: "sidebar_step b (show_context_menu r b)"
| dismiss: "sidebar_step b (b\<lparr>sb_menu := None\<rparr>)"
| remove: "sb_menu b \<noteq> None \<Longrightarrow> sidebar_step b (press_remove b)"

inductive sidebar_reach :: "sidebar \<Rightarrow> bool" where
  init: "sidebar_reach NodeSidebar_init"
| step: "sidebar_reach b \<Longrightarrow> sidebar_step b c \<Longrightarrow> sidebar_reach c"

definition alias_fits :: "pystr \<Rightarrow> bool" where
  "alias_fits t \<longleftrightarrow> 1 \<le> length (str_strip t) \<and> length (str_strip t) \<le> 64"

text \<open>The target is the node of the current row if that is online, and a name can be saved only for a target.\<close>

definition target_of :: "sidebar \<Rightarrow> pystr option" where
  "target_of b = (case current_row b of Some i \<Rightarrow> if nr_connected i then Some (nr_node_id i) else None | None \<Rightarrow> None)"

definition sidebar_ok :: "sidebar \<Rightarrow> bool" where
  "sidebar_ok b \<longleftrightarrow> sb_selected_node_id b = target_of b \<and>
     (sb_save_enabled b \<longrightarrow> sb_selected_node_id b \<noteq> None \<and> alias_fits (sb_alias_edit b)) \<and>
     list_all (\<lambda>s. case s of AliasRequested k t \<Rightarrow> alias_fits t | _ \<Rightarrow> True) (sb_signals b)"


lemma alias_text_fields [simp]:
  "sb_rows (alias_text_changed t b) = sb_rows b" "sb_current (alias_text_changed t b) = sb_current b"
  "sb_selected_node_id (alias_text_changed t b) = sb_selected_node_id b" "sb_alias_edit (alias_text_changed t b) = sb_alias_edit b"
  "sb_signals (alias_text_changed t b) = sb_signals b" "sb_menu (alias_text_changed t b) = sb_menu b"
  by (simp_all add: alias_text_changed_def Let_def split: option.split)

lemma set_alias_text_fields [simp]:
  "sb_rows (set_alias_text t b) = sb_rows b" "sb_current (set_alias_text t b) = sb_current b"
  "sb_selected_node_id (set_alias_text t b) = sb_selected_node_id b" "sb_alias_edit (set_alias_text t b) = t"
  "sb_signals (set_alias_text t b) = sb_signals b" "sb_menu (set_alias_text t b) = sb_menu b"
  by (simp_all add: set_alias_text_def)

lemma current_row_eq: "sb_rows b = sb_rows c \<Longrightarrow> sb_current b = sb_current c \<Longrightarrow> current_row b = current_row c"
  by (simp add: current_row_def split: option.split)

lemma target_of_eq: "sb_rows b = sb_rows c \<Longrightarrow> sb_current b = sb_current c \<Longrightarrow> target_of b = target_of c"
  by (simp add: target_of_def current_row_eq [of b c])

lemma apply_fields [simp]:
  "sb_rows (apply_current_target e b) = sb_rows b" "sb_current (apply_current_target e b) = sb_current b"
  "sb_menu (apply_current_target e b) = sb_menu b"
  by (simp_all add: apply_current_target_def emit_sidebar_def Let_def split: option.split)

lemma apply_target [simp]: "sb_selected_node_id (apply_current_target e b) = target_of b"
  by (auto simp: apply_current_target_def target_of_def emit_sidebar_def Let_def split: option.split)

lemma apply_signals:
  "sb_signals (apply_current_target e b) =
     sb_signals b @ (if e then (case target_of b of Some k \<Rightarrow> [NodeSelected k] | None \<Rightarrow> []) else [])"
  by (auto simp: apply_current_target_def target_of_def emit_sidebar_def Let_def split: option.split)

text \<open>What a change of the text leaves: the button fits the text, whatever it was before if the text was there.\<close>

lemma set_alias_text_enabled:
  assumes "sb_save_enabled (set_alias_text t b)" and "sb_save_enabled b \<Longrightarrow> alias_fits (sb_alias_edit b)"
    and "sb_selected_node_id b = None \<Longrightarrow> t = []"
  shows "sb_selected_node_id b \<noteq> None \<and> alias_fits t"
proof (cases "t = sb_alias_edit b")
  case True
  then have "alias_fits t" using assms(1,2) by (simp add: set_alias_text_def)
  moreover have "\<not> alias_fits []" by (simp add: alias_fits_def str_strip_def strip_by_def rstrip_by_def)
  ultimately show ?thesis using assms(3) by metis
next
  case False
  then show ?thesis
    using assms(1) by (auto simp: set_alias_text_def alias_text_changed_def alias_fits_def Let_def split: option.splits)
qed

lemma apply_ok:
  assumes "sb_save_enabled b \<Longrightarrow> alias_fits (sb_alias_edit b)" and "list_all P (sb_signals b)" and "\<And>k. P (NodeSelected k)"
  shows "sb_save_enabled (apply_current_target e b) \<Longrightarrow>
      target_of b \<noteq> None \<and> alias_fits (sb_alias_edit (apply_current_target e b))"
    "list_all P (sb_signals (apply_current_target e b))"
proof -
  show "list_all P (sb_signals (apply_current_target e b))"
    using assms(2,3) by (simp add: apply_signals split: option.split)
  assume en: "sb_save_enabled (apply_current_target e b)"
  show "target_of b \<noteq> None \<and> alias_fits (sb_alias_edit (apply_current_target e b))"
  proof (cases "target_of b")
    case None
    then have "sb_save_enabled (set_alias_text [] (b\<lparr>sb_selected_node_id := None\<rparr>))"
      using en by (auto simp: apply_current_target_def target_of_def Let_def split: option.splits if_splits)
    then show ?thesis using set_alias_text_enabled [of "[]" "b\<lparr>sb_selected_node_id := None\<rparr>"] assms(1) by simp
  next
    case (Some k)
    then obtain i where i: "current_row b = Some i" "nr_connected i" "k = nr_node_id i"
      by (auto simp: target_of_def split: option.splits if_splits)
    let ?t = "case map_of (sb_dirty_aliases b) k of None \<Rightarrow> nr_alias i | Some draft \<Rightarrow> draft"
    have "sb_save_enabled (set_alias_text ?t (b\<lparr>sb_selected_node_id := Some k\<rparr>))"
      "sb_alias_edit (apply_current_target e b) = ?t"
      using en i by (simp_all add: apply_current_target_def emit_sidebar_def Let_def split: if_splits)
    then show ?thesis using set_alias_text_enabled [of ?t "b\<lparr>sb_selected_node_id := Some k\<rparr>"] assms(1) Some by simp
  qed
qed

lemma apply_sidebar_ok:
  assumes "sidebar_ok b"
  shows "sidebar_ok (apply_current_target e (b\<lparr>sb_rows := rows, sb_current := r\<rparr>))"
    "sidebar_ok (apply_current_target e (b\<lparr>sb_current := r\<rparr>))"
proof -
  let ?P = "\<lambda>s. case s of AliasRequested k t \<Rightarrow> alias_fits t | _ \<Rightarrow> True"
  have "sidebar_ok (apply_current_target e c)"
    if "sb_save_enabled c = sb_save_enabled b" "sb_alias_edit c = sb_alias_edit b" "sb_signals c = sb_signals b" for c
  proof -
    have "sb_save_enabled c \<Longrightarrow> alias_fits (sb_alias_edit c)" "list_all ?P (sb_signals c)"
      using assms that by (simp_all add: sidebar_ok_def)
    from apply_ok [OF this] show ?thesis
      by (simp add: sidebar_ok_def target_of_eq [of "apply_current_target e c" c])
  qed
  then show "sidebar_ok (apply_current_target e (b\<lparr>sb_rows := rows, sb_current := r\<rparr>))"
    "sidebar_ok (apply_current_target e (b\<lparr>sb_current := r\<rparr>))" by simp_all
qed

lemma pick_sidebar_ok: "sidebar_ok b \<Longrightarrow> sidebar_ok (pick_row r b)"
  using apply_sidebar_ok(2) [of b] by (simp add: pick_row_def Let_def split: option.split)

lemma save_sidebar_ok: "sidebar_ok b \<Longrightarrow> sb_save_enabled b \<Longrightarrow> sidebar_ok (press_save_alias b)"
  by (auto simp: press_save_alias_def sidebar_ok_def emit_sidebar_def target_of_def current_row_def split: option.splits if_splits)

lemma edit_sidebar_ok: "sidebar_ok b \<Longrightarrow> sidebar_ok (set_alias_text t b)"
  using target_of_eq [of "set_alias_text t b" b]
  by (auto simp: sidebar_ok_def set_alias_text_def alias_text_changed_def alias_fits_def Let_def split: option.splits)

lemma sidebar_step_ok: "sidebar_step b c \<Longrightarrow> sidebar_ok b \<Longrightarrow> sidebar_ok c"
proof (induction rule: sidebar_step.induct)
  case (refresh b nodes)
  then show ?case unfolding set_nodes_def Let_def by (rule apply_sidebar_ok)
next
  case (follow b k)
  then show ?case unfolding set_selected_node_def by (rule apply_sidebar_ok)
qed (simp_all add: pick_sidebar_ok save_sidebar_ok edit_sidebar_ok,
  auto simp: sidebar_ok_def show_context_menu_def press_remove_def emit_sidebar_def target_of_def current_row_def
    split: option.splits if_splits)

lemma sidebar_reach_ok: "sidebar_reach b \<Longrightarrow> sidebar_ok b"
proof (induction rule: sidebar_reach.induct)
  case init
  show ?case by (simp add: NodeSidebar_init_def sidebar_ok_def target_of_def current_row_def)
qed (rule sidebar_step_ok)


text \<open>
  A refresh that still shows the target online keeps it, emits nothing, and keeps the name the operator is typing.
\<close>

lemma refresh_keeps_target:
  assumes "sb_selected_node_id b = Some k" and "n \<in> set nodes" and "ns_node_id n = k" and "ns_connection_state n \<in> set ONLINE_STATES"
  shows "sb_selected_node_id (set_nodes nodes b) = Some k" "sb_signals (set_nodes nodes b) = sb_signals b"
    "map_of (sb_dirty_aliases b) k = Some draft \<Longrightarrow> sb_alias_edit (set_nodes nodes b) = draft"
proof -
  let ?rows = "map node_row_of nodes"
  define rs where "rs = filter (\<lambda>r. Some (nr_node_id (?rows ! r)) = Some k) (filter (\<lambda>r. nr_connected (?rows ! r)) [0..<length ?rows])"
  let ?c = "b\<lparr>sb_rows := ?rows, sb_current := Some (last rs)\<rparr>"
  obtain r where r: "r < length nodes" "nodes ! r = n" using assms(2) by (auto simp: in_set_conv_nth)
  then have "r \<in> set rs" using assms(3,4) by (simp add: rs_def node_row_of_def Let_def)
  then have ne: "rs \<noteq> []" by auto
  then have l: "last rs \<in> set rs" by simp
  have eq: "set_nodes nodes b = apply_current_target False ?c"
    using assms(1) ne by (simp add: set_nodes_def Let_def rs_def)
  from l have i: "current_row ?c = Some (?rows ! last rs)" "nr_connected (?rows ! last rs)" "nr_node_id (?rows ! last rs) = k"
    by (auto simp: rs_def current_row_def)
  then have t: "target_of ?c = Some k" by (simp add: target_of_def)
  then show "sb_selected_node_id (set_nodes nodes b) = Some k" "sb_signals (set_nodes nodes b) = sb_signals b"
    by (simp_all add: eq apply_signals)
  show "sb_alias_edit (set_nodes nodes b) = draft" if "map_of (sb_dirty_aliases b) k = Some draft"
    using that i by (simp add: eq apply_current_target_def Let_def)
qed

text \<open>An offline row never becomes the target: the list jumps back to the row of the target.\<close>

lemma find_distinct_row:
  assumes "distinct (map nr_node_id rows)" and "q < length rows"
  shows "List.find (\<lambda>r. nr_node_id (rows ! r) = nr_node_id (rows ! q)) [0..<length rows] = Some q"
proof -
  have "nr_node_id (rows ! j) \<noteq> nr_node_id (rows ! q)" if "j < q" for j
    using assms that nth_eq_iff_index_eq [OF assms(1), of j q] by simp
  then show ?thesis using assms(2) unfolding find_Some_iff by (intro exI [of _ q]) simp
qed

lemma offline_pick_keeps_target:
  assumes "sidebar_ok b" and "distinct (map nr_node_id (sb_rows b))" and "r < length (sb_rows b)" and "\<not> nr_connected (sb_rows b ! r)"
    and "sb_selected_node_id b \<noteq> Some []"
  shows "sb_selected_node_id (pick_row r b) = sb_selected_node_id b" "sb_signals (pick_row r b) = sb_signals b"
proof -
  let ?b = "b\<lparr>sb_current := Some r\<rparr>"
  let ?c = "b\<lparr>sb_current := row_for_node_id (sb_selected_node_id b) ?b\<rparr>"
  have p: "pick_row r b = apply_current_target False ?c"
    using assms(3,4) by (simp add: pick_row_def Let_def current_row_def)
  show "sb_signals (pick_row r b) = sb_signals b" by (simp add: p apply_signals)
  have "target_of ?c = sb_selected_node_id b"
  proof (cases "sb_selected_node_id b")
    case None
    then show ?thesis by (simp add: row_for_node_id_def target_of_def current_row_def)
  next
    case (Some k)
    then obtain q where q: "q < length (sb_rows b)" "nr_connected (sb_rows b ! q)" "nr_node_id (sb_rows b ! q) = k"
      using assms(1) by (auto simp: sidebar_ok_def target_of_def current_row_def split: option.splits if_splits)
    have "List.find (\<lambda>r. nr_node_id (sb_rows b ! r) = k) [0..<length (sb_rows b)] = Some q"
      using find_distinct_row [OF assms(2) q(1)] q(3) by simp
    then show ?thesis using Some q assms(5) by (simp add: row_for_node_id_def target_of_def current_row_def)
  qed
  then show "sb_selected_node_id (pick_row r b) = sb_selected_node_id b" by (simp add: p)
qed

section \<open>The sidebar and the controller\<close>

text \<open>
  The slots the signals of the sidebar are connected to, and those of the sidebar the controller's signals are
  connected to.
\<close>

definition ask_controller :: "('t, 'w) app_env \<Rightarrow> sidebar_signal \<Rightarrow> ('t, 'w, unit) app_io" where
  "ask_controller e s =
     (case s of
        NodeSelected k \<Rightarrow> select_node e k
      | AliasRequested k t \<Rightarrow> set_node_alias k t
      | RemoveRequested k \<Rightarrow> remove_offline_node k)"

definition hear_controller :: "app_signal \<Rightarrow> sidebar \<Rightarrow> sidebar" where
  "hear_controller s b =
     (case s of NodesChanged nodes \<Rightarrow> set_nodes nodes b | SelectedNodeChanged k \<Rightarrow> set_selected_node k b | _ \<Rightarrow> b)"

definition shows_inventory :: "('t, 'w) app \<Rightarrow> sidebar \<Rightarrow> bool" where
  "shows_inventory a b \<longleftrightarrow> sb_rows b = map node_row_of (summaries (ap_session_index a))"

lemma summaries_mem:
  assumes "sm_inv m"
  shows "n \<in> set (summaries m) \<longleftrightarrow> map_of (sm_nodes m) (ns_node_id n) = Some n"
proof -
  have id: "ns_node_id n = k" if "map_of (sm_nodes m) k = Some n" for k n
    using assms that by (auto simp: sm_inv_def node_ok_def)
  have "n \<in> set (summaries m) \<longleftrightarrow> (\<exists>k\<in>set (map fst (sm_nodes m)). n = the (map_of (sm_nodes m) k))"
    by (auto simp: summaries_def)
  also have "\<dots> \<longleftrightarrow> (\<exists>k. map_of (sm_nodes m) k = Some n)"
    by (metis map_of_eq_None_iff option.exhaust_sel option.sel option.distinct(1) set_map)
  also have "\<dots> \<longleftrightarrow> map_of (sm_nodes m) (ns_node_id n) = Some n" using id by blast
  finally show ?thesis .
qed

text \<open>A row is the node it shows.\<close>

lemma row_node:
  assumes "app_inv a" and "shows_inventory a b" and "i \<in> set (sb_rows b)"
  obtains n where "i = node_row_of n" "map_of (sm_nodes (ap_session_index a)) (nr_node_id i) = Some n"
    "nr_connected i \<longleftrightarrow> get_session (nr_node_id i) a \<noteq> None"
proof -
  have c: "core {} a" using assms(1) by (simp add: app_inv_def)
  obtain n where n: "n \<in> set (summaries (ap_session_index a))" "i = node_row_of n"
    using assms(2,3) by (auto simp: shows_inventory_def)
  then have m: "map_of (sm_nodes (ap_session_index a)) (ns_node_id n) = Some n" using summaries_mem coreD(1) [OF c] by blast
  have k: "nr_node_id i = ns_node_id n" "nr_connected i \<longleftrightarrow> ns_connection_state n \<in> {CONNECTED, STREAMING}"
    by (auto simp: n(2) node_row_of_def Let_def ONLINE_STATES_def)
  have "inventory_state (ns_connection_state n)" using coreD(1) [OF c] m by (auto simp: sm_inv_def node_ok_def)
  then have "nr_connected i \<longleftrightarrow> online (ap_session_index a) (ns_node_id n)"
    using m k(2) by (auto simp: online_def inventory_state_def)
  also have "\<dots> \<longleftrightarrow> get_session (ns_node_id n) a \<noteq> None"
    using coreD(8) [OF c, of "ns_node_id n"] coreD(10) [OF c, of "ns_node_id n"] m
    by (auto simp: online_def shown_def node_shows_def)
  finally show thesis using that n(2) m k(1) by simp
qed


lemma refresh_finds_target:
  assumes "n \<in> set nodes" and "ns_connection_state n \<in> set ONLINE_STATES"
  shows "sb_selected_node_id (set_nodes nodes b) \<noteq> None"
proof -
  let ?rows = "map node_row_of nodes"
  define os where "os = filter (\<lambda>r. nr_connected (?rows ! r)) [0..<length ?rows]"
  define rs where "rs prev = filter (\<lambda>r. Some (nr_node_id (?rows ! r)) = prev) os" for prev
  obtain r where "r < length nodes" "nodes ! r = n" using assms(1) by (auto simp: in_set_conv_nth)
  then have "r \<in> set os" using assms(2) by (simp add: os_def node_row_of_def Let_def)
  then obtain q qs where os: "os = q # qs" by (cases os) auto
  have "(if rs prev \<noteq> [] then Some (last (rs prev)) else (case os of [] \<Rightarrow> None | r # _ \<Rightarrow> Some r)) \<in> Some ` set os" for prev
  proof (cases "rs prev = []")
    case False
    then have "last (rs prev) \<in> set os" using last_in_set [OF False] by (simp add: rs_def)
    then show ?thesis using False by (simp only: if_True imageI not_False_eq_True)
  qed (simp add: os)
  moreover define prev where "prev = (case sb_selected_node_id b of Some k \<Rightarrow> Some k | None \<Rightarrow> map_option nr_node_id (current_row b))"
  ultimately obtain i where i: "i \<in> set os"
      "(if rs prev \<noteq> [] then Some (last (rs prev)) else (case os of [] \<Rightarrow> None | r # _ \<Rightarrow> Some r)) = Some i" by blast
  have "set_nodes nodes b = apply_current_target False (b\<lparr>sb_rows := ?rows, sb_current := Some i\<rparr>)"
    unfolding set_nodes_def Let_def os_def [symmetric] prev_def [symmetric] rs_def [symmetric] i(2) ..
  then show ?thesis using i(1) by (auto simp: target_of_def current_row_def os_def)
qed

text \<open>The controller reports the inventory after it changed, so the sidebar shows it again.\<close>

definition heard :: "('t, 'w) app \<Rightarrow> ('t, 'w) app \<Rightarrow> sidebar \<Rightarrow> sidebar" where
  "heard a c b = fold hear_controller (drop (length (ap_signals a)) (ap_signals c)) b"

lemma emit_availability_result:
  "\<exists>v t. emit_ota_availability x = (Inr (), x\<lparr>ap_signals := ap_signals x @ [OtaAvailability v t]\<rparr>)"
proof (cases "ap_ota_node_id x = None")
  case True
  then show ?thesis
    by (cases "selected_session x") (auto simp: emit_ota_availability_def emit_def io_update_def)
qed (simp add: emit_ota_availability_def emit_def io_update_def, blast)

lemma emit_nodes_heard:
  obtains c where "emit_nodes a = (Inr (), c)" "ap_session_index c = ap_session_index a"
    "\<And>a0. ap_signals a0 = ap_signals a \<Longrightarrow> shows_inventory c (heard a0 c b)"
proof -
  let ?x = "a\<lparr>ap_signals := ap_signals a @ [NodesChanged (summaries (ap_session_index a))]\<rparr>"
  obtain v t where v: "emit_ota_availability ?x = (Inr (), ?x\<lparr>ap_signals := ap_signals ?x @ [OtaAvailability v t]\<rparr>)"
    using emit_availability_result [of ?x] by blast
  let ?c = "?x\<lparr>ap_signals := ap_signals ?x @ [OtaAvailability v t]\<rparr>"
  show thesis
  proof (rule that)
    show "emit_nodes a = (Inr (), ?c)"
      using v by (simp add: emit_nodes_def io_seq.simps io_bind_def io_return_def emit_def io_update_def)
    show "shows_inventory ?c (heard a0 ?c b)" if "ap_signals a0 = ap_signals a" for a0
      using that by (simp add: heard_def hear_controller_def shows_inventory_def set_nodes_def Let_def)
  qed simp
qed

lemma menu_accepted:
  assumes inv: "app_inv a" and "shows_inventory a b" and "i \<in> set (sb_rows b)" and "context_menu_for (Some i) = Some k"
  shows "\<exists>c. ask_controller e (RemoveRequested k) a = (Inr (), c) \<and> map_of (sm_nodes (ap_session_index c)) k = None \<and>
    shows_inventory c (heard a c b)"
proof -
  have i: "nr_transport i = WIFI" "nr_state i \<in> {OFFLINE, RECONNECTING}" "nr_node_id i = k"
    using assms(4) by (auto simp: context_menu_for_def REMOVABLE_STATES_def split: if_splits)
  obtain n where n: "i = node_row_of n" "map_of (sm_nodes (ap_session_index a)) k = Some n" "nr_connected i \<longleftrightarrow> get_session k a \<noteq> None"
    using row_node [OF assms(1-3)] i(3) by metis
  have s: "ns_transport_kind n = WIFI" "ns_connection_state n \<in> {OFFLINE, RECONNECTING}" "\<not> nr_connected i"
    using i by (auto simp: n(1) node_row_of_def Let_def ONLINE_STATES_def)
  have "session_summary k (ap_session_index a) = Inr n" using n(2) by (simp add: session_summary_def require_node_def)
  then have "remove_offline_node k a =
      io_seq [on_index (\<lambda>m. (Inr (), remove_node k m)), emit_nodes] a"
    using n(3) s by (simp add: remove_offline_node_def)
  moreover obtain c where "emit_nodes (a\<lparr>ap_session_index := remove_node k (ap_session_index a)\<rparr>) = (Inr (), c)"
      "ap_session_index c = remove_node k (ap_session_index a)" "shows_inventory c (heard a c b)"
    by (rule emit_nodes_heard [of "a\<lparr>ap_session_index := remove_node k (ap_session_index a)\<rparr>" b]) simp
  ultimately show ?thesis
    by (simp add: ask_controller_def io_seq.simps io_bind_def io_return_def on_index_def remove_node_def delete_conv')
qed


lemma save_accepted:
  assumes inv: "app_inv a" and "shows_inventory a b" and "sidebar_ok b" and "sb_save_enabled b"
  shows "\<exists>k c n. sb_signals (press_save_alias b) = sb_signals b @ [AliasRequested k (sb_alias_edit b)] \<and>
    sb_selected_node_id b = Some k \<and> ask_controller e (AliasRequested k (sb_alias_edit b)) a = (Inr (), c) \<and>
    map_of (sm_nodes (ap_session_index c)) k = Some n \<and> ns_alias n = str_strip (sb_alias_edit b) \<and>
    shows_inventory c (heard a c (press_save_alias b))"
proof -
  let ?t = "sb_alias_edit b"
  obtain k i where i: "current_row b = Some i" "nr_node_id i = k" "sb_selected_node_id b = Some k" and t: "alias_fits ?t"
    using assms(3,4) by (auto simp: sidebar_ok_def target_of_def split: option.splits if_splits)
  then have "i \<in> set (sb_rows b)" by (auto simp: current_row_def split: option.splits if_splits)
  then obtain n where n: "map_of (sm_nodes (ap_session_index a)) k = Some n"
    using row_node [OF assms(1,2)] i(2) by metis
  let ?n = "n\<lparr>ns_alias := str_strip ?t\<rparr>"
  define m where "m = (case ns_device_uuid n of None \<Rightarrow> put_node k ?n (ap_session_index a)
      | Some u \<Rightarrow> (put_node k ?n (ap_session_index a))
          \<lparr>sm_aliases := AList.update (uuid_text u) (str_strip ?t) (sm_aliases (ap_session_index a))\<rparr>)"
  have "str_strip ?t \<noteq> []" "\<not> 64 < length (str_strip ?t)" using t by (auto simp: alias_fits_def)
  then have m: "set_alias k ?t (ap_session_index a) = (Inr ?n, m)"
    using n by (simp add: set_alias_def require_node_def m_def put_node_def Let_def split: option.split)
  have node: "map_of (sm_nodes m) k = Some ?n" by (simp add: m_def put_node_def update_conv' split: option.split)
  define d where "d = (case ns_device_uuid n of None \<Rightarrow> a\<lparr>ap_session_index := m\<rparr>
      | Some u \<Rightarrow> a\<lparr>ap_session_index := m, ap_saved_aliases := AList.update (uuid_text u) (str_strip ?t) (ap_saved_aliases a)\<rparr>)"
  have d: "ap_signals d = ap_signals a" "ap_session_index d = m" by (simp_all add: d_def split: option.split)
  obtain c where c: "emit_nodes d = (Inr (), c)" "ap_session_index c = m" "shows_inventory c (heard a c (press_save_alias b))"
    by (rule emit_nodes_heard [of d "press_save_alias b"]) (use d in simp)
  have "set_node_alias k ?t a = (Inr (), c)"
    using m c(1) by (cases "ns_device_uuid n") (simp_all add: set_node_alias_def io_try_def on_index_def io_seq.simps
        io_bind_def io_return_def io_update_def d_def)
  moreover have "sb_signals (press_save_alias b) = sb_signals b @ [AliasRequested k ?t]"
    using i by (simp add: press_save_alias_def emit_sidebar_def)
  ultimately show ?thesis using i(3) c(2,3) node by (auto simp: ask_controller_def)
qed


lemma target_has_session:
  assumes "app_inv a" and "shows_inventory a b" and "sidebar_ok b" and "sb_selected_node_id b = Some k"
  shows "get_session k a \<noteq> None"
proof -
  obtain i where i: "current_row b = Some i" "nr_connected i" "nr_node_id i = k"
    using assms(3,4) by (auto simp: sidebar_ok_def target_of_def split: option.splits if_splits)
  then have "i \<in> set (sb_rows b)" by (auto simp: current_row_def split: option.splits if_splits)
  then show ?thesis using row_node [OF assms(1,2)] i(2,3) by metis
qed

lemma pick_accepted:
  assumes "app_inv a" and "shows_inventory a b" and "r < length (sb_rows b)"
  shows "(sb_signals (pick_row r b) = sb_signals b @ [NodeSelected (nr_node_id (sb_rows b ! r))]) \<or>
    sb_signals (pick_row r b) = sb_signals b"
    "get_session (nr_node_id (sb_rows b ! r)) a \<noteq> None \<longleftrightarrow>
      sb_signals (pick_row r b) = sb_signals b @ [NodeSelected (nr_node_id (sb_rows b ! r))]"
proof -
  let ?i = "sb_rows b ! r"
  have "nr_connected ?i \<longleftrightarrow> get_session (nr_node_id ?i) a \<noteq> None" using row_node [OF assms(1,2)] assms(3) nth_mem by metis
  moreover have "sb_signals (pick_row r b) = sb_signals b @ (if nr_connected ?i then [NodeSelected (nr_node_id ?i)] else [])"
    using assms(3) by (simp add: pick_row_def Let_def current_row_def apply_signals target_of_def)
  ultimately show "(sb_signals (pick_row r b) = sb_signals b @ [NodeSelected (nr_node_id ?i)]) \<or> sb_signals (pick_row r b) = sb_signals b"
    "get_session (nr_node_id ?i) a \<noteq> None \<longleftrightarrow> sb_signals (pick_row r b) = sb_signals b @ [NodeSelected (nr_node_id ?i)]"
    by simp_all
qed

text \<open>
  C38. What the sidebar offers is what the controller accepts. Whatever the operator and the controller did before,
  when the rows show the inventory: the target has a session; making a row the current one asks for that node just
  when it has a session; the save button is enabled only with a target and a name the inventory takes, and then
  renames the target to the trimmed name; the menu of a row offers only removals that the controller carries out;
  and after a renaming or removal the sidebar shows the inventory again.
\<close>

theorem sidebar_requests_accepted:
  fixes e :: "('t, 'w) app_env" and a :: "('t, 'w) app"
  assumes "AppController_init aliases = Inr a0" and "app_reach a0 a" and "sidebar_reach b" and "shows_inventory a b"
  shows "(sb_selected_node_id b \<noteq> None \<longrightarrow> get_session (the (sb_selected_node_id b)) a \<noteq> None) \<and>
    (\<forall>r < length (sb_rows b). get_session (nr_node_id (sb_rows b ! r)) a \<noteq> None \<longleftrightarrow>
      sb_signals (pick_row r b) = sb_signals b @ [NodeSelected (nr_node_id (sb_rows b ! r))]) \<and>
    (sb_save_enabled b \<longrightarrow> (\<exists>k c n. sb_selected_node_id b = Some k \<and>
      sb_signals (press_save_alias b) = sb_signals b @ [AliasRequested k (sb_alias_edit b)] \<and>
      ask_controller e (AliasRequested k (sb_alias_edit b)) a = (Inr (), c) \<and>
      map_of (sm_nodes (ap_session_index c)) k = Some n \<and> ns_alias n = str_strip (sb_alias_edit b) \<and>
      shows_inventory c (heard a c (press_save_alias b)))) \<and>
    (\<forall>i\<in>set (sb_rows b). context_menu_for (Some i) \<noteq> None \<longrightarrow>
      (\<exists>c. ask_controller e (RemoveRequested (nr_node_id i)) a = (Inr (), c) \<and>
        map_of (sm_nodes (ap_session_index c)) (nr_node_id i) = None \<and> shows_inventory c (heard a c b)))"
proof (intro conjI impI allI ballI)
  have inv: "app_inv a" by (rule init_reach_inv [OF assms(1,2)])
  note ok = sidebar_reach_ok [OF assms(3)]
  show "get_session (the (sb_selected_node_id b)) a \<noteq> None" if "sb_selected_node_id b \<noteq> None"
    using target_has_session [OF inv assms(4) ok] that by (metis option.exhaust_sel)
  show "get_session (nr_node_id (sb_rows b ! r)) a \<noteq> None \<longleftrightarrow>
      sb_signals (pick_row r b) = sb_signals b @ [NodeSelected (nr_node_id (sb_rows b ! r))]" if "r < length (sb_rows b)" for r
    by (rule pick_accepted(2) [OF inv assms(4) that])
  show "\<exists>k c n. sb_selected_node_id b = Some k \<and>
      sb_signals (press_save_alias b) = sb_signals b @ [AliasRequested k (sb_alias_edit b)] \<and>
      ask_controller e (AliasRequested k (sb_alias_edit b)) a = (Inr (), c) \<and>
      map_of (sm_nodes (ap_session_index c)) k = Some n \<and> ns_alias n = str_strip (sb_alias_edit b) \<and>
      shows_inventory c (heard a c (press_save_alias b))" if "sb_save_enabled b"
    using save_accepted [OF inv assms(4) ok that, of e] by blast
  show "\<exists>c. ask_controller e (RemoveRequested (nr_node_id i)) a = (Inr (), c) \<and>
      map_of (sm_nodes (ap_session_index c)) (nr_node_id i) = None \<and> shows_inventory c (heard a c b)"
    if "i \<in> set (sb_rows b)" "context_menu_for (Some i) \<noteq> None" for i
  proof -
    have "context_menu_for (Some i) = Some (nr_node_id i)" using that(2) by (auto simp: context_menu_for_def split: if_splits)
    then show ?thesis by (rule menu_accepted [OF inv assms(4) that(1)])
  qed
qed

theorem sidebar_requests_accepted_witness:
  "\<exists>(a :: (bytes list, (bytes \<times> pystr \<times> int) list) app) b. sidebar_reach b \<and> shows_inventory a b \<and>
     session_keys a = [lit ''cdc:COM3''] \<and> sb_selected_node_id b = Some (lit ''cdc:COM3'')"
proof -
  obtain a0 :: "(bytes list, (bytes \<times> pystr \<times> int) list) app" where a0: "AppController_init [] = Inr a0"
    by (simp add: AppController_init_def NodeSessionManager_init_def MAXIMUM_WIFI_SESSIONS_def)
  obtain a where a: "run_slot sample_app_env (ConnectDevice (lit ''COM3'')) a0 = (Inr (), a)" "session_keys a = [lit ''cdc:COM3'']"
    using sample_connect [OF a0] by blast
  have r: "app_reach a0 a" by (rule app_reach.step [OF app_reach.refl app_step.slot [OF _ a(1)]]) (simp add: slot_ok_def)
  define b where "b = set_nodes (summaries (ap_session_index a)) NodeSidebar_init"
  have b: "sidebar_reach b" unfolding b_def by (rule sidebar_reach.step [OF sidebar_reach.init sidebar_step.refresh])
  have s: "shows_inventory a b" by (simp add: b_def shows_inventory_def set_nodes_def Let_def)
  have inv: "app_inv a" by (rule init_reach_inv [OF a0 r])
  then have c: "core {} a" by (simp add: app_inv_def)
  have "get_session (lit ''cdc:COM3'') a \<noteq> None" using get_session_keys [of "lit ''cdc:COM3''" a] a(2) by simp
  then obtain n where n: "map_of (sm_nodes (ap_session_index a)) (lit ''cdc:COM3'') = Some n" "ns_connection_state n = CONNECTED"
    using coreD(8) [OF c] by (auto simp: shown_def node_shows_def)
  moreover have "ns_node_id n = lit ''cdc:COM3''" using n(1) coreD(1) [OF c] by (auto simp: sm_inv_def node_ok_def)
  ultimately have "n \<in> set (summaries (ap_session_index a))" using summaries_mem [OF coreD(1) [OF c]] by simp
  then have sel: "sb_selected_node_id b \<noteq> None"
    unfolding b_def by (rule refresh_finds_target) (simp add: n(2) ONLINE_STATES_def)
  have "get_session (the (sb_selected_node_id b)) a \<noteq> None"
    using sidebar_requests_accepted [OF a0 r b s, of sample_app_env] sel by blast
  then have "sb_selected_node_id b = Some (lit ''cdc:COM3'')"
    using sel a(2) get_session_keys [of "the (sb_selected_node_id b)" a] by auto
  then show ?thesis using a(2) b s by blast
qed

section \<open>The panel and the server\<close>

text \<open>A configuration the panel builds is a checked one, so neither the listener nor the wake service refuses it.\<close>

lemma server_config_checked:
  assumes "server_config p = Inr c"
  shows "WifiServerConfig_check c = Inr ()"
  using assms by (auto simp: server_config_def Let_def rbind_Inr_iff split: option.splits)

text \<open>
  With the field for the expected address empty, a refresh copies the address of the first interface into it, although
  another one is selected afterwards: the configuration of the panel is then refused.
\<close>

lemma stale_expected_address:
  fixes p :: wifi_panel
  assumes "wp_expected_ipv4 p = []" and "selected_ipv4 p = ni_ipv4 j" and "ni_ipv4 i \<noteq> ni_ipv4 j" and "str_strip (ni_ipv4 i) \<noteq> []"
    and "wp_current p \<noteq> None"
  shows "wp_expected_ipv4 (set_network_interfaces [i, j] p) = ni_ipv4 i" "selected_ipv4 (set_network_interfaces [i, j] p) = ni_ipv4 j"
proof -
  define l m where "l = (interface_label i, Some i)" and "m = (interface_label j, Some j)"
  have nil: "str_strip [] = []" by (simp add: str_strip_def strip_by_def rstrip_by_def)
  have "add_interface l (set_current_interface None (p\<lparr>wp_interfaces := []\<rparr>)) =
      p\<lparr>wp_interfaces := [l], wp_current := Some 0, wp_expected_ipv4 := ni_ipv4 i\<rparr>"
    using assms(1,5) nil by (simp add: add_interface_def set_current_interface_def copy_selected_ipv4_def selected_ipv4_def
        current_interface_def l_def)
  then have 1: "fold (\<lambda>i. add_interface (interface_label i, Some i)) [i, j] (set_current_interface None (p\<lparr>wp_interfaces := []\<rparr>)) =
      p\<lparr>wp_interfaces := [l, m], wp_current := Some 0, wp_expected_ipv4 := ni_ipv4 i\<rparr>" (is "_ = ?q")
    by (simp add: add_interface_def l_def m_def)
  have "row_with_ipv4 (ni_ipv4 j) ?q = Some 1" using assms(3) by (simp add: row_with_ipv4_def l_def m_def upt_rec)
  then have "choose_ipv4 (ni_ipv4 j) ?q = ?q\<lparr>wp_current := Some 1\<rparr>"
    using assms(4) by (simp add: choose_ipv4_def set_current_interface_def copy_selected_ipv4_def)
  then have "set_network_interfaces [i, j] p = ?q\<lparr>wp_current := Some 1\<rparr>"
    using assms(2,4) unfolding set_network_interfaces_def Let_def 1 by (simp add: copy_selected_ipv4_def)
  then show "wp_expected_ipv4 (set_network_interfaces [i, j] p) = ni_ipv4 i" "selected_ipv4 (set_network_interfaces [i, j] p) = ni_ipv4 j"
    by (simp_all add: selected_ipv4_def current_interface_def m_def)
qed

end
