(* ===== verification/OtaDialog.thy ===== *)
theory OtaDialog
  imports AppSystem
begin

text \<open>
  The update dialog of \<^verbatim>\<open>presentation/ota_dialog.py\<close>: the attributes of the dialog, the texts and the enabled flags
  of its widgets, and its signals as a list. A click reaches a slot only while its button is enabled, an edit
  only while its field is. At the end the dialog is put next to the application controller, whose signals it
  shows.
\<close>

section \<open>Widgets\<close>

datatype dialog_mode = OtaMode | BinMode

datatype dialog_signal = UploadRequested pystr ota_package | CancelRequested pystr

text \<open>
  A progress bar keeps its value within its range: \<^verbatim>\<open>setRange\<close> rewinds it when the value falls outside, and
  \<^verbatim>\<open>setValue\<close> ignores a value outside; \<open>None\<close> is the rewound bar.
\<close>

record progress_bar =
  pg_minimum :: nat
  pg_maximum :: nat
  pg_value :: "nat option"

definition set_range :: "nat \<Rightarrow> nat \<Rightarrow> progress_bar \<Rightarrow> progress_bar" where
  "set_range lo hi b =
     \<lparr>pg_minimum = lo, pg_maximum = max lo hi,
      pg_value = (case pg_value b of Some v \<Rightarrow> if lo \<le> v \<and> v \<le> max lo hi then Some v else None | None \<Rightarrow> None)\<rparr>"

definition set_value :: "nat \<Rightarrow> progress_bar \<Rightarrow> progress_bar" where
  "set_value v b = (if pg_minimum b \<le> v \<and> v \<le> pg_maximum b then b\<lparr>pg_value := Some v\<rparr> else b)"

record ota_dialog =
  od_node_id :: "pystr option"
  od_selected_path :: "pystr option"
  od_package :: "ota_package option"
  od_image_bytes :: "bytes option"
  od_mode :: "dialog_mode option"
  od_uploading :: bool
  od_node_label :: pystr
  od_package_edit :: pystr
  od_version_edit :: pystr
  od_version_enabled :: bool
  od_version_hint :: pystr
  od_summary_label :: pystr
  od_status_label :: pystr
  od_progress_bar :: progress_bar
  od_start_enabled :: bool
  od_select_enabled :: bool
  od_cancel_enabled :: bool
  od_signals :: "dialog_signal list"

definition DEFAULT_VERSION :: pystr where "DEFAULT_VERSION = lit ''0.0.0''"
definition TARGET_TEXT :: pystr where "TARGET_TEXT = lit ''F407VE-JY-I3DWB''"

definition TERMINAL_STATUSES :: "string list" where
  "TERMINAL_STATUSES = [''FAILED'', ''CANCELLED'', ''RECONNECTED'', ''RECONNECT_TIMEOUT'', ''SOURCE_REJECTED'',
     ''PACKAGE_REJECTED'']"

definition OtaDialog_init :: ota_dialog where
  "OtaDialog_init =
     \<lparr>od_node_id = None, od_selected_path = None, od_package = None, od_image_bytes = None, od_mode = None,
      od_uploading = False, od_node_label = lit ''TARGET '' @ [0x2014], od_package_edit = [], od_version_edit = [],
      od_version_enabled = False, od_version_hint = [0x9009, 0x62e9] @ lit '' .ota '' @ [0x65f6, 0x7248, 0x672c, 0x53d6, 0x81ea] @ lit '' manifest'',
      od_summary_label = [0x672a, 0x9009, 0x62e9, 0x56fa, 0x4ef6], od_status_label = lit ''STATUS IDLE'',
      od_progress_bar = \<lparr>pg_minimum = 0, pg_maximum = 1000, pg_value = Some 0\<rparr>, od_start_enabled = False,
      od_select_enabled = True, od_cancel_enabled = False, od_signals = []\<rparr>"

section \<open>Texts\<close>

text \<open>\<^verbatim>\<open>f"{n:,}"\<close>.\<close>

fun group_digits :: "nat list \<Rightarrow> nat list" where
  "group_digits (a # b # c # d # ds) = a # b # c # 44 # group_digits (d # ds)"
| "group_digits ds = ds"

definition thousands :: "nat \<Rightarrow> pystr" where
  "thousands n = rev (group_digits (rev (dec_digits n)))"

definition render_summary :: "pystr \<Rightarrow> nat \<Rightarrow> pystr \<Rightarrow> pystr" where
  "render_summary version size_bytes crc =
     lit ''TARGET '' @ TARGET_TEXT @ [10] @ lit ''VERSION '' @ version @ [10] @
     lit ''IMAGE SIZE '' @ thousands size_bytes @ lit '' bytes'' @ [10] @ lit ''IMAGE CRC32 '' @ crc"

definition status_text :: "pystr \<Rightarrow> pystr" where
  "status_text t = lit ''STATUS '' @ t"

definition chosen_version :: "ota_dialog \<Rightarrow> pystr" where
  "chosen_version d = (let v = str_strip (od_version_edit d) in if v = [] then DEFAULT_VERSION else v)"

section \<open>Selection\<close>

definition refresh_start_enabled :: "ota_dialog \<Rightarrow> ota_dialog" where
  "refresh_start_enabled d =
     d\<lparr>od_start_enabled := od_node_id d \<noteq> None \<and> od_mode d \<noteq> None \<and> \<not> od_uploading d\<rparr>"

definition refresh_preview :: "ota_dialog \<Rightarrow> ota_dialog" where
  "refresh_preview d =
     (case od_image_bytes d of
        Some img \<Rightarrow>
          if od_mode d \<noteq> Some BinMode then d
          else d\<lparr>od_summary_label := render_summary (chosen_version d) (length img) (format_crc (int (crc32 img)))\<rparr>
      | None \<Rightarrow> d)"

text \<open>\<^verbatim>\<open>version_edit.setText\<close>, whose \<^verbatim>\<open>textChanged\<close> is connected to the preview.\<close>

definition set_version_text :: "pystr \<Rightarrow> ota_dialog \<Rightarrow> ota_dialog" where
  "set_version_text t d =
     (if t = od_version_edit d then d else refresh_preview (d\<lparr>od_version_edit := t\<rparr>))"

definition reject_selection :: "pystr \<Rightarrow> ota_dialog \<Rightarrow> ota_dialog" where
  "reject_selection message d =
     refresh_start_enabled
       (d\<lparr>od_mode := None, od_package := None, od_image_bytes := None, od_version_enabled := False,
          od_summary_label := message, od_status_label := lit ''STATUS PACKAGE REJECTED''\<rparr>)"

definition is_package_error :: "exn \<Rightarrow> bool" where
  "is_package_error x \<longleftrightarrow> (case x of OtaPackageError _ \<Rightarrow> True | _ \<Rightarrow> is_os_error x)"

definition select_package :: "ota_package \<Rightarrow> ota_dialog \<Rightarrow> ota_dialog" where
  "select_package p d =
     (let d = set_version_text (version_text p)
            (d\<lparr>od_mode := Some OtaMode, od_package := Some p, od_image_bytes := None, od_version_enabled := False\<rparr>)
      in refresh_start_enabled
        (d\<lparr>od_version_hint := [0x7248, 0x672c, 0x53d6, 0x81ea] @ lit '' .ota manifest'',
           od_summary_label := render_summary (version_text p) (mf_image_size (op_manifest p)) (crc_text p),
           od_status_label := lit ''STATUS '' @ [0x5305, 0x81ea, 0x68c0, 0x901a, 0x8fc7, 0xff0c, 0x53ef, 0x4ee5, 0x5f00, 0x59cb, 0x4e0a, 0x4f20]\<rparr>))"

definition select_image :: "pystr \<Rightarrow> bytes \<Rightarrow> ota_dialog \<Rightarrow> ota_dialog" where
  "select_image name raw d =
     (let parsed = (case version_from_text name of Some v \<Rightarrow> v | None \<Rightarrow> DEFAULT_VERSION);
          d = set_version_text parsed
            (d\<lparr>od_mode := Some BinMode, od_package := None, od_image_bytes := Some raw, od_version_enabled := True\<rparr>)
      in refresh_start_enabled
        ((refresh_preview (d\<lparr>od_version_hint := [0x4ece, 0x6587, 0x4ef6, 0x540d, 0x89e3, 0x6790, 0xff0c, 0x53ef, 0x4fee, 0x6539]\<rparr>))
          \<lparr>od_status_label := lit ''STATUS '' @ [0x5df2, 0x8bfb, 0x53d6] @ lit '' bin'' @ [0xff0c, 0x5c06, 0x81ea, 0x52a8, 0x6253, 0x5305, 0x4e3a] @ lit '' .ota''\<rparr>))"

text \<open>
  \<^verbatim>\<open>load_package_summary\<close>: \<open>raw\<close> is what the first reading of the file yields, \<open>file\<close> the file as \<^verbatim>\<open>load_package\<close> finds
  it afterwards.
\<close>

definition load_package_summary :: "pystr \<Rightarrow> bytes res \<Rightarrow> path_file \<Rightarrow> (ota_dialog, bool) io" where
  "load_package_summary path raw file d =
     (let d = d\<lparr>od_selected_path := Some path, od_package_edit := path\<rparr>;
          unusable = [0x5305, 0x81ea, 0x68c0, 0x5931, 0x8d25, 0xff1a]
      in case raw of
        Inl x \<Rightarrow>
          if is_os_error x then (Inr False, reject_selection ([0x65e0, 0x6cd5, 0x8bfb, 0x53d6, 0x6587, 0x4ef6, 0xff1a] @ exn_text x) d) else (Inl x, d)
      | Inr raw \<Rightarrow>
          if is_package_image raw
          then (case load_package file of
                  Inl x \<Rightarrow> if is_package_error x then (Inr False, reject_selection (unusable @ exn_text x) d) else (Inl x, d)
                | Inr p \<Rightarrow> (Inr True, select_package p d))
          else if lower_ascii (path_suffix (pf_name file)) = lit ''.ota''
          then (case load_package file of
                  Inl x \<Rightarrow> if is_package_error x then (Inr False, reject_selection (unusable @ exn_text x) d) else (Inl x, d)
                | Inr p \<Rightarrow> (Inr False, reject_selection ([0x65e0, 0x6cd5, 0x8bc6, 0x522b, 0x7684] @ lit '' .ota '' @ [0x5305]) d))
          else if \<not> (MIN_APP_IMAGE_SIZE \<le> length raw \<and> length raw \<le> APP_FLASH_SIZE)
          then (Inr False, reject_selection ([0x955c, 0x50cf, 0x5927, 0x5c0f] @ lit '' '' @ dec_digits (length raw) @ lit '' '' @ [0x8d85, 0x51fa, 0x8303, 0x56f4] @ lit '' '' @ lit ''('' @
                  dec_digits MIN_APP_IMAGE_SIZE @ lit ''..'' @ dec_digits APP_FLASH_SIZE @ lit '' '' @ [0x5b57, 0x8282] @ lit '')'') d)
          else (Inr True, select_image (pf_name file) raw d))"

definition set_node :: "pystr option \<Rightarrow> ota_dialog \<Rightarrow> ota_dialog" where
  "set_node k d =
     refresh_start_enabled (d\<lparr>od_node_id := k,
       od_node_label := lit ''TARGET '' @ (case k of Some n \<Rightarrow> if n = [] then [0x2014] else n | None \<Rightarrow> [0x2014])\<rparr>)"

section \<open>Upload\<close>

definition build_current_package :: "ota_dialog \<Rightarrow> ota_package res" where
  "build_current_package d =
     (case (od_mode d, od_package d, od_image_bytes d) of
        (Some OtaMode, Some p, _) \<Rightarrow> Inr p
      | (Some BinMode, _, Some img) \<Rightarrow>
          build_package img (VersionText (chosen_version d)) (VersionText (lit ''1.0.0'')) 0
      | _ \<Rightarrow> Inl (OtaPackageError ''no firmware selected''))"

definition emit_dialog :: "dialog_signal \<Rightarrow> ota_dialog \<Rightarrow> ota_dialog" where
  "emit_dialog s d = d\<lparr>od_signals := od_signals d @ [s]\<rparr>"

definition press_start :: "(ota_dialog, unit) io" where
  "press_start d =
     (case od_node_id d of
        None \<Rightarrow> (Inr (), d)
      | Some k \<Rightarrow>
          if od_uploading d \<or> od_mode d = None then (Inr (), d)
          else case build_current_package d of
            Inl x \<Rightarrow>
              if (case x of OtaPackageError _ \<Rightarrow> True | _ \<Rightarrow> False)
              then (Inr (), d\<lparr>od_status_label := lit ''STATUS '' @ [0x6253, 0x5305, 0x5931, 0x8d25, 0xff1a] @ exn_text x\<rparr>) else (Inl x, d)
          | Inr p \<Rightarrow>
              (Inr (), emit_dialog (UploadRequested k p)
                (d\<lparr>od_uploading := True, od_start_enabled := False, od_select_enabled := False,
                   od_version_enabled := False, od_cancel_enabled := True,
                   od_progress_bar := set_range 0 0 (od_progress_bar d),
                   od_status_label := status_text (describe_phase (Some (lit ''HANDSHAKE'')))\<rparr>)))"

definition press_cancel :: "ota_dialog \<Rightarrow> ota_dialog" where
  "press_cancel d =
     (case od_node_id d of None \<Rightarrow> d | Some k \<Rightarrow> emit_dialog (CancelRequested k) d)
       \<lparr>od_status_label := lit ''STATUS '' @ [0x6b63, 0x5728, 0x53d6, 0x6d88, 0x2026]\<rparr>"

section \<open>What the controller reports\<close>

definition show_progress :: "pystr \<Rightarrow> nat \<Rightarrow> nat \<Rightarrow> pystr \<Rightarrow> ota_dialog \<Rightarrow> ota_dialog" where
  "show_progress k sent_bytes total_bytes phase d =
     (if Some k \<noteq> od_node_id d then d
      else if phase = lit ''DATA'' \<and> 0 < total_bytes
      then d\<lparr>od_progress_bar := set_value (min sent_bytes total_bytes) (set_range 0 total_bytes (od_progress_bar d)),
             od_status_label := status_text (describe_phase (Some phase) @ lit '' '' @ [0x00b7] @ lit '' '' @ thousands sent_bytes @ lit ''/'' @
               thousands total_bytes @ lit '' '' @ [0x5b57, 0x8282])\<rparr>
      else d\<lparr>od_progress_bar := set_range 0 0 (od_progress_bar d),
             od_status_label := status_text (describe_phase (Some phase))\<rparr>)"

definition show_staged :: "pystr \<Rightarrow> pystr \<Rightarrow> pystr \<Rightarrow> bool \<Rightarrow> ota_dialog \<Rightarrow> ota_dialog" where
  "show_staged k version crc agrees d =
     (if Some k \<noteq> od_node_id d then d
      else d\<lparr>od_progress_bar := set_value 1000 (set_range 0 1000 (od_progress_bar d)),
             od_status_label := status_text ([0x5df2, 0x6682, 0x5b58] @ lit '' VERSION='' @ version @ lit '' CRC='' @ crc @ lit '' '' @ [0x00b7] @ lit '' '' @
               (if agrees then [0x4e0e, 0x672c, 0x5730, 0x5305, 0x4e00, 0x81f4] else [0x8b66, 0x544a, 0xff1a, 0x4e0e, 0x672c, 0x5730, 0x5305, 0x4e0d, 0x4e00, 0x81f4]))\<rparr>)"

definition finish_upload :: "ota_dialog \<Rightarrow> ota_dialog" where
  "finish_upload d =
     refresh_start_enabled
       (d\<lparr>od_uploading := False, od_progress_bar := set_range 0 1000 (od_progress_bar d), od_cancel_enabled := False,
          od_select_enabled := True,
          od_version_enabled := (if od_mode d = Some BinMode then True else od_version_enabled d)\<rparr>)"

definition show_state :: "pystr \<Rightarrow> string \<Rightarrow> pystr \<Rightarrow> ota_dialog \<Rightarrow> ota_dialog" where
  "show_state k status detail d =
     (if Some k \<noteq> od_node_id d then d
      else
        let d = (if detail = [] then d else d\<lparr>od_status_label := status_text detail\<rparr>)
        in if status \<in> set TERMINAL_STATUSES then finish_upload d
           else if status = ''WAIT_RESTART''
           then d\<lparr>od_cancel_enabled := False, od_progress_bar := set_range 0 0 (od_progress_bar d)\<rparr>
           else d)"

definition reset_dialog :: "ota_dialog \<Rightarrow> ota_dialog" where
  "reset_dialog d =
     refresh_start_enabled
       ((set_version_text [] (d\<lparr>od_selected_path := None, od_package := None, od_image_bytes := None, od_mode := None,
           od_uploading := False, od_package_edit := []\<rparr>))
        \<lparr>od_version_enabled := False, od_version_hint := [0x9009, 0x62e9] @ lit '' .ota '' @ [0x65f6, 0x7248, 0x672c, 0x53d6, 0x81ea] @ lit '' manifest'',
         od_summary_label := [0x672a, 0x9009, 0x62e9, 0x56fa, 0x4ef6], od_status_label := lit ''STATUS IDLE'',
         od_progress_bar := set_value 0 (set_range 0 1000 (od_progress_bar d)),
         od_cancel_enabled := False, od_select_enabled := True\<rparr>)"

text \<open>\<^verbatim>\<open>closeEvent\<close>: whether the dialog closes, and its state; \<open>confirmed\<close> is the answer to the question.\<close>

definition close_dialog :: "bool \<Rightarrow> ota_dialog \<Rightarrow> bool \<times> ota_dialog" where
  "close_dialog confirmed d =
     (if od_uploading d then (if confirmed then (True, press_cancel d) else (False, d)) else (True, d))"

section \<open>Steps and their invariant\<close>

inductive dialog_step :: "ota_dialog \<Rightarrow> ota_dialog \<Rightarrow> bool" where
  choose: "od_select_enabled d \<Longrightarrow> load_package_summary path raw file d = (Inr usable, d') \<Longrightarrow> dialog_step d d'"
| edit: "od_version_enabled d \<Longrightarrow> dialog_step d (set_version_text t d)"
| start: "od_start_enabled d \<Longrightarrow> press_start d = (Inr (), d') \<Longrightarrow> dialog_step d d'"
| cancel: "od_cancel_enabled d \<Longrightarrow> dialog_step d (press_cancel d)"
| bind_node: "dialog_step d (set_node k d)"
| progressed: "dialog_step d (show_progress k sent_bytes total_bytes phase d)"
| staged: "dialog_step d (show_staged k version crc agrees d)"
| reported: "dialog_step d (show_state k status detail d)"
| reset: "dialog_step d (reset_dialog d)"
| closed: "dialog_step d (snd (close_dialog confirmed d))"

inductive dialog_reach :: "ota_dialog \<Rightarrow> bool" where
  init: "dialog_reach OtaDialog_init"
| step: "dialog_reach d \<Longrightarrow> dialog_step d d' \<Longrightarrow> dialog_reach d'"

definition validated :: "ota_package \<Rightarrow> bool" where
  "validated p \<longleftrightarrow> validate_package (op_data p) = Inr (op_manifest p)"

definition request_ok :: "dialog_signal \<Rightarrow> bool" where
  "request_ok s = (case s of UploadRequested k p \<Rightarrow> validated p | CancelRequested k \<Rightarrow> True)"

fun selection_ok :: "dialog_mode option \<Rightarrow> ota_package option \<Rightarrow> bytes option \<Rightarrow> bool \<Rightarrow> bool" where
  "selection_ok None package img uploading = (\<not> uploading)"
| "selection_ok (Some OtaMode) package img uploading = (case package of None \<Rightarrow> False | Some p \<Rightarrow> validated p)"
| "selection_ok (Some BinMode) package img uploading =
     (case img of None \<Rightarrow> False | Some i \<Rightarrow> MIN_APP_IMAGE_SIZE \<le> length i \<and> length i \<le> APP_FLASH_SIZE)"

definition buttons_ok :: "ota_dialog \<Rightarrow> bool" where
  "buttons_ok d \<longleftrightarrow>
     od_start_enabled d = (od_node_id d \<noteq> None \<and> od_mode d \<noteq> None \<and> \<not> od_uploading d) \<and>
     od_select_enabled d = (\<not> od_uploading d) \<and> (od_cancel_enabled d \<longrightarrow> od_uploading d) \<and>
     (od_version_enabled d \<longrightarrow> od_mode d = Some BinMode \<and> \<not> od_uploading d)"

definition dialog_ok :: "ota_dialog \<Rightarrow> bool" where
  "dialog_ok d \<longleftrightarrow> selection_ok (od_mode d) (od_package d) (od_image_bytes d) (od_uploading d) \<and> buttons_ok d \<and> list_all request_ok (od_signals d)"

lemma preview_fields [simp]:
  "od_mode (refresh_preview d) = od_mode d" "od_package (refresh_preview d) = od_package d"
  "od_image_bytes (refresh_preview d) = od_image_bytes d" "od_uploading (refresh_preview d) = od_uploading d"
  "od_node_id (refresh_preview d) = od_node_id d" "od_start_enabled (refresh_preview d) = od_start_enabled d"
  "od_select_enabled (refresh_preview d) = od_select_enabled d" "od_cancel_enabled (refresh_preview d) = od_cancel_enabled d"
  "od_version_enabled (refresh_preview d) = od_version_enabled d" "od_signals (refresh_preview d) = od_signals d"
  by (simp_all add: refresh_preview_def split: option.split)

lemma version_fields [simp]:
  "od_mode (set_version_text t d) = od_mode d" "od_package (set_version_text t d) = od_package d"
  "od_image_bytes (set_version_text t d) = od_image_bytes d" "od_uploading (set_version_text t d) = od_uploading d"
  "od_node_id (set_version_text t d) = od_node_id d" "od_start_enabled (set_version_text t d) = od_start_enabled d"
  "od_select_enabled (set_version_text t d) = od_select_enabled d" "od_cancel_enabled (set_version_text t d) = od_cancel_enabled d"
  "od_version_enabled (set_version_text t d) = od_version_enabled d" "od_signals (set_version_text t d) = od_signals d"
  by (simp_all add: set_version_text_def)

lemmas dialog_defs = dialog_ok_def buttons_ok_def refresh_start_enabled_def

lemma load_package_validated: "load_package file = Inr p \<Longrightarrow> validated p"
  by (auto simp: load_package_def validated_def rbind_Inr_iff split: if_splits sum.splits exn.splits)

lemma reject_ok: "dialog_ok d \<Longrightarrow> \<not> od_uploading d \<Longrightarrow> dialog_ok (reject_selection m d)"
  by (simp add: dialog_defs reject_selection_def)

lemma select_package_ok: "dialog_ok d \<Longrightarrow> \<not> od_uploading d \<Longrightarrow> validated p \<Longrightarrow> dialog_ok (select_package p d)"
  by (simp add: dialog_defs select_package_def Let_def)

lemma select_image_ok:
  "dialog_ok d \<Longrightarrow> \<not> od_uploading d \<Longrightarrow> MIN_APP_IMAGE_SIZE \<le> length raw \<Longrightarrow> length raw \<le> APP_FLASH_SIZE \<Longrightarrow>
     dialog_ok (select_image name raw d)"
  by (simp add: dialog_defs select_image_def Let_def)

lemma load_ok:
  assumes "load_package_summary path raw file d = (r, d')" and "dialog_ok d" and "\<not> od_uploading d"
  shows "dialog_ok d'"
proof -
  define d1 where "d1 = d\<lparr>od_selected_path := Some path, od_package_edit := path\<rparr>"
  have d1: "dialog_ok d1" "\<not> od_uploading d1" using assms(2,3) by (simp_all add: d1_def dialog_defs)
  show ?thesis
    using assms(1) d1 reject_ok [OF d1] select_package_ok [OF d1] select_image_ok [OF d1]
    unfolding load_package_summary_def Let_def d1_def [symmetric]
    by (auto simp: not_le dest: load_package_validated split: sum.splits if_splits)
qed

lemma build_validated: "dialog_ok d \<Longrightarrow> build_current_package d = Inr p \<Longrightarrow> validated p"
  by (auto simp: build_current_package_def build_package_def validated_def rbind_Inr_iff dialog_ok_def
      split: option.splits dialog_mode.splits)

lemma selection_ok_uploading: "m \<noteq> None \<Longrightarrow> selection_ok m p i u \<Longrightarrow> selection_ok m p i v"
  by (cases m; cases "the m") auto

lemma start_ok: "press_start d = (r, d') \<Longrightarrow> dialog_ok d \<Longrightarrow> dialog_ok d'"
  using build_validated [of d]
  by (auto simp: press_start_def emit_dialog_def dialog_defs request_ok_def intro: selection_ok_uploading
      split: option.splits if_splits sum.splits)

lemma cancel_ok: "dialog_ok d \<Longrightarrow> dialog_ok (press_cancel d)"
  by (auto simp: press_cancel_def emit_dialog_def dialog_defs request_ok_def split: option.split)

lemma finish_ok: "dialog_ok d \<Longrightarrow> dialog_ok (finish_upload d)"
proof -
  have "selection_ok m p i u \<Longrightarrow> selection_ok m p i False" for m p i u by (cases m; cases "the m") auto
  then show "dialog_ok d \<Longrightarrow> dialog_ok (finish_upload d)" by (auto simp: dialog_defs finish_upload_def)
qed

lemma status_ok: "dialog_ok (d\<lparr>od_status_label := t\<rparr>) = dialog_ok d" "dialog_ok (d\<lparr>od_progress_bar := b\<rparr>) = dialog_ok d"
  by (simp_all add: dialog_defs)

lemma show_state_ok: "dialog_ok d \<Longrightarrow> dialog_ok (show_state k status detail d)"
proof -
  assume d: "dialog_ok d"
  then have "dialog_ok (d\<lparr>od_cancel_enabled := False\<rparr>)" by (simp add: dialog_defs)
  moreover have "dialog_ok (d\<lparr>od_status_label := t, od_cancel_enabled := False\<rparr>)" for t using d by (simp add: dialog_defs)
  ultimately show ?thesis using d by (simp add: show_state_def Let_def finish_ok status_ok)
qed

lemma dialog_step_ok: "dialog_step d d' \<Longrightarrow> dialog_ok d \<Longrightarrow> dialog_ok d'"
proof (induction rule: dialog_step.induct)
  case (choose d path raw found usable d')
  then have "\<not> od_uploading d" by (simp add: dialog_ok_def buttons_ok_def)
  then show ?case by (rule load_ok [OF choose(2,3)])
next
  case (closed d confirmed)
  then show ?case by (simp add: close_dialog_def cancel_ok)
qed (simp_all add: start_ok cancel_ok show_state_ok, auto simp: dialog_defs set_node_def show_progress_def show_staged_def
    reset_dialog_def)

lemma dialog_reach_ok: "dialog_reach d \<Longrightarrow> dialog_ok d"
proof (induction rule: dialog_reach.induct)
  case init
  show ?case by (simp add: OtaDialog_init_def dialog_defs)
qed (rule dialog_step_ok)

text \<open>Building a package fails with an \<^verbatim>\<open>OtaPackageError\<close> only, so a press of the start button never raises.\<close>

lemma version_value_error: "version_value a = Inl x \<Longrightarrow> \<exists>m. x = OtaPackageError m"
  by (auto simp: version_value_def version_of_seq_def Let_def split: version_arg.splits if_splits option.splits list.splits)

lemma pack_manifest_error: "pack_manifest a = Inl x \<Longrightarrow> \<exists>m. x = OtaPackageError m"
  unfolding pack_manifest_def Let_def
  by (auto simp: rbind_Inl_iff version_value_error simp del: to_le.simps split: if_splits dest: version_value_error)

lemma validate_error: "validate_package p = Inl x \<Longrightarrow> \<exists>m. x = OtaPackageError m"
  by (auto simp: validate_package_def parse_manifest_def Let_def rbind_Inl_iff split: if_splits)

lemma build_error: "build_current_package d = Inl x \<Longrightarrow> \<exists>m. x = OtaPackageError m"
  by (auto simp: build_current_package_def build_package_def pack_ota_def rbind_Inl_iff
      split: option.splits dialog_mode.splits dest: pack_manifest_error validate_error)

lemma press_start_returns: "fst (press_start d) = Inr ()"
  using build_error [of d] by (auto simp: press_start_def split: option.split sum.split)

lemma packed_image: "build_package img v mi g = Inr p \<Longrightarrow> package_image p = img"
proof -
  assume b: "build_package img v mi g = Inr p"
  then obtain h where h: "op_data p = h @ img" "length h = 512"
    by (auto simp: build_package_def pack_ota_def rbind_Inr_iff pack_manifest_def Let_def const_simps
        simp del: to_le.simps split: if_splits)
  then show ?thesis by (simp add: package_image_def const_simps)
qed

lemma press_start_sends:
  assumes "dialog_ok d" and "od_start_enabled d"
  shows "od_signals (snd (press_start d)) = od_signals d \<and> \<not> od_uploading (snd (press_start d)) \<or>
    (\<exists>k p. od_node_id d = Some k \<and> od_signals (snd (press_start d)) = od_signals d @ [UploadRequested k p] \<and>
      od_uploading (snd (press_start d)) \<and> validated p \<and>
      package_image p = (case od_mode d of Some BinMode \<Rightarrow> the (od_image_bytes d) | _ \<Rightarrow> package_image (the (od_package d))))"
proof -
  obtain k where k: "od_node_id d = Some k" "od_mode d \<noteq> None" "\<not> od_uploading d" using assms by (auto simp: dialog_defs)
  show ?thesis
  proof (cases "build_current_package d")
    case (Inl x)
    then show ?thesis using k by (auto simp: press_start_def)
  next
    case (Inr p)
    have "package_image p = (case od_mode d of Some BinMode \<Rightarrow> the (od_image_bytes d) | _ \<Rightarrow> package_image (the (od_package d)))"
      using Inr packed_image by (auto simp: build_current_package_def split: option.splits dialog_mode.splits)
    then show ?thesis using k Inr build_validated [OF assms(1) Inr] by (auto simp: press_start_def emit_dialog_def)
  qed
qed

text \<open>
  C37. Whatever the operator chooses, types and presses and whatever the controller reports: the start button is
  enabled exactly when a node and a usable file are chosen and nothing is uploading; pressing it never raises and
  either asks for nothing or asks once for the upload of a package that validates and contains the chosen image; the
  file cannot be changed while an upload runs; and every upload ever asked for was of a validated package.
\<close>

theorem dialog_sends_valid_package:
  assumes "dialog_reach d"
  shows "od_start_enabled d = (od_node_id d \<noteq> None \<and> od_mode d \<noteq> None \<and> \<not> od_uploading d) \<and>
    od_select_enabled d = (\<not> od_uploading d) \<and> list_all request_ok (od_signals d) \<and> fst (press_start d) = Inr () \<and>
    (od_start_enabled d \<longrightarrow> od_signals (snd (press_start d)) = od_signals d \<or>
      (\<exists>k p. od_node_id d = Some k \<and> od_signals (snd (press_start d)) = od_signals d @ [UploadRequested k p] \<and>
        validated p \<and> package_image p =
          (case od_mode d of Some BinMode \<Rightarrow> the (od_image_bytes d) | _ \<Rightarrow> package_image (the (od_package d)))))"
proof -
  have ok: "dialog_ok d" by (rule dialog_reach_ok [OF assms])
  then have "list_all request_ok (od_signals d)" "buttons_ok d" by (simp_all add: dialog_ok_def)
  then show ?thesis
    using press_start_sends [OF ok] press_start_returns [of d] unfolding buttons_ok_def by blast
qed

definition sample_dialog :: ota_dialog where
  "sample_dialog = snd (load_package_summary (lit ''app_1.2.3.bin'') (Inr (replicate 8 0))
     \<lparr>pf_name = lit ''app_1.2.3.bin'', pf_read = Inr (replicate 8 0)\<rparr> (set_node (Some (lit ''gw-1'')) OtaDialog_init))"

lemma sample_dialog_reach: "dialog_reach sample_dialog" "od_start_enabled sample_dialog"
proof -
  let ?d = "set_node (Some (lit ''gw-1'')) OtaDialog_init"
  have r: "dialog_reach ?d" by (rule dialog_reach.step [OF dialog_reach.init dialog_step.bind_node])
  have l: "load_package_summary (lit ''app_1.2.3.bin'') (Inr (replicate 8 0))
     \<lparr>pf_name = lit ''app_1.2.3.bin'', pf_read = Inr (replicate 8 0)\<rparr> ?d = (Inr True, sample_dialog)"
    by (simp add: sample_dialog_def load_package_summary_def Let_def is_package_image_def const_simps path_suffix_def
        lower_ascii_def lit_def)
  have "od_select_enabled ?d" by (simp add: set_node_def refresh_start_enabled_def OtaDialog_init_def)
  then show "dialog_reach sample_dialog" by (rule dialog_reach.step [OF r dialog_step.choose [OF _ l]])
  show "od_start_enabled sample_dialog"
    by (simp add: sample_dialog_def load_package_summary_def Let_def is_package_image_def const_simps path_suffix_def
        lower_ascii_def lit_def select_image_def refresh_start_enabled_def set_node_def OtaDialog_init_def)
qed

theorem dialog_sends_valid_package_witness:
  "dialog_reach sample_dialog \<and> od_start_enabled sample_dialog \<and> fst (press_start sample_dialog) = Inr () \<and>
     od_node_id sample_dialog \<noteq> None"
  using dialog_sends_valid_package [OF sample_dialog_reach(1)] sample_dialog_reach by blast

section \<open>The dialog and the controller\<close>

text \<open>The signals of the controller the dialog is connected to.\<close>

definition shown_text :: "app_text \<Rightarrow> pystr" where
  "shown_text t = (case t of Literal s \<Rightarrow> lit s | Composed s \<Rightarrow> s | TextOf x \<Rightarrow> exn_text x)"

definition hear :: "app_signal \<Rightarrow> ota_dialog \<Rightarrow> ota_dialog" where
  "hear s = (case s of
     OtaProgress k sent_bytes total_bytes phase \<Rightarrow> show_progress k sent_bytes total_bytes phase
   | OtaStaged k version crc agrees \<Rightarrow> show_staged k version crc agrees
   | OtaState k status detail \<Rightarrow> show_state k status (shown_text detail)
   | _ \<Rightarrow> (\<lambda>d. d))"

text \<open>\<^verbatim>\<open>upload_requested\<close> calls \<^verbatim>\<open>start_ota_for\<close>, and the dialog hears what it emits.\<close>

definition request_upload ::
  "('t, 'w) app_env \<Rightarrow> pystr \<Rightarrow> ota_package \<Rightarrow> ota_dialog \<Rightarrow> ('t, 'w) app \<Rightarrow> unit res \<times> ota_dialog \<times> ('t, 'w) app" where
  "request_upload e k p d a =
     (case start_ota_for e k (Inl p) a of
        (r, a') \<Rightarrow> (r, fold hear (drop (length (ap_signals a)) (ap_signals a')) d, a'))"

text \<open>A session that is not a Wi-Fi one is reported, and the dialog is free again.\<close>

lemma rejected_source_frees:
  assumes "get_session k a = Some s" and "ms_transport_kind s \<noteq> WIFI" and "od_node_id d = Some k"
  shows "\<not> od_uploading (fst (snd (request_upload e k p d a)))"
proof -
  have "''SOURCE_REJECTED'' \<in> set TERMINAL_STATUSES" by (simp add: TERMINAL_STATUSES_def)
  then show ?thesis
    using assms by (simp add: request_upload_def start_ota_for_def with_session_def emit_def io_seq.simps io_update_def
        io_bind_def io_return_def hear_def show_state_def Let_def finish_upload_def refresh_start_enabled_def)
qed

text \<open>
  The other refusals are reported as errors only, which the dialog does not hear: it goes on waiting for an upload
  that was never started.
\<close>

lemma refused_start_sticks:
  assumes "get_session k a = Some s" and "ms_transport_kind s = WIFI"
    and "ap_ota_node_id a \<noteq> None \<or> ms_exporting s \<or> ap_recording_active a"
  shows "\<exists>a'. request_upload e k p d a = (Inr (), d, a') \<and> ap_ota_worker a' = ap_ota_worker a"
  using assms by (auto simp: request_upload_def start_ota_for_def with_session_def raise_error_def emit_def io_update_def hear_def)

end
