(* ===== verification/ArchiveView.thy ===== *)
theory ArchiveView
  imports OtaDialog Archive
begin

text \<open>
  The archive page of \<^verbatim>\<open>presentation/archive_view.py\<close>: the table of the devices' storage, the progress of the export
  that runs, and the table of local archives, over the application controller it polls. A table is the data and texts
  of its rows with the current row; answers of message boxes, the clock, the local time of a stamp and the listing of
  the export directory are inputs.
\<close>

section \<open>Texts\<close>

text \<open>\<^verbatim>\<open>f"{x:,.1f}"\<close> and \<^verbatim>\<open>f"{x:04.1f}"\<close> of numbers that are not negative.\<close>

definition tenths :: "float64 \<Rightarrow> nat" where
  "tenths x = nat (round_even (10 * x))"

definition fixed_one :: "float64 \<Rightarrow> pystr" where
  "fixed_one x = thousands (tenths x div 10) @ lit ''.'' @ dec_digits (tenths x mod 10)"

definition zero_padded :: "nat \<Rightarrow> pystr \<Rightarrow> pystr" where
  "zero_padded w t = replicate (w - length t) 48 @ t"

definition human_bytes :: "int option \<Rightarrow> pystr" where
  "human_bytes v =
     (case v of
        None \<Rightarrow> [0x2014]
      | Some n \<Rightarrow>
          let b = of_pyint n;
              k = fdiv b 1024;
              m = fdiv k 1024
          in if b < 1024 then show_int \<lfloor>b\<rfloor> @ lit '' B''
             else if k < 1024 then fixed_one k @ lit '' KiB''
             else if m < 1024 then fixed_one m @ lit '' MiB''
             else fixed_one (fdiv m 1024) @ lit '' GiB'')"

text \<open>\<^verbatim>\<open>divmod\<close> of floats is exact as long as the quotient is below \<open>2 ^ 53\<close>.\<close>

definition human_duration :: "float64 option \<Rightarrow> pystr" where
  "human_duration seconds =
     (case seconds of
        None \<Rightarrow> [0x2014]
      | Some s \<Rightarrow>
          let minutes = nat \<lfloor>s / 60\<rfloor>;
              rest = s - 60 * of_nat minutes
          in if 60 \<le> minutes then dec_digits (minutes div 60) @ lit ''h'' @ zero_padded 2 (dec_digits (minutes mod 60)) @ lit ''m''
             else dec_digits minutes @ lit ''m'' @
               zero_padded 4 (dec_digits (tenths rest div 10) @ lit ''.'' @ dec_digits (tenths rest mod 10)) @ lit ''s'')"

section \<open>The page\<close>

datatype archive_signal =
    ExportRequested pystr | CancelExportRequested pystr | ClearRequested pystr | RefreshRequested | OpenRequested pystr

text \<open>A table: the data of the first column and the texts of each row, and the current row.\<close>

record table =
  tb_rows :: "(pystr \<times> pystr list) list"
  tb_current :: "nat option"

record archive_view =
  av_attached :: bool
  av_export_node_id :: "pystr option"
  av_export_started_ms :: int
  av_last_bytes :: int
  av_last_bytes_ms :: int
  av_speed_bytes_per_s :: float64
  av_records :: table
  av_library :: table
  av_cancel_enabled :: bool
  av_open_enabled :: bool
  av_open_text :: pystr
  av_bar :: progress_bar
  av_bytes_label :: pystr
  av_status_label :: pystr
  av_hint_label :: pystr
  av_poll_timer :: bool
  av_signals :: "archive_signal list"

definition SPEED_EMA_ALPHA :: float64 where "SPEED_EMA_ALPHA = fl (35 / 100)"

definition ArchiveView_init :: archive_view where
  "ArchiveView_init =
     \<lparr>av_attached = False, av_export_node_id = None, av_export_started_ms = 0, av_last_bytes = 0, av_last_bytes_ms = 0,
      av_speed_bytes_per_s = 0, av_records = \<lparr>tb_rows = [], tb_current = None\<rparr>,
      av_library = \<lparr>tb_rows = [], tb_current = None\<rparr>, av_cancel_enabled = False, av_open_enabled = True,
      av_open_text = lit ''OPEN FOR PLAYBACK'', av_bar = \<lparr>pg_minimum = 0, pg_maximum = 1000, pg_value = Some 0\<rparr>,
      av_bytes_label = lit ''0 B / '' @ [0x2014] @ lit '' '' @ [0x00b7] @ lit '' 0 B/s '' @ [0x00b7] @ lit '' elapsed 0.0 s'', av_status_label = lit ''STATUS IDLE'',
      av_hint_label = lit ''no export active'', av_poll_timer = False, av_signals = []\<rparr>"

text \<open>
  \<^verbatim>\<open>setRowCount\<close> and filling: the current row keeps its place; if it is cut off, the last row that is left becomes
  current.
\<close>

definition fill_table :: "(pystr \<times> pystr list) list \<Rightarrow> table \<Rightarrow> table" where
  "fill_table rows t =
     \<lparr>tb_rows = rows,
      tb_current = (case tb_current t of
        None \<Rightarrow> None
      | Some r \<Rightarrow> if r < length rows then Some r else if rows = [] then None else Some (length rows - 1))\<rparr>"

definition selected_row :: "table \<Rightarrow> (pystr \<times> pystr list) option" where
  "selected_row t =
     (case tb_current t of
        None \<Rightarrow> None | Some r \<Rightarrow> if r < length (tb_rows t) then Some (tb_rows t ! r) else None)"

definition selected_record_node :: "archive_view \<Rightarrow> pystr option" where
  "selected_record_node v = map_option fst (selected_row (av_records v))"

definition selected_library_path :: "archive_view \<Rightarrow> pystr option" where
  "selected_library_path v = map_option fst (selected_row (av_library v))"

definition select_record_node :: "pystr \<Rightarrow> table \<Rightarrow> table" where
  "select_record_node k t =
     (case List.find (\<lambda>r. fst (tb_rows t ! r) = k) [0..<length (tb_rows t)] of
        Some r \<Rightarrow> t\<lparr>tb_current := Some r\<rparr> | None \<Rightarrow> t)"

definition nat_of :: "cs_value \<Rightarrow> nat option" where
  "nat_of v = (case v of VInt n \<Rightarrow> Some n | _ \<Rightarrow> None)"

definition sd_state_text :: "sd_record_info \<Rightarrow> pystr" where
  "sd_state_text i =
     (if cs_true (si_sd_format_required i) then lit ''FORMAT REQUIRED''
      else if si_sd_ready i = VBool True then lit ''READY''
      else if si_sd_ready i = VBool False then lit ''NOT READY'' else [0x2014])"

definition record_texts :: "sd_record_info \<Rightarrow> pystr list" where
  "record_texts i =
     [si_alias i @ lit '' '' @ [0x00b7] @ lit '' '' @ si_uuid_suffix i, sd_state_text i,
      human_bytes (map_option int (nat_of (si_used_bytes i))) @ lit '' / '' @
       human_bytes (map_option int (nat_of (si_capacity_bytes i))),
      (case nat_of (si_retained_frames i) of None \<Rightarrow> [0x2014] | Some n \<Rightarrow> thousands n @ lit '' frames''),
      human_duration (si_estimated_duration_s i),
      (case nat_of (si_overwritten_frames i) of None \<Rightarrow> [0x2014] | Some n \<Rightarrow> thousands n),
      (case si_export_phase i of VStr t \<Rightarrow> if t = [] then [0x2014] else t | _ \<Rightarrow> [0x2014])]"

definition set_records :: "sd_record_info list \<Rightarrow> archive_view \<Rightarrow> archive_view" where
  "set_records infos v =
     (let t = fill_table (map (\<lambda>i. (si_node_id i, record_texts i)) infos) (av_records v)
      in v\<lparr>av_records := (case selected_record_node v of None \<Rightarrow> t | Some k \<Rightarrow> select_record_node k t)\<rparr>)"

text \<open>What the page reads of the world: the clock, the export directory and the local time of a stamp.\<close>

record view_env =
  ve_now_ms :: int
  ve_entries :: "export_entry list res"
  ve_local_time :: "pystr \<Rightarrow> pystr"

definition entry_texts :: "view_env \<Rightarrow> export_entry \<Rightarrow> pystr list" where
  "entry_texts w i =
     [ee_name i, ve_local_time w (ee_started_utc i), human_bytes (Some (ee_bytes_written i)),
      (if ee_alias i \<noteq> [] then ee_alias i else if ee_uuid i \<noteq> [] then take 8 (ee_uuid i) else [0x2014]), ee_status i]"

definition refresh_library :: "view_env \<Rightarrow> (archive_view, unit) io" where
  "refresh_library w v =
     (case ve_entries w of
        Inl x \<Rightarrow> (Inl x, v)
      | Inr entries \<Rightarrow> (Inr (), v\<lparr>av_library := fill_table (map (\<lambda>i. (ee_path i, entry_texts w i)) entries) (av_library v)\<rparr>))"

definition update_progress :: "view_env \<Rightarrow> pystr \<Rightarrow> bool \<Rightarrow> int \<Rightarrow> nat \<Rightarrow> pystr option \<Rightarrow> archive_view \<Rightarrow> archive_view" where
  "update_progress w k active written allocated_total phase v =
     (let now = ve_now_ms w;
          v = v\<lparr>av_bar := set_range 0 0 (av_bar v)\<rparr>;
          status = (\<lambda>default_text. lit ''STATUS '' @ (case phase of Some t \<Rightarrow> if t = [] then default_text else t | None \<Rightarrow> default_text))
      in if active then
           let elapsed = fdiv (of_pyint (now - av_last_bytes_ms v)) 1000;
               instant = max 0 (fdiv (of_pyint (written - av_last_bytes v)) elapsed);
               speed = (if av_last_bytes_ms v \<noteq> 0 \<and> 0 < elapsed
                        then fadd (fmul (av_speed_bytes_per_s v) (fsub 1 SPEED_EMA_ALPHA)) (fmul instant SPEED_EMA_ALPHA)
                        else av_speed_bytes_per_s v);
               shown_s = fdiv (of_pyint (now - av_export_started_ms v)) 1000
           in v\<lparr>av_speed_bytes_per_s := speed, av_last_bytes := written, av_last_bytes_ms := now,
                av_status_label := status (lit ''IN PROGRESS''),
                av_bytes_label := human_bytes (Some written) @ lit '' received '' @ [0x00b7] @ lit '' SD allocation '' @ human_bytes (Some (int allocated_total)) @
                  lit '' '' @ [0x00b7] @ lit '' '' @ human_bytes (Some \<lfloor>speed\<rfloor>) @ lit ''/s '' @ [0x00b7] @ lit '' elapsed '' @ fixed_one shown_s @ lit '' s'',
                av_hint_label := lit ''exporting '' @ k @ lit ''; the device SD ring clears as chunks transmit''\<rparr>
         else v\<lparr>av_bytes_label := human_bytes (Some written) @ lit '' received '' @ [0x00b7] @ lit '' '' @
                  human_bytes (Some \<lfloor>av_speed_bytes_per_s v\<rfloor>) @ lit ''/s'',
                av_status_label := status (lit ''IDLE'')\<rparr>)"

definition poll :: "('t, 'w) app_env \<Rightarrow> ('t, 'w) app \<Rightarrow> view_env \<Rightarrow> (archive_view, unit) io" where
  "poll e a w v =
     (if \<not> av_attached v then (Inr (), v)
      else case sd_records e a of
        Inl x \<Rightarrow> (Inl x, v)
      | Inr infos \<Rightarrow>
          let v = set_records infos v
          in case active_export_node a of
               None \<Rightarrow>
                 if av_export_node_id v \<noteq> None
                 then refresh_library w (v\<lparr>av_export_node_id := None, av_cancel_enabled := False\<rparr>)
                 else (Inr (), v)
             | Some k \<Rightarrow>
                 let v = (if av_export_node_id v \<noteq> Some k
                          then v\<lparr>av_export_node_id := Some k, av_export_started_ms := ve_now_ms w, av_last_bytes := 0,
                                 av_last_bytes_ms := 0, av_speed_bytes_per_s := 0, av_cancel_enabled := True\<rparr>
                          else v)
                 in case export_status e k a of
                      Inl x \<Rightarrow> (Inl x, v)
                    | Inr (active, written, total_bytes, phase) \<Rightarrow>
                        (Inr (), update_progress w k active written total_bytes phase v))"

definition set_controller :: "('t, 'w) app_env \<Rightarrow> ('t, 'w) app \<Rightarrow> view_env \<Rightarrow> (archive_view, unit) io" where
  "set_controller e a w = io_seq
     [io_update (\<lambda>v. v\<lparr>av_attached := True\<rparr>), refresh_library w, poll e a w, io_update (\<lambda>v. v\<lparr>av_poll_timer := True\<rparr>)]"

definition show_event :: "('t, 'w) app_env \<Rightarrow> ('t, 'w) app \<Rightarrow> view_env \<Rightarrow> (archive_view, unit) io" where
  "show_event e a w = io_seq [refresh_library w, poll e a w]"

text \<open>\<open>written\<close> is the size of the file, if it can be read.\<close>

definition on_export_finished :: "pystr \<Rightarrow> pystr \<Rightarrow> nat option \<Rightarrow> view_env \<Rightarrow> (archive_view, unit) io" where
  "on_export_finished phase path written w v =
     (let v = (if phase = lit ''COMPLETE''
               then let b = set_range 0 1000 (av_bar v)
                    in v\<lparr>av_bar := set_value (pg_maximum b) b,
                         av_bytes_label := (case written of None \<Rightarrow> lit ''export complete''
                           | Some n \<Rightarrow> human_bytes (Some (int n)) @ lit '' written '' @ [0x00b7] @ lit '' export complete'')\<rparr>
               else v)
      in refresh_library w
        (v\<lparr>av_status_label := lit ''STATUS '' @ phase, av_hint_label := lit ''saved to '' @ path,
           av_cancel_enabled := False, av_export_node_id := None\<rparr>))"

definition set_open_busy :: "bool \<Rightarrow> archive_view \<Rightarrow> archive_view" where
  "set_open_busy busy v =
     v\<lparr>av_open_enabled := \<not> busy, av_open_text := (if busy then lit ''INDEXING'' @ [0x2026] else lit ''OPEN FOR PLAYBACK'')\<rparr>"

definition emit_archive :: "archive_signal \<Rightarrow> archive_view \<Rightarrow> archive_view" where
  "emit_archive s v = v\<lparr>av_signals := av_signals v @ [s]\<rparr>"

definition confirm_export :: "bool \<Rightarrow> archive_view \<Rightarrow> archive_view" where
  "confirm_export yes v =
     (case selected_record_node v of None \<Rightarrow> v | Some k \<Rightarrow> if yes then emit_archive (ExportRequested k) v else v)"

definition confirm_clear :: "bool \<Rightarrow> archive_view \<Rightarrow> archive_view" where
  "confirm_clear yes v =
     (case selected_record_node v of None \<Rightarrow> v | Some k \<Rightarrow> if yes then emit_archive (ClearRequested k) v else v)"

definition emit_refresh :: "('t, 'w) app_env \<Rightarrow> ('t, 'w) app \<Rightarrow> view_env \<Rightarrow> (archive_view, unit) io" where
  "emit_refresh e a w v = poll e a w (emit_archive RefreshRequested v)"

definition emit_cancel :: "archive_view \<Rightarrow> archive_view" where
  "emit_cancel v = (case av_export_node_id v of None \<Rightarrow> v | Some k \<Rightarrow> emit_archive (CancelExportRequested k) v)"

definition emit_open :: "archive_view \<Rightarrow> archive_view" where
  "emit_open v =
     (case selected_library_path v of None \<Rightarrow> v | Some p \<Rightarrow> if p = [] then v else emit_archive (OpenRequested p) v)"

text \<open>
  \<^verbatim>\<open>_delete_selected_export\<close>: the file is named by the row's first text; \<open>entries_after\<close> is the listing afterwards.
\<close>

definition delete_selected_export ::
  "bool \<Rightarrow> view_env \<Rightarrow> archive_view \<Rightarrow> (pystr \<rightharpoonup> bytes) \<Rightarrow> unit res \<times> archive_view \<times> (pystr \<rightharpoonup> bytes)" where
  "delete_selected_export yes w v fs =
     (case selected_row (av_library v) of
        None \<Rightarrow> (Inr (), v, fs)
      | Some (path, texts) \<Rightarrow>
          if \<not> yes then (Inr (), v, fs)
          else case delete_export (hd texts) fs of
            (Inl x, fs') \<Rightarrow> if is_os_error x \<or> is_value_error x then (Inr (), v, fs') else (Inl x, v, fs')
          | (Inr _, fs') \<Rightarrow> (case refresh_library w v of (r, v') \<Rightarrow> (r, v', fs')))"

section \<open>Steps and their invariant\<close>

text \<open>The page over a controller in any state: its own slots, the operator, and the end of an export.\<close>

inductive archive_step :: "('t, 'w) app_env \<Rightarrow> ('t, 'w) app \<Rightarrow> archive_view \<Rightarrow> archive_view \<Rightarrow> bool" for e a where
  attach: "set_controller e a w v = (Inr (), v') \<Longrightarrow> archive_step e a v v'"
| polled: "poll e a w v = (Inr (), v') \<Longrightarrow> archive_step e a v v'"
| shown: "show_event e a w v = (Inr (), v') \<Longrightarrow> archive_step e a v v'"
| refreshed: "emit_refresh e a w v = (Inr (), v') \<Longrightarrow> archive_step e a v v'"
| rescanned: "refresh_library w v = (Inr (), v') \<Longrightarrow> archive_step e a v v'"
| finished: "on_export_finished phase path written w v = (Inr (), v') \<Longrightarrow> archive_step e a v v'"
| busy: "archive_step e a v (set_open_busy b v)"
| pick_record: "r < length (tb_rows (av_records v)) \<Longrightarrow> archive_step e a v (v\<lparr>av_records := (av_records v)\<lparr>tb_current := Some r\<rparr>\<rparr>)"
| pick_file: "r < length (tb_rows (av_library v)) \<Longrightarrow> archive_step e a v (v\<lparr>av_library := (av_library v)\<lparr>tb_current := Some r\<rparr>\<rparr>)"
| ask_export: "archive_step e a v (confirm_export yes v)"
| ask_clear: "archive_step e a v (confirm_clear yes v)"
| cancel: "av_cancel_enabled v \<Longrightarrow> archive_step e a v (emit_cancel v)"
| open_file: "archive_step e a v (emit_open v)"
| delete_file: "delete_selected_export yes w v fs = (Inr (), v', fs') \<Longrightarrow> archive_step e a v v'"

inductive archive_reach :: "('t, 'w) app_env \<Rightarrow> archive_view \<Rightarrow> bool" for e where
  init: "archive_reach e ArchiveView_init"
| step: "archive_reach e v \<Longrightarrow> archive_step e a v v' \<Longrightarrow> archive_reach e v'"

definition table_ok :: "table \<Rightarrow> bool" where
  "table_ok t \<longleftrightarrow> (case tb_current t of None \<Rightarrow> True | Some r \<Rightarrow> r < length (tb_rows t))"

definition archive_ok :: "archive_view \<Rightarrow> bool" where
  "archive_ok v \<longleftrightarrow> table_ok (av_records v) \<and> table_ok (av_library v) \<and>
     av_cancel_enabled v = (av_export_node_id v \<noteq> None)"

lemma fill_table_ok: "table_ok (fill_table rows t)"
  by (cases rows) (auto simp: table_ok_def fill_table_def split: option.split)

lemma fill_table_rows [simp]: "tb_rows (fill_table rows t) = rows"
  by (simp add: fill_table_def)

lemma select_record_ok: "table_ok t \<Longrightarrow> table_ok (select_record_node k t)"
  by (auto simp: table_ok_def select_record_node_def find_Some_iff split: option.split)

lemma select_record_rows [simp]: "tb_rows (select_record_node k t) = tb_rows t"
  by (simp add: select_record_node_def split: option.split)

lemma set_records_fields [simp]:
  "av_library (set_records infos v) = av_library v" "av_cancel_enabled (set_records infos v) = av_cancel_enabled v"
  "av_export_node_id (set_records infos v) = av_export_node_id v" "av_signals (set_records infos v) = av_signals v"
  "tb_rows (av_records (set_records infos v)) = map (\<lambda>i. (si_node_id i, record_texts i)) infos"
  by (simp_all add: set_records_def Let_def split: option.split)

lemma set_records_ok: "table_ok (av_records (set_records infos v))"
  by (simp add: set_records_def Let_def fill_table_ok select_record_ok split: option.split)

lemma progress_fields [simp]:
  "av_records (update_progress w k active n m ph v) = av_records v" "av_library (update_progress w k active n m ph v) = av_library v"
  "av_cancel_enabled (update_progress w k active n m ph v) = av_cancel_enabled v"
  "av_export_node_id (update_progress w k active n m ph v) = av_export_node_id v"
  by (simp_all add: update_progress_def Let_def)

lemma refresh_library_fields:
  assumes "refresh_library w v = (Inr (), v')"
  shows "av_records v' = av_records v" "av_cancel_enabled v' = av_cancel_enabled v" "av_export_node_id v' = av_export_node_id v"
    "table_ok (av_library v')"
  using assms by (auto simp: refresh_library_def fill_table_ok split: sum.splits)

lemma refresh_library_ok: "refresh_library w v = (Inr (), v') \<Longrightarrow> archive_ok v \<Longrightarrow> archive_ok v'"
  using refresh_library_fields [of w v v'] by (simp add: archive_ok_def)

text \<open>What a poll that returns leaves.\<close>

lemma poll_result:
  assumes "poll e a w v = (Inr (), v')" and "av_attached v" and "av_cancel_enabled v = (av_export_node_id v \<noteq> None)"
  obtains infos where "sd_records e a = Inr infos" "av_records v' = av_records (set_records infos v)"
    "av_export_node_id v' = active_export_node a" "av_cancel_enabled v' = (active_export_node a \<noteq> None)"
    "av_library v' = av_library v \<or> table_ok (av_library v')"
proof -
  obtain infos where i: "sd_records e a = Inr infos" using assms(1,2) by (auto simp: poll_def split: sum.splits)
  show thesis
  proof (cases "active_export_node a")
    case None
    then show thesis
      using assms i that [OF i] refresh_library_fields [of w _ v']
      by (fastforce simp: poll_def Let_def split: if_splits)
  next
    case (Some k)
    then show thesis
      using assms i by (intro that [OF i]) (auto simp: poll_def Let_def split: sum.splits if_splits)
  qed
qed

lemma poll_ok: "poll e a w v = (Inr (), v') \<Longrightarrow> archive_ok v \<Longrightarrow> archive_ok v'"
proof (cases "av_attached v")
  case True
  assume p: "poll e a w v = (Inr (), v')" "archive_ok v"
  then have "av_cancel_enabled v = (av_export_node_id v \<noteq> None)" by (simp add: archive_ok_def)
  from poll_result [OF p(1) True this] show ?thesis using p(2) set_records_ok by (metis archive_ok_def)
qed (simp add: poll_def)


lemma io_steps_ok:
  assumes "io_seq ms v = (Inr (), v')" and "archive_ok v"
    and "\<And>m x y. m \<in> set ms \<Longrightarrow> m x = (Inr (), y) \<Longrightarrow> archive_ok x \<Longrightarrow> archive_ok y"
  shows "archive_ok v'"
  using assms
proof (induction ms arbitrary: v)
  case (Cons m ms)
  then obtain x where x: "m v = (Inr (), x)" "io_seq ms x = (Inr (), v')" by (auto simp: io_seq.simps io_bind_Inr_iff)
  have "archive_ok x" using Cons.prems(2) Cons.prems(3) [of m v x] x(1) by simp
  then show ?case
  proof (rule Cons.IH [OF x(2)])
    show "archive_ok z" if "n \<in> set ms" "n y = (Inr (), z)" "archive_ok y" for n y z
      using Cons.prems(3) [of n y z] that by simp
  qed
qed (simp add: io_seq.simps io_return_def)

lemma delete_ok:
  assumes "delete_selected_export yes w v fs = (Inr (), v', fs')" and "archive_ok v"
  shows "archive_ok v'"
proof -
  have "v' = v \<or> refresh_library w v = (Inr (), v')"
    using assms(1) by (auto simp: delete_selected_export_def split: option.splits if_splits prod.splits sum.splits)
  then show ?thesis using assms(2) refresh_library_ok by blast
qed

lemma finished_ok:
  assumes "on_export_finished phase path written w v = (Inr (), v')" and "archive_ok v"
  shows "archive_ok v'"
proof -
  obtain u where u: "refresh_library w u = (Inr (), v')" "av_records u = av_records v" "\<not> av_cancel_enabled u" "av_export_node_id u = None"
    using assms(1) by (cases "phase = lit ''COMPLETE''") (auto simp: on_export_finished_def Let_def)
  then show ?thesis using refresh_library_fields [OF u(1)] assms(2) by (simp add: archive_ok_def)
qed

lemma archive_step_ok: "archive_step e a v v' \<Longrightarrow> archive_ok v \<Longrightarrow> archive_ok v'"
proof (induction rule: archive_step.induct)
  case (attach w v v')
  then show ?case
    by (intro io_steps_ok [OF attach(1) [unfolded set_controller_def]])
      (auto simp: io_update_def archive_ok_def dest: refresh_library_ok poll_ok)
next
  case (shown w v v')
  then show ?case
    by (intro io_steps_ok [OF shown(1) [unfolded show_event_def]]) (auto dest: refresh_library_ok poll_ok)
next
  case (refreshed w v v')
  have "archive_ok (emit_archive RefreshRequested v)" using refreshed(2) by (simp add: archive_ok_def emit_archive_def)
  then show ?case using poll_ok refreshed(1) unfolding emit_refresh_def by blast
next
  case (polled w v v')
  then show ?case by (rule poll_ok)
next
  case (rescanned w v v')
  then show ?case by (rule refresh_library_ok)
next
  case (finished phase path written w v v')
  then show ?case by (rule finished_ok)
next
  case (delete_file yes w v fs v' fs')
  then show ?case by (rule delete_ok)
qed (auto simp: archive_ok_def table_ok_def set_open_busy_def confirm_export_def confirm_clear_def emit_cancel_def emit_open_def
    emit_archive_def split: option.splits)

lemma archive_reach_ok: "archive_reach e v \<Longrightarrow> archive_ok v"
proof (induction rule: archive_reach.induct)
  case init
  show ?case by (simp add: ArchiveView_init_def archive_ok_def table_ok_def)
qed (rule archive_step_ok)

section \<open>The page and the controller\<close>

lemma res_list_Inr: "res_list xs = Inr ys \<Longrightarrow> list_all2 (\<lambda>x y. x = Inr y) xs ys"
  by (induction xs arbitrary: ys) (auto simp: rbind_Inr_iff)

lemma sd_records_ids:
  assumes "app_inv a" and "sd_records e a = Inr infos"
  shows "map si_node_id infos = session_keys a"
proof -
  have c: "core {} a" using assms(1) by (simp add: app_inv_def)
  have id: "ms_node_id s = k" if "(k, s) \<in> set (ap_sessions a)" for k s
  proof -
    have "get_session k a = Some s" using that coreD(3) [OF c] by (simp add: get_session_def session_keys_def)
    then show ?thesis using coreD(7) [OF c] by (auto simp: session_ok_def)
  qed
  have "list_all2 (\<lambda>ks i. sd_record e (ap_session_index a) (snd ks) = Inr i) (ap_sessions a) infos"
    using res_list_Inr [OF assms(2) [unfolded sd_records_def]] by (simp add: list_all2_map1 case_prod_beta')
  then have "list_all2 (\<lambda>ks i. fst ks = si_node_id i) (ap_sessions a) infos"
  proof (rule list.rel_mono_strong)
    fix ks i assume ks: "ks \<in> set (ap_sessions a)" and r: "sd_record e (ap_session_index a) (snd ks) = Inr i"
    have "ms_node_id (snd ks) = fst ks" by (rule id) (use ks in simp)
    then show "fst ks = si_node_id i" using r by (auto simp: sd_record_def rbind_Inr_iff Let_def)
  qed
  then have "map fst (ap_sessions a) = map si_node_id infos"
    by (induction rule: list_all2_induct) simp_all
  then show ?thesis by (simp add: session_keys_def)
qed

text \<open>The selection follows its device as long as that is listed.\<close>

lemma set_records_keeps_selection:
  assumes "selected_record_node v = Some k" and "k \<in> set (map si_node_id infos)"
  shows "selected_record_node (set_records infos v) = Some k"
proof -
  let ?t = "fill_table (map (\<lambda>i. (si_node_id i, record_texts i)) infos) (av_records v)"
  obtain q where q: "q < length infos" "si_node_id (infos ! q) = k" using assms(2) by (auto simp: in_set_conv_nth)
  then have "List.find (\<lambda>r. fst (tb_rows ?t ! r) = k) [0..<length (tb_rows ?t)] \<noteq> None"
    by (auto simp: find_None_iff)
  then obtain r where r: "List.find (\<lambda>r. fst (tb_rows ?t ! r) = k) [0..<length (tb_rows ?t)] = Some r"
    "r < length infos" "si_node_id (infos ! r) = k" by (fastforce simp: find_Some_iff)
  have "selected_record_node (set_records infos v) = selected_record_node (v\<lparr>av_records := ?t\<lparr>tb_current := Some r\<rparr>\<rparr>)"
    using r(1) assms(1) by (simp add: set_records_def Let_def select_record_node_def)
  then show ?thesis using r(2,3) by (simp add: selected_record_node_def selected_row_def)
qed

text \<open>
  When the device of the selected row is gone, the row stays selected and is now another device: the next
  clearing of a card goes to a device the operator did not choose.
\<close>

lemma selection_slips:
  assumes "tb_current (av_records v) = Some r" and "r < length infos" and "selected_record_node v = Some k"
    and "k \<notin> set (map si_node_id infos)"
  shows "av_signals (confirm_clear True (set_records infos v)) = av_signals v @ [ClearRequested (si_node_id (infos ! r))]"
    "si_node_id (infos ! r) \<noteq> k"
proof -
  let ?t = "fill_table (map (\<lambda>i. (si_node_id i, record_texts i)) infos) (av_records v)"
  have "List.find (\<lambda>r. fst (tb_rows ?t ! r) = k) [0..<length (tb_rows ?t)] = None"
    using assms(4) by (auto simp: find_None_iff)
  then have "av_records (set_records infos v) = ?t"
    using assms(3) unfolding set_records_def Let_def select_record_node_def by simp
  then have "selected_record_node (set_records infos v) = Some (si_node_id (infos ! r))"
    using assms(1,2) by (simp add: selected_record_node_def selected_row_def fill_table_def)
  then show "av_signals (confirm_clear True (set_records infos v)) = av_signals v @ [ClearRequested (si_node_id (infos ! r))]"
    by (simp add: confirm_clear_def emit_archive_def)
  show "si_node_id (infos ! r) \<noteq> k" using assms(2,4) nth_mem by fastforce
qed

lemma active_export_session:
  assumes "app_inv a" and "active_export_node a = Some k"
  shows "\<exists>s. get_session k a = Some s \<and> ms_exporting s"
proof -
  have c: "core {} a" using assms(1) by (simp add: app_inv_def)
  obtain s where s: "(k, s) \<in> set (ap_sessions a)" "ms_exporting s"
    using assms(2) nth_mem by (fastforce simp: active_export_node_def find_Some_iff)
  then show ?thesis using coreD(3) [OF c] by (auto simp: get_session_def session_keys_def)
qed


text \<open>
  C39. The archive page follows the controller: in every reachable state the cancel button is enabled exactly while
  an export is shown; after a poll the page shows the export that runs, if any, and the devices that are connected, in
  their order, so that cancelling asks for an export that is running; and the selection stays with its device as long as
  the device is listed.
\<close>

theorem archive_page_follows:
  fixes e :: "('t, 'w) app_env" and a :: "('t, 'w) app"
  assumes "AppController_init aliases = Inr a0" and "app_reach a0 a" and "archive_reach e v" and "av_attached v"
    and "poll e a w v = (Inr (), v')"
  shows "av_cancel_enabled v = (av_export_node_id v \<noteq> None) \<and> av_cancel_enabled v' = (av_export_node_id v' \<noteq> None) \<and>
    av_export_node_id v' = active_export_node a \<and> map fst (tb_rows (av_records v')) = session_keys a \<and>
    (av_cancel_enabled v' \<longrightarrow> (\<exists>k s. av_signals (emit_cancel v') = av_signals v' @ [CancelExportRequested k] \<and>
       get_session k a = Some s \<and> ms_exporting s)) \<and>
    (selected_record_node v \<in> Some ` set (session_keys a) \<longrightarrow> selected_record_node v' = selected_record_node v)"
proof -
  have inv: "app_inv a" by (rule init_reach_inv [OF assms(1,2)])
  have ok: "archive_ok v" by (rule archive_reach_ok [OF assms(3)])
  then have c: "av_cancel_enabled v = (av_export_node_id v \<noteq> None)" by (simp add: archive_ok_def)
  obtain infos where i: "sd_records e a = Inr infos" "av_records v' = av_records (set_records infos v)"
      "av_export_node_id v' = active_export_node a" "av_cancel_enabled v' = (active_export_node a \<noteq> None)"
    by (rule poll_result [OF assms(5,4) c])
  have ids: "map si_node_id infos = session_keys a" by (rule sd_records_ids [OF inv i(1)])
  have "\<exists>k s. av_signals (emit_cancel v') = av_signals v' @ [CancelExportRequested k] \<and> get_session k a = Some s \<and> ms_exporting s"
    if on: "av_cancel_enabled v'"
  proof -
    obtain k where k: "active_export_node a = Some k" using on i(4) by auto
    then show ?thesis using active_export_session [OF inv k] i(3) by (auto simp: emit_cancel_def emit_archive_def)
  qed
  moreover have "selected_record_node v' = selected_record_node v" if "selected_record_node v \<in> Some ` set (session_keys a)"
    using that set_records_keeps_selection [of v _ infos] ids i(2) by (auto simp: selected_record_node_def)
  moreover have "map fst (tb_rows (av_records v')) = session_keys a" using ids by (simp add: i(2) comp_def)
  ultimately show ?thesis using c i(3,4) by simp
qed


definition sample_view_env :: view_env where
  "sample_view_env = \<lparr>ve_now_ms = 0, ve_entries = Inr [], ve_local_time = (\<lambda>t. t)\<rparr>"

theorem archive_page_follows_witness:
  "\<exists>(a :: (bytes list, (bytes \<times> pystr \<times> int) list) app) v v'. archive_reach sample_app_env v \<and> av_attached v \<and>
     poll sample_app_env a sample_view_env v = (Inr (), v') \<and> av_export_node_id v' = None \<and> \<not> av_cancel_enabled v' \<and>
     tb_rows (av_records v') = []"
proof -
  obtain a0 :: "(bytes list, (bytes \<times> pystr \<times> int) list) app" where a0: "AppController_init [] = Inr a0"
    by (simp add: AppController_init_def NodeSessionManager_init_def MAXIMUM_WIFI_SESSIONS_def)
  then have none: "ap_sessions a0 = []" by (auto simp: AppController_init_def rbind_Inr_iff)
  then have p: "poll sample_app_env a0 sample_view_env v = (Inr (), if av_export_node_id v = None then set_records [] v
      else (set_records [] v)\<lparr>av_export_node_id := None, av_cancel_enabled := False, av_library := fill_table [] (av_library v)\<rparr>)"
    if "av_attached v" for v
    using that by (auto simp: poll_def sd_records_def active_export_node_def refresh_library_def sample_view_env_def Let_def)
  obtain v where v: "set_controller sample_app_env a0 sample_view_env ArchiveView_init = (Inr (), v)" "av_attached v"
    using p by (simp add: set_controller_def io_seq.simps io_bind_def io_return_def io_update_def refresh_library_def
        sample_view_env_def ArchiveView_init_def set_records_def selected_record_node_def selected_row_def Let_def)
  have r: "archive_reach sample_app_env v"
    by (rule archive_reach.step [OF archive_reach.init archive_step.attach [OF v(1)]])
  obtain v' where v': "poll sample_app_env a0 sample_view_env v = (Inr (), v')" using p [OF v(2)] by blast
  have "active_export_node a0 = None" "session_keys a0 = []" by (simp_all add: active_export_node_def session_keys_def none)
  then have "av_export_node_id v' = None \<and> \<not> av_cancel_enabled v' \<and> tb_rows (av_records v') = []"
    using archive_page_follows [OF a0 app_reach.refl r v(2) v'] by auto
  then show ?thesis using r v(2) v' by blast
qed

end
