(* ===== verification/MainWindow.thy ===== *)
theory MainWindow
  imports ConnectionView ArchiveView
begin

text \<open>
  The controls of \<^verbatim>\<open>presentation/main_window.py\<close>: connecting, the commands of the selected node, the choice of the
  live target, the switch between live display and playback, the labels of the stream's health. The views of the
  live page are what they were last given. Layout, sizes and the drawing of widgets are left out.
\<close>

section \<open>State\<close>

datatype window_tab = LiveTab | DiagnosticsTab | ConsoleTab | ArchiveTab

datatype window_signal =
    AskConnect pystr | AskDisconnect | AskClear | PauseToggled bool | RecordToggled bool | AskWatermark int | AskStart
  | AskStop | AskLivestream pystr | AskRefresh | AskWifiStart wifi_config | AskFirmware | ConsoleError exn

text \<open>
  \<open>mw_grace\<close> are the targets whose grace timers still run; \<open>mw_vibration\<close>, \<open>mw_motion\<close> and \<open>mw_diagnostics\<close> are
  the snapshots the views show, if any.
\<close>

record main_window =
  mw_connected :: bool
  mw_node_available :: bool
  mw_playback_active :: bool
  mw_latest_snapshot :: "ui_snapshot option"
  mw_pending_target :: "pystr option"
  mw_grace :: "pystr list"
  mw_live_target :: pystr
  mw_target_label :: pystr
  mw_watermark :: int
  mw_wifi_mode :: bool
  mw_devices :: "(pystr \<times> pystr) list"
  mw_device_row :: "nat option"
  mw_panel :: wifi_panel
  mw_node_controls :: bool
  mw_node_hint :: pystr
  mw_setup_enabled :: bool
  mw_connect_text :: pystr
  mw_badge :: pystr
  mw_paused :: bool
  mw_recording :: bool
  mw_record_text :: pystr
  mw_record_hint :: pystr
  mw_firmware :: "bool \<times> pystr"
  mw_rate_label :: pystr
  mw_health :: "string \<Rightarrow> pystr"
  mw_health_hint :: "string \<Rightarrow> pystr"
  mw_error_text :: pystr
  mw_error_visible :: bool
  mw_tab :: window_tab
  mw_console_marked :: bool
  mw_playback_bar :: bool
  mw_vibration :: "ui_snapshot option"
  mw_motion :: "ui_snapshot option"
  mw_diagnostics :: "ui_snapshot option"
  mw_signals :: "window_signal list"

definition emit_window :: "window_signal \<Rightarrow> main_window \<Rightarrow> main_window" where
  "emit_window s w = w\<lparr>mw_signals := mw_signals w @ [s]\<rparr>"

definition ERROR_HEALTH_KEYS :: "string list" where
  "ERROR_HEALTH_KEYS = [''crc_errors'', ''sequence_gaps'', ''source_drops'', ''transport_drops'', ''physical_errors'', ''live_drops'']"

definition UNKNOWN :: pystr where "UNKNOWN = [0x2014]"

definition HEALTH_FIELDS :: "(string \<times> pystr) list" where
  "HEALTH_FIELDS =
     [(''sample_rate'', UNKNOWN), (''crc_errors'', lit ''0''), (''sequence_gaps'', lit ''0''), (''source_drops'', lit ''0''),
      (''transport_drops'', lit ''0''), (''physical_errors'', lit ''0''), (''live_drops'', lit ''0''), (''uptime'', UNKNOWN)]"

section \<open>Connection\<close>

definition refresh_node_controls :: "main_window \<Rightarrow> main_window" where
  "refresh_node_controls w =
     (let node_ready = mw_connected w \<and> mw_node_available w
      in w\<lparr>mw_node_controls := node_ready,
           mw_node_hint := (if node_ready then [] else lit ''connect a node before using node commands'')\<rparr>)"

text \<open>\<^verbatim>\<open>setChecked(False)\<close> emits \<^verbatim>\<open>toggled\<close> if the button was checked.\<close>

definition uncheck_buttons :: "main_window \<Rightarrow> main_window" where
  "uncheck_buttons w =
     (let w = (if mw_paused w then emit_window (PauseToggled False) (w\<lparr>mw_paused := False\<rparr>) else w)
      in if mw_recording w then emit_window (RecordToggled False) (w\<lparr>mw_recording := False\<rparr>) else w)"

definition set_connected :: "bool \<Rightarrow> main_window \<Rightarrow> main_window" where
  "set_connected on w =
     (let w = w\<lparr>mw_pending_target := (if on then mw_pending_target w else None), mw_setup_enabled := \<not> on,
                mw_connect_text := (if on then lit ''DISCONNECT'' else lit ''CONNECT''), mw_connected := on,
                mw_badge := (if on then [0x25cf] @ lit '' CONNECTED'' else lit ''DISCONNECTED'')\<rparr>
      in refresh_node_controls (if on then w else uncheck_buttons w))"

definition set_wifi_server_state :: "bool \<Rightarrow> pystr \<Rightarrow> main_window \<Rightarrow> main_window" where
  "set_wifi_server_state running label w =
     (let w = set_connected running w in if running then w\<lparr>mw_badge := label\<rparr> else w)"

definition window_set_nodes :: "node_summary list \<Rightarrow> main_window \<Rightarrow> main_window" where
  "window_set_nodes nodes w =
     (let count = length (filter ns_is_recording nodes)
      in refresh_node_controls
        (w\<lparr>mw_node_available := list_ex (\<lambda>n. ns_connection_state n \<in> set ONLINE_STATES) nodes,
           mw_record_text := (if count \<noteq> 0 then [0x25cf] @ lit '' RECORD '' @ [0x00b7] @ lit '' '' @ dec_digits count else [0x25cf] @ lit '' RECORD''),
           mw_record_hint := lit ''recording '' @ dec_digits count @ lit '' of '' @ dec_digits (length nodes) @
             lit '' session(s); write failures surface in the error banner''\<rparr>))"

definition current_device :: "main_window \<Rightarrow> pystr option" where
  "current_device w =
     (case mw_device_row w of None \<Rightarrow> None | Some r \<Rightarrow> if r < length (mw_devices w) then Some (fst (mw_devices w ! r)) else None)"

definition set_devices :: "(pystr \<times> pystr) list \<Rightarrow> main_window \<Rightarrow> main_window" where
  "set_devices devices w =
     (let rows = (if devices = [] then [([], lit ''No CDC devices'')] else devices);
          chosen = (case current_device w of
            None \<Rightarrow> None | Some d \<Rightarrow> List.find (\<lambda>r. fst (rows ! r) = d) [0..<length rows])
      in w\<lparr>mw_devices := rows, mw_device_row := (case chosen of None \<Rightarrow> Some 0 | Some r \<Rightarrow> Some r)\<rparr>)"

text \<open>Every message appended to the console is reported to the window.\<close>

definition on_console_message :: "main_window \<Rightarrow> main_window" where
  "on_console_message w = (if mw_tab w \<noteq> ConsoleTab then w\<lparr>mw_console_marked := True\<rparr> else w)"

definition press_connect :: "main_window \<Rightarrow> main_window" where
  "press_connect w =
     (if mw_connected w then emit_window AskDisconnect w
      else if mw_wifi_mode w then
        (case server_config (mw_panel w) of
           Inl x \<Rightarrow> on_console_message (emit_window (ConsoleError x) w)
         | Inr c \<Rightarrow> emit_window (AskWifiStart c) w)
      else case current_device w of
        None \<Rightarrow> w | Some d \<Rightarrow> if d = [] then w else emit_window (AskConnect d) w)"

definition set_firmware_available :: "bool \<Rightarrow> pystr \<Rightarrow> main_window \<Rightarrow> main_window" where
  "set_firmware_available enabled reason w = w\<lparr>mw_firmware := (enabled, reason)\<rparr>"

definition show_error :: "pystr \<Rightarrow> main_window \<Rightarrow> main_window" where
  "show_error message w = w\<lparr>mw_error_text := lit ''ERROR: '' @ message, mw_error_visible := True\<rparr>"

section \<open>Snapshots\<close>

definition health_values :: "main_window \<Rightarrow> ui_snapshot \<Rightarrow> string \<Rightarrow> pystr" where
  "health_values w s key =
     (let number = (\<lambda>f. case us_firmware_status s of None \<Rightarrow> UNKNOWN | Some st \<Rightarrow> dec_digits (f st))
      in if key = ''sample_rate'' then thousands (nat (round_even (us_sample_rate_hz s)))
         else if key = ''crc_errors'' then dec_digits (ps_crc_errors (us_parser_stats s))
         else if key = ''sequence_gaps'' then dec_digits (ps_sequence_gaps (us_parser_stats s))
         else if key = ''source_drops'' then number st_source_drops
         else if key = ''transport_drops'' then number st_transport_drops
         else if key = ''physical_errors'' then number (if mw_wifi_mode w then st_uart_dma_errors else st_cdc_errors)
         else if key = ''live_drops'' then
           (case us_firmware_control_state s of
              None \<Rightarrow> UNKNOWN
            | Some c \<Rightarrow> dec_digits (cs_nat (c ''live_drops_iis'') + cs_nat (c ''live_drops_jy'')))
         else (case us_firmware_status s of
              None \<Rightarrow> UNKNOWN
            | Some st \<Rightarrow>
                let t = tenths (fdiv (of_pyint (int (st_uptime_us st))) 1000000)
                in dec_digits (t div 10) @ lit ''.'' @ dec_digits (t mod 10) @ lit ''s''))"

definition update_health_labels :: "ui_snapshot \<Rightarrow> main_window \<Rightarrow> main_window" where
  "update_health_labels s w =
     (let keys = map fst HEALTH_FIELDS
      in w\<lparr>mw_health := (\<lambda>k. if k \<in> set keys then health_values w s k else mw_health w k),
           mw_health_hint := (\<lambda>k. if k \<notin> set keys then mw_health_hint w k
             else if k \<in> set ERROR_HEALTH_KEYS \<and> health_values w s k \<notin> {lit ''0'', UNKNOWN}
             then lit k @ lit '' is non-zero; open DIAGNOSTICS for detail'' else [])\<rparr>)"

definition reported_target :: "ui_snapshot \<Rightarrow> pystr option" where
  "reported_target s = (case us_firmware_control_state s of None \<Rightarrow> None | Some c \<Rightarrow> cs_text (c ''livestream_target''))"

text \<open>The part of \<^verbatim>\<open>update_snapshot\<close> on the live target: the box is set with its signals blocked.\<close>

definition sync_target :: "pystr option \<Rightarrow> main_window \<Rightarrow> main_window" where
  "sync_target reported w =
     (let w = (if reported = mw_pending_target w then w\<lparr>mw_pending_target := None\<rparr> else w)
      in case reported of
           None \<Rightarrow> w
         | Some t \<Rightarrow>
             if mw_pending_target w = None \<and> t \<in> {lit ''UART'', lit ''CDC''} \<and> mw_live_target w \<noteq> t
             then w\<lparr>mw_live_target := t\<rparr> else w)"

definition window_update_snapshot :: "ui_snapshot \<Rightarrow> main_window \<Rightarrow> main_window" where
  "window_update_snapshot s w =
     (let w = w\<lparr>mw_latest_snapshot := Some s,
                mw_rate_label := (if 0 < us_sample_rate_hz s
                  then thousands (nat (round_even (us_sample_rate_hz s))) @ lit '' sps'' else UNKNOWN)\<rparr>;
          w = sync_target (reported_target s) w
      in case mw_tab w of
           DiagnosticsTab \<Rightarrow> w\<lparr>mw_diagnostics := Some s\<rparr>
         | LiveTab \<Rightarrow> update_health_labels s (w\<lparr>mw_vibration := Some s, mw_motion := Some s\<rparr>)
         | _ \<Rightarrow> w)"

definition update_live_snapshot :: "ui_snapshot \<Rightarrow> main_window \<Rightarrow> main_window" where
  "update_live_snapshot s w = (if mw_playback_active w then w else window_update_snapshot s w)"

text \<open>\<^verbatim>\<open>currentChanged\<close> calls \<^verbatim>\<open>_on_tab_changed\<close>.\<close>

definition change_tab :: "window_tab \<Rightarrow> main_window \<Rightarrow> main_window" where
  "change_tab t w =
     (if mw_tab w = t then w
      else
        let w = w\<lparr>mw_tab := t, mw_console_marked := (mw_console_marked w \<and> t \<noteq> ConsoleTab)\<rparr>
        in case mw_latest_snapshot w of None \<Rightarrow> w | Some s \<Rightarrow> window_update_snapshot s w)"

definition clear_canvas :: "main_window \<Rightarrow> main_window" where
  "clear_canvas w = emit_window AskClear (w\<lparr>mw_latest_snapshot := None, mw_vibration := None\<rparr>)"

definition clear_live_views :: "main_window \<Rightarrow> main_window" where
  "clear_live_views w =
     (if mw_playback_active w then w
      else w\<lparr>mw_latest_snapshot := None, mw_vibration := None, mw_motion := Some empty_snapshot, mw_rate_label := UNKNOWN,
             mw_health := (\<lambda>k. case map_of HEALTH_FIELDS k of Some t \<Rightarrow> t | None \<Rightarrow> mw_health w k),
             mw_health_hint := (\<lambda>k. case map_of HEALTH_FIELDS k of Some t \<Rightarrow> [] | None \<Rightarrow> mw_health_hint w k)\<rparr>)"

section \<open>Playback and live target\<close>

definition set_playback_active :: "bool \<Rightarrow> main_window \<Rightarrow> main_window" where
  "set_playback_active on w =
     (let w = w\<lparr>mw_playback_active := on, mw_playback_bar := on\<rparr> in if on then change_tab LiveTab w else w)"

definition exit_playback :: "main_window \<Rightarrow> main_window" where
  "exit_playback w = (if mw_playback_active w then clear_live_views (set_playback_active False w) else w)"

definition emit_livestream_requested :: "pystr \<Rightarrow> main_window \<Rightarrow> main_window" where
  "emit_livestream_requested t w =
     emit_window (AskLivestream t) (w\<lparr>mw_pending_target := Some t, mw_grace := mw_grace w @ [t]\<rparr>)"

text \<open>The operator chooses another target: both slots of \<^verbatim>\<open>currentTextChanged\<close> run.\<close>

definition choose_target :: "pystr \<Rightarrow> main_window \<Rightarrow> main_window" where
  "choose_target t w =
     (if mw_live_target w = t then w
      else (emit_livestream_requested t (w\<lparr>mw_live_target := t\<rparr>))\<lparr>mw_target_label := t\<rparr>)"

definition finish_livestream_sync_grace :: "pystr \<Rightarrow> main_window \<Rightarrow> main_window" where
  "finish_livestream_sync_grace t w =
     (let w = w\<lparr>mw_grace := remove1 t (mw_grace w)\<rparr>
      in if mw_pending_target w = Some t then w\<lparr>mw_pending_target := None\<rparr> else w)"

definition choose_watermark :: "int \<Rightarrow> main_window \<Rightarrow> main_window" where
  "choose_watermark n w = (if mw_watermark w = n then w else emit_window (AskWatermark n) (w\<lparr>mw_watermark := n\<rparr>))"

definition MainWindow_init :: main_window where
  "MainWindow_init = set_connected False
     \<lparr>mw_connected = False, mw_node_available = False, mw_playback_active = False, mw_latest_snapshot = None,
      mw_pending_target = None, mw_grace = [], mw_live_target = lit ''UART'', mw_target_label = lit ''UART'',
      mw_watermark = 256, mw_wifi_mode = False, mw_devices = [([], lit ''No CDC devices'')], mw_device_row = Some 0,
      mw_panel = WifiConnectionPanel_init, mw_node_controls = False, mw_node_hint = [], mw_setup_enabled = True,
      mw_connect_text = lit ''CONNECT'', mw_badge = lit ''DISCONNECTED'', mw_paused = False, mw_recording = False,
      mw_record_text = [0x25cf] @ lit '' RECORD'', mw_record_hint = [], mw_firmware = (False, lit ''connect a Wi-Fi node to update firmware''),
      mw_rate_label = UNKNOWN, mw_health = (\<lambda>k. case map_of HEALTH_FIELDS k of Some t \<Rightarrow> t | None \<Rightarrow> []),
      mw_health_hint = (\<lambda>_. []), mw_error_text = [], mw_error_visible = False, mw_tab = LiveTab,
      mw_console_marked = False, mw_playback_bar = False, mw_vibration = None, mw_motion = None, mw_diagnostics = None,
      mw_signals = []\<rparr>"

section \<open>Steps and their invariant\<close>

text \<open>
  The operator reaches a control only while it is enabled; the controller, the playback and the grace timers call
  their slots at any time.
\<close>

inductive window_step :: "main_window \<Rightarrow> main_window \<Rightarrow> bool" where
  connect: "window_step w (press_connect w)"
| choose_mode: "mw_setup_enabled w \<Longrightarrow> window_step w (w\<lparr>mw_wifi_mode := b\<rparr>)"
| choose_device: "mw_setup_enabled w \<Longrightarrow> r < length (mw_devices w) \<Longrightarrow> window_step w (w\<lparr>mw_device_row := Some r\<rparr>)"
| fill_panel: "window_step w (w\<lparr>mw_panel := p\<rparr>)"
| target: "mw_node_controls w \<Longrightarrow> t \<in> {lit ''UART'', lit ''CDC''} \<Longrightarrow> window_step w (choose_target t w)"
| watermark: "mw_node_controls w \<Longrightarrow> n \<in> {128, 256, 511} \<Longrightarrow> window_step w (choose_watermark n w)"
| pause: "mw_node_controls w \<Longrightarrow> window_step w (emit_window (PauseToggled (\<not> mw_paused w)) (w\<lparr>mw_paused := \<not> mw_paused w\<rparr>))"
| record_all: "mw_node_controls w \<Longrightarrow>
    window_step w (emit_window (RecordToggled (\<not> mw_recording w)) (w\<lparr>mw_recording := \<not> mw_recording w\<rparr>))"
| start: "mw_node_controls w \<Longrightarrow> window_step w (emit_window AskStart w)"
| stop: "mw_node_controls w \<Longrightarrow> window_step w (emit_window AskStop w)"
| firmware: "fst (mw_firmware w) \<Longrightarrow> window_step w (emit_window AskFirmware w)"
| refresh: "window_step w (emit_window AskRefresh w)"
| devices: "window_step w (set_devices ds w)"
| tab: "window_step w (change_tab t w)"
| clear: "window_step w (clear_canvas w)"
| hide_error: "window_step w (w\<lparr>mw_error_visible := False\<rparr>)"
| connection: "window_step w (MainWindow.set_connected b w)"
| server: "window_step w (set_wifi_server_state b label w)"
| nodes: "window_step w (window_set_nodes ns w)"
| live: "window_step w (update_live_snapshot s w)"
| replayed: "mw_playback_active w \<Longrightarrow> window_step w (window_update_snapshot s w)"
| play: "window_step w (set_playback_active b w)"
| leave: "window_step w (exit_playback w)"
| forget: "window_step w (clear_live_views w)"
| available: "window_step w (set_firmware_available b reason w)"
| error: "window_step w (show_error message w)"
| message: "window_step w (on_console_message w)"
| grace: "t \<in> set (mw_grace w) \<Longrightarrow> window_step w (finish_livestream_sync_grace t w)"

inductive window_reach :: "main_window \<Rightarrow> bool" where
  init: "window_reach MainWindow_init"
| step: "window_reach w \<Longrightarrow> window_step w v \<Longrightarrow> window_reach v"

definition ask_ok :: "window_signal \<Rightarrow> bool" where
  "ask_ok s = (case s of
     AskLivestream t \<Rightarrow> t \<in> {lit ''UART'', lit ''CDC''}
   | AskWatermark n \<Rightarrow> n \<in> {128, 256, 511}
   | AskWifiStart c \<Rightarrow> WifiServerConfig_check c = Inr ()
   | AskConnect d \<Rightarrow> d \<noteq> []
   | _ \<Rightarrow> True)"

definition window_ok :: "main_window \<Rightarrow> bool" where
  "window_ok w \<longleftrightarrow> mw_node_controls w = (mw_connected w \<and> mw_node_available w) \<and>
     mw_setup_enabled w = (\<not> mw_connected w) \<and>
     mw_connect_text w = (if mw_connected w then lit ''DISCONNECT'' else lit ''CONNECT'') \<and>
     (mw_connected w \<or> mw_pending_target w = None \<and> \<not> mw_paused w \<and> \<not> mw_recording w) \<and>
     mw_live_target w \<in> {lit ''UART'', lit ''CDC''} \<and> mw_playback_bar w = mw_playback_active w \<and>
     list_all ask_ok (mw_signals w)"

text \<open>A report never asks for anything, and sets the box only to a target it may have.\<close>

lemma sync_fields:
  "mw_node_controls (sync_target r w) = mw_node_controls w" "mw_connected (sync_target r w) = mw_connected w"
  "mw_node_available (sync_target r w) = mw_node_available w" "mw_setup_enabled (sync_target r w) = mw_setup_enabled w"
  "mw_connect_text (sync_target r w) = mw_connect_text w" "mw_paused (sync_target r w) = mw_paused w"
  "mw_recording (sync_target r w) = mw_recording w" "mw_playback_bar (sync_target r w) = mw_playback_bar w"
  "mw_playback_active (sync_target r w) = mw_playback_active w" "mw_signals (sync_target r w) = mw_signals w"
  "mw_tab (sync_target r w) = mw_tab w" "mw_target_label (sync_target r w) = mw_target_label w"
  "mw_pending_target w = None \<Longrightarrow> mw_pending_target (sync_target r w) = None"
  "mw_live_target (sync_target r w) \<in> {lit ''UART'', lit ''CDC''} \<or> mw_live_target (sync_target r w) = mw_live_target w"
  by (auto simp: sync_target_def Let_def split: option.split)

lemma sync_ok: "window_ok w \<Longrightarrow> window_ok (sync_target r w)"
  using sync_fields(13) [where w = w and r = r] sync_fields(14) [where w = w and r = r] unfolding window_ok_def sync_fields(1-12)
  by (elim conjE) (intro conjI; auto)

lemma window_ok_views [simp]:
  "window_ok (w\<lparr>mw_latest_snapshot := x\<rparr>) = window_ok w" "window_ok (w\<lparr>mw_rate_label := t\<rparr>) = window_ok w"
  "window_ok (w\<lparr>mw_diagnostics := x\<rparr>) = window_ok w" "window_ok (w\<lparr>mw_vibration := x\<rparr>) = window_ok w"
  "window_ok (w\<lparr>mw_motion := x\<rparr>) = window_ok w" "window_ok (w\<lparr>mw_health := h\<rparr>) = window_ok w"
  "window_ok (w\<lparr>mw_health_hint := h\<rparr>) = window_ok w" "window_ok (w\<lparr>mw_tab := tb\<rparr>) = window_ok w"
  "window_ok (w\<lparr>mw_console_marked := c\<rparr>) = window_ok w"
  by (simp_all add: window_ok_def)

lemma window_ok_views2 [simp]:
  "window_ok (w\<lparr>mw_latest_snapshot := x, mw_rate_label := t\<rparr>) = window_ok w"
  "window_ok (w\<lparr>mw_vibration := x, mw_motion := y\<rparr>) = window_ok w"
  "window_ok (w\<lparr>mw_health := h, mw_health_hint := k\<rparr>) = window_ok w"
  "window_ok (w\<lparr>mw_tab := tb, mw_console_marked := c\<rparr>) = window_ok w"
  by (simp_all add: window_ok_def)

lemma update_snapshot_ok: "window_ok w \<Longrightarrow> window_ok (window_update_snapshot s w)"
  by (simp add: window_update_snapshot_def update_health_labels_def Let_def sync_ok split: window_tab.split)

lemma change_tab_ok: "window_ok w \<Longrightarrow> window_ok (change_tab t w)"
  by (simp add: change_tab_def Let_def update_snapshot_ok split: option.split)

lemma uncheck_fields:
  "mw_connected (uncheck_buttons w) = mw_connected w" "mw_node_available (uncheck_buttons w) = mw_node_available w"
  "mw_setup_enabled (uncheck_buttons w) = mw_setup_enabled w" "mw_connect_text (uncheck_buttons w) = mw_connect_text w"
  "mw_pending_target (uncheck_buttons w) = mw_pending_target w" "\<not> mw_paused (uncheck_buttons w)"
  "\<not> mw_recording (uncheck_buttons w)" "mw_live_target (uncheck_buttons w) = mw_live_target w"
  "mw_playback_bar (uncheck_buttons w) = mw_playback_bar w" "mw_playback_active (uncheck_buttons w) = mw_playback_active w"
  "list_all ask_ok (mw_signals (uncheck_buttons w)) = list_all ask_ok (mw_signals w)"
  by (simp_all add: uncheck_buttons_def emit_window_def ask_ok_def Let_def)

lemma set_connected_ok: "window_ok w \<Longrightarrow> window_ok (MainWindow.set_connected b w)"
  by (cases b) (simp_all add: window_ok_def MainWindow.set_connected_def refresh_node_controls_def uncheck_fields Let_def)

lemma press_connect_ok: "window_ok w \<Longrightarrow> window_ok (press_connect w)"
  using server_config_checked [of "mw_panel w"]
  by (auto simp: press_connect_def on_console_message_def emit_window_def window_ok_def ask_ok_def split: sum.split option.split)

lemma playback_ok: "window_ok w \<Longrightarrow> window_ok (set_playback_active b w)"
proof -
  assume w: "window_ok w"
  have "window_ok (w\<lparr>mw_playback_active := b, mw_playback_bar := b\<rparr>)" using w by (simp add: window_ok_def)
  then show ?thesis by (cases b) (simp_all add: set_playback_active_def Let_def change_tab_ok)
qed

lemma clear_views_ok: "window_ok w \<Longrightarrow> window_ok (clear_live_views w)"
  by (simp add: clear_live_views_def window_ok_def)

lemma emit_ok: "window_ok w \<Longrightarrow> ask_ok s \<Longrightarrow> window_ok (emit_window s w)"
  by (simp add: window_ok_def emit_window_def)

lemma window_ok_settings [simp]:
  "window_ok (w\<lparr>mw_wifi_mode := b\<rparr>) = window_ok w" "window_ok (w\<lparr>mw_device_row := r\<rparr>) = window_ok w"
  "window_ok (w\<lparr>mw_panel := p\<rparr>) = window_ok w" "window_ok (w\<lparr>mw_watermark := n\<rparr>) = window_ok w"
  "window_ok (w\<lparr>mw_error_visible := b\<rparr>) = window_ok w" "window_ok (w\<lparr>mw_firmware := f\<rparr>) = window_ok w"
  "window_ok (w\<lparr>mw_grace := g\<rparr>) = window_ok w" "window_ok (w\<lparr>mw_badge := t\<rparr>) = window_ok w"
  "window_ok (w\<lparr>mw_target_label := t\<rparr>) = window_ok w"
  "window_ok (w\<lparr>mw_devices := ds, mw_device_row := r\<rparr>) = window_ok w"
  "window_ok (w\<lparr>mw_devices := ds\<rparr>) = window_ok w" "window_ok (w\<lparr>mw_error_text := t\<rparr>) = window_ok w"
  "window_ok (w\<lparr>mw_error_text := t, mw_error_visible := b\<rparr>) = window_ok w"
  "window_ok (w\<lparr>mw_latest_snapshot := x, mw_vibration := y\<rparr>) = window_ok w"
  by (simp_all add: window_ok_def)

lemma choose_target_ok:
  "window_ok w \<Longrightarrow> mw_node_controls w \<Longrightarrow> t \<in> {lit ''UART'', lit ''CDC''} \<Longrightarrow> window_ok (choose_target t w)"
  by (simp add: choose_target_def emit_livestream_requested_def emit_window_def window_ok_def ask_ok_def)

lemma set_nodes_ok: "window_ok w \<Longrightarrow> window_ok (window_set_nodes ns w)"
  by (simp add: window_set_nodes_def refresh_node_controls_def window_ok_def Let_def)

lemma toggles_ok:
  "window_ok w \<Longrightarrow> mw_node_controls w \<Longrightarrow> window_ok (w\<lparr>mw_paused := b\<rparr>)"
  "window_ok w \<Longrightarrow> mw_node_controls w \<Longrightarrow> window_ok (w\<lparr>mw_recording := b\<rparr>)"
  by (simp_all add: window_ok_def)

lemma grace_ok: "window_ok w \<Longrightarrow> window_ok (finish_livestream_sync_grace t w)"
proof -
  assume w: "window_ok w"
  have "window_ok (w\<lparr>mw_grace := remove1 t (mw_grace w), mw_pending_target := None\<rparr>)"
    using w unfolding window_ok_def by (elim conjE) (intro conjI; auto)
  then show ?thesis using w by (simp add: finish_livestream_sync_grace_def Let_def)
qed

lemmas window_slots_ok = press_connect_ok set_connected_ok update_snapshot_ok change_tab_ok playback_ok clear_views_ok
  emit_ok choose_target_ok set_nodes_ok toggles_ok grace_ok

lemma window_step_ok: "window_step w v \<Longrightarrow> window_ok w \<Longrightarrow> window_ok v"
  by (induction rule: window_step.induct)
    (simp_all add: window_slots_ok ask_ok_def set_wifi_server_state_def exit_playback_def update_live_snapshot_def
      choose_watermark_def set_devices_def clear_canvas_def set_firmware_available_def show_error_def
      on_console_message_def Let_def)

lemma window_reach_ok: "window_reach w \<Longrightarrow> window_ok w"
proof (induction rule: window_reach.induct)
  case init
  show ?case
    by (simp add: MainWindow_init_def MainWindow.set_connected_def refresh_node_controls_def uncheck_buttons_def window_ok_def Let_def)
qed (rule window_step_ok)


text \<open>What a report of the device does to the choice of the live target.\<close>

lemma sync_target_result:
  "mw_pending_target w \<in> {None, Some t} \<Longrightarrow> t \<in> {lit ''UART'', lit ''CDC''} \<Longrightarrow>
     mw_live_target (sync_target (Some t) w) = t \<and> mw_pending_target (sync_target (Some t) w) = None"
  "mw_pending_target w = Some u \<Longrightarrow> u \<noteq> t \<Longrightarrow> sync_target (Some t) w = w"
  by (auto simp: sync_target_def Let_def)

lemma sync_target_views:
  "sync_target r (w\<lparr>mw_latest_snapshot := x, mw_rate_label := t\<rparr>) =
     (sync_target r w)\<lparr>mw_latest_snapshot := x, mw_rate_label := t\<rparr>"
  by (cases r) (simp_all add: sync_target_def Let_def)

lemma update_snapshot_target:
  "mw_live_target (window_update_snapshot s w) = mw_live_target (sync_target (reported_target s) w)"
  "mw_pending_target (window_update_snapshot s w) = mw_pending_target (sync_target (reported_target s) w)"
  "mw_signals (window_update_snapshot s w) = mw_signals w"
  "mw_target_label (window_update_snapshot s w) = mw_target_label w"
  unfolding window_update_snapshot_def update_health_labels_def Let_def sync_target_views
  by (simp_all add: sync_fields split: window_tab.split)

text \<open>The header keeps the target chosen last by the operator: a report changes the box, not the header.\<close>

lemma header_target_stale:
  "mw_pending_target w = None \<Longrightarrow> reported_target s = Some (lit ''CDC'') \<Longrightarrow> mw_target_label w = lit ''UART'' \<Longrightarrow>
     mw_live_target (window_update_snapshot s w) = lit ''CDC'' \<and> mw_target_label (window_update_snapshot s w) = lit ''UART''"
  by (simp add: update_snapshot_target sync_target_def)

text \<open>
  C40. In every state the window can reach, the commands for a node are enabled exactly while connected with a node
  online, the settings exactly while not connected, and after a disconnection nothing is pending, paused or recording;
  it asks only for targets, watermarks, ports and configurations the controller takes. A report of the device never asks
  for anything; it sets the live target unless the operator has just asked for another one, and ends that wait if
  it confirms the request. While a playback owns the views, live snapshots leave the window as it is.
\<close>

theorem window_controls_fit:
  assumes "window_reach w"
  shows "mw_node_controls w = (mw_connected w \<and> mw_node_available w) \<and> mw_setup_enabled w = (\<not> mw_connected w) \<and>
    (if mw_connected w then True else mw_pending_target w = None \<and> \<not> mw_paused w \<and> \<not> mw_recording w) \<and>
    list_all ask_ok (mw_signals w) \<and> mw_signals (window_update_snapshot s w) = mw_signals w \<and>
    (t \<in> {lit ''UART'', lit ''CDC''} \<longrightarrow> reported_target s = Some t \<longrightarrow>
      (if mw_pending_target w \<in> {None, Some t}
       then mw_live_target (window_update_snapshot s w) = t \<and> mw_pending_target (window_update_snapshot s w) = None
       else mw_live_target (window_update_snapshot s w) = mw_live_target w \<and>
         mw_pending_target (window_update_snapshot s w) = mw_pending_target w)) \<and>
    (mw_playback_active w \<longrightarrow> update_live_snapshot s w = w)"
proof -
  have ok: "window_ok w" by (rule window_reach_ok [OF assms])
  have "if mw_pending_target w \<in> {None, Some t}
       then mw_live_target (window_update_snapshot s w) = t \<and> mw_pending_target (window_update_snapshot s w) = None
       else mw_live_target (window_update_snapshot s w) = mw_live_target w \<and>
         mw_pending_target (window_update_snapshot s w) = mw_pending_target w"
    if t: "t \<in> {lit ''UART'', lit ''CDC''}" "reported_target s = Some t"
  proof (cases "mw_pending_target w \<in> {None, Some t}")
    case True
    then show ?thesis using sync_target_result(1) [OF True t(1)] t(2) by (simp add: update_snapshot_target)
  next
    case False
    then obtain u where "mw_pending_target w = Some u" "u \<noteq> t" by auto
    then show ?thesis using sync_target_result(2) [of w u t] t(2) False by (simp add: update_snapshot_target)
  qed
  moreover have "mw_node_controls w = (mw_connected w \<and> mw_node_available w)" "mw_setup_enabled w = (\<not> mw_connected w)"
    "if mw_connected w then True else mw_pending_target w = None \<and> \<not> mw_paused w \<and> \<not> mw_recording w"
    "list_all ask_ok (mw_signals w)" using ok unfolding window_ok_def by (simp_all only: split: if_split) blast+
  moreover have "mw_playback_active w \<Longrightarrow> update_live_snapshot s w = w" by (simp add: update_live_snapshot_def)
  ultimately show ?thesis using update_snapshot_target(3) by blast
qed

definition sample_window :: main_window where
  "sample_window = choose_target (lit ''CDC'')
     (window_set_nodes [\<lparr>ns_node_id = lit ''gw-1'', ns_transport_kind = WIFI, ns_peer = [], ns_connection_state = CONNECTED,
          ns_device_uuid = None, ns_alias = lit ''A'', ns_is_recording = False, ns_alert = None\<rparr>]
       (MainWindow.set_connected True MainWindow_init))"

lemma sample_window_reach: "window_reach sample_window"
  unfolding sample_window_def
  by (intro window_reach.step [OF _ window_step.target] window_reach.step [OF _ window_step.nodes]
      window_reach.step [OF _ window_step.connection] window_reach.init)
    (simp_all add: window_set_nodes_def refresh_node_controls_def MainWindow.set_connected_def ONLINE_STATES_def Let_def)

definition sample_report :: ui_snapshot where
  "sample_report = empty_snapshot\<lparr>us_firmware_control_state := Some ((\<lambda>_. VNone)(''livestream_target'' := VStr (lit ''CDC'')))\<rparr>"

theorem window_controls_fit_witness:
  "window_reach sample_window \<and> mw_pending_target sample_window = Some (lit ''CDC'') \<and> mw_node_controls sample_window \<and>
     mw_live_target (window_update_snapshot sample_report sample_window) = lit ''CDC'' \<and>
     mw_pending_target (window_update_snapshot sample_report sample_window) = None"
proof -
  have w: "mw_pending_target sample_window = Some (lit ''CDC'')" "mw_connected sample_window" "mw_node_available sample_window"
    by (simp_all add: sample_window_def choose_target_def emit_livestream_requested_def emit_window_def window_set_nodes_def
        refresh_node_controls_def MainWindow.set_connected_def MainWindow_init_def uncheck_buttons_def ONLINE_STATES_def lit_def Let_def)
  have r: "reported_target sample_report = Some (lit ''CDC'')" by (simp add: reported_target_def sample_report_def)
  then show ?thesis
    using window_controls_fit [OF sample_window_reach, of sample_report "lit ''CDC''"] sample_window_reach w by simp
qed

end
