(* ===== verification/GoldenFrames.thy ===== *)
theory GoldenFrames
  imports FakeTransport StreamParser
begin

text \<open>
  The encoder of \<^verbatim>\<open>tools/generate_golden_frames.py\<close>, which writes the wire format independently of the parser,
  and what the parser makes of encoded frames: those of the generator and those of the simulated sensor.
\<close>

section \<open>Well-formed frames are decoded\<close>

text \<open>The fields fit their widths, and the payload its type.\<close>

definition header_fits :: "nat \<Rightarrow> nat \<Rightarrow> nat \<Rightarrow> nat \<Rightarrow> bool" where
  "header_fits flags sequence timestamp item_count \<longleftrightarrow>
     flags < 65536 \<and> sequence < 4294967296 \<and> timestamp < 18446744073709551616 \<and> item_count < 65536"

fun payload_fits :: "message_type \<Rightarrow> nat \<Rightarrow> bytes \<Rightarrow> bool" where
  "payload_fits IIS3DWB_FIFO n payload = (length payload = n * IIS_WORD_SIZE)"
| "payload_fits JY61PL_SAMPLE n payload = (length payload = 14 \<and> n = 1)"
| "payload_fits STATUS n payload = (length payload = 64 \<and> n = 1)"
| "payload_fits CLI_RESPONSE n payload = True"

definition is_sensor :: "message_type \<Rightarrow> bool" where
  "is_sensor t \<longleftrightarrow> t \<in> {IIS3DWB_FIFO, JY61PL_SAMPLE}"

text \<open>Version 2 with the UUID for the sensors, version 1 for the others.\<close>

definition wire_frame_of ::
  "bytes \<Rightarrow> message_type \<Rightarrow> nat \<Rightarrow> nat \<Rightarrow> nat \<Rightarrow> nat \<Rightarrow> bytes \<Rightarrow> bytes" where
  "wire_frame_of uuid t flags sequence timestamp item_count payload =
     (if is_sensor t
      then with_crc (sdf1_header 2 t flags DATA_HEADER_SIZE (length payload) sequence timestamp item_count @ uuid @ payload)
      else with_crc (sdf1_header 1 t flags HEADER_SIZE (length payload) sequence timestamp item_count @ payload))"

lemma length_sdf1_header [simp]: "length (sdf1_header v t f h p s ts n) = 28"
  by (simp add: sdf1_header_def)

lemma type_value_less: "message_type_value t < 256"
  by (cases t) simp_all

lemma sdf1_header_fields:
  assumes "header_fits f s ts n" and "h < 65536" and "p < 65536" and "v < 256"
  shows "field (sdf1_header v t f h p s ts n) 4 1 = v" "field (sdf1_header v t f h p s ts n) 5 1 = message_type_value t"
    "field (sdf1_header v t f h p s ts n) 6 2 = f" "field (sdf1_header v t f h p s ts n) 8 2 = h"
    "field (sdf1_header v t f h p s ts n) 10 2 = p" "field (sdf1_header v t f h p s ts n) 12 4 = s"
    "field (sdf1_header v t f h p s ts n) 16 8 = ts" "field (sdf1_header v t f h p s ts n) 24 2 = n"
  using assms type_value_less [of t] by (simp_all add: sdf1_header_def header_fits_def le_simps le_nat_to_le_mod del: to_le.simps One_nat_def)

lemma header_prefix:
  assumes "off + k \<le> 28"
  shows "field (with_crc (sdf1_header v t f h p s ts n @ body)) off k = field (sdf1_header v t f h p s ts n) off k"
  unfolding with_crc_def append_assoc by (rule field_append) (use assms in simp)

lemma with_crc_valid:
  fixes t :: message_type
  assumes "header_fits f s ts n" and "length uuid + 28 = h" and "length payload = p" and "p \<le> MAX_PAYLOAD_SIZE"
    and "v = VERSION \<and> h = HEADER_SIZE \<or> v = DATA_VERSION \<and> h = DATA_HEADER_SIZE"
  defines "cand \<equiv> with_crc (sdf1_header v t f h p s ts n @ uuid @ payload)"
  shows "valid_candidate cand" "slice cand h (length cand - CRC_SIZE) = payload"
    "slice cand HEADER_SIZE h = uuid" "length cand = h + p + CRC_SIZE"
proof -
  let ?hd = "sdf1_header v t f h p s ts n"
  have b: "h < 65536" "p < 65536" "v < 256" using assms(4,5) by (auto simp: const_simps)
  note fs = sdf1_header_fields [OF assms(1) b]
  show len: "length cand = h + p + CRC_SIZE" using assms(2,3) by (simp add: cand_def with_crc_def const_simps)
  have body: "take (length cand - CRC_SIZE) cand = ?hd @ uuid @ payload"
    using assms(2,3) len by (simp add: cand_def with_crc_def const_simps)
  have "field (xs @ to_le 4 (crc32 xs)) (length xs) 4 = crc32 xs" for xs
    by (simp add: le_simps del: to_le.simps)
  moreover have "cand = (?hd @ uuid @ payload) @ to_le 4 (crc32 (?hd @ uuid @ payload))"
    by (simp add: cand_def with_crc_def)
  moreover have "length cand - CRC_SIZE = length (?hd @ uuid @ payload)"
    using assms(2,3) len by (simp add: const_simps)
  ultimately have "field cand (length cand - CRC_SIZE) 4 = crc32 (?hd @ uuid @ payload)" by (simp only:)
  moreover have "starts_with MAGIC cand"
    by (simp add: cand_def with_crc_def sdf1_header_def)
  moreover have "field cand 8 2 = h" "field cand 10 2 = p" "field cand 4 1 = v"
    unfolding cand_def by (simp_all add: header_prefix fs del: One_nat_def)
  ultimately show "valid_candidate cand"
    using assms(4,5) len body by (auto simp: valid_candidate_def const_simps)
  show "slice cand h (length cand - CRC_SIZE) = payload" "slice cand HEADER_SIZE h = uuid"
    using assms(2,3) by (auto simp: cand_def with_crc_def const_simps slice_def)
qed

text \<open>What a frame carries, and what counts as a loss.\<close>

definition frame_view ::
  "frame \<Rightarrow> message_type \<times> nat \<times> nat \<times> nat \<times> nat \<times> bytes \<times> nat option \<times> bytes" where
  "frame_view f = (fr_message_type f, fr_flags f, fr_sequence f, fr_timestamp_us f, fr_item_count f,
     fr_payload f, fr_device_uuid f, fr_raw_bytes f)"

definition same_losses :: "parser_stats \<Rightarrow> parser_stats \<Rightarrow> bool" where
  "same_losses s s' \<longleftrightarrow> s' = s\<lparr>ps_frames := ps_frames s', ps_sequence_gaps := ps_sequence_gaps s'\<rparr>"

lemma same_losses_refl: "same_losses s s"
  by (simp add: same_losses_def)

lemma same_losses_trans: "same_losses s s' \<Longrightarrow> same_losses s' s'' \<Longrightarrow> same_losses s s''"
  by (cases s; cases s'; cases s'') (auto simp: same_losses_def)

lemma decode_frame_fits:
  assumes "payload_fits t n payload"
  obtains f c' where "decode_frame np t fg sq ts n payload u raw c = (Some f, c')"
    "frame_view f = (t, fg, sq, ts, n, payload, u, raw)" "pc_stats c' = pc_stats c"
proof -
  obtain r c' where d: "decode_frame np t fg sq ts n payload u raw c = (r, c')" by force
  moreover have "r \<noteq> None" "pc_stats c' = pc_stats c"
    using assms d by (cases t; force simp: decode_frame_def Let_def split: if_splits prod.splits)+
  ultimately show thesis
    using that decode_frame_cases(5) [OF d] by (fastforce simp: frame_view_def)
qed

lemma record_sequence_losses: "same_losses (pc_stats c) (pc_stats (record_sequence q c))"
  by (cases "pc_stats c") (auto simp: same_losses_def record_sequence_def Let_def upd_stats_def split: option.split)

lemma inc_frames_losses: "same_losses (pc_stats c) (pc_stats (inc_frames c))"
  by (cases "pc_stats c") (simp add: same_losses_def inc_frames_def upd_stats_def)

lemma accept_fits:
  assumes "valid_candidate cand" and "field cand 4 1 = (if is_sensor t then 2 else 1)"
    and "field cand 5 1 = message_type_value t"
    and "payload_fits t (field cand 24 2) (slice cand (field cand 8 2) (length cand - CRC_SIZE))"
  obtains f c' where "accept_candidate np c cand (field cand 8 2) = (c', [f])"
    "frame_view f = (t, field cand 6 2, field cand 12 4, field cand 16 8, field cand 24 2,
       slice cand (field cand 8 2) (length cand - CRC_SIZE),
       if is_sensor t then Some (be_nat (slice cand HEADER_SIZE DATA_HEADER_SIZE)) else None, cand)"
    "same_losses (pc_stats c) (pc_stats c')"
proof -
  let ?u = "if is_sensor t then Some (be_nat (slice cand HEADER_SIZE DATA_HEADER_SIZE)) else None"
  obtain f c1 where d: "decode_frame np t (field cand 6 2) (field cand 12 4) (field cand 16 8) (field cand 24 2)
       (slice cand (field cand 8 2) (length cand - CRC_SIZE)) ?u cand c = (Some f, c1)"
    "frame_view f = (t, field cand 6 2, field cand 12 4, field cand 16 8, field cand 24 2,
       slice cand (field cand 8 2) (length cand - CRC_SIZE), ?u, cand)" "pc_stats c1 = pc_stats c"
    by (rule decode_frame_fits [OF assms(4)])
  let ?c' = "inc_frames (if is_sensor t then record_sequence (field cand 12 4) c1 else c1)"
  have "accept_candidate np c cand (field cand 8 2) = (?c', [f])"
    using assms(2,3) d(1)
    by (cases "is_sensor t") (auto simp: accept_candidate_def Let_def const_simps is_sensor_def)
  moreover have "same_losses (pc_stats c) (pc_stats ?c')"
    using same_losses_trans [OF record_sequence_losses inc_frames_losses, of c1] inc_frames_losses [of c1] d(3) by simp
  ultimately show thesis using that d(2) by blast
qed

text \<open>A frame as it is written: what the parser returns for it, and the bytes.\<close>

definition wire_fits :: "bytes \<Rightarrow> message_type \<Rightarrow> nat \<Rightarrow> nat \<Rightarrow> nat \<Rightarrow> nat \<Rightarrow> bytes \<Rightarrow> bool" where
  "wire_fits uuid t flags sequence timestamp item_count payload \<longleftrightarrow>
     header_fits flags sequence timestamp item_count \<and> payload_fits t item_count payload \<and>
     length payload \<le> MAX_PAYLOAD_SIZE \<and> length uuid = 16"

definition sent_view ::
  "bytes \<Rightarrow> message_type \<Rightarrow> nat \<Rightarrow> nat \<Rightarrow> nat \<Rightarrow> nat \<Rightarrow> bytes \<Rightarrow>
     message_type \<times> nat \<times> nat \<times> nat \<times> nat \<times> bytes \<times> nat option \<times> bytes" where
  "sent_view uuid t flags sequence timestamp item_count payload =
     (t, flags, sequence, timestamp, item_count, payload, if is_sensor t then Some (be_nat uuid) else None,
      wire_frame_of uuid t flags sequence timestamp item_count payload)"

lemma wire_frame_decoded:
  assumes "wire_fits uuid t fg sq ts n payload"
  defines "cand \<equiv> wire_frame_of uuid t fg sq ts n payload"
  obtains f c' where "valid_candidate cand" "accept_candidate np c cand (field cand 8 2) = (c', [f])"
    "frame_view f = sent_view uuid t fg sq ts n payload" "same_losses (pc_stats c) (pc_stats c')"
proof -
  define v h u where "v = (if is_sensor t then 2 else 1 :: nat)" and "h = (if is_sensor t then 44 else 28 :: nat)"
    and "u = (if is_sensor t then uuid else [])"
  have cand: "cand = with_crc (sdf1_header v t fg h (length payload) sq ts n @ u @ payload)"
    by (simp add: cand_def wire_frame_of_def v_def h_def u_def const_simps)
  have a: "header_fits fg sq ts n" "length u + 28 = h" "length payload = length payload"
    "length payload \<le> MAX_PAYLOAD_SIZE" "v = VERSION \<and> h = HEADER_SIZE \<or> v = DATA_VERSION \<and> h = DATA_HEADER_SIZE"
    using assms(1) by (auto simp: wire_fits_def v_def h_def u_def const_simps)
  note ok = with_crc_valid [OF a, of t, folded cand]
  have "h < 65536" "length payload < 65536" "v < 256" using a(4) by (auto simp: v_def h_def const_simps)
  note fs = sdf1_header_fields [OF a(1) this]
  have f: "field cand 4 1 = v" "field cand 5 1 = message_type_value t" "field cand 6 2 = fg" "field cand 8 2 = h"
    "field cand 12 4 = sq" "field cand 16 8 = ts" "field cand 24 2 = n"
    unfolding cand by (simp_all add: header_prefix fs del: One_nat_def)
  have p: "payload_fits t (field cand 24 2) (slice cand (field cand 8 2) (length cand - CRC_SIZE))"
    using assms(1) by (simp add: f ok(2) wire_fits_def)
  have "field cand 4 1 = (if is_sensor t then 2 else 1)" by (simp add: f v_def del: One_nat_def)
  then obtain g c' where g: "accept_candidate np c cand (field cand 8 2) = (c', [g])" "same_losses (pc_stats c) (pc_stats c')"
    "frame_view g = (t, field cand 6 2, field cand 12 4, field cand 16 8, field cand 24 2,
       slice cand (field cand 8 2) (length cand - CRC_SIZE),
       if is_sensor t then Some (be_nat (slice cand HEADER_SIZE DATA_HEADER_SIZE)) else None, cand)"
    using accept_fits [OF ok(1) _ f(2) p, of np c] by blast
  have "is_sensor t \<Longrightarrow> slice cand HEADER_SIZE DATA_HEADER_SIZE = uuid"
    using ok(3) by (simp add: h_def u_def const_simps)
  then have "frame_view g = sent_view uuid t fg sq ts n payload"
    using g(3) by (cases "is_sensor t") (simp_all add: sent_view_def f ok(2) cand_def [symmetric])
  then show thesis using that ok(1) g(1,2) by blast
qed

text \<open>A stream of encoded frames.\<close>

fun stream_of :: "bytes \<Rightarrow> (message_type \<times> nat \<times> nat \<times> nat \<times> nat \<times> bytes) list \<Rightarrow> bytes" where
  "stream_of uuid [] = []"
| "stream_of uuid ((t, fg, sq, ts, n, payload) # ms) = wire_frame_of uuid t fg sq ts n payload @ stream_of uuid ms"

lemma stream_decoded:
  assumes "list_all (\<lambda>(t, fg, sq, ts, n, payload). wire_fits uuid t fg sq ts n payload) ms"
  shows "\<exists>fs c'. parse_buffer np c (stream_of uuid ms) = (fs, c', []) \<and>
    map frame_view fs = map (\<lambda>(t, fg, sq, ts, n, payload). sent_view uuid t fg sq ts n payload) ms \<and>
    same_losses (pc_stats c) (pc_stats c')"
  using assms
proof (induction ms arbitrary: c)
  case Nil
  show ?case by (simp add: parse_buffer.simps feed_iter_def bytes_find_def MAGIC_bytes same_losses_refl)
next
  case (Cons m ms)
  obtain t fg sq ts n payload where m: "m = (t, fg, sq, ts, n, payload)" by (metis surj_pair)
  let ?cand = "wire_frame_of uuid t fg sq ts n payload"
  have w: "wire_fits uuid t fg sq ts n payload" using Cons.prems by (simp add: m)
  obtain f c1 where f: "valid_candidate ?cand" "accept_candidate np c ?cand (field ?cand 8 2) = (c1, [f])"
    "frame_view f = sent_view uuid t fg sq ts n payload" "same_losses (pc_stats c) (pc_stats c1)"
    by (rule wire_frame_decoded [OF w])
  obtain fs c' where r: "parse_buffer np c1 (stream_of uuid ms) = (fs, c', [])"
    "map frame_view fs = map (\<lambda>(t, fg, sq, ts, n, payload). sent_view uuid t fg sq ts n payload) ms"
    "same_losses (pc_stats c1) (pc_stats c')" using Cons.IH [of c1] Cons.prems by (auto simp: m)
  have "parse_buffer np c (stream_of uuid (m # ms)) = (f # fs, c', [])"
    using parse_buffer_frame [OF f(1), of "[]" np c "stream_of uuid ms"] f(2) r(1) by (simp add: m)
  then show ?case using f(3) r(2) same_losses_trans [OF f(4) r(3)] by (simp add: m)
qed

section \<open>The generator\<close>

text \<open>\<^verbatim>\<open>struct.error\<close> and the \<^verbatim>\<open>ValueError\<close> of \<^verbatim>\<open>encode_frame\<close>.\<close>

datatype golden_error = StructError | PayloadExceedsLimit

definition pack_unsigned :: "nat \<Rightarrow> int \<Rightarrow> golden_error + bytes" where
  "pack_unsigned n v = (if 0 \<le> v \<and> v < 256 ^ n then Inr (to_le n (nat v)) else Inl StructError)"

fun pack_fields :: "(nat \<times> int) list \<Rightarrow> golden_error + bytes" where
  "pack_fields [] = Inr []"
| "pack_fields ((n, v) # vs) =
     rbind (pack_unsigned n v) (\<lambda>b. rbind (pack_fields vs) (\<lambda>bs. Inr (b @ bs)))"

definition GOLDEN_HEADER_SIZE :: nat where [const_simps]: "GOLDEN_HEADER_SIZE = 28"
definition GOLDEN_DATA_HEADER_SIZE :: nat where [const_simps]: "GOLDEN_DATA_HEADER_SIZE = 44"
definition GOLDEN_MAX_PAYLOAD_SIZE :: nat where [const_simps]: "GOLDEN_MAX_PAYLOAD_SIZE = 3577"

definition GOLDEN_DEVICE_UUID :: bytes where
  "GOLDEN_DEVICE_UUID =
     [0x00, 0x11, 0x22, 0x33, 0x44, 0x55, 0x66, 0x77, 0x88, 0x99, 0xaa, 0xbb, 0xcc, 0xdd, 0xee, 0xff]"

definition golden_encode_frame ::
  "int \<Rightarrow> int \<Rightarrow> int \<Rightarrow> int \<Rightarrow> int \<Rightarrow> bytes \<Rightarrow> golden_error + bytes" where
  "golden_encode_frame message_type flags sequence timestamp_us item_count payload =
     (if GOLDEN_MAX_PAYLOAD_SIZE < length payload then Inl PayloadExceedsLimit
      else
        let sensor = message_type = 1 \<or> message_type = 2;
            version = (if sensor then 2 else 1);
            header_size = (if sensor then GOLDEN_DATA_HEADER_SIZE else GOLDEN_HEADER_SIZE)
        in rbind (pack_fields
             [(1, version), (1, message_type), (2, flags), (2, int header_size), (2, int (length payload)),
              (4, sequence), (8, timestamp_us), (2, item_count), (2, 0)])
             (\<lambda>packed.
               let body = blit ''SDF1'' @ packed @ (if sensor then GOLDEN_DEVICE_UUID else []) @ payload
               in Inr (body @ to_le 4 (crc32 body))))"

record golden_case =
  gc_name :: pystr
  gc_message_type :: int
  gc_flags :: int
  gc_sequence :: int
  gc_timestamp_us :: int
  gc_item_count :: int
  gc_payload :: bytes

definition golden_cases :: "golden_case list" where
  "golden_cases =
     [\<lparr>gc_name = lit ''iis3dwb_fifo'', gc_message_type = 1, gc_flags = 1, gc_sequence = 1,
       gc_timestamp_us = 1000000, gc_item_count = 2, gc_payload = map of_nat [0..<14]\<rparr>,
      \<lparr>gc_name = lit ''jy61pl_sample'', gc_message_type = 2, gc_flags = 0, gc_sequence = 2,
       gc_timestamp_us = 1000100, gc_item_count = 1,
       gc_payload = concat (map pack_h [0x1234, - 2, - 32768, 32767, 0, 1, - 32767])\<rparr>,
      \<lparr>gc_name = lit ''status'', gc_message_type = 3, gc_flags = 2, gc_sequence = 3,
       gc_timestamp_us = 1000200, gc_item_count = 1, gc_payload = map of_nat [0..<64]\<rparr>,
      \<lparr>gc_name = lit ''cli_response'', gc_message_type = 4, gc_flags = 0, gc_sequence = 4,
       gc_timestamp_us = 1000300, gc_item_count = 1, gc_payload = blit ''transport=cdc'' @ [13, 10]\<rparr>]"

record golden_entry =
  ge_name :: pystr
  ge_offset :: nat
  ge_length :: nat
  ge_message_type :: int
  ge_version :: nat
  ge_device_uuid :: "pystr option"
  ge_flags :: int
  ge_sequence :: int
  ge_timestamp_us :: int
  ge_item_count :: int
  ge_payload_hex :: pystr
  ge_crc32 :: nat

definition golden_entry_for :: "golden_case \<Rightarrow> nat \<Rightarrow> bytes \<Rightarrow> golden_entry" where
  "golden_entry_for c offset frame =
     (let sensor = gc_message_type c = 1 \<or> gc_message_type c = 2 in
      \<lparr>ge_name = gc_name c, ge_offset = offset, ge_length = length frame, ge_message_type = gc_message_type c,
       ge_version = (if sensor then 2 else 1),
       ge_device_uuid = (if sensor then Some (lit ''00112233-4455-6677-8899-aabbccddeeff'') else None),
       ge_flags = gc_flags c, ge_sequence = gc_sequence c, ge_timestamp_us = gc_timestamp_us c,
       ge_item_count = gc_item_count c,
       ge_payload_hex = concat (map (\<lambda>b. hex_fixed 97 2 (unat b)) (gc_payload c)),
       ge_crc32 = field (drop (length frame - 4) frame) 0 4\<rparr>)"

text \<open>The loop of \<^verbatim>\<open>main\<close>: the binary written so far, and the entries of the manifest.\<close>

fun golden_run :: "bytes \<Rightarrow> golden_case list \<Rightarrow> golden_error + bytes \<times> golden_entry list" where
  "golden_run binary [] = Inr (binary, [])"
| "golden_run binary (c # cs) =
     rbind (golden_encode_frame (gc_message_type c) (gc_flags c) (gc_sequence c) (gc_timestamp_us c)
              (gc_item_count c) (gc_payload c))
       (\<lambda>frame. rbind (golden_run (binary @ frame) cs)
         (\<lambda>(b, entries). Inr (b, golden_entry_for c (length binary) frame # entries)))"

lemma pack_unsigned_Inr: "pack_unsigned n v = Inr b \<longleftrightarrow> 0 \<le> v \<and> v < 256 ^ n \<and> b = to_le n (nat v)"
  by (auto simp: pack_unsigned_def)

lemma pack_fields_Inr:
  "pack_fields fs = Inr b \<longleftrightarrow>
     list_all (\<lambda>(n, v). 0 \<le> v \<and> v < 256 ^ n) fs \<and> b = concat (map (\<lambda>(n, v). to_le n (nat v)) fs)"
proof (induction fs arbitrary: b)
  case (Cons x fs)
  show ?case by (cases x) (simp add: rbind_Inr_iff pack_unsigned_Inr Cons.IH, blast)
qed auto

text \<open>The encoder writes exactly the frames that fit.\<close>

lemma golden_encode_exact:
  assumes "message_type = int (message_type_value t)"
  shows "golden_encode_frame message_type fg sq ts n payload = Inr frame \<longleftrightarrow>
    length payload \<le> MAX_PAYLOAD_SIZE \<and> 0 \<le> fg \<and> 0 \<le> sq \<and> 0 \<le> ts \<and> 0 \<le> n \<and>
    header_fits (nat fg) (nat sq) (nat ts) (nat n) \<and>
    frame = wire_frame_of GOLDEN_DEVICE_UUID t (nat fg) (nat sq) (nat ts) (nat n) payload"
proof -
  define v h where "v = (if is_sensor t then 2 else 1 :: nat)" and "h = (if is_sensor t then 44 else 28 :: nat)"
  let ?range = "0 \<le> fg \<and> 0 \<le> sq \<and> 0 \<le> ts \<and> 0 \<le> n \<and> header_fits (nat fg) (nat sq) (nat ts) (nat n)"
  let ?hd = "sdf1_header v t (nat fg) h (length payload) (nat sq) (nat ts) (nat n)"
  have vh: "0 < v" "v < 256" "h < 65536" by (simp_all add: v_def h_def)
  have t: "message_type = 1 \<or> message_type = 2 \<longleftrightarrow> is_sensor t" using assms by (cases t) (simp_all add: is_sensor_def)
  have packed: "pack_fields [(1, int v), (1, message_type), (2, fg), (2, int h), (2, int (length payload)), (4, sq),
      (8, ts), (2, n), (2, 0)] = Inr b \<longleftrightarrow> ?range \<and> MAGIC @ b = ?hd" if "length payload \<le> MAX_PAYLOAD_SIZE" for b
  proof -
    have "list_all (\<lambda>(n, v). 0 \<le> v \<and> v < 256 ^ n) [(1, int v), (1, message_type), (2, fg), (2, int h),
        (2, int (length payload)), (4, sq), (8, ts), (2, n), (2, 0)] \<longleftrightarrow> ?range"
      using that vh type_value_less [of t] assms by (auto simp: header_fits_def const_simps nat_less_iff)
    then show ?thesis unfolding pack_fields_Inr by (simp add: sdf1_header_def assms)
  qed
  have enc: "golden_encode_frame message_type fg sq ts n payload =
    (if MAX_PAYLOAD_SIZE < length payload then Inl PayloadExceedsLimit
     else rbind (pack_fields [(1, int v), (1, message_type), (2, fg), (2, int h), (2, int (length payload)), (4, sq),
        (8, ts), (2, n), (2, 0)])
       (\<lambda>b. Inr (with_crc ((MAGIC @ b) @ (if is_sensor t then GOLDEN_DEVICE_UUID else []) @ payload))))"
    by (simp add: golden_encode_frame_def t v_def h_def const_simps MAGIC_def with_crc_def Let_def
        del: pack_fields.simps to_le.simps One_nat_def)
  have w: "with_crc (?hd @ (if is_sensor t then GOLDEN_DEVICE_UUID else []) @ payload) =
      wire_frame_of GOLDEN_DEVICE_UUID t (nat fg) (nat sq) (nat ts) (nat n) payload"
    by (simp add: wire_frame_of_def v_def h_def const_simps)
  obtain d where d: "?hd = MAGIC @ d" by (simp add: sdf1_header_def)
  show ?thesis
  proof (cases "length payload \<le> MAX_PAYLOAD_SIZE")
    case True
    have "golden_encode_frame message_type fg sq ts n payload = Inr frame \<longleftrightarrow>
      (\<exists>b. ?range \<and> MAGIC @ b = ?hd \<and> frame = with_crc ((MAGIC @ b) @ (if is_sensor t then GOLDEN_DEVICE_UUID else []) @ payload))"
      unfolding enc rbind_Inr_iff packed [OF True] if_not_P [OF True [folded not_less]] by (auto simp del: append_assoc)
    also have "\<dots> \<longleftrightarrow> ?range \<and> frame = with_crc (?hd @ (if is_sensor t then GOLDEN_DEVICE_UUID else []) @ payload)"
      unfolding d by blast
    finally show ?thesis unfolding w using True by blast
  qed (simp add: enc)
qed

text \<open>A case as the frame it asks for; its payload has the length its type demands.\<close>

definition case_type :: "golden_case \<Rightarrow> message_type" where
  "case_type c = the (message_type_of (nat (gc_message_type c)))"

definition case_ok :: "golden_case \<Rightarrow> bool" where
  "case_ok c \<longleftrightarrow> gc_message_type c = int (message_type_value (case_type c)) \<and>
     payload_fits (case_type c) (nat (gc_item_count c)) (gc_payload c)"

definition case_view :: "golden_case \<Rightarrow> message_type \<times> nat \<times> nat \<times> nat \<times> nat \<times> bytes" where
  "case_view c = (case_type c, nat (gc_flags c), nat (gc_sequence c), nat (gc_timestamp_us c),
     nat (gc_item_count c), gc_payload c)"

definition shows_case :: "golden_case \<Rightarrow> frame \<Rightarrow> bool" where
  "shows_case c f \<longleftrightarrow> int (message_type_value (fr_message_type f)) = gc_message_type c \<and>
     int (fr_flags f) = gc_flags c \<and> int (fr_sequence f) = gc_sequence c \<and>
     int (fr_timestamp_us f) = gc_timestamp_us c \<and> int (fr_item_count f) = gc_item_count c \<and>
     fr_payload f = gc_payload c \<and>
     fr_device_uuid f = (if gc_message_type c \<in> {1, 2} then Some (be_nat GOLDEN_DEVICE_UUID) else None)"

definition locates :: "bytes \<Rightarrow> golden_entry \<Rightarrow> frame \<Rightarrow> bool" where
  "locates binary e f \<longleftrightarrow> slice binary (ge_offset e) (ge_offset e + ge_length e) = fr_raw_bytes f \<and>
     ge_crc32 e = crc32 (take (ge_length e - CRC_SIZE) (fr_raw_bytes f))"

lemma case_encoded:
  assumes "golden_encode_frame (gc_message_type c) (gc_flags c) (gc_sequence c) (gc_timestamp_us c) (gc_item_count c)
      (gc_payload c) = Inr frame" and "case_ok c"
  shows "(case case_view c of (t, fg, sq, ts, n, payload) \<Rightarrow> wire_fits GOLDEN_DEVICE_UUID t fg sq ts n payload \<and>
      frame = wire_frame_of GOLDEN_DEVICE_UUID t fg sq ts n payload) \<and>
    0 \<le> gc_flags c \<and> 0 \<le> gc_sequence c \<and> 0 \<le> gc_timestamp_us c \<and> 0 \<le> gc_item_count c"
proof -
  have "gc_message_type c = int (message_type_value (case_type c))" using assms(2) by (simp add: case_ok_def)
  from assms(1) [unfolded golden_encode_exact [OF this]] show ?thesis
    using assms(2) by (simp add: case_view_def case_ok_def wire_fits_def GOLDEN_DEVICE_UUID_def)
qed

lemma sensor_type: "is_sensor t \<longleftrightarrow> int (message_type_value t) \<in> {1, 2}"
  by (cases t) (simp_all add: is_sensor_def)

lemma golden_run_stream:
  assumes "golden_run binary cs = Inr (b, es)" and "list_all case_ok cs"
  shows "b = binary @ stream_of GOLDEN_DEVICE_UUID (map case_view cs) \<and>
    list_all (\<lambda>(t, fg, sq, ts, n, payload). wire_fits GOLDEN_DEVICE_UUID t fg sq ts n payload) (map case_view cs) \<and>
    (\<forall>fs. map frame_view fs =
        map (\<lambda>(t, fg, sq, ts, n, payload). sent_view GOLDEN_DEVICE_UUID t fg sq ts n payload) (map case_view cs) \<longrightarrow>
      list_all2 shows_case cs fs \<and> list_all2 (locates b) es fs)"
  using assms
proof (induction binary cs arbitrary: es rule: golden_run.induct)
  case (1 binary)
  then show ?case by simp
next
  case (2 binary c cs)
  let ?enc = "golden_encode_frame (gc_message_type c) (gc_flags c) (gc_sequence c) (gc_timestamp_us c) (gc_item_count c)
      (gc_payload c)"
  let ?sent = "\<lambda>(t, fg, sq, ts, n, payload). sent_view GOLDEN_DEVICE_UUID t fg sq ts n payload"
  obtain frame es' where f: "?enc = Inr frame" "golden_run (binary @ frame) cs = Inr (b, es')"
    "es = golden_entry_for c (length binary) frame # es'"
    using "2.prems"(1) by (auto simp: rbind_Inr_iff)
  have ok: "case_ok c" "list_all case_ok cs" using "2.prems"(2) by simp_all
  note IH = "2.IH" [OF f(2) ok(2)]
  note e = case_encoded [OF f(1) ok(1)]
  obtain t fg sq ts n payload where v: "case_view c = (t, fg, sq, ts, n, payload)" by (metis surj_pair)
  have frame: "frame = wire_frame_of GOLDEN_DEVICE_UUID t fg sq ts n payload"
    "wire_fits GOLDEN_DEVICE_UUID t fg sq ts n payload" using e by (simp_all add: v)
  have shown: "shows_case c g" if "frame_view g = ?sent (case_view c)" for g
    using that e ok(1) unfolding sensor_type
    by (auto simp: shows_case_def frame_view_def sent_view_def case_view_def case_ok_def sensor_type)
  have at: "locates b (golden_entry_for c (length binary) frame) g" if "frame_view g = ?sent (case_view c)" for g
  proof -
    have raw: "fr_raw_bytes g = frame" using that by (simp add: v frame_view_def sent_view_def frame)
    obtain content where c: "frame = with_crc content" by (metis frame(1) wire_frame_of_def)
    have "slice b (length binary) (length binary + length frame) = frame" using IH by (simp add: slice_def)
    moreover have "field (drop (length frame - 4) frame) 0 4 = crc32 (take (length frame - 4) frame)"
      by (simp add: c with_crc_def le_simps del: to_le.simps)
    ultimately show ?thesis by (simp add: locates_def golden_entry_for_def Let_def raw const_simps)
  qed
  show ?case
    using IH frame shown at by (auto simp: v f(3) map_eq_Cons_conv)
qed

text \<open>
  C36. Round trip of the wire format: when the generator writes cases whose payloads have the length their type
  demands, a fresh parser returns exactly these frames, in order and with every field, loses and rejects nothing and
  keeps nothing back; and the manifest gives the place and the checksum of each frame.
\<close>

theorem golden_stream_round_trip:
  assumes "golden_run [] cases = Inr (binary, manifest)" and "list_all case_ok cases"
  shows "\<exists>fs p. feed np (StreamParser_init decode) binary = (fs, p) \<and> list_all2 shows_case cases fs \<and>
    list_all2 (locates binary) manifest fs \<and> buffered_bytes p = 0 \<and>
    same_losses empty_stats (pc_stats (sp_core p))"
proof -
  note run = golden_run_stream [OF assms]
  obtain fs c' where p: "parse_buffer np (sp_core (StreamParser_init decode)) binary = (fs, c', [])"
    "map frame_view fs = map (\<lambda>(t, fg, sq, ts, n, payload). sent_view GOLDEN_DEVICE_UUID t fg sq ts n payload)
       (map case_view cases)" "same_losses (pc_stats (sp_core (StreamParser_init decode))) (pc_stats c')"
    using stream_decoded [of GOLDEN_DEVICE_UUID "map case_view cases" np] run by (metis append_Nil)
  have "list_all2 shows_case cases fs \<and> list_all2 (locates binary) manifest fs" using run p(2) by blast
  moreover have "feed np (StreamParser_init decode) binary = (fs, \<lparr>sp_core = c', sp_buffer = []\<rparr>)"
    using p(1) by (simp add: feed_parse_buffer StreamParser_init_def)
  ultimately show ?thesis using p(3) by (simp add: StreamParser_init_def buffered_bytes_def)
qed

text \<open>The four cases the generator writes.\<close>

lemma golden_encode_total:
  assumes "case_ok c" and "length (gc_payload c) \<le> MAX_PAYLOAD_SIZE" and "0 \<le> gc_flags c" "0 \<le> gc_sequence c"
    "0 \<le> gc_timestamp_us c" "0 \<le> gc_item_count c"
    and "header_fits (nat (gc_flags c)) (nat (gc_sequence c)) (nat (gc_timestamp_us c)) (nat (gc_item_count c))"
  shows "\<exists>frame. golden_encode_frame (gc_message_type c) (gc_flags c) (gc_sequence c) (gc_timestamp_us c)
    (gc_item_count c) (gc_payload c) = Inr frame"
proof -
  have "gc_message_type c = int (message_type_value (case_type c))" using assms(1) by (simp add: case_ok_def)
  from golden_encode_exact [OF this] show ?thesis using assms(2-) by blast
qed

lemma golden_run_total:
  assumes "list_all (\<lambda>c. \<exists>frame. golden_encode_frame (gc_message_type c) (gc_flags c) (gc_sequence c) (gc_timestamp_us c)
    (gc_item_count c) (gc_payload c) = Inr frame) cs"
  shows "\<exists>b es. golden_run binary cs = Inr (b, es)"
  using assms
proof (induction cs arbitrary: binary)
  case (Cons c cs)
  then obtain frame where "golden_encode_frame (gc_message_type c) (gc_flags c) (gc_sequence c) (gc_timestamp_us c)
    (gc_item_count c) (gc_payload c) = Inr frame" by auto
  moreover obtain b es where "golden_run (binary @ frame) cs = Inr (b, es)"
    using Cons.IH [of "binary @ frame"] Cons.prems by auto
  ultimately show ?case by simp
qed simp

lemma golden_cases_ok: "list_all case_ok golden_cases"
  by (simp add: golden_cases_def case_ok_def case_type_def message_type_of_def pack_h_def const_simps)

lemma golden_cases_run: "\<exists>b es. golden_run [] golden_cases = Inr (b, es)"
proof (rule golden_run_total, unfold list_all_iff, rule ballI)
  fix c assume c: "c \<in> set golden_cases"
  have "case_ok c" using golden_cases_ok c by (simp add: list_all_iff)
  then show "\<exists>frame. golden_encode_frame (gc_message_type c) (gc_flags c) (gc_sequence c) (gc_timestamp_us c)
    (gc_item_count c) (gc_payload c) = Inr frame"
    by (rule golden_encode_total) (use c in \<open>auto simp: golden_cases_def const_simps header_fits_def pack_h_def\<close>)
qed

theorem golden_stream_round_trip_witness:
  "\<exists>binary manifest fs p. golden_run [] golden_cases = Inr (binary, manifest) \<and>
     feed np_ref (StreamParser_init True) binary = (fs, p) \<and> length fs = 4 \<and> list_all2 shows_case golden_cases fs"
proof -
  obtain b es where r: "golden_run [] golden_cases = Inr (b, es)" using golden_cases_run by blast
  from golden_stream_round_trip [OF r golden_cases_ok, of np_ref True] obtain fs p where
    "feed np_ref (StreamParser_init True) b = (fs, p)" "list_all2 shows_case golden_cases fs" by blast
  moreover from this have "length fs = 4" using list_all2_lengthD by (fastforce simp: golden_cases_def)
  ultimately show ?thesis using r by blast
qed

section \<open>The simulated sensor\<close>

text \<open>The frames of \<^verbatim>\<open>FakeTransport\<close> are the wire frames of its device, so the parser returns them too.\<close>

lemma encode_data_frame_wire:
  "is_sensor t \<Longrightarrow> encode_data_frame t payload n sq ts fg =
     wire_frame_of (to_be 16 FAKE_DEVICE_UUID) t fg sq ts n payload"
  by (simp add: encode_data_frame_def wire_frame_of_def)

lemma cli_frame_wire:
  "cli_frame sq s = wire_frame_of uuid CLI_RESPONSE 0 sq (TIMESTAMP_START_US + sq) 1 (ascii_encode s)"
  by (simp add: cli_frame_def wire_frame_of_def is_sensor_def ascii_encode_def)

lemma length_iis_payload: "length (iis_payload lm i ticks) = 63"
proof -
  have "length (concat (map (\<lambda>j. f j) [0..<8])) = 56" if "\<And>j. length (f j) = 7" for f :: "nat \<Rightarrow> bytes"
    using that by (simp add: length_concat comp_def sum_list_triv)
  then show ?thesis by (simp add: iis_payload_def iis_raw_def pack_h_def)
qed

lemma live_frame_wire:
  assumes "make_live_frame lm k = (frame, k')" and "fk_sensor_sequence k + 1 < 2 ^ 32"
    and "TIMESTAMP_START_US + (fk_sensor_frame_index k + 1 + fk_export_frame_index k) * JY_SAMPLE_PERIOD_US < 2 ^ 64"
  shows "\<exists>t ts n payload. frame = wire_frame_of (to_be 16 FAKE_DEVICE_UUID) t 0 (fk_sensor_sequence k + 1) ts n payload \<and>
    wire_fits (to_be 16 FAKE_DEVICE_UUID) t 0 (fk_sensor_sequence k + 1) ts n payload \<and>
    fk_sensor_sequence k' = fk_sensor_sequence k + 1"
proof (cases "odd (fk_sensor_frame_index k + 1)")
  case True
  have "TIMESTAMP_START_US + (fk_sensor_frame_index k + 1) * JY_SAMPLE_PERIOD_US \<le>
      TIMESTAMP_START_US + (fk_sensor_frame_index k + 1 + fk_export_frame_index k) * JY_SAMPLE_PERIOD_US" by simp
  then have "TIMESTAMP_START_US + (fk_sensor_frame_index k + 1) * JY_SAMPLE_PERIOD_US < 2 ^ 64"
    using assms(3) by linarith
  then show ?thesis
    using True assms(1,2)
    by (intro exI [of _ IIS3DWB_FIFO] exI [of _ "TIMESTAMP_START_US + (fk_sensor_frame_index k + 1) * JY_SAMPLE_PERIOD_US"]
        exI [of _ 9] exI) (auto simp: make_live_frame_def make_iis_frame_def Let_def encode_data_frame_wire is_sensor_def
        wire_fits_def header_fits_def length_iis_payload const_simps)
next
  case False
  have "max (fk_sensor_frame_index k + 1 + fk_export_frame_index k) 1 = fk_sensor_frame_index k + 1 + fk_export_frame_index k"
    by simp
  then show ?thesis
    using False assms
    by (intro exI [of _ JY61PL_SAMPLE]
        exI [of _ "TIMESTAMP_START_US + (fk_sensor_frame_index k + 1 + fk_export_frame_index k) * JY_SAMPLE_PERIOD_US"]
        exI [of _ 1] exI) (auto simp: make_live_frame_def make_jy_frame_def Let_def encode_data_frame_wire is_sensor_def
        wire_fits_def header_fits_def jy_raw_values_def pack_h_def const_simps)
qed

end
