(* ===== verification/Acceptance.thy ===== *)
theory Acceptance
  imports StreamParser ControlState "HOL-Library.AList" "HOL-Library.List_Lexorder" "HOL-Library.Product_Lexorder"
begin

text \<open>
  The judgements of the acceptance tools: the result models of \<^verbatim>\<open>tools/acceptance_models.py\<close> and
  \<^verbatim>\<open>tools/realtime_archive_models.py\<close>, the comparison of two captures in \<^verbatim>\<open>tools/dual_output_compare.py\<close>, and of
  \<^verbatim>\<open>tools/realtime_archive_acceptance.py\<close> (in the repository's own \<^verbatim>\<open>tools\<close>) the reader of a port and the models it
  computes from the frames.
\<close>

section \<open>Result models\<close>

record acceptance_report =
  rp_duration_s :: float64
  rp_bytes_received :: int
  rp_frames :: int
  rp_crc_errors :: int
  rp_sequence_gaps :: int
  rp_source_drop_delta :: int
  rp_transport_drop_delta :: int
  rp_fifo_overrun_delta :: int
  rp_recorder_bytes :: int
  rp_replay_frames :: int
  rp_jy61pl_frames :: int
  rp_replay_crc_errors :: int
  rp_replay_sequence_gaps :: int

definition report_passed :: "acceptance_report \<Rightarrow> bool" where
  "report_passed r \<longleftrightarrow>
     rp_duration_s r > 0 \<and> rp_bytes_received r > 0 \<and> rp_frames r > 0 \<and> rp_crc_errors r = 0 \<and>
     rp_sequence_gaps r = 0 \<and> rp_source_drop_delta r = 0 \<and> rp_transport_drop_delta r = 0 \<and>
     rp_fifo_overrun_delta r = 0 \<and> rp_recorder_bytes r = rp_bytes_received r \<and>
     rp_replay_frames r = rp_frames r \<and> rp_replay_crc_errors r = 0 \<and> rp_replay_sequence_gaps r = 0"

definition sequence_lag :: "int \<Rightarrow> int \<Rightarrow> int" where
  "sequence_lag routed completed = (routed - completed) AND 0xFFFFFFFF"

record live_acceptance =
  la_live_target :: pystr
  la_target_frames :: int
  la_nontarget_frames :: int
  la_max_sequence_lag :: int
  la_target_crc_errors :: int
  la_nontarget_crc_errors :: int
  la_header_errors :: int
  la_length_errors :: int
  la_payload_errors :: int
  la_physical_tx_error_delta :: int
  la_drops_iis_delta :: int
  la_drops_jy_delta :: int
  la_source_drop_delta :: int
  la_stop_latency_s :: float64
  la_post_stop_sensor_frames :: int
  la_nontarget_at_probe :: bool
  la_handshake_inflight_frames :: int
  la_nontarget_at_probe_applicable :: bool

definition live_passed :: "live_acceptance \<Rightarrow> bool" where
  "live_passed l \<longleftrightarrow>
     (let common = la_live_target l \<in> {lit ''UART'', lit ''CDC''} \<and> la_target_frames l > 0 \<and>
            la_nontarget_frames l = 0 \<and> la_target_crc_errors l = 0 \<and> la_nontarget_crc_errors l = 0 \<and>
            la_header_errors l = 0 \<and> la_length_errors l = 0 \<and> la_payload_errors l = 0 \<and>
            la_physical_tx_error_delta l = 0 \<and> la_source_drop_delta l = 0 \<and>
            0 \<le> la_stop_latency_s l \<and> la_stop_latency_s l \<le> 2 \<and> la_post_stop_sensor_frames l = 0 \<and>
            (la_nontarget_at_probe l \<or> \<not> la_nontarget_at_probe_applicable l)
      in if \<not> common then False
         else if la_live_target l = lit ''CDC'' then la_drops_iis_delta l = 0 \<and> la_drops_jy_delta l = 0
         else True)"

record overwrite_acceptance =
  oa_duration_s :: float64
  oa_remained_acquiring :: bool
  oa_overwritten_chunks_delta :: int
  oa_overwritten_frames_delta :: int
  oa_source_drop_delta :: int
  oa_sd_errors :: int
  oa_transport_errors :: int
  oa_stop_latency_s :: float64
  oa_stopped_idle :: bool
  oa_retained_frames :: int

definition overwrite_passed :: "overwrite_acceptance \<Rightarrow> bool" where
  "overwrite_passed o' \<longleftrightarrow>
     oa_duration_s o' > 0 \<and> oa_remained_acquiring o' \<and> oa_overwritten_chunks_delta o' > 0 \<and>
     oa_overwritten_frames_delta o' > 0 \<and> oa_source_drop_delta o' = 0 \<and> oa_sd_errors o' = 0 \<and>
     oa_transport_errors o' = 0 \<and> 0 \<le> oa_stop_latency_s o' \<and> oa_stop_latency_s o' \<le> 2 \<and>
     oa_stopped_idle o' \<and> oa_retained_frames o' > 0"

record export_acceptance =
  ea_frames :: int
  ea_iis_frames :: int
  ea_jy_frames :: int
  ea_expected_uuid :: pystr
  ea_observed_uuids :: "pystr list"
  ea_archive_flag_errors :: int
  ea_crc_errors :: int
  ea_length_errors :: int
  ea_payload_errors :: int
  ea_duplicate_frames :: int
  ea_missing_after_dedup :: int
  ea_terminal_seen :: bool
  ea_storage_empty :: bool
  ea_wrong_route_frames :: int

definition export_passed :: "('e) export_acceptance_scheme \<Rightarrow> bool" where
  "export_passed x \<longleftrightarrow>
     ea_frames x > 0 \<and> ea_iis_frames x > 0 \<and> ea_jy_frames x > 0 \<and> ea_expected_uuid x \<noteq> [] \<and>
     ea_observed_uuids x = [ea_expected_uuid x] \<and> ea_archive_flag_errors x = 0 \<and> ea_crc_errors x = 0 \<and>
     ea_length_errors x = 0 \<and> ea_payload_errors x = 0 \<and> ea_missing_after_dedup x = 0 \<and>
     ea_terminal_seen x \<and> ea_storage_empty x \<and> ea_wrong_route_frames x = 0"

record cdc_export_acceptance = export_acceptance +
  ea_control_responses_valid :: bool
  ea_faster_than_uart :: bool

definition cdc_export_passed :: "cdc_export_acceptance \<Rightarrow> bool" where
  "cdc_export_passed x \<longleftrightarrow> export_passed x \<and> ea_control_responses_valid x \<and> ea_faster_than_uart x"

record interrupted_export_acceptance =
  ia_first_export_frames :: int
  ia_resumed_export_frames :: int
  ia_duplicate_frames :: int
  ia_missing_after_dedup :: int
  ia_uuid_mismatches :: int
  ia_archive_flag_errors :: int
  ia_crc_errors :: int
  ia_length_errors :: int
  ia_payload_errors :: int
  ia_resumed_acquire :: bool
  ia_final_storage_empty :: bool

definition interrupted_passed :: "interrupted_export_acceptance \<Rightarrow> bool" where
  "interrupted_passed i \<longleftrightarrow>
     ia_first_export_frames i > 0 \<and> ia_resumed_export_frames i > 0 \<and> ia_duplicate_frames i > 0 \<and>
     ia_missing_after_dedup i = 0 \<and> ia_uuid_mismatches i = 0 \<and> ia_archive_flag_errors i = 0 \<and>
     ia_crc_errors i = 0 \<and> ia_length_errors i = 0 \<and> ia_payload_errors i = 0 \<and>
     ia_resumed_acquire i \<and> ia_final_storage_empty i"

text \<open>The lag is the difference modulo \<open>2 ^ 32\<close>: a counter that wrapped does not look like a huge lag.\<close>

lemma sequence_lag_wraps:
  "sequence_lag routed completed = (routed - completed) mod 2 ^ 32"
  using take_bit_int_def [of 32 "routed - completed"]
  by (simp add: sequence_lag_def take_bit_eq_mask mask_eq_exp_minus_1)

lemma sequence_lag_forward:
  "0 \<le> k \<Longrightarrow> k < 2 ^ 32 \<Longrightarrow> sequence_lag ((completed + k) mod 2 ^ 32) completed = k"
  unfolding sequence_lag_wraps by (simp add: mod_diff_left_eq)

section \<open>Two captures of one device\<close>

definition is_sensor_frame :: "frame \<Rightarrow> bool" where
  "is_sensor_frame f \<longleftrightarrow> fr_message_type f \<in> {IIS3DWB_FIFO, JY61PL_SAMPLE}"

record dual_output_result =
  do_uart_sensor_frames :: nat
  do_cdc_sensor_frames :: nat
  do_matched_frames :: nat
  do_uart_only_sequences :: "nat list"
  do_cdc_only_sequences :: "nat list"
  do_content_mismatches :: "nat list"

definition fingerprint :: "frame \<Rightarrow> message_type \<times> nat \<times> nat \<times> nat \<times> nat \<times> bytes" where
  "fingerprint f = (fr_message_type f, fr_flags f, fr_sequence f, fr_timestamp_us f, fr_item_count f, fr_payload f)"

text \<open>A dictionary as the association list in insertion order: a later frame replaces an earlier one.\<close>

definition by_sequence :: "frame list \<Rightarrow> (nat \<times> frame) list" where
  "by_sequence frames = fold (\<lambda>f. AList.update (fr_sequence f) f) (filter is_sensor_frame frames) []"

definition compare_sensor_frames :: "frame list \<Rightarrow> frame list \<Rightarrow> dual_output_result" where
  "compare_sensor_frames uart_frames cdc_frames =
     (let uart = by_sequence uart_frames;
          cdc = by_sequence cdc_frames;
          common = sort (filter (\<lambda>s. s \<in> set (map fst cdc)) (map fst uart));
          mismatches = filter (\<lambda>s. map_option fingerprint (map_of uart s) \<noteq> map_option fingerprint (map_of cdc s)) common
      in \<lparr>do_uart_sensor_frames = length uart, do_cdc_sensor_frames = length cdc,
          do_matched_frames = length common - length mismatches,
          do_uart_only_sequences = sort (filter (\<lambda>s. s \<notin> set (map fst cdc)) (map fst uart)),
          do_cdc_only_sequences = sort (filter (\<lambda>s. s \<notin> set (map fst uart)) (map fst cdc)),
          do_content_mismatches = mismatches\<rparr>)"

text \<open>The last sensor frame with a sequence number.\<close>

definition latest :: "frame list \<Rightarrow> nat \<Rightarrow> frame option" where
  "latest frames s = List.find (\<lambda>f. is_sensor_frame f \<and> fr_sequence f = s) (rev frames)"

lemma by_sequence_snoc:
  "by_sequence (fs @ [f]) = (if is_sensor_frame f then AList.update (fr_sequence f) f (by_sequence fs) else by_sequence fs)"
  by (simp add: by_sequence_def)

lemma map_of_by_sequence: "map_of (by_sequence fs) s = latest fs s"
proof (induction fs rule: rev_induct)
  case (snoc f fs)
  then show ?case by (simp add: by_sequence_snoc update_conv' latest_def)
qed (simp add: by_sequence_def latest_def)

lemma distinct_by_sequence: "distinct (map fst (by_sequence fs))"
  by (induction fs rule: rev_induct) (simp_all add: by_sequence_snoc distinct_update, simp add: by_sequence_def)

lemma keys_by_sequence: "s \<in> set (map fst (by_sequence fs)) \<longleftrightarrow> latest fs s \<noteq> None"
  using map_of_by_sequence [of fs s] by (metis map_of_eq_None_iff set_map)

lemma filter_split_length: "length (filter P xs) + length (filter (\<lambda>x. \<not> P x) xs) = length xs"
  by (rule sum_length_filter_compl)

lemma sort_filter_empty: "sort (filter P xs) = [] \<longleftrightarrow> (\<forall>x\<in>set xs. \<not> P x)"
  by (metis filter_empty_conv length_0_conv length_sort)

lemma card_common:
  assumes "distinct xs" and "distinct ys"
  shows "length (filter (\<lambda>s. s \<in> set ys) xs) = length (filter (\<lambda>s. s \<in> set xs) ys)"
proof -
  have "set (filter (\<lambda>s. s \<in> set ys) xs) = set (filter (\<lambda>s. s \<in> set xs) ys)" by auto
  then show ?thesis using assms by (metis distinct_card distinct_filter)
qed

text \<open>
  The comparison is exact: it reports no difference just when the two captures have the same sequence numbers
  and equal frames under each; and its counts add up on both sides, a sequence number being matched, mismatched or
  missing on the other side.
\<close>

theorem dual_output_exact:
  "(do_uart_only_sequences (compare_sensor_frames us cs) = [] \<and> do_cdc_only_sequences (compare_sensor_frames us cs) = [] \<and>
      do_content_mismatches (compare_sensor_frames us cs) = []) =
     (map_option fingerprint \<circ> latest us = map_option fingerprint \<circ> latest cs) \<and>
   do_matched_frames (compare_sensor_frames us cs) + length (do_content_mismatches (compare_sensor_frames us cs)) +
     length (do_uart_only_sequences (compare_sensor_frames us cs)) = card {s. latest us s \<noteq> None} \<and>
   do_matched_frames (compare_sensor_frames us cs) + length (do_content_mismatches (compare_sensor_frames us cs)) +
     length (do_cdc_only_sequences (compare_sensor_frames us cs)) = card {s. latest cs s \<noteq> None}"
proof -
  let ?u = "map fst (by_sequence us)" and ?c = "map fst (by_sequence cs)"
  note keys = keys_by_sequence
  have k: "set ?u = {s. latest us s \<noteq> None}" "set ?c = {s. latest cs s \<noteq> None}" using keys by blast+
  have d: "distinct ?u" "distinct ?c" by (rule distinct_by_sequence)+
  have n: "card {s. latest us s \<noteq> None} = length ?u" "card {s. latest cs s \<noteq> None} = length ?c"
    using d distinct_card k by metis+
  let ?m = "filter (\<lambda>s. s \<in> set ?c) ?u"
  let ?x = "filter (\<lambda>s. map_option fingerprint (map_of (by_sequence us) s) \<noteq> map_option fingerprint (map_of (by_sequence cs) s)) (sort ?m)"
  have le: "length ?x \<le> length ?m" using length_filter_le [of _ "sort ?m"] unfolding length_sort .
  have res: "do_matched_frames (compare_sensor_frames us cs) = length ?m - length ?x"
    "do_content_mismatches (compare_sensor_frames us cs) = ?x"
    "length (do_uart_only_sequences (compare_sensor_frames us cs)) = length (filter (\<lambda>s. s \<notin> set ?c) ?u)"
    "length (do_cdc_only_sequences (compare_sensor_frames us cs)) = length (filter (\<lambda>s. s \<notin> set ?u) ?c)"
    by (simp_all only: compare_sensor_frames_def Let_def dual_output_result.select_convs length_sort)
  have "do_matched_frames (compare_sensor_frames us cs) + length (do_content_mismatches (compare_sensor_frames us cs)) +
     length (do_uart_only_sequences (compare_sensor_frames us cs)) = card {s. latest us s \<noteq> None}"
    "do_matched_frames (compare_sensor_frames us cs) + length (do_content_mismatches (compare_sensor_frames us cs)) +
     length (do_cdc_only_sequences (compare_sensor_frames us cs)) = card {s. latest cs s \<noteq> None}"
    unfolding res n using le filter_split_length [of "\<lambda>s. s \<in> set ?c" ?u] filter_split_length [of "\<lambda>s. s \<in> set ?u" ?c]
      card_common [OF d] by linarith+
  moreover have "(do_uart_only_sequences (compare_sensor_frames us cs) = [] \<and> do_cdc_only_sequences (compare_sensor_frames us cs) = [] \<and>
      do_content_mismatches (compare_sensor_frames us cs) = []) =
     (map_option fingerprint \<circ> latest us = map_option fingerprint \<circ> latest cs)"
    (is "?none = ?eq")
  proof -
    let ?fu = "\<lambda>s. map_option fingerprint (latest us s)" and ?fc = "\<lambda>s. map_option fingerprint (latest cs s)"
    let ?a = "\<lambda>s. latest us s \<noteq> None \<longrightarrow> latest cs s \<noteq> None" and ?b = "\<lambda>s. latest cs s \<noteq> None \<longrightarrow> latest us s \<noteq> None"
      and ?c = "\<lambda>s. latest us s \<noteq> None \<longrightarrow> latest cs s \<noteq> None \<longrightarrow> ?fu s = ?fc s"
    have "?none \<longleftrightarrow> (\<forall>s. ?a s) \<and> (\<forall>s. ?b s) \<and> (\<forall>s. ?c s)"
      unfolding compare_sensor_frames_def Let_def dual_output_result.select_convs sort_filter_empty filter_empty_conv
        set_sort set_filter k map_of_by_sequence mem_Collect_eq not_not Ball_def by blast
    also have "\<dots> \<longleftrightarrow> (\<forall>s. ?a s \<and> ?b s \<and> ?c s)" by blast
    also have "(\<lambda>s. ?a s \<and> ?b s \<and> ?c s) = (\<lambda>s. ?fu s = ?fc s)"
    proof
      fix s show "(?a s \<and> ?b s \<and> ?c s) = (?fu s = ?fc s)" by (cases "latest us s"; cases "latest cs s") auto
    qed
    also have "(\<forall>s. ?fu s = ?fc s) \<longleftrightarrow> ?eq" by (simp add: fun_eq_iff)
    finally show ?thesis .
  qed
  ultimately show ?thesis by blast
qed

section \<open>Frames missing from a capture\<close>

definition uuid_str :: "frame \<Rightarrow> pystr" where
  "uuid_str f = (case fr_device_uuid f of None \<Rightarrow> lit ''None'' | Some u \<Rightarrow> uuid_text u)"

definition frame_identity :: "frame \<Rightarrow> pystr \<times> nat" where
  "frame_identity f = (uuid_str f, fr_sequence f)"

definition sequences_by_uuid :: "(pystr \<times> nat) list \<Rightarrow> (pystr \<times> nat list) list" where
  "sequences_by_uuid identities =
     fold (\<lambda>(u, s). AList.map_default u [s] (\<lambda>l. l @ [s])) identities []"

fun gap_count :: "nat list \<Rightarrow> nat" where
  "gap_count (p # c # rest) = (if p + 1 < c then c - p - 1 else 0) + gap_count (c # rest)"
| "gap_count xs = 0"

definition missing_after_dedup :: "frame list \<Rightarrow> nat" where
  "missing_after_dedup frames =
     (let identities = sort (remdups (map frame_identity frames))
      in if length identities < 2 then 0
         else sum_list (map (\<lambda>(u, sequences). gap_count sequences) (sequences_by_uuid identities)))"

definition absent_between :: "nat set \<Rightarrow> nat set" where
  "absent_between S = {s. s \<notin> S \<and> (\<exists>a\<in>S. a < s) \<and> (\<exists>b\<in>S. s < b)}"

lemma gap_count_absent: "sorted_wrt (<) xs \<Longrightarrow> gap_count xs = card (absent_between (set xs)) \<and> finite (absent_between (set xs))"
proof (induction xs rule: gap_count.induct)
  case (1 p c rest)
  have a: "absent_between (set (p # c # rest)) = {p<..<c} \<union> absent_between (set (c # rest))"
    using 1(2) by (fastforce simp: absent_between_def)
  have "{p<..<c} \<inter> absent_between (set (c # rest)) = {}"
    using 1(2) by (fastforce simp: absent_between_def)
  then show ?case using 1 unfolding a by (auto simp: card_Un_disjoint)
qed (simp_all add: absent_between_def)

lemma sequences_by_uuid_snoc:
  "sequences_by_uuid (ids @ [(u, s)]) = AList.map_default u [s] (\<lambda>l. l @ [s]) (sequences_by_uuid ids)"
  by (simp add: sequences_by_uuid_def)

lemma map_of_sequences_by_uuid:
  "map_of (sequences_by_uuid ids) u =
     (let l = map snd (filter (\<lambda>x. fst x = u) ids) in if l = [] then None else Some l)"
proof (induction ids rule: rev_induct)
  case (snoc x ids)
  then show ?case by (cases x) (auto simp: sequences_by_uuid_snoc map_of_map_default Let_def filter_empty_conv)
qed (simp add: sequences_by_uuid_def)

lemma distinct_sequences_by_uuid: "distinct (map fst (sequences_by_uuid ids))"
proof (induction ids rule: rev_induct)
  case (snoc x ids)
  then show ?case by (cases x) (simp add: sequences_by_uuid_snoc distinct_map_default)
qed (simp add: sequences_by_uuid_def)

lemma keys_sequences_by_uuid: "fst ` set (sequences_by_uuid ids) = fst ` set ids"
proof (induction ids rule: rev_induct)
  case (snoc x ids)
  then show ?case by (cases x) (simp add: sequences_by_uuid_snoc dom_map_default)
qed (simp add: sequences_by_uuid_def)

lemma sequences_strict:
  assumes "sorted ids" and "distinct ids"
  shows "sorted_wrt (<) (map snd (filter (\<lambda>x. fst x = u) ids))"
proof -
  have "sorted_wrt (<) ids" using assms strict_sorted_iff by blast
  then have "sorted_wrt (<) (filter (\<lambda>x. fst x = u) ids)" by (rule sorted_wrt_filter)
  then have "sorted_wrt (\<lambda>x y. snd x < snd y) (filter (\<lambda>x. fst x = u) ids)"
    by (rule sorted_wrt_mono_rel [rotated]) (auto simp: less_prod_def)
  then show ?thesis by (simp add: sorted_wrt_map)
qed

definition sequences_of :: "frame list \<Rightarrow> pystr \<Rightarrow> nat set" where
  "sequences_of frames u = {fr_sequence f |f. f \<in> set frames \<and> uuid_str f = u}"

text \<open>The count is that of the sequence numbers between two received ones of the same device that were not received.\<close>

lemma missing_counts_absent:
  "missing_after_dedup frames = (\<Sum>u\<in>uuid_str ` set frames. card (absent_between (sequences_of frames u)))"
    "finite (absent_between (sequences_of frames u))"
proof -
  define ids where "ids = sort (remdups (map frame_identity frames))"
  have ids: "sorted ids" "distinct ids" "set ids = frame_identity ` set frames" by (simp_all add: ids_def)
  have seqs: "set (map snd (filter (\<lambda>x. fst x = u) ids)) = sequences_of frames u" for u
    by (auto simp: ids(3) sequences_of_def frame_identity_def image_iff)
  have gap: "gap_count (map snd (filter (\<lambda>x. fst x = u) ids)) = card (absent_between (sequences_of frames u))"
    "finite (absent_between (sequences_of frames u))" for u
    using gap_count_absent [OF sequences_strict [OF ids(1,2)], of u] by (simp_all only: seqs)
  let ?g = "sequences_by_uuid ids"
  have g: "distinct ?g" "inj_on fst (set ?g)" using distinct_sequences_by_uuid [of ids] by (simp_all add: distinct_map)
  have "l = map snd (filter (\<lambda>x. fst x = u) ids)" if "(u, l) \<in> set ?g" for u l
    using map_of_sequences_by_uuid [of ids u] map_of_is_SomeI [OF distinct_sequences_by_uuid that]
    by (simp add: Let_def split: if_splits)
  then have e: "(case x of (u, l) \<Rightarrow> gap_count l) = card (absent_between (sequences_of frames (fst x)))" if "x \<in> set ?g" for x
    using that gap(1) by (cases x) auto
  have "sum_list (map (\<lambda>(u, l). gap_count l) ?g) = (\<Sum>x\<in>set ?g. card (absent_between (sequences_of frames (fst x))))"
    using g(1) e by (simp add: sum_list_distinct_conv_sum_set)
  also have "\<dots> = (\<Sum>u\<in>fst ` set ?g. card (absent_between (sequences_of frames u)))"
    by (simp add: sum.reindex [OF g(2)])
  also have "fst ` set ?g = uuid_str ` set frames"
    by (simp add: keys_sequences_by_uuid ids(3) image_image frame_identity_def)
  finally have total: "sum_list (map (\<lambda>(u, l). gap_count l) ?g) =
      (\<Sum>u\<in>uuid_str ` set frames. card (absent_between (sequences_of frames u)))" .
  have "sum_list (map (\<lambda>(u, l). gap_count l) ?g) = 0" if "length ids < 2"
  proof -
    have "ids = [] \<or> (\<exists>x. ids = [x])" using that by (cases ids; cases "tl ids") auto
    then show ?thesis by (auto simp: sequences_by_uuid_def)
  qed
  then show "missing_after_dedup frames = (\<Sum>u\<in>uuid_str ` set frames. card (absent_between (sequences_of frames u)))"
    unfolding total [symmetric] by (simp add: missing_after_dedup_def Let_def ids_def [symmetric])
  show "finite (absent_between (sequences_of frames u))" by (rule gap(2))
qed

section \<open>The reader of a port\<close>

record port_reader =
  pr_raw :: bytes
  pr_counters_only :: bool
  pr_parser :: stream_parser
  pr_frames :: "frame list"
  pr_cli :: "pystr list"
  pr_statuses :: "status_v1 list"
  pr_sensor_frames :: nat
  pr_last_sensor_sequence :: "nat option"
  pr_bytes_received :: nat

definition PortReader_init :: "bool \<Rightarrow> bool \<Rightarrow> port_reader" where
  "PortReader_init counters_only decode_sensor_payload =
     \<lparr>pr_raw = [], pr_counters_only = counters_only, pr_parser = StreamParser_init decode_sensor_payload,
      pr_frames = [], pr_cli = [], pr_statuses = [], pr_sensor_frames = 0, pr_last_sensor_sequence = None,
      pr_bytes_received = 0\<rparr>"

definition reader_frame :: "frame \<Rightarrow> port_reader \<Rightarrow> port_reader" where
  "reader_frame f r =
     (let r = (if is_sensor_frame f
               then r\<lparr>pr_sensor_frames := pr_sensor_frames r + 1, pr_last_sensor_sequence := Some (fr_sequence f)\<rparr> else r);
          r = (case fr_cli_text f of None \<Rightarrow> r | Some t \<Rightarrow> r\<lparr>pr_cli := pr_cli r @ [t]\<rparr>);
          r = (case fr_status f of None \<Rightarrow> r | Some st \<Rightarrow> r\<lparr>pr_statuses := pr_statuses r @ [st]\<rparr>)
      in if pr_counters_only r then r else r\<lparr>pr_frames := pr_frames r @ [f]\<rparr>)"

text \<open>One turn of \<^verbatim>\<open>run\<close> with what the port delivered.\<close>

definition reader_chunk :: "numpy \<Rightarrow> bytes \<Rightarrow> port_reader \<Rightarrow> port_reader" where
  "reader_chunk np chunk r =
     (if chunk = [] then r
      else case feed np (pr_parser r) chunk of (decoded, p) \<Rightarrow>
        fold reader_frame decoded
          (r\<lparr>pr_raw := pr_raw r @ chunk, pr_parser := p, pr_bytes_received := pr_bytes_received r + length chunk\<rparr>))"

record reader_mark =
  rm_frames :: nat
  rm_cli :: nat
  rm_statuses :: nat
  rm_sensor_frames :: nat
  rm_last_sensor_sequence :: "nat option"
  rm_bytes :: nat
  rm_parser :: parser_stats

definition reader_snapshot :: "port_reader \<Rightarrow> reader_mark" where
  "reader_snapshot r =
     \<lparr>rm_frames = length (pr_frames r), rm_cli = length (pr_cli r), rm_statuses = length (pr_statuses r),
      rm_sensor_frames = pr_sensor_frames r, rm_last_sensor_sequence = pr_last_sensor_sequence r,
      rm_bytes = pr_bytes_received r, rm_parser = pc_stats (sp_core (pr_parser r))\<rparr>"

definition frames_since :: "reader_mark \<Rightarrow> port_reader \<Rightarrow> frame list" where
  "frames_since m r = drop (rm_frames m) (pr_frames r)"

definition cli_since :: "nat \<Rightarrow> port_reader \<Rightarrow> pystr" where
  "cli_since n r = concat (drop n (pr_cli r))"

definition latest_status :: "port_reader \<Rightarrow> status_v1 option" where
  "latest_status r = (if pr_statuses r = [] then None else Some (last (pr_statuses r)))"

lemma fold_reader_frame:
  "fold reader_frame fs r = r\<lparr>
     pr_frames := (if pr_counters_only r then pr_frames r else pr_frames r @ fs),
     pr_cli := pr_cli r @ List.map_filter fr_cli_text fs,
     pr_statuses := pr_statuses r @ List.map_filter fr_status fs,
     pr_sensor_frames := pr_sensor_frames r + length (filter is_sensor_frame fs),
     pr_last_sensor_sequence := (if filter is_sensor_frame fs = [] then pr_last_sensor_sequence r
       else Some (fr_sequence (last (filter is_sensor_frame fs))))\<rparr>"
  by (induction fs arbitrary: r)
    (auto simp: reader_frame_def Let_def map_filter_simps split: option.split)

text \<open>However the port cuts the stream, the reader keeps all of it and the frames of one parse of the whole.\<close>

lemma feed_Nil_buffer: "sp_buffer p = [] \<Longrightarrow> feed np p [] = ([], p)"
  by (simp add: feed_parse_buffer parse_buffer.simps feed_iter_def bytes_find_def MAGIC_bytes Let_def)

lemma reader_keeps_stream:
  fixes counters_only :: bool
  assumes "feed np (StreamParser_init decode) (concat chunks) = (fs, p)"
  defines "r \<equiv> fold (reader_chunk np) chunks (PortReader_init counters_only decode)"
  shows "pr_raw r = concat chunks" "pr_bytes_received r = length (concat chunks)" "pr_parser r = p"
    "pr_frames r = (if counters_only then [] else fs)" "pr_sensor_frames r = length (filter is_sensor_frame fs)"
    "pr_counters_only r = counters_only"
proof -
  have "pr_raw r = concat chunks \<and> pr_bytes_received r = length (concat chunks) \<and> pr_parser r = p \<and>
    pr_frames r = (if counters_only then [] else fs) \<and> pr_sensor_frames r = length (filter is_sensor_frame fs) \<and>
    pr_counters_only r = counters_only"
    using assms(1) unfolding r_def
  proof (induction chunks arbitrary: fs p rule: rev_induct)
    case Nil
    then show ?case by (simp add: PortReader_init_def feed_Nil_buffer StreamParser_init_def)
  next
    case (snoc chunk chunks)
    obtain fs1 p1 where 1: "feed np (StreamParser_init decode) (concat chunks) = (fs1, p1)" by force
    obtain fs2 p2 where 2: "feed np p1 chunk = (fs2, p2)" by force
    have whole: "fs = fs1 @ fs2" "p = p2" using snoc.prems 1 2 by (auto simp: feed_append)
    show ?case
    proof (cases "chunk = []")
      case True
      then show ?thesis using snoc.IH [OF 1] snoc.prems 1 by (simp add: reader_chunk_def)
    next
      case False
      define r1 where "r1 = fold (reader_chunk np) chunks (PortReader_init counters_only decode)"
      note ih = snoc.IH [OF 1, folded r1_def]
      then have "reader_chunk np chunk r1 = fold reader_frame fs2 (r1\<lparr>pr_raw := pr_raw r1 @ chunk, pr_parser := p2,
          pr_bytes_received := pr_bytes_received r1 + length chunk\<rparr>)"
        using False 2 by (simp add: reader_chunk_def)
      then show ?thesis using ih by (simp add: fold_reader_frame whole r1_def [symmetric])
    qed
  qed
  then show "pr_raw r = concat chunks" "pr_bytes_received r = length (concat chunks)" "pr_parser r = p"
    "pr_frames r = (if counters_only then [] else fs)" "pr_sensor_frames r = length (filter is_sensor_frame fs)"
    "pr_counters_only r = counters_only" by blast+
qed

section \<open>The judgement of an export\<close>

definition sensor_frames :: "frame list \<Rightarrow> bool option \<Rightarrow> frame list" where
  "sensor_frames frames archive =
     (let selected = filter is_sensor_frame frames
      in case archive of None \<Rightarrow> selected | Some a \<Rightarrow> filter (\<lambda>f. archive_export f = a) selected)"

definition parser_delta :: "(parser_stats \<Rightarrow> nat) \<Rightarrow> reader_mark \<Rightarrow> reader_mark \<Rightarrow> int" where
  "parser_delta counter finish start = int (counter (rm_parser finish)) - int (counter (rm_parser start))"

datatype export_model = UartExport export_acceptance | CdcExport cdc_export_acceptance

definition export_result_for ::
  "port_reader \<Rightarrow> port_reader \<Rightarrow> nat \<Rightarrow> pystr \<Rightarrow> pystr \<Rightarrow> reader_mark \<Rightarrow> reader_mark \<Rightarrow> float64 \<Rightarrow> pystr \<Rightarrow> nat \<Rightarrow> export_model" where
  "export_result_for uart cdc uart_baud target expected_uuid uart_marker cdc_marker elapsed terminal_text retained_frames =
     (let uart_frames = sensor_frames (frames_since uart_marker uart) (Some True);
          cdc_frames = sensor_frames (frames_since cdc_marker cdc) (Some True);
          to_uart = target = lit ''UART'';
          (selected, wrong) = (if to_uart then (uart_frames, cdc_frames) else (cdc_frames, uart_frames));
          selected_end = (if to_uart then reader_snapshot uart else reader_snapshot cdc);
          selected_start = (if to_uart then uart_marker else cdc_marker);
          observed = sort (remdups (map uuid_str selected));
          identities = map frame_identity selected;
          common = \<lparr>ea_frames = int (length selected),
            ea_iis_frames = int (length (filter (\<lambda>f. fr_message_type f = IIS3DWB_FIFO) selected)),
            ea_jy_frames = int (length (filter (\<lambda>f. fr_message_type f = JY61PL_SAMPLE) selected)),
            ea_expected_uuid = expected_uuid, ea_observed_uuids = observed,
            ea_archive_flag_errors = int (length (filter (\<lambda>f. \<not> archive_export f) selected)),
            ea_crc_errors = parser_delta ps_crc_errors selected_end selected_start,
            ea_length_errors = parser_delta ps_length_errors selected_end selected_start,
            ea_payload_errors = parser_delta ps_payload_errors selected_end selected_start,
            ea_duplicate_frames = int (length identities) - int (card (set identities)),
            ea_missing_after_dedup = int (missing_after_dedup selected),
            ea_terminal_seen = find_sub (lit ''EXPORT_END:'') terminal_text \<noteq> None,
            ea_storage_empty = retained_frames = 0,
            ea_wrong_route_frames = int (length wrong)\<rparr>
      in if target = lit ''CDC''
         then
           let raw_bytes = sum_list (map (\<lambda>f. length (fr_payload f) + 48) selected);
               uart_wire_seconds = fdiv (fmul (of_pyint (int raw_bytes)) 10) (of_pyint (int uart_baud))
           in CdcExport (export_acceptance.extend common (cdc_export_acceptance.fields
                (find_sub (lit ''OK'') terminal_text \<noteq> None) (elapsed < uart_wire_seconds)))
         else UartExport common)"

definition export_accepted :: "export_model \<Rightarrow> bool" where
  "export_accepted m = (case m of UartExport x \<Rightarrow> export_passed x | CdcExport x \<Rightarrow> cdc_export_passed x)"

lemma export_result_common:
  fixes uart cdc uart_marker cdc_marker target
  defines "sel \<equiv> sensor_frames (if target = lit ''UART'' then frames_since uart_marker uart else frames_since cdc_marker cdc) (Some True)"
    and "other \<equiv> sensor_frames (if target = lit ''UART'' then frames_since cdc_marker cdc else frames_since uart_marker uart) (Some True)"
  assumes "export_accepted (export_result_for uart cdc uart_baud target u uart_marker cdc_marker elapsed terminal retained)"
  shows "sel \<noteq> []" "sort (remdups (map uuid_str sel)) = [u]" "missing_after_dedup sel = 0" "other = []" "retained = 0"
  using assms(3)
  by (auto simp: export_accepted_def export_result_for_def Let_def export_passed_def cdc_export_passed_def sel_def other_def
      export_acceptance.defs cdc_export_acceptance.defs split: if_splits)

text \<open>
  An export the tool accepts is complete: on the link of the target only, all archive frames carry the expected
  UUID, and no sequence number between the least and the greatest one exported is absent.
\<close>

theorem accepted_export_complete:
  fixes uart cdc uart_marker cdc_marker target
  defines "sel \<equiv> sensor_frames (if target = lit ''UART'' then frames_since uart_marker uart else frames_since cdc_marker cdc) (Some True)"
    and "other \<equiv> sensor_frames (if target = lit ''UART'' then frames_since cdc_marker cdc else frames_since uart_marker uart) (Some True)"
  assumes "export_accepted (export_result_for uart cdc uart_baud target u uart_marker cdc_marker elapsed terminal retained)"
  shows "sel \<noteq> [] \<and> other = [] \<and> list_all (\<lambda>f. uuid_str f = u \<and> archive_export f) sel \<and>
    absent_between (fr_sequence ` set sel) = {}"
proof -
  note ok = export_result_common [OF assms(3), folded sel_def other_def]
  have "set (map uuid_str sel) = {u}" using arg_cong [OF ok(2), of set] by simp
  then have u: "uuid_str f = u" if "f \<in> set sel" for f using that by auto
  have "archive_export f" if "f \<in> set sel" for f using that by (auto simp: sel_def sensor_frames_def Let_def)
  moreover have "absent_between (sequences_of sel u) = {}"
    using ok(1,3) u missing_counts_absent(2) [of sel u]
    unfolding missing_counts_absent(1) by (cases sel) auto
  moreover have "sequences_of sel u = fr_sequence ` set sel" using u by (auto simp: sequences_of_def)
  ultimately show ?thesis using ok(1,4) u by (simp add: list_all_iff)
qed

text \<open>
  The two halves of an interrupted export: the frames received before the device returned to acquiring, and those of
  the export that resumed it.
\<close>

definition interrupted_result ::
  "pystr \<Rightarrow> frame list \<Rightarrow> frame list \<Rightarrow> reader_mark \<Rightarrow> reader_mark \<Rightarrow> bool \<Rightarrow> nat \<Rightarrow> interrupted_export_acceptance" where
  "interrupted_result uuid first_frames second_frames first_marker finish resumed retained_frames =
     (let all_frames = first_frames @ second_frames;
          first_ids = set (map frame_identity first_frames);
          second_ids = set (map frame_identity second_frames)
      in \<lparr>ia_first_export_frames = int (length first_frames), ia_resumed_export_frames = int (length second_frames),
          ia_duplicate_frames = int (card (first_ids \<inter> second_ids)),
          ia_missing_after_dedup = int (missing_after_dedup all_frames),
          ia_uuid_mismatches = int (length (filter (\<lambda>f. uuid_str f \<noteq> uuid) all_frames)),
          ia_archive_flag_errors = int (length (filter (\<lambda>f. \<not> archive_export f) all_frames)),
          ia_crc_errors = parser_delta ps_crc_errors finish first_marker,
          ia_length_errors = parser_delta ps_length_errors finish first_marker,
          ia_payload_errors = parser_delta ps_payload_errors finish first_marker,
          ia_resumed_acquire = resumed, ia_final_storage_empty = (retained_frames = 0)\<rparr>)"

text \<open>The counts of frames without the archive flag are always zero: only frames with it were selected.\<close>

lemma sensor_frames_archive: "filter (\<lambda>f. \<not> archive_export f) (sensor_frames frames (Some True)) = []"
  by (simp add: sensor_frames_def Let_def)

lemma interrupted_flag_errors_zero:
  "ia_archive_flag_errors (interrupted_result u (sensor_frames fs (Some True)) (sensor_frames gs (Some True)) m n resumed k) = 0"
  by (simp add: interrupted_result_def Let_def sensor_frames_archive)

text \<open>An interrupted export the tool accepts lost nothing: no sequence number between two received ones is absent.\<close>

theorem accepted_interruption_complete:
  assumes "interrupted_passed (interrupted_result u first_frames second_frames m n resumed retained)"
  shows "absent_between (fr_sequence ` set (first_frames @ second_frames)) = {} \<and>
    list_all (\<lambda>f. uuid_str f = u) (first_frames @ second_frames) \<and>
    frame_identity ` set first_frames \<inter> frame_identity ` set second_frames \<noteq> {} \<and> resumed \<and> retained = 0"
proof -
  let ?all = "first_frames @ second_frames"
  have ok: "first_frames \<noteq> []" "missing_after_dedup ?all = 0" "filter (\<lambda>f. uuid_str f \<noteq> u) ?all = []"
    "0 < card (set (map frame_identity first_frames) \<inter> set (map frame_identity second_frames))" "resumed" "retained = 0"
    using assms by (auto simp: interrupted_passed_def interrupted_result_def Let_def simp del: filter_append)
  have u: "uuid_str f = u" if "f \<in> set ?all" for f using ok(3) that unfolding filter_empty_conv by blast
  have "absent_between (sequences_of ?all u) = {}"
    using ok(1,2) u missing_counts_absent(2) [of ?all u]
    unfolding missing_counts_absent(1) by (cases first_frames) auto
  moreover have "sequences_of ?all u = fr_sequence ` set ?all" using u by (auto simp: sequences_of_def)
  ultimately show ?thesis using ok(4-6) u by (auto simp: list_all_iff)
qed

end
