(* ===== verification/Spec2Isabelle.thy ===== *)
theory Spec2Isabelle
  imports SampleTimes ControlState OtaLink Sessions Playback CdcSerial Gateway AppPaths MainWindow GoldenFrames Acceptance
begin

text \<open>
  Verification of SensorHost, the host application of an STM32 vibration sensor (Python, paths below
  relative to \<^verbatim>\<open>src/src/sensor_host\<close>).

  The program. A transport (USB serial, TCP gateway or the simulated sensor) delivers one byte stream
  per device. The worker thread of a connection (\<^verbatim>\<open>acquisition/controller.py\<close>) sends queued commands and
  OTA frames, reads the stream, parses it into SDF1 frames (\<^verbatim>\<open>protocol/sdf1.py\<close>), records the raw
  bytes (\<^verbatim>\<open>storage/recorder.py\<close>), feeds the sample store of the display (\<^verbatim>\<open>acquisition/sample_store.py\<close>)
  and reads the answers of the firmware (\<^verbatim>\<open>protocol/control_state.py\<close>). During an upload the stream is
  split into reply lines and frames (\<^verbatim>\<open>ota/demux.py\<close>) and the uploader (\<^verbatim>\<open>ota/uploader.py\<close>) sends a
  package (\<^verbatim>\<open>ota/package.py\<close>) in OTAF frames (\<^verbatim>\<open>ota/codec.py\<close>). The application keeps an inventory of
  devices (\<^verbatim>\<open>acquisition/sessions.py\<close>) and lists and plays back archives (\<^verbatim>\<open>storage/archive_library.py\<close>,
  \<^verbatim>\<open>presentation/playback_controller.py\<close>). \<^verbatim>\<open>presentation/app_controller.py\<close> ties them together: its slots, called
  by the windows and by timers, open and close sessions, start recordings, archive exports and updates, and
  pass what the workers found on to the display as signals.

  Theories, in the order of their imports.

  \<^item> Library. \<open>Prelude\<close>: bytes, exceptions as a sum type (\<open>exn\<close>, \<open>'a res\<close>), code with effects
    (\<open>('w, 'a) io\<close>: a state and a result, the state kept when an exception passes), slices, little-endian
    fields, and the collections \<open>io_simps\<close>, \<open>const_simps\<close>, \<open>le_simps\<close>, \<open>slice_simps\<close>. \<open>PyText\<close>: Python's text
    operations. \<open>Checksums\<close>: CRC-32 and SHA-256. \<open>Float64\<close>: binary64 arithmetic as rounding of exact
    rationals, without infinities and NaN. \<open>Numpy\<close>: the numpy calls as a record of functions with
    their documented behaviour (\<open>numpy_ok\<close>) and a concrete instance. \<open>Ipv4\<close>: the part of \<^verbatim>\<open>ipaddress\<close>
    the gateway uses.

  \<^item> Protocol. \<open>Sdf1\<close>: the data model and payload decoders of \<^verbatim>\<open>protocol/sdf1.py\<close>; \<open>SampleTimes\<close>: its
    sample clock; \<open>StreamParser\<close>: its parser. \<open>ControlState\<close>: \<^verbatim>\<open>protocol/control_state.py\<close>. \<open>GoldenFrames\<close>: the generator of
    reference frames in the repository's own \<^verbatim>\<open>tools\<close> (\<^verbatim>\<open>generate_golden_frames.py\<close>), and frames encoded there or by the
    simulated sensor as the parser reads them.

  \<^item> Firmware update. \<open>OtaCodec\<close>, \<open>OtaPackage\<close>, \<open>OtaDemux\<close>, \<open>OtaUploader\<close>: the files of the same names
    under \<^verbatim>\<open>ota/\<close> (\<open>OtaCodec\<close> also \<^verbatim>\<open>ota/messages.py\<close>). \<open>OtaLink\<close>: the upload from end to end, over the bridge
    of \<^verbatim>\<open>presentation/app_controller.py\<close>, the worker loop and the simulated sensor.

  \<^item> Acquisition and storage. \<open>SampleStore\<close>: \<^verbatim>\<open>acquisition/sample_store.py\<close>. \<open>Recorder\<close>: \<^verbatim>\<open>storage/recorder.py\<close>
    with its writer thread as a state machine. \<open>Acquisition\<close>: \<^verbatim>\<open>acquisition/controller.py\<close>. \<open>Sessions\<close>:
    \<^verbatim>\<open>acquisition/sessions.py\<close>. \<open>Archive\<close>: \<^verbatim>\<open>storage/archive_library.py\<close> and \<^verbatim>\<open>storage/replay.py\<close>. \<open>Playback\<close>:
    \<^verbatim>\<open>presentation/playback_controller.py\<close>.

  \<^item> Transports. \<open>FakeTransport\<close>: \<^verbatim>\<open>transport/fake.py\<close>. \<open>ControlPort\<close>: the contract of control lines.
    \<open>CdcSerial\<close>: \<^verbatim>\<open>transport/cdc_serial.py\<close>. \<open>Gateway\<close>: \<^verbatim>\<open>transport/gateway.py\<close>.

  \<^item> Application (\<^verbatim>\<open>presentation/app_controller.py\<close>). \<open>AppState\<close>: its attributes, the sessions, the signals and the
    slots without a device; \<open>AppRecording\<close>: recordings and archive exports; \<open>AppSessions\<close>: opening and closing,
    commands, the periodic slots; \<open>AppOta\<close>: updates. \<open>Connection\<close>: what the slots may do to a connection.
    \<open>AppLogic\<close>: triples for code that may raise (\<open>keeps\<close>). \<open>AppInvariant\<close>: the invariant \<open>app_inv\<close> and its parts;
    \<open>AppRecordingInv\<close>, \<open>AppSessionsInv\<close>, \<open>AppLifeInv\<close>, \<open>AppEndInv\<close>, \<open>AppOtaInv\<close>: that the slots keep it, group by
    group (recordings and exports; commands and display; opening; closing; updates). \<open>AppSystem\<close>: all slots and
    threads as one step relation. \<open>AppPaths\<close>: the paths of recordings and exports. \<open>OtaDialog\<close>:
    \<^verbatim>\<open>presentation/ota_dialog.py\<close>, the dialog that asks for updates, alone and next to the controller.

  \<^item> Windows (\<^verbatim>\<open>presentation\<close>). \<open>ConnectionView\<close>: \<^verbatim>\<open>connection_view.py\<close>, the Wi-Fi panel and the sidebar of nodes, alone and
    next to the controller. \<open>ArchiveView\<close>: \<^verbatim>\<open>archive_view.py\<close>, the archive page over the controller it polls. \<open>MainWindow\<close>: the
    controls of \<^verbatim>\<open>main_window.py\<close>. A widget is the texts, values, rows and enabled flags the code sets; a slot runs where Qt
    emits the signal it is connected to; message boxes and what Qt reports are inputs.

  \<^item> Acceptance tools. \<open>Acceptance\<close>: the files of \<^verbatim>\<open>tools\<close>, and of the repository's own \<^verbatim>\<open>tools\<close> the port reader and
    the judgement of exports in \<^verbatim>\<open>realtime_archive_acceptance.py\<close>.

  Each class of the source is a record of its attributes; each method is a definition over it, with a
  result of type \<open>'a res\<close> where it can raise. Threads appear as step relations (\<open>rec_step\<close>, \<open>ac_step\<close>,
  \<open>sm_step\<close>, \<open>gl_step\<close>, \<open>app_step\<close>, \<open>dialog_step\<close>, \<open>sidebar_step\<close>, \<open>archive_step\<close>,
  \<open>window_step\<close>) whose steps are the regions the locks protect, so an invariant holds under every
  interleaving of them.

  Interfaces. \<open>frame_sink\<close> (what the controller needs of a recorder), \<open>ota_device\<close> and
  \<open>responsive_device\<close> (what the uploader needs of the transport and the device), \<open>control_port\<close> and
  \<open>wire_port\<close> (what the worker needs of a transport's control lines) are locales; they are interpreted
  on \<open>Recorder\<close>, on the whole chain of \<open>OtaLink\<close>, and on the three transports.

  What the lemmas show. The parser is independent of how the stream is cut, accounts for every byte,
  returns only CRC-valid frames of the stream, resynchronises behind noise, and keeps a bounded buffer;
  the vectorised clock is a per-word walk. The demultiplexer conserves the stream. The recorder's queue
  is bounded and its file a prefix of what was accepted, under every interleaving. Packages validate
  exactly when well formed, and an upload that reports success has stored the image, for the whole
  chain. Connections keep their queue, deferral and identity invariants; commands reach the wire
  complete; the inventory, the listener and the playback keep theirs. The application keeps sessions,
  inventory, recorders, timers and the update in step with one another, in every interleaving of its slots
  with the workers and writers, and no slot raises but for one case of the display window; where a slot
  raises, the run ends. Recordings stay inside their directories. The update dialog asks only for uploads of
  validated packages. The sidebar offers only what the controller carries out, the archive page follows the export that
  runs, and the window asks only for what the controller takes. What the encoders write is parsed back, the comparison of two captures is exact, and an export the
  acceptance tool accepts has no gap.

  Assumptions on the environment of the application (\<open>env_ok\<close>): closing a transport or the listener and
  writing metadata work, and files, ports and sockets fail with the exceptions they document. The end of an upload is delivered while its worker is the current one, and the callbacks of
  a worker while its session is the one in the dictionary: a signal that Qt delivers after the worker was torn
  down is not a step.

  Bounds and fuel. Loops over a buffer or a file are total functions with the rest of the data as
  measure. Loops that wait for the outside world (\<open>fake_read\<close>, \<open>run_loop\<close>, \<open>wake_run\<close>) take what the clock or
  the stop event reads at each turn as a list, and return \<open>None\<close> when the list ends before the loop does;
  \<open>fake_read_returns\<close> shows that a clock that reaches the deadline is enough. \<open>link_wait\<close> takes the number of
  turns the worker completes before the timeout, as the timeouts (2 and 30 seconds) and the turn (50
  milliseconds) allow.

  Not modelled. Layout, sizes and drawing in \<^verbatim>\<open>main_window.py\<close>, the other views and the theme, since
  they only build and fill widgets of a third-party toolkit; the start-up of the application and the
  resources (\<^verbatim>\<open>app.py\<close>, \<^verbatim>\<open>packaging.py\<close>, \<^verbatim>\<open>branding.py\<close>, \<^verbatim>\<open>storage/paths.py\<close>); the rest of the repository's own
  \<^verbatim>\<open>tools\<close>, which drives hardware, prints and writes reports.
\<close>

end
